(* ===== verification/Prelude.thy ===== *)
theory Prelude
  imports Main "HOL-Library.Word" "HOL-Library.State_Monad" "HOL-Library.Sublist"
begin

unbundle bit_operations_syntax

text \<open>
  The shared vocabulary of the development: machine-integer types, the C notion of a boolean
  result, byte buffers, generic lemmas on lists and words, and a small program logic for the
  state monad (partial-correctness triples and frame statements) whose rules are collected so
  that the component theories close their frame goals with one \<open>intro\<close>.
\<close>

section \<open>Machine types\<close>

type_synonym u8 = "8 word"
type_synonym u16 = "16 word"
type_synonym u32 = "32 word"
type_synonym u64 = "64 word"
type_synonym bytes = "u8 list"

named_theorems frame_intros \<open>introduction rules for frame statements\<close>
named_theorems frame_simps \<open>definitions that frame proofs unfold\<close>
named_theorems c_consts \<open>preprocessor constants of the sources\<close>

section \<open>Lists and buffers\<close>

text \<open>
  \<open>copy_into dst n src\<close> is the effect of copying \<open>n\<close> bytes from \<open>src\<close> to the start of \<open>dst\<close>:
  the first \<open>n\<close> bytes of \<open>dst\<close> are replaced and the others stay.
\<close>

definition copy_into :: "'a list \<Rightarrow> nat \<Rightarrow> 'a list \<Rightarrow> 'a list" where
  "copy_into dst n src = take n src @ drop n dst"

definition write_at :: "'a list \<Rightarrow> nat \<Rightarrow> 'a list \<Rightarrow> 'a list" where
  "write_at buf off src = take off buf @ src @ drop (off + length src) buf"

lemma length_copy_into [simp]:
  "n \<le> length src \<Longrightarrow> n \<le> length dst \<Longrightarrow> length (copy_into dst n src) = length dst"
  by (simp add: copy_into_def)

lemma take_copy_into [simp]:
  "k \<le> n \<Longrightarrow> n \<le> length src \<Longrightarrow> take k (copy_into dst n src) = take k src"
  by (simp add: copy_into_def min_def)

lemma nth_copy_into:
  "i < n \<Longrightarrow> n \<le> length src \<Longrightarrow> copy_into dst n src ! i = src ! i"
  by (simp add: copy_into_def nth_append)

lemma nth_copy_into_beyond:
  "n \<le> i \<Longrightarrow> n \<le> length src \<Longrightarrow> i < length dst \<Longrightarrow> copy_into dst n src ! i = dst ! i"
  by (simp add: copy_into_def nth_append)

lemma length_write_at [simp]:
  "off + length src \<le> length buf \<Longrightarrow> length (write_at buf off src) = length buf"
  by (simp add: write_at_def)

lemma nth_write_at:
  "off + length src \<le> length buf \<Longrightarrow> i < length buf \<Longrightarrow>
   write_at buf off src ! i =
     (if i < off then buf ! i else if i < off + length src then src ! (i - off) else buf ! i)"
  by (auto simp: write_at_def nth_append)

lemma take_eq_iff_nth:
  "n \<le> length xs \<Longrightarrow> n \<le> length ys \<Longrightarrow> take n xs = take n ys \<longleftrightarrow> (\<forall>i<n. xs ! i = ys ! i)"
  by (auto simp: list_eq_iff_nth_eq)

lemma prefix_nth_iff:
  "prefix xs ys \<longleftrightarrow> length xs \<le> length ys \<and> (\<forall>i<length xs. xs ! i = ys ! i)"
proof -
  have "prefix xs ys \<longleftrightarrow> length xs \<le> length ys \<and> take (length xs) ys = xs"
    by (metis append_eq_conv_conj prefixE prefix_length_le take_is_prefix)
  also have "\<dots> \<longleftrightarrow> length xs \<le> length ys \<and> (\<forall>i<length xs. xs ! i = ys ! i)"
    by (auto simp: list_eq_iff_nth_eq)
  finally show ?thesis .
qed

lemma suffix_nth_iff:
  "suffix xs ys \<longleftrightarrow>
     length xs \<le> length ys \<and> (\<forall>i<length xs. ys ! (length ys - length xs + i) = xs ! i)"
proof -
  have "suffix xs ys \<longleftrightarrow> length xs \<le> length ys \<and> drop (length ys - length xs) ys = xs"
    by (metis append_eq_conv_conj append_take_drop_id diff_diff_cancel length_append length_drop
        suffixE suffix_length_le suffixI add_diff_cancel_right')
  also have "\<dots> \<longleftrightarrow>
     length xs \<le> length ys \<and> (\<forall>i<length xs. ys ! (length ys - length xs + i) = xs ! i)"
    by (auto simp: list_eq_iff_nth_eq)
  finally show ?thesis .
qed

section \<open>Words\<close>

lemma unat_ucast_8_32 [simp]: "unat (ucast (x :: u8) :: u32) = unat x"
proof -
  have "unat x < 2 ^ 8" using unsigned_less [of x] by simp
  then have "unat x < 2 ^ 32" by simp
  then show ?thesis by (simp add: unsigned_ucast_eq take_bit_nat_eq_self)
qed

lemma and_mask_mod: "x AND (2 ^ n - 1) = x mod 2 ^ n" for x :: nat
  by (metis mask_eq_exp_minus_1 take_bit_eq_mask take_bit_eq_mod)

lemma and_255_mod: "x AND (255::nat) = x mod 256"
  using and_mask_mod [of x 8] by simp

lemma and_511_mod: "x AND (511::nat) = x mod 512"
  using and_mask_mod [of x 9] by simp

lemma and_127_mod: "x AND (127::nat) = x mod 128"
  using and_mask_mod [of x 7] by simp

section \<open>A small logic for the state monad\<close>

text \<open>
  \<open>keeps f m\<close> states that \<open>m\<close> leaves the projection \<open>f\<close> of the state as it was; \<open>hoare P m Q\<close> is
  the usual triple. Both compose along \<open>bind\<close>.
\<close>

definition keeps :: "('s \<Rightarrow> 'b) \<Rightarrow> ('s, 'a) state \<Rightarrow> bool" where
  "keeps f m \<longleftrightarrow> (\<forall>s. f (snd (run_state m s)) = f s)"

definition hoare :: "('s \<Rightarrow> bool) \<Rightarrow> ('s, 'a) state \<Rightarrow> ('a \<Rightarrow> 's \<Rightarrow> bool) \<Rightarrow> bool" where
  "hoare P m Q \<longleftrightarrow> (\<forall>s. P s \<longrightarrow> Q (fst (run_state m s)) (snd (run_state m s)))"

definition reads :: "('s \<Rightarrow> 'a) \<Rightarrow> ('s, 'a) state" where
  "reads f = State_Monad.bind State_Monad.get (\<lambda>s. State_Monad.return (f s))"

lemma run_reads [simp]: "run_state (reads f) s = (f s, s)"
  by (simp add: reads_def)

lemma run_update [simp]: "run_state (State_Monad.update f) s = ((), f s)"
  by (simp add: State_Monad.update_def)

lemma keepsD: "keeps f m \<Longrightarrow> run_state m s = (r, s') \<Longrightarrow> f s' = f s"
  by (metis keeps_def snd_conv)

lemma keeps_snd: "keeps f m \<Longrightarrow> f (snd (run_state m s)) = f s"
  by (simp add: keeps_def)

lemma unit_run: "\<exists>s'. run_state m s = ((), s')"
  by (cases "run_state m s") simp

lemma keeps_return [frame_intros]: "keeps f (State_Monad.return x)"
  by (simp add: keeps_def)

lemma keeps_reads [frame_intros]: "keeps f (reads g)"
  by (simp add: keeps_def)

lemma keeps_update [frame_intros]: "(\<And>s. f (g s) = f s) \<Longrightarrow> keeps f (State_Monad.update g)"
  by (simp add: keeps_def)

lemma keeps_bind [frame_intros]:
  "keeps f m \<Longrightarrow> (\<And>x. keeps f (k x)) \<Longrightarrow> keeps f (State_Monad.bind m k)"
  by (simp add: keeps_def split: prod.splits) (metis snd_conv)

lemma keeps_if [frame_intros]:
  "(b \<Longrightarrow> keeps f m) \<Longrightarrow> (\<not> b \<Longrightarrow> keeps f n) \<Longrightarrow> keeps f (if b then m else n)"
  by simp

lemma keeps_case_option [frame_intros]:
  "keeps f m \<Longrightarrow> (\<And>x. keeps f (k x)) \<Longrightarrow> keeps f (case v of None \<Rightarrow> m | Some x \<Rightarrow> k x)"
  by (cases v) simp_all

lemma keeps_case_prod [frame_intros]:
  "(\<And>x y. keeps f (k x y)) \<Longrightarrow> keeps f (case p of (x, y) \<Rightarrow> k x y)"
  by (cases p) simp

lemma keeps_Let [frame_intros]: "(\<And>x. keeps f (k x)) \<Longrightarrow> keeps f (Let v k)"
  by simp

lemma keeps_comp: "keeps f m \<Longrightarrow> keeps (\<lambda>s. g (f s)) m"
  by (simp add: keeps_def)

definition preserves :: "('s \<Rightarrow> bool) \<Rightarrow> ('s, 'a) state \<Rightarrow> bool" where
  "preserves P m \<longleftrightarrow> hoare P m (\<lambda>_. P)"

lemma preservesD: "preserves P m \<Longrightarrow> P s \<Longrightarrow> P (snd (run_state m s))"
  by (simp add: preserves_def hoare_def)

lemma preserves_return [frame_intros]: "preserves P (State_Monad.return x)"
  by (simp add: preserves_def hoare_def)

lemma preserves_reads [frame_intros]: "preserves P (reads g)"
  by (simp add: preserves_def hoare_def)

lemma preserves_update [frame_intros]:
  "(\<And>s. P s \<Longrightarrow> P (g s)) \<Longrightarrow> preserves P (State_Monad.update g)"
  by (simp add: preserves_def hoare_def)

lemma preserves_bind [frame_intros]:
  "preserves P m \<Longrightarrow> (\<And>x. preserves P (k x)) \<Longrightarrow> preserves P (State_Monad.bind m k)"
  by (simp add: preserves_def hoare_def split: prod.splits) (metis snd_conv)

lemma preserves_if [frame_intros]:
  "(b \<Longrightarrow> preserves P m) \<Longrightarrow> (\<not> b \<Longrightarrow> preserves P n) \<Longrightarrow> preserves P (if b then m else n)"
  by simp

lemma preserves_case_option [frame_intros]:
  "preserves P m \<Longrightarrow> (\<And>x. preserves P (k x)) \<Longrightarrow> preserves P (case v of None \<Rightarrow> m | Some x \<Rightarrow> k x)"
  by (cases v) simp_all

lemma preserves_case_prod [frame_intros]:
  "(\<And>x y. preserves P (k x y)) \<Longrightarrow> preserves P (case p of (x, y) \<Rightarrow> k x y)"
  by (cases p) simp

lemma preserves_Let [frame_intros]: "(\<And>x. preserves P (k x)) \<Longrightarrow> preserves P (Let v k)"
  by simp

lemma keeps_preserves: "keeps P m \<Longrightarrow> preserves P m"
  by (simp add: preserves_def hoare_def keeps_def)

lemma preserves_keeps: "(\<And>v. preserves (\<lambda>s. f s = v) m) \<Longrightarrow> keeps f m"
  by (simp add: preserves_def hoare_def keeps_def)

lemma hoareD: "hoare P m Q \<Longrightarrow> P s \<Longrightarrow> run_state m s = (r, s') \<Longrightarrow> Q r s'"
  unfolding hoare_def by (metis fst_conv snd_conv)

lemma hoare_bind:
  "hoare P m Q \<Longrightarrow> (\<And>x. hoare (Q x) (k x) R) \<Longrightarrow> hoare P (State_Monad.bind m k) R"
  by (simp add: hoare_def split: prod.splits) (metis fst_conv snd_conv)

lemma hoare_conseq:
  "hoare P' m Q' \<Longrightarrow> (\<And>s. P s \<Longrightarrow> P' s) \<Longrightarrow> (\<And>r s. Q' r s \<Longrightarrow> Q r s) \<Longrightarrow> hoare P m Q"
  by (simp add: hoare_def)

lemma hoare_return: "(\<And>s. P s \<Longrightarrow> Q x s) \<Longrightarrow> hoare P (State_Monad.return x) Q"
  by (simp add: hoare_def)

lemma hoare_keeps: "keeps f m \<Longrightarrow> hoare (\<lambda>s. P (f s)) m (\<lambda>_ s. P (f s))"
  by (simp add: hoare_def keeps_def)

end
