(* ===== verification/Structs.thy ===== *)
theory Structs
  imports Prelude
begin

text \<open>
  The data model shared by kernel and userspace: the enumerations and limits of
  \<^verbatim>\<open>src/src/Shared/constants.h\<close>, the event structures of \<^verbatim>\<open>events_structs.h\<close>, the rule structures of
  \<^verbatim>\<open>rules_structs.h\<close> and the scratch structures of \<^verbatim>\<open>rodata_maps_related_structs.h\<close>. A C struct is
  a record whose fields carry the struct's initial as a prefix, an enumeration is a datatype
  with the source's enumerators, a character array is a list of bytes. The union
  \<^verbatim>\<open>event_t.data\<close> is a datatype with one constructor per struct type of the union.
\<close>

section \<open>constants.h\<close>

abbreviation MAX_TOKENS_PER_RULE :: nat where "MAX_TOKENS_PER_RULE \<equiv> 128"

abbreviation MAX_NEEDLE_LENGTH :: nat where "MAX_NEEDLE_LENGTH \<equiv> 32"

abbreviation MAX_RULES_PER_MAP_PLUS1 :: nat where "MAX_RULES_PER_MAP_PLUS1 \<equiv> 101"

abbreviation MAX_REGEX_DFA_STATES :: nat where "MAX_REGEX_DFA_STATES \<equiv> 32"

abbreviation AF_INET :: u8 where "AF_INET \<equiv> 2"

abbreviation AF_INET6 :: u8 where "AF_INET6 \<equiv> 10"

datatype operator_types =
    OPERATOR_PREDICATE
  | OPERATOR_AND
  | OPERATOR_OR
  | OPERATOR_NOT

datatype rule_action =
    ALLOW_EVENT
  | BLOCK_EVENT
  | BLOCK_KILL_PROCESS
  | BLOCK_KILL_PROCESS_KILL_PARENT
  | KILL_PROCESS
  | EXCLUDE_EVENT

text \<open>
  The last constructor is a value that is none of the enumerators: no extractor writes one, but a
  member of the union of an event that is read through another member may hold one.
\<close>

datatype file_type =
    UNKNOWN_FILE_TYPE
  | DIRECTORY
  | SYMLINK
  | BLOCK_DEVICE
  | CHAR_DEVICE
  | REGULAR_FILE
  | SOCKET
  | FIFO
  | NO_FILE
  | NO_ENUMERATOR u32

text \<open>
  A zeroed event has the direction 0, which is no enumerator: the direction is kept as the
  32-bit value of the enumeration.
\<close>

abbreviation INCOMING :: u32 where "INCOMING \<equiv> 1"

abbreviation OUTGOING :: u32 where "OUTGOING \<equiv> 2"

primrec file_type_value :: "file_type \<Rightarrow> u32" where
  "file_type_value UNKNOWN_FILE_TYPE = 0"
| "file_type_value DIRECTORY = 1"
| "file_type_value SYMLINK = 2"
| "file_type_value BLOCK_DEVICE = 3"
| "file_type_value CHAR_DEVICE = 4"
| "file_type_value REGULAR_FILE = 5"
| "file_type_value SOCKET = 6"
| "file_type_value FIFO = 7"
| "file_type_value NO_FILE = 8"
| "file_type_value (NO_ENUMERATOR v) = v"

datatype string_type =
    STRING_TYPE_DEFAULT
  | STRING_TYPE_CONTAINS
  | STRING_TYPE_REGEX

datatype comparison_type =
    COMPARISON_TYPE_EXACT_MATCH
  | COMPARISON_TYPE_CONTAINS
  | COMPARISON_TYPE_STARTS_WITH
  | COMPARISON_TYPE_ENDS_WITH
  | COMPARISON_TYPE_EQUAL
  | COMPARISON_TYPE_ABOVE
  | COMPARISON_TYPE_BELOW
  | COMPARISON_TYPE_EQUAL_ABOVE
  | COMPARISON_TYPE_EQUAL_BELOW
  | COMPARISON_TYPE_REGEX

text \<open>
  The field enumeration has 91 enumerators; the datatype is declared without plugins, so
  that equality stays a matter of its distinctness theorems.
\<close>

datatype (plugins only:) rule_field_type =
    FIELD_TYPE_NONE
  | TARGET_FILE_PATH
  | TARGET_FILE_FILENAME
  | TARGET_FILE_OWNER_UID
  | TARGET_FILE_OWNER_GID
  | TARGET_FILE_MODE
  | TARGET_FILE_SUID
  | TARGET_FILE_SGID
  | TARGET_FILE_NLINK
  | TARGET_FILE_TYPE
  | TARGET_PROCESS_PID
  | TARGET_PROCESS_PPID
  | TARGET_PROCESS_RUID
  | TARGET_PROCESS_RGID
  | TARGET_PROCESS_EUID
  | TARGET_PROCESS_EGID
  | TARGET_PROCESS_SUID
  | TARGET_PROCESS_PTRACE_FLAGS
  | TARGET_PROCESS_CMD
  | TARGET_PROCESS_SHELL_COMMAND
  | TARGET_PROCESS_FILE_PATH
  | TARGET_PROCESS_FILE_FILENAME
  | TARGET_PROCESS_FILE_OWNER_UID
  | TARGET_PROCESS_FILE_OWNER_GID
  | TARGET_PROCESS_FILE_MODE
  | TARGET_PROCESS_FILE_SUID
  | TARGET_PROCESS_FILE_SGID
  | TARGET_PROCESS_FILE_NLINK
  | TARGET_PROCESS_FILE_TYPE
  | PROCESS_PID
  | PROCESS_PPID
  | PROCESS_RUID
  | PROCESS_RGID
  | PROCESS_EUID
  | PROCESS_EGID
  | PROCESS_SUID
  | PROCESS_PTRACE_FLAGS
  | PROCESS_CMD
  | PROCESS_SHELL_COMMAND
  | PROCESS_FILE_PATH
  | PROCESS_FILE_FILENAME
  | PROCESS_FILE_OWNER_UID
  | PROCESS_FILE_OWNER_GID
  | PROCESS_FILE_MODE
  | PROCESS_FILE_SUID
  | PROCESS_FILE_SGID
  | PROCESS_FILE_NLINK
  | PROCESS_FILE_TYPE
  | PARENT_PROCESS_PID
  | PARENT_PROCESS_PPID
  | PARENT_PROCESS_RUID
  | PARENT_PROCESS_RGID
  | PARENT_PROCESS_EUID
  | PARENT_PROCESS_EGID
  | PARENT_PROCESS_SUID
  | PARENT_PROCESS_PTRACE_FLAGS
  | PARENT_PROCESS_CMD
  | PARENT_PROCESS_SHELL_COMMAND
  | PARENT_PROCESS_FILE_PATH
  | PARENT_PROCESS_FILE_FILENAME
  | PARENT_PROCESS_FILE_OWNER_UID
  | PARENT_PROCESS_FILE_OWNER_GID
  | PARENT_PROCESS_FILE_MODE
  | PARENT_PROCESS_FILE_SUID
  | PARENT_PROCESS_FILE_SGID
  | PARENT_PROCESS_FILE_NLINK
  | PARENT_PROCESS_FILE_TYPE
  | RENAME_SOURCE_FILE_PATH
  | RENAME_SOURCE_FILE_FILENAME
  | RENAME_SOURCE_FILE_OWNER_UID
  | RENAME_SOURCE_FILE_OWNER_GID
  | RENAME_SOURCE_FILE_MODE
  | RENAME_SOURCE_FILE_SUID
  | RENAME_SOURCE_FILE_SGID
  | RENAME_SOURCE_FILE_NLINK
  | RENAME_SOURCE_FILE_TYPE
  | RENAME_DESTINATION_FILE_PATH
  | RENAME_DESTINATION_FILE_FILENAME
  | RENAME_DESTINATION_FILE_OWNER_UID
  | RENAME_DESTINATION_FILE_OWNER_GID
  | RENAME_DESTINATION_FILE_MODE
  | RENAME_DESTINATION_FILE_SUID
  | RENAME_DESTINATION_FILE_SGID
  | RENAME_DESTINATION_FILE_NLINK
  | RENAME_DESTINATION_FILE_TYPE
  | CHMOD_REQUESTED_MODE
  | NETWORK_SOURCE_IP
  | NETWORK_SOURCE_PORT
  | NETWORK_DESTINATION_IP
  | NETWORK_DESTINATION_PORT
  | NETWORK_DIRECTION

section \<open>events\_structs.h\<close>

abbreviation PATH_MAX :: nat where "PATH_MAX \<equiv> 256"

abbreviation CMD_MAX :: nat where "CMD_MAX \<equiv> PATH_MAX"

abbreviation HOOK_NAME_MAX_LENGTH :: nat where "HOOK_NAME_MAX_LENGTH \<equiv> 32"

abbreviation FILENAME_MAX_LENGTH :: nat where "FILENAME_MAX_LENGTH \<equiv> 128"

datatype event_type =
    EXEC
  | FORK
  | EXIT
  | FILE_CREATE
  | CHOWN
  | CHMOD
  | WRITE
  | READ
  | UNLINK
  | RENAME
  | NETWORK
  | MKDIR
  | RMDIR
  | SIGNAL
  | PTRACE

record command_line_t =
  c_length :: u16
  c_value :: bytes

record path_t =
  pt_length :: u16
  pt_value :: bytes

record filename_t =
  fn_length :: u16
  fn_value :: bytes

record owner_t =
  o_uid :: u32
  o_gid :: u32

record file_t =
  f_inode :: u64
  f_dev :: u32
  f_unique_inode_id :: u64
  f_path :: path_t
  f_owner :: owner_t
  f_mode :: u16
  f_type :: file_type
  f_suid :: u8
  f_sgid :: u8
  f_last_modified_seconds :: u64
  f_nlink :: u32
  f_filename :: filename_t

record stdio_fds_t =
  fd_stdin :: file_type
  fd_stdout :: file_type
  fd_stderr :: file_type

record process_t =
  p_pid :: u32
  p_ppid :: u32
  p_unique_process_id :: u64
  p_unique_ppid_id :: u64
  p_ruid :: u32
  p_rgid :: u32
  p_euid :: u32
  p_egid :: u32
  p_suid :: u32
  p_cgroup_id :: u64
  p_start_time :: u64
  p_ptrace_flags :: u32
  p_file :: file_t
  p_cmd :: command_line_t
  p_stdio :: stdio_fds_t
  p_shell_command :: command_line_t

record chown_event_t =
  chown_file :: file_t
  chown_requested_owner_uid :: u32
  chown_requested_owner_gid :: u32

record chmod_event_t =
  chmod_file :: file_t
  chmod_requested_mode :: u16

record exec_event_t =
  exec_new_process :: process_t

record exit_event_t =
  exit_exit_code :: u32
  exit_signal :: u32

record file_create_event_t =
  fc_file :: file_t

record write_event_t =
  w_event_hash :: u64
  w_file :: file_t

record rename_event_t =
  rn_flags :: u32
  rn_source_file :: file_t
  rn_destination_file :: file_t

record signal_event_t =
  sg_process :: process_t
  sg_signal :: u32

record ptrace_event_t =
  pc_process :: process_t
  pc_mode :: u32

text \<open>
  The anonymous union of the two address layouts is kept as the eight 32-bit cells it
  occupies: the IPv4 pair is cells 0 and 1, the IPv6 source is cells 0 to 3 and the IPv6
  destination cells 4 to 7.
\<close>

record network_event_t =
  n_direction :: u32
  n_protocol :: u8
  n_ip_type :: u8
  n_source_port :: u16
  n_destination_port :: u16
  n_addresses :: "u32 list"

definition ipv4_source_ip :: "network_event_t \<Rightarrow> u32" where
  "ipv4_source_ip n = n_addresses n ! 0"

definition ipv4_destination_ip :: "network_event_t \<Rightarrow> u32" where
  "ipv4_destination_ip n = n_addresses n ! 1"

definition ipv6_source_ip :: "network_event_t \<Rightarrow> nat \<Rightarrow> u32" where
  "ipv6_source_ip n i = n_addresses n ! i"

definition ipv6_destination_ip :: "network_event_t \<Rightarrow> nat \<Rightarrow> u32" where
  "ipv6_destination_ip n i = n_addresses n ! (4 + i)"

datatype event_data =
    Data_zero
  | Data_chown chown_event_t
  | Data_chmod chmod_event_t
  | Data_exec exec_event_t
  | Data_exit exit_event_t
  | Data_file_create file_create_event_t
  | Data_write write_event_t
  | Data_rename rename_event_t
  | Data_network network_event_t
  | Data_signal signal_event_t
  | Data_ptrace ptrace_event_t

record event_t =
  ev_id :: u64
  ev_type :: event_type
  ev_action :: rule_action
  ev_matched_rule_id :: u32
  ev_had_error_while_handling :: u8
  ev_time :: u64
  ev_process :: process_t
  ev_parent_process :: process_t
  ev_data :: event_data

text \<open>The tracker the two hooks of an incoming connection share (\<^verbatim>\<open>on_tcp_incomming.bpf.c\<close>).\<close>

record incoming_connection_tracker_t =
  ict_event :: event_t
  ict_accept_hook :: bool
  ict_inet_conn_request_hook :: bool

text \<open>
  The command being assembled and the stacks of tree walks (\<^verbatim>\<open>dash_shell_command.bpf.c\<close>). A
  separator is the type of an operator node, or -1 for none.
\<close>

record CmdStr =
  cs_arr :: bytes
  cs_length :: u16

record SubshellState =
  ss_node_addrs :: "u64 list"
  ss_separators :: "int list"

record WalkState =
  ws_node_addrs :: "u64 list"
  ws_separators :: "int list"
  ws_cmd :: CmdStr

text \<open>
  An error report. The location is the name of the reporting function; the formatted
  details and the line number are not kept.
\<close>

record error_report_t =
  er_error_code :: int
  er_location :: string
  er_hook_name :: bytes

section \<open>rules\_structs.h\<close>

datatype token_result = TOKEN_RESULT_UNKNOWN | TOKEN_RESULT_TRUE | TOKEN_RESULT_FALSE

record rule_string_t =
  rs_value :: bytes
  rs_length :: u8
  rs_idx_to_DFA :: int

record rule_ip_t =
  ri_ip :: "u32 list"
  ri_cidr_mask :: "u32 list"

record predicate_t =
  pr_field :: rule_field_type
  pr_operation :: comparison_type
  pr_string_idx :: int
  pr_numerical_value :: u32
  pr_fieldref :: rule_field_type

record token_t =
  t_operator_type :: operator_types
  t_pred_idx :: u32
  t_result :: token_result

record predicate_result_t =
  pres_result :: token_result
  pres_time :: u64

record rule_t =
  r_id :: u32
  r_action :: rule_action
  r_token_count :: u8
  r_is_end_of_rules :: u8
  r_tokens :: "token_t list"

abbreviation DFA_NUM_STATES :: nat where "DFA_NUM_STATES \<equiv> 33"

abbreviation DFA_ALPHABET_SIZE :: nat where "DFA_ALPHABET_SIZE \<equiv> 256"

abbreviation DFA_TOTAL_SIZE :: nat where "DFA_TOTAL_SIZE \<equiv> 8448"

text \<open>The flat table is an array read and written by index only; it is kept as a function.\<close>

type_synonym flat_2d_dfa_array_t = "nat \<Rightarrow> u8"

section \<open>rodata\_maps\_related\_structs.h\<close>

abbreviation MAX_PERCPU_ARRAY_SIZE :: nat where "MAX_PERCPU_ARRAY_SIZE \<equiv> 1024"

record ebpf_features =
  chown_hook_available :: bool
  ringbuffer_map_value_available :: bool

record string_utils_ctx =
  sc_haystack_max_length :: u8
  sc_haystack_length :: u8
  sc_haystack :: bytes
  sc_needle_max_length :: u8
  sc_needle_length :: u8
  sc_needle :: bytes
  sc_comparison_type :: comparison_type
  sc_idx_to_DFA :: int

record eval_stack =
  es_tokens :: "token_t list"
  es_stack_pointer :: u8

section \<open>common\_maps.bpf.c: the all-zero initialisers\<close>

definition empty_command_line_t :: command_line_t where
  "empty_command_line_t = \<lparr>c_length = 0, c_value = replicate CMD_MAX 0\<rparr>"

definition empty_file_t :: file_t where
  "empty_file_t = \<lparr>f_inode = 0, f_dev = 0, f_unique_inode_id = 0,
     f_path = \<lparr>pt_length = 0, pt_value = replicate PATH_MAX 0\<rparr>,
     f_owner = \<lparr>o_uid = 0, o_gid = 0\<rparr>, f_mode = 0, f_type = UNKNOWN_FILE_TYPE,
     f_suid = 0, f_sgid = 0, f_last_modified_seconds = 0, f_nlink = 0,
     f_filename = \<lparr>fn_length = 0, fn_value = replicate FILENAME_MAX_LENGTH 0\<rparr>\<rparr>"

definition empty_process_t :: process_t where
  "empty_process_t = \<lparr>p_pid = 0, p_ppid = 0, p_unique_process_id = 0, p_unique_ppid_id = 0,
     p_ruid = 0, p_rgid = 0, p_euid = 0, p_egid = 0, p_suid = 0, p_cgroup_id = 0,
     p_start_time = 0, p_ptrace_flags = 0, p_file = empty_file_t, p_cmd = empty_command_line_t,
     p_stdio = \<lparr>fd_stdin = UNKNOWN_FILE_TYPE, fd_stdout = UNKNOWN_FILE_TYPE,
       fd_stderr = UNKNOWN_FILE_TYPE\<rparr>,
     p_shell_command = empty_command_line_t\<rparr>"

definition empty_event_t :: event_t where
  "empty_event_t = \<lparr>ev_id = 0, ev_type = EXEC, ev_action = ALLOW_EVENT, ev_matched_rule_id = 0,
     ev_had_error_while_handling = 0, ev_time = 0, ev_process = empty_process_t,
     ev_parent_process = empty_process_t, ev_data = Data_zero\<rparr>"

definition string_utils_ctx_empty :: string_utils_ctx where
  "string_utils_ctx_empty = \<lparr>sc_haystack_max_length = 0, sc_haystack_length = 0,
     sc_haystack = replicate PATH_MAX 0, sc_needle_max_length = 0, sc_needle_length = 0,
     sc_needle = replicate PATH_MAX 0, sc_comparison_type = COMPARISON_TYPE_EXACT_MATCH,
     sc_idx_to_DFA = 0\<rparr>"

definition empty_error_report_t :: error_report_t where
  "empty_error_report_t = \<lparr>er_error_code = 0, er_location = [],
     er_hook_name = replicate HOOK_NAME_MAX_LENGTH 0\<rparr>"

definition empty_hook_name :: bytes where
  "empty_hook_name = replicate HOOK_NAME_MAX_LENGTH 0"

definition empty_string_buffer :: bytes where
  "empty_string_buffer = replicate MAX_PERCPU_ARRAY_SIZE 0"

section \<open>Well-formed strings\<close>

text \<open>
  The byte buffers have the size of their C arrays.
\<close>

definition wf_file :: "file_t \<Rightarrow> bool" where
  "wf_file f \<longleftrightarrow> length (pt_value (f_path f)) = PATH_MAX
     \<and> length (fn_value (f_filename f)) = FILENAME_MAX_LENGTH"

definition wf_process :: "process_t \<Rightarrow> bool" where
  "wf_process p \<longleftrightarrow> wf_file (p_file p) \<and> length (c_value (p_cmd p)) = CMD_MAX
     \<and> length (c_value (p_shell_command p)) = CMD_MAX"

lemma wf_empty_file [simp]: "wf_file empty_file_t"
  by (simp add: wf_file_def empty_file_t_def)

lemma wf_empty_process [simp]: "wf_process empty_process_t"
  by (simp add: wf_process_def empty_process_t_def empty_command_line_t_def)

end
