(* ===== verification/Event_Union.thy ===== *)
theory Event_Union
  imports Structs
begin

text \<open>
  The bytes of the union \<^verbatim>\<open>event_t.data\<close>. The code reads the member that fits the field of a rule,
  whatever member the event was written through: a predicate on the renamed file of an event that
  is no rename reinterprets the bytes of another struct. A struct is the list of its fields with
  their offsets (little endian, the alignment of the 64-bit targets), writing a member puts its
  fields into the memory of the union, and reading a member takes the bytes at its offsets. The
  round trip shows that the fields of no struct overlap.
\<close>

section \<open>Memory\<close>

type_synonym memory = "nat \<Rightarrow> u8"

type_synonym fields = "(nat \<times> bytes) list"

definition store_field :: "nat \<times> bytes \<Rightarrow> memory \<Rightarrow> memory" where
  "store_field = (\<lambda>(off, bs) m i. if off \<le> i \<and> i < off + length bs then bs ! (i - off) else m i)"

definition store_fields :: "fields \<Rightarrow> memory \<Rightarrow> memory" where
  "store_fields fs m = fold store_field fs m"

definition load_bytes :: "memory \<Rightarrow> nat \<Rightarrow> nat \<Rightarrow> bytes" where
  "load_bytes m off n = map m [off..<off + n]"

definition placed_at :: "nat \<Rightarrow> fields \<Rightarrow> fields" where
  "placed_at off fs = map (\<lambda>(o1, bs). (off + o1, bs)) fs"

text \<open>Little endian numbers.\<close>

definition le_bytes :: "nat \<Rightarrow> 'a :: len word \<Rightarrow> bytes" where
  "le_bytes n w = map (\<lambda>i. ucast (drop_bit (8 * i) w)) [0..<n]"

definition le_word :: "bytes \<Rightarrow> 'a :: len word" where
  "le_word bs = word_of_int (horner_sum uint (2 ^ LENGTH(8)) bs)"

section \<open>The structs of events\_structs.h\<close>

definition file_type_of :: "u32 \<Rightarrow> file_type" where
  "file_type_of v =
     (if v = 0 then UNKNOWN_FILE_TYPE else if v = 1 then DIRECTORY else if v = 2 then SYMLINK
      else if v = 3 then BLOCK_DEVICE else if v = 4 then CHAR_DEVICE else if v = 5 then REGULAR_FILE
      else if v = 6 then SOCKET else if v = 7 then FIFO else if v = 8 then NO_FILE else NO_ENUMERATOR v)"

definition file_fields :: "file_t \<Rightarrow> fields" where
  "file_fields f =
     [(0, le_bytes 8 (f_inode f)), (8, le_bytes 4 (f_dev f)), (16, le_bytes 8 (f_unique_inode_id f)),
      (24, le_bytes 2 (pt_length (f_path f))), (26, pt_value (f_path f)),
      (284, le_bytes 4 (o_uid (f_owner f))), (288, le_bytes 4 (o_gid (f_owner f))),
      (292, le_bytes 2 (f_mode f)), (296, le_bytes 4 (file_type_value (f_type f))),
      (300, le_bytes 1 (f_suid f)), (301, le_bytes 1 (f_sgid f)),
      (304, le_bytes 8 (f_last_modified_seconds f)), (312, le_bytes 4 (f_nlink f)),
      (316, le_bytes 2 (fn_length (f_filename f))), (318, fn_value (f_filename f))]"

abbreviation file_size :: nat where "file_size \<equiv> 448"

definition file_at :: "memory \<Rightarrow> nat \<Rightarrow> file_t" where
  "file_at m off = \<lparr>f_inode = le_word (load_bytes m off 8), f_dev = le_word (load_bytes m (off + 8) 4),
     f_unique_inode_id = le_word (load_bytes m (off + 16) 8),
     f_path = \<lparr>pt_length = le_word (load_bytes m (off + 24) 2), pt_value = load_bytes m (off + 26) PATH_MAX\<rparr>,
     f_owner = \<lparr>o_uid = le_word (load_bytes m (off + 284) 4), o_gid = le_word (load_bytes m (off + 288) 4)\<rparr>,
     f_mode = le_word (load_bytes m (off + 292) 2), f_type = file_type_of (le_word (load_bytes m (off + 296) 4)),
     f_suid = le_word (load_bytes m (off + 300) 1), f_sgid = le_word (load_bytes m (off + 301) 1),
     f_last_modified_seconds = le_word (load_bytes m (off + 304) 8), f_nlink = le_word (load_bytes m (off + 312) 4),
     f_filename = \<lparr>fn_length = le_word (load_bytes m (off + 316) 2),
       fn_value = load_bytes m (off + 318) FILENAME_MAX_LENGTH\<rparr>\<rparr>"

definition process_fields :: "process_t \<Rightarrow> fields" where
  "process_fields p =
     [(0, le_bytes 4 (p_pid p)), (4, le_bytes 4 (p_ppid p)), (8, le_bytes 8 (p_unique_process_id p)),
      (16, le_bytes 8 (p_unique_ppid_id p)), (24, le_bytes 4 (p_ruid p)), (28, le_bytes 4 (p_rgid p)),
      (32, le_bytes 4 (p_euid p)), (36, le_bytes 4 (p_egid p)), (40, le_bytes 4 (p_suid p)),
      (48, le_bytes 8 (p_cgroup_id p)), (56, le_bytes 8 (p_start_time p)), (64, le_bytes 4 (p_ptrace_flags p))]
     @ placed_at 72 (file_fields (p_file p))
     @ [(520, le_bytes 2 (c_length (p_cmd p))), (522, c_value (p_cmd p)),
        (780, le_bytes 4 (file_type_value (fd_stdin (p_stdio p)))),
        (784, le_bytes 4 (file_type_value (fd_stdout (p_stdio p)))),
        (788, le_bytes 4 (file_type_value (fd_stderr (p_stdio p)))),
        (792, le_bytes 2 (c_length (p_shell_command p))), (794, c_value (p_shell_command p))]"

abbreviation process_size :: nat where "process_size \<equiv> 1056"

definition process_at :: "memory \<Rightarrow> nat \<Rightarrow> process_t" where
  "process_at m off = \<lparr>p_pid = le_word (load_bytes m off 4), p_ppid = le_word (load_bytes m (off + 4) 4),
     p_unique_process_id = le_word (load_bytes m (off + 8) 8), p_unique_ppid_id = le_word (load_bytes m (off + 16) 8),
     p_ruid = le_word (load_bytes m (off + 24) 4), p_rgid = le_word (load_bytes m (off + 28) 4),
     p_euid = le_word (load_bytes m (off + 32) 4), p_egid = le_word (load_bytes m (off + 36) 4),
     p_suid = le_word (load_bytes m (off + 40) 4), p_cgroup_id = le_word (load_bytes m (off + 48) 8),
     p_start_time = le_word (load_bytes m (off + 56) 8), p_ptrace_flags = le_word (load_bytes m (off + 64) 4),
     p_file = file_at m (off + 72),
     p_cmd = \<lparr>c_length = le_word (load_bytes m (off + 520) 2), c_value = load_bytes m (off + 522) CMD_MAX\<rparr>,
     p_stdio = \<lparr>fd_stdin = file_type_of (le_word (load_bytes m (off + 780) 4)),
       fd_stdout = file_type_of (le_word (load_bytes m (off + 784) 4)),
       fd_stderr = file_type_of (le_word (load_bytes m (off + 788) 4))\<rparr>,
     p_shell_command = \<lparr>c_length = le_word (load_bytes m (off + 792) 2), c_value = load_bytes m (off + 794) CMD_MAX\<rparr>\<rparr>"

section \<open>The members\<close>

fun data_fields :: "event_data \<Rightarrow> fields" where
  "data_fields Data_zero = []"
| "data_fields (Data_chown d) = placed_at 0 (file_fields (chown_file d))
     @ [(448, le_bytes 4 (chown_requested_owner_uid d)), (452, le_bytes 4 (chown_requested_owner_gid d))]"
| "data_fields (Data_chmod d) = placed_at 0 (file_fields (chmod_file d)) @ [(448, le_bytes 2 (chmod_requested_mode d))]"
| "data_fields (Data_exec d) = placed_at 0 (process_fields (exec_new_process d))"
| "data_fields (Data_exit d) = [(0, le_bytes 4 (exit_exit_code d)), (4, le_bytes 4 (exit_signal d))]"
| "data_fields (Data_file_create d) = placed_at 0 (file_fields (fc_file d))"
| "data_fields (Data_write d) = (0, le_bytes 8 (w_event_hash d)) # placed_at 8 (file_fields (w_file d))"
| "data_fields (Data_rename d) = (0, le_bytes 4 (rn_flags d)) # placed_at 8 (file_fields (rn_source_file d))
     @ placed_at 456 (file_fields (rn_destination_file d))"
| "data_fields (Data_network d) =
     [(0, le_bytes 4 (n_direction d)), (4, le_bytes 1 (n_protocol d)), (5, le_bytes 1 (n_ip_type d)),
      (6, le_bytes 2 (n_source_port d)), (8, le_bytes 2 (n_destination_port d))]
     @ map (\<lambda>i. (12 + 4 * i, le_bytes 4 (n_addresses d ! i))) [0..<8]"
| "data_fields (Data_signal d) = placed_at 0 (process_fields (sg_process d)) @ [(1056, le_bytes 4 (sg_signal d))]"
| "data_fields (Data_ptrace d) = placed_at 0 (process_fields (pc_process d)) @ [(1056, le_bytes 4 (pc_mode d))]"

definition chown_at :: "memory \<Rightarrow> nat \<Rightarrow> chown_event_t" where
  "chown_at m off = \<lparr>chown_file = file_at m off, chown_requested_owner_uid = le_word (load_bytes m (off + 448) 4),
     chown_requested_owner_gid = le_word (load_bytes m (off + 452) 4)\<rparr>"

definition chmod_at :: "memory \<Rightarrow> nat \<Rightarrow> chmod_event_t" where
  "chmod_at m off = \<lparr>chmod_file = file_at m off, chmod_requested_mode = le_word (load_bytes m (off + 448) 2)\<rparr>"

definition exec_at :: "memory \<Rightarrow> nat \<Rightarrow> exec_event_t" where
  "exec_at m off = \<lparr>exec_new_process = process_at m off\<rparr>"

definition exit_at :: "memory \<Rightarrow> nat \<Rightarrow> exit_event_t" where
  "exit_at m off = \<lparr>exit_exit_code = le_word (load_bytes m off 4), exit_signal = le_word (load_bytes m (off + 4) 4)\<rparr>"

definition file_create_at :: "memory \<Rightarrow> nat \<Rightarrow> file_create_event_t" where
  "file_create_at m off = \<lparr>fc_file = file_at m off\<rparr>"

definition write_event_at :: "memory \<Rightarrow> nat \<Rightarrow> write_event_t" where
  "write_event_at m off = \<lparr>w_event_hash = le_word (load_bytes m off 8), w_file = file_at m (off + 8)\<rparr>"

definition rename_at :: "memory \<Rightarrow> nat \<Rightarrow> rename_event_t" where
  "rename_at m off = \<lparr>rn_flags = le_word (load_bytes m off 4), rn_source_file = file_at m (off + 8),
     rn_destination_file = file_at m (off + 456)\<rparr>"

definition network_at :: "memory \<Rightarrow> nat \<Rightarrow> network_event_t" where
  "network_at m off = \<lparr>n_direction = le_word (load_bytes m off 4), n_protocol = le_word (load_bytes m (off + 4) 1),
     n_ip_type = le_word (load_bytes m (off + 5) 1), n_source_port = le_word (load_bytes m (off + 6) 2),
     n_destination_port = le_word (load_bytes m (off + 8) 2),
     n_addresses = map (\<lambda>i. le_word (load_bytes m (off + (12 + 4 * i)) 4)) [0..<8]\<rparr>"

definition signal_at :: "memory \<Rightarrow> nat \<Rightarrow> signal_event_t" where
  "signal_at m off = \<lparr>sg_process = process_at m off, sg_signal = le_word (load_bytes m (off + 1056) 4)\<rparr>"

definition ptrace_at :: "memory \<Rightarrow> nat \<Rightarrow> ptrace_event_t" where
  "ptrace_at m off = \<lparr>pc_process = process_at m off, pc_mode = le_word (load_bytes m (off + 1056) 4)\<rparr>"

section \<open>What is written is read back\<close>

lemma length_le_bytes [simp]: "length (le_bytes n w) = n"
  by (simp add: le_bytes_def)

lemma le_word_bytes: "LENGTH('a) = 8 * n \<Longrightarrow> le_word (le_bytes n w) = w" for w :: "'a :: len word"
proof (rule bit_word_eqI)
  fix i assume size: "LENGTH('a) = 8 * n" and i: "i < LENGTH('a)"
  then have "i div 8 < n" by linarith
  moreover have "bit (horner_sum uint (2 ^ LENGTH(8)) (le_bytes n w)) i \<longleftrightarrow>
      i div LENGTH(8) < length (le_bytes n w) \<and> bit (le_bytes n w ! (i div LENGTH(8))) (i mod LENGTH(8))"
    by (rule bit_horner_sum_uint_exp_iff)
  ultimately show "bit (le_word (le_bytes n w) :: 'a word) i \<longleftrightarrow> bit w i"
    using i by (simp add: le_word_def bit_word_of_int_iff) (simp add: le_bytes_def bit_ucast_iff bit_drop_bit_eq)
qed

lemma le_word_sizes [simp]:
  "le_word (le_bytes 8 w8) = (w8 :: u64)" "le_word (le_bytes 4 w4) = (w4 :: u32)"
  "le_word (le_bytes 2 w2) = (w2 :: u16)" "le_word (le_bytes (Suc 0) w1) = (w1 :: u8)"
  by (simp_all add: le_word_bytes)

lemma length_load_bytes [simp]: "length (load_bytes m off n) = n"
  by (simp add: load_bytes_def)

text \<open>Fields in ascending order, from an offset up to another.\<close>

fun ordered_fields :: "nat \<Rightarrow> nat \<Rightarrow> fields \<Rightarrow> bool" where
  "ordered_fields lo hi [] \<longleftrightarrow> lo \<le> hi"
| "ordered_fields lo hi ((off, bs) # fs) \<longleftrightarrow> lo \<le> off \<and> ordered_fields (off + length bs) hi fs"

lemma ordered_append: "ordered_fields lo mid fs \<Longrightarrow> ordered_fields mid hi gs \<Longrightarrow> ordered_fields lo hi (fs @ gs)"
proof (induction lo mid fs rule: ordered_fields.induct)
  case (1 lo mid)
  then show ?case by (cases gs) auto
qed simp

lemma ordered_at: "ordered_fields lo hi fs \<Longrightarrow> ordered_fields (off + lo) (off + hi) (placed_at off fs)"
  by (induction lo hi fs rule: ordered_fields.induct) (simp_all add: placed_at_def ac_simps)

lemma ordered_above: "ordered_fields lo hi fs \<Longrightarrow> (off, bs) \<in> set fs \<Longrightarrow> lo \<le> off"
  by (induction lo hi fs rule: ordered_fields.induct) fastforce+

text \<open>A memory holds fields when each is found at its offset.\<close>

definition holds_fields :: "memory \<Rightarrow> nat \<Rightarrow> fields \<Rightarrow> bool" where
  "holds_fields m off fs \<longleftrightarrow> (\<forall>(o1, bs)\<in>set fs. load_bytes m (off + o1) (length bs) = bs)"

lemma holds_simps [simp]:
  "holds_fields m off []" "holds_fields m off ((o1, bs) # fs) \<longleftrightarrow> load_bytes m (off + o1) (length bs) = bs \<and> holds_fields m off fs"
  "holds_fields m off (fs @ gs) \<longleftrightarrow> holds_fields m off fs \<and> holds_fields m off gs"
  "holds_fields m off (placed_at o2 fs) \<longleftrightarrow> holds_fields m (off + o2) fs"
  by (auto simp: holds_fields_def placed_at_def ac_simps)

lemma load_store:
  "load_bytes (store_field (off, bs) m) off (length bs) = bs"
  "off' + n \<le> off \<or> off + length bs \<le> off' \<Longrightarrow> load_bytes (store_field (off, bs) m) off' n = load_bytes m off' n"
  by (auto simp: load_bytes_def store_field_def intro!: nth_equalityI)

lemma store_fields_simps [simp]: "store_fields [] m = m" "store_fields (f # fs) m = store_fields fs (store_field f m)"
  by (simp_all add: store_fields_def)

lemma load_store_fields:
  "ordered_fields lo hi fs \<Longrightarrow> off + n \<le> lo \<Longrightarrow> load_bytes (store_fields fs m) off n = load_bytes m off n"
  by (induction lo hi fs arbitrary: m rule: ordered_fields.induct) (simp_all add: load_store)

lemma holds_store_fields: "ordered_fields lo hi fs \<Longrightarrow> holds_fields (store_fields fs m) 0 fs"
proof (induction lo hi fs arbitrary: m rule: ordered_fields.induct)
  case (2 lo hi off bs fs)
  then show ?case by (simp add: load_store_fields [of "off + length bs" hi] load_store)
qed simp

text \<open>What a struct type promises of its layout, and the round trip that follows from it.\<close>

locale struct_layout =
  fixes struct_fields :: "'a \<Rightarrow> fields" and read :: "memory \<Rightarrow> nat \<Rightarrow> 'a"
    and typed :: "'a \<Rightarrow> bool" and struct_size :: nat
  assumes no_overlap: "typed x \<Longrightarrow> ordered_fields 0 struct_size (struct_fields x)"
    and reads: "typed x \<Longrightarrow> holds_fields m off (struct_fields x) \<Longrightarrow> read m off = x"
begin

lemma read_back: "typed x \<Longrightarrow> read (store_fields (struct_fields x) m) 0 = x"
  by (rule reads) (auto intro: holds_store_fields no_overlap)

lemma embedded: "typed x \<Longrightarrow> ordered_fields off (off + struct_size) (placed_at off (struct_fields x))"
  using ordered_at [OF no_overlap, of x off] by simp

end

text \<open>Struct values of the right types: arrays of their lengths, enumerations with enumerators.\<close>

definition enumerator :: "file_type \<Rightarrow> bool" where
  "enumerator t \<longleftrightarrow> (\<forall>v. t \<noteq> NO_ENUMERATOR v)"

definition typed_file :: "file_t \<Rightarrow> bool" where
  "typed_file f \<longleftrightarrow> wf_file f \<and> enumerator (f_type f)"

definition typed_process :: "process_t \<Rightarrow> bool" where
  "typed_process p \<longleftrightarrow> wf_process p \<and> typed_file (p_file p) \<and>
     enumerator (fd_stdin (p_stdio p)) \<and> enumerator (fd_stdout (p_stdio p)) \<and> enumerator (fd_stderr (p_stdio p))"

lemma file_type_read [simp]: "enumerator t \<Longrightarrow> file_type_of (file_type_value t) = t"
  by (cases t) (simp_all add: enumerator_def file_type_of_def)

interpretation file_layout: struct_layout file_fields file_at typed_file file_size
proof
  fix f assume "typed_file f"
  then show "ordered_fields 0 file_size (file_fields f)" by (simp add: file_fields_def typed_file_def wf_file_def)
next
  fix f m off assume "typed_file f" "holds_fields m off (file_fields f)"
  then show "file_at m off = f"
    by (simp add: file_at_def file_fields_def typed_file_def wf_file_def)
qed

interpretation process_layout: struct_layout process_fields process_at typed_process process_size
proof
  fix p assume p: "typed_process p"
  then have "ordered_fields 72 520 (placed_at 72 (file_fields (p_file p)))" using file_layout.embedded [of "p_file p" 72] by (simp add: typed_process_def)
  with p show "ordered_fields 0 process_size (process_fields p)"
    unfolding process_fields_def
    by (intro ordered_append [of 0 72] ordered_append [of 72 520]) (simp_all add: typed_process_def wf_process_def)
next
  fix p m off assume p: "typed_process p" and h: "holds_fields m off (process_fields p)"
  then have "file_at m (off + 72) = p_file p" by (intro file_layout.reads) (simp_all add: process_fields_def typed_process_def)
  with p h show "process_at m off = p"
    by (simp add: process_at_def process_fields_def typed_process_def wf_process_def)
qed

text \<open>The members of the union.\<close>

fun typed_data :: "event_data \<Rightarrow> bool" where
  "typed_data Data_zero \<longleftrightarrow> True"
| "typed_data (Data_chown d) \<longleftrightarrow> typed_file (chown_file d)"
| "typed_data (Data_chmod d) \<longleftrightarrow> typed_file (chmod_file d)"
| "typed_data (Data_exec d) \<longleftrightarrow> typed_process (exec_new_process d)"
| "typed_data (Data_exit d) \<longleftrightarrow> True"
| "typed_data (Data_file_create d) \<longleftrightarrow> typed_file (fc_file d)"
| "typed_data (Data_write d) \<longleftrightarrow> typed_file (w_file d)"
| "typed_data (Data_rename d) \<longleftrightarrow> typed_file (rn_source_file d) \<and> typed_file (rn_destination_file d)"
| "typed_data (Data_network d) \<longleftrightarrow> length (n_addresses d) = 8"
| "typed_data (Data_signal d) \<longleftrightarrow> typed_process (sg_process d)"
| "typed_data (Data_ptrace d) \<longleftrightarrow> typed_process (pc_process d)"

lemma ordered_mono: "ordered_fields lo hi fs \<Longrightarrow> lo' \<le> lo \<Longrightarrow> hi \<le> hi' \<Longrightarrow> ordered_fields lo' hi' fs"
  by (induction lo hi fs arbitrary: lo' rule: ordered_fields.induct) auto

lemma embedded_file: "typed_file f \<Longrightarrow> lo \<le> off \<Longrightarrow> off + file_size \<le> hi \<Longrightarrow> ordered_fields lo hi (placed_at off (file_fields f))"
  by (rule ordered_mono [OF file_layout.embedded])

lemma embedded_process: "typed_process p \<Longrightarrow> process_size \<le> hi \<Longrightarrow> ordered_fields 0 hi (placed_at 0 (process_fields p))"
  by (rule ordered_mono [OF process_layout.embedded]) simp_all

lemma data_fields_ordered: "typed_data d \<Longrightarrow> ordered_fields 0 1064 (data_fields d)"
proof (induction d rule: data_fields.induct)
  case (8 d)
  then show ?case by (auto intro!: ordered_append [of _ 456] embedded_file)
next
  case (2 d)
  then show ?case by (auto intro!: ordered_append [of _ 448] embedded_file)
next
  case (3 d)
  then show ?case by (auto intro!: ordered_append [of _ 448] embedded_file)
qed (auto simp: upt_rec intro!: ordered_append [of _ 1056] embedded_file embedded_process)

text \<open>The member of an event's data, read from memory.\<close>

fun read_member :: "memory \<Rightarrow> event_data \<Rightarrow> event_data" where
  "read_member m Data_zero = Data_zero"
| "read_member m (Data_chown d) = Data_chown (chown_at m 0)"
| "read_member m (Data_chmod d) = Data_chmod (chmod_at m 0)"
| "read_member m (Data_exec d) = Data_exec (exec_at m 0)"
| "read_member m (Data_exit d) = Data_exit (exit_at m 0)"
| "read_member m (Data_file_create d) = Data_file_create (file_create_at m 0)"
| "read_member m (Data_write d) = Data_write (write_event_at m 0)"
| "read_member m (Data_rename d) = Data_rename (rename_at m 0)"
| "read_member m (Data_network d) = Data_network (network_at m 0)"
| "read_member m (Data_signal d) = Data_signal (signal_at m 0)"
| "read_member m (Data_ptrace d) = Data_ptrace (ptrace_at m 0)"

lemmas member_defs = chown_at_def chmod_at_def exec_at_def exit_at_def file_create_at_def write_event_at_def rename_at_def
  network_at_def signal_at_def ptrace_at_def

lemma network_addresses:
  "length xs = 8 \<Longrightarrow> holds_fields m 0 (map (\<lambda>i. (12 + 4 * i, le_bytes 4 (xs ! i))) [0..<8]) \<Longrightarrow>
   map (\<lambda>i. le_word (load_bytes m (12 + 4 * i) 4)) [0..<8] = (xs :: u32 list)"
  by (rule nth_equalityI) (auto simp: holds_fields_def)

lemma read_member_back:
  assumes "typed_data d"
  shows "read_member (store_fields (data_fields d) m) d = d"
proof -
  have "holds_fields (store_fields (data_fields d) m) 0 (data_fields d)"
    by (rule holds_store_fields [OF data_fields_ordered [OF assms]])
  then show ?thesis
    using assms
    by (cases d) (auto simp: member_defs file_layout.reads process_layout.reads network_addresses simp del: store_fields_simps upt_rec_numeral)
qed

text \<open>What the views have in common: their arrays have the sizes of the struct's.\<close>

lemma wf_file_at [simp]: "wf_file (file_at m off)"
  by (simp add: wf_file_def file_at_def)

lemma wf_process_at [simp]: "wf_process (process_at m off)"
  by (simp add: wf_process_def process_at_def)

end
