(* ===== verification/Bpf_State.thy ===== *)
theory Bpf_State
  imports Event_Union
begin

text \<open>
  The memory the eBPF programs share. Every BPF map of \<^verbatim>\<open>common_maps.bpf.h\<close> is a HOL map from
  key to value, so that \<^verbatim>\<open>bpf_map_lookup_elem\<close> is application and a NULL result is \<open>None\<close>;
  per-CPU maps are those of the CPU that runs the program. Maps that userspace fills and
  freezes before the programs are attached (and the read-only globals) are the record \<open>ro_env\<close>,
  which no operation changes; everything else is the record \<open>bpf_state\<close>.

  The kernel helpers are not part of the sources. Whether the \<open>n\<close>-th fallible helper call of a
  run succeeds is the parameter \<open>helper_outcome\<close>, and which entries an insertion into an LRU map
  displaces is the parameter \<open>lru_evicted\<close>; every statement that does not mention them holds for
  all outcomes. A helper that fails leaves the maps as they are.
\<close>

section \<open>Read-only environment\<close>

text \<open>
  \<open>union_rest\<close> gives the bytes of the union \<^verbatim>\<open>event_t.data\<close> that no field of the written member
  covers: the padding of its struct and what lies behind it.
\<close>

record ro_env =
  predicates_map :: "u32 \<rightharpoonup> predicate_t"
  rules_strings_map :: "u32 \<rightharpoonup> rule_string_t"
  rules_ips_map :: "u32 \<rightharpoonup> rule_ip_t"
  idx_to_DFA_map :: "u32 \<rightharpoonup> flat_2d_dfa_array_t"
  idx_to_accepting_states_map :: "u32 \<rightharpoonup> u64"
  event_rules :: "event_type \<Rightarrow> rule_t list"
  g_ebpf_features :: ebpf_features
  ebpf_program_start_time :: "u32 \<rightharpoonup> u64"
  anti_tampering_signals_action :: rule_action
  anti_tampering_ptrace_action :: rule_action
  union_rest :: "event_data \<Rightarrow> memory"

text \<open>
  The bytes of the union, and its members. Reading a member other than the one last written
  reinterprets the bytes; reading the one that was written gives what was written, which for data
  of the right types is what its bytes hold (\<open>union_members_read_bytes\<close>).
\<close>

definition union_bytes :: "ro_env \<Rightarrow> event_t \<Rightarrow> memory" where
  "union_bytes ro e = store_fields (data_fields (ev_data e)) (union_rest ro (ev_data e))"

definition data_chown :: "ro_env \<Rightarrow> event_t \<Rightarrow> chown_event_t" where
  "data_chown ro e = (case ev_data e of Data_chown d \<Rightarrow> d | _ \<Rightarrow> chown_at (union_bytes ro e) 0)"

definition data_chmod :: "ro_env \<Rightarrow> event_t \<Rightarrow> chmod_event_t" where
  "data_chmod ro e = (case ev_data e of Data_chmod d \<Rightarrow> d | _ \<Rightarrow> chmod_at (union_bytes ro e) 0)"

definition data_exec :: "ro_env \<Rightarrow> event_t \<Rightarrow> exec_event_t" where
  "data_exec ro e = (case ev_data e of Data_exec d \<Rightarrow> d | _ \<Rightarrow> exec_at (union_bytes ro e) 0)"

text \<open>The members \<^verbatim>\<open>file_create\<close>, \<^verbatim>\<open>unlink\<close>, \<^verbatim>\<open>mkdir\<close> and \<^verbatim>\<open>rmdir\<close> have one type.\<close>

definition data_file_create :: "ro_env \<Rightarrow> event_t \<Rightarrow> file_create_event_t" where
  "data_file_create ro e = (case ev_data e of Data_file_create d \<Rightarrow> d | _ \<Rightarrow> file_create_at (union_bytes ro e) 0)"

text \<open>The members \<^verbatim>\<open>write\<close> and \<^verbatim>\<open>read\<close> have one type.\<close>

definition data_write :: "ro_env \<Rightarrow> event_t \<Rightarrow> write_event_t" where
  "data_write ro e = (case ev_data e of Data_write d \<Rightarrow> d | _ \<Rightarrow> write_event_at (union_bytes ro e) 0)"

definition data_rename :: "ro_env \<Rightarrow> event_t \<Rightarrow> rename_event_t" where
  "data_rename ro e = (case ev_data e of Data_rename d \<Rightarrow> d | _ \<Rightarrow> rename_at (union_bytes ro e) 0)"

definition data_network :: "ro_env \<Rightarrow> event_t \<Rightarrow> network_event_t" where
  "data_network ro e = (case ev_data e of Data_network d \<Rightarrow> d | _ \<Rightarrow> network_at (union_bytes ro e) 0)"

text \<open>Members that only the daemon reads.\<close>

definition data_exit :: "ro_env \<Rightarrow> event_t \<Rightarrow> exit_event_t" where
  "data_exit ro e = (case ev_data e of Data_exit d \<Rightarrow> d | _ \<Rightarrow> exit_at (union_bytes ro e) 0)"

definition data_signal :: "ro_env \<Rightarrow> event_t \<Rightarrow> signal_event_t" where
  "data_signal ro e = (case ev_data e of Data_signal d \<Rightarrow> d | _ \<Rightarrow> signal_at (union_bytes ro e) 0)"

definition data_ptrace :: "ro_env \<Rightarrow> event_t \<Rightarrow> ptrace_event_t" where
  "data_ptrace ro e = (case ev_data e of Data_ptrace d \<Rightarrow> d | _ \<Rightarrow> ptrace_at (union_bytes ro e) 0)"

lemmas union_defs = data_chown_def data_chmod_def data_exec_def data_file_create_def
  data_write_def data_rename_def data_network_def data_exit_def data_signal_def data_ptrace_def

lemma union_members_cong:
  assumes "ev_data e = ev_data e'"
  shows "data_chown ro e = data_chown ro e'" "data_chmod ro e = data_chmod ro e'" "data_exec ro e = data_exec ro e'"
    "data_file_create ro e = data_file_create ro e'" "data_write ro e = data_write ro e'" "data_rename ro e = data_rename ro e'"
    "data_network ro e = data_network ro e'" "data_exit ro e = data_exit ro e'" "data_signal ro e = data_signal ro e'"
    "data_ptrace ro e = data_ptrace ro e'"
  using assms by (cases "ev_data e'"; simp add: union_defs union_bytes_def)+

lemma union_members_read_bytes:
  assumes "typed_data (ev_data e)"
  shows "data_chown ro e = chown_at (union_bytes ro e) 0" "data_chmod ro e = chmod_at (union_bytes ro e) 0"
    "data_exec ro e = exec_at (union_bytes ro e) 0" "data_file_create ro e = file_create_at (union_bytes ro e) 0"
    "data_write ro e = write_event_at (union_bytes ro e) 0" "data_rename ro e = rename_at (union_bytes ro e) 0"
    "data_network ro e = network_at (union_bytes ro e) 0" "data_exit ro e = exit_at (union_bytes ro e) 0"
    "data_signal ro e = signal_at (union_bytes ro e) 0" "data_ptrace ro e = ptrace_at (union_bytes ro e) 0"
  using read_member_back [OF assms, of "union_rest ro (ev_data e)"]
  by (cases "ev_data e"; simp add: union_defs union_bytes_def)+

text \<open>
  The rename member begins with its flags, so that its first file lies eight bytes behind the file
  of a mode change: the length of the renamed path is the seventh and eighth byte of the path.
\<close>

lemma chmod_seen_as_rename:
  assumes "ev_data e = Data_chmod d" "typed_file (chmod_file d)"
  shows "pt_length (f_path (rn_source_file (data_rename ro e))) = le_word (take 2 (drop 6 (pt_value (f_path (chmod_file d)))))"
proof -
  have "pt_value (f_path (chmod_file d)) = pt_value (f_path (file_at (union_bytes ro e) 0))"
    using union_members_read_bytes(2) [of e ro] assms by (simp add: data_chmod_def chmod_at_def)
  then show ?thesis
    using assms by (simp add: data_rename_def rename_at_def file_at_def load_bytes_def drop_map take_map)
qed

text \<open>Whatever was written, the strings of a view have the lengths of their arrays.\<close>

lemma wf_rename_view:
  "(\<And>d. ev_data e = Data_rename d \<Longrightarrow> wf_file (rn_source_file d) \<and> wf_file (rn_destination_file d)) \<Longrightarrow>
   wf_file (rn_source_file (data_rename ro e)) \<and> wf_file (rn_destination_file (data_rename ro e))"
  by (cases "ev_data e") (simp_all add: data_rename_def rename_at_def)

section \<open>Mutable state\<close>

text \<open>
  \<open>rb\<close> lists the events submitted to userspace, newest first, and \<open>rb_reserved\<close> counts the ring
  buffer records that are reserved and neither submitted nor discarded. \<open>sent_signals\<close> lists the
  signals sent with \<^verbatim>\<open>bpf_send_signal\<close>, by receiving process. The buffers of \<^verbatim>\<open>print_scratch\<close> are
  cleared before every use, so that only their presence is kept.
\<close>

record bpf_state =
  rb :: "event_t list"
  rb_reserved :: nat
  errors :: "error_report_t list"
  alive_process_cache_map :: "u32 \<rightharpoonup> process_t"
  dead_process_cache_lru_map :: "u64 \<rightharpoonup> process_t"
  heap_string_buffer_map :: "u32 \<rightharpoonup> bytes"
  heap_process_t_map :: "u32 \<rightharpoonup> process_t"
  heap_string_buffer_map_counter :: "u32 \<rightharpoonup> u32"
  heap_process_t_map_counter :: "u32 \<rightharpoonup> u32"
  currently_handled_event :: "u32 \<rightharpoonup> event_t"
  tail_call_counter :: "u32 \<rightharpoonup> u32"
  temp_error_report_t :: "u32 \<rightharpoonup> error_report_t"
  parent_processes_to_kill :: "u32 \<rightharpoonup> u32"
  program_related_pids :: "u32 \<rightharpoonup> u32"
  protected_processes :: "u32 \<rightharpoonup> u32"
  global_event_id_counter :: u64
  hook_names :: "u32 \<rightharpoonup> bytes"
  heap_string_utils_ctx :: "u32 \<rightharpoonup> string_utils_ctx"
  predicates_results_cache :: "u32 \<rightharpoonup> predicate_result_t"
  active_shell_pids :: "u32 \<rightharpoonup> u8"
  kthread_exec_pids :: "u32 \<rightharpoonup> u32"
  helper_stack :: "u32 \<rightharpoonup> eval_stack"
  exec_pids :: "u32 \<rightharpoonup> u8"
  global_write_event_cache_lru_map :: "u64 \<rightharpoonup> u8"
  private_write_event_cache_lru_map :: "u64 \<rightharpoonup> u8"
  global_read_event_cache_lru_map :: "u64 \<rightharpoonup> u8"
  private_read_event_cache_lru_map :: "u64 \<rightharpoonup> u8"
  sk_incoming_connections :: "u64 \<rightharpoonup> incoming_connection_tracker_t"
  sk_outgoing_connections :: "u64 \<rightharpoonup> event_t"
  walk_state :: "u32 \<rightharpoonup> WalkState"
  subshell_state :: "u32 \<rightharpoonup> SubshellState"
  print_scratch :: "u32 \<rightharpoonup> unit"
  sent_signals :: "(u32 \<times> nat) list"
  helper_calls :: nat
  helper_outcome :: "nat \<Rightarrow> bool"
  lru_evicted :: "nat \<Rightarrow> u64 \<Rightarrow> bool"

type_synonym 'a bpf = "(bpf_state, 'a) state"

section \<open>defs.bpf.h\<close>

abbreviation ALLOW :: int where "ALLOW \<equiv> 0"

abbreviation DENY :: int where "DENY \<equiv> -1"

abbreviation SUCCESS :: int where "SUCCESS \<equiv> 0"

abbreviation GENERIC_ERROR :: int where "GENERIC_ERROR \<equiv> -1"

abbreviation NOT_IN_CACHE :: int where "NOT_IN_CACHE \<equiv> -2"

abbreviation NOT_SUPPORTED :: int where "NOT_SUPPORTED \<equiv> -3"

abbreviation SIGKILL :: nat where "SIGKILL \<equiv> 9"

definition LIMIT_PATH_SIZE :: "nat \<Rightarrow> nat" where
  "LIMIT_PATH_SIZE x = x AND (PATH_MAX - 1)"

lemma LIMIT_PATH_SIZE_mod: "LIMIT_PATH_SIZE x = x mod 256"
  by (simp add: LIMIT_PATH_SIZE_def and_255_mod)

lemma LIMIT_PATH_SIZE_id [simp]: "x < 256 \<Longrightarrow> LIMIT_PATH_SIZE x = x"
  by (simp add: LIMIT_PATH_SIZE_mod)

lemma LIMIT_PATH_SIZE_less [simp]: "LIMIT_PATH_SIZE x < 256"
  by (simp add: LIMIT_PATH_SIZE_mod)

section \<open>Helpers\<close>

definition helper_ok :: "bool bpf" where
  "helper_ok = do {
     ok \<leftarrow> reads (\<lambda>s. helper_outcome s (helper_calls s));
     State_Monad.update (helper_calls_update Suc);
     State_Monad.return ok }"

definition map_update_elem ::
  "((('k \<rightharpoonup> 'v) \<Rightarrow> ('k \<rightharpoonup> 'v)) \<Rightarrow> bpf_state \<Rightarrow> bpf_state) \<Rightarrow> 'k \<Rightarrow> 'v \<Rightarrow> bool bpf" where
  "map_update_elem fu k v = do {
     ok \<leftarrow> helper_ok;
     if ok then do { State_Monad.update (fu (\<lambda>m. m(k \<mapsto> v))); State_Monad.return True }
     else State_Monad.return False }"

definition lru_insert :: "(u64 \<Rightarrow> bool) \<Rightarrow> u64 \<Rightarrow> 'v \<Rightarrow> (u64 \<rightharpoonup> 'v) \<Rightarrow> (u64 \<rightharpoonup> 'v)" where
  "lru_insert ev k v m = (\<lambda>k'. if k' = k then Some v else if ev k' then None else m k')"

definition lru_update_elem ::
  "(((u64 \<rightharpoonup> 'v) \<Rightarrow> (u64 \<rightharpoonup> 'v)) \<Rightarrow> bpf_state \<Rightarrow> bpf_state) \<Rightarrow> u64 \<Rightarrow> 'v \<Rightarrow> bool bpf" where
  "lru_update_elem fu k v = do {
     ev \<leftarrow> reads (\<lambda>s. lru_evicted s (helper_calls s));
     ok \<leftarrow> helper_ok;
     if ok then do { State_Monad.update (fu (lru_insert ev k v)); State_Monad.return True }
     else State_Monad.return False }"

text \<open>\<^verbatim>\<open>bpf_map_delete_elem\<close> fails exactly when the key is absent.\<close>

definition map_delete_elem ::
  "(bpf_state \<Rightarrow> ('k \<rightharpoonup> 'v)) \<Rightarrow> ((('k \<rightharpoonup> 'v) \<Rightarrow> ('k \<rightharpoonup> 'v)) \<Rightarrow> bpf_state \<Rightarrow> bpf_state) \<Rightarrow> 'k \<Rightarrow> bool bpf" where
  "map_delete_elem fs fu k = do {
     m \<leftarrow> reads fs;
     State_Monad.update (fu (\<lambda>m. m(k := None)));
     State_Monad.return (m k \<noteq> None) }"

definition ringbuf_reserve :: "bool bpf" where
  "ringbuf_reserve = do {
     ok \<leftarrow> helper_ok;
     if ok then do { State_Monad.update (rb_reserved_update Suc); State_Monad.return True }
     else State_Monad.return False }"

definition ringbuf_discard :: "unit bpf" where
  "ringbuf_discard = State_Monad.update (rb_reserved_update (\<lambda>n. n - 1))"

definition ringbuf_submit :: "event_t \<Rightarrow> unit bpf" where
  "ringbuf_submit e = State_Monad.update (rb_update ((#) e) \<circ> rb_reserved_update (\<lambda>n. n - 1))"

text \<open>All helper calls of the run succeed.\<close>

definition helpers_succeed :: "bpf_state \<Rightarrow> bool" where
  "helpers_succeed s \<longleftrightarrow> helper_outcome s = (\<lambda>_. True)"

lemma run_helper_ok [simp]:
  "run_state helper_ok s = (helper_outcome s (helper_calls s), s\<lparr>helper_calls := Suc (helper_calls s)\<rparr>)"
  by (simp add: helper_ok_def)

lemma run_map_update_elem:
  "run_state (map_update_elem fu k v) s =
     (let s' = s\<lparr>helper_calls := Suc (helper_calls s)\<rparr> in
      if helper_outcome s (helper_calls s) then (True, fu (\<lambda>m. m(k \<mapsto> v)) s') else (False, s'))"
  by (simp add: map_update_elem_def Let_def)

lemma run_lru_update_elem:
  "run_state (lru_update_elem fu k v) s =
     (let s' = s\<lparr>helper_calls := Suc (helper_calls s)\<rparr> in
      if helper_outcome s (helper_calls s)
      then (True, fu (lru_insert (lru_evicted s (helper_calls s)) k v) s') else (False, s'))"
  by (simp add: lru_update_elem_def Let_def)

lemma run_map_delete_elem:
  "run_state (map_delete_elem fs fu k) s = (fs s k \<noteq> None, fu (\<lambda>m. m(k := None)) s)"
  by (simp add: map_delete_elem_def)

lemma run_ringbuf_reserve:
  "run_state ringbuf_reserve s =
     (let s' = s\<lparr>helper_calls := Suc (helper_calls s)\<rparr> in
      if helper_outcome s (helper_calls s) then (True, s'\<lparr>rb_reserved := Suc (rb_reserved s)\<rparr>)
      else (False, s'))"
  by (simp add: ringbuf_reserve_def Let_def)

lemma run_ringbuf_discard [simp]:
  "run_state ringbuf_discard s = ((), s\<lparr>rb_reserved := rb_reserved s - 1\<rparr>)"
  by (simp add: ringbuf_discard_def)

lemma run_ringbuf_submit [simp]:
  "run_state (ringbuf_submit e) s = ((), s\<lparr>rb_reserved := rb_reserved s - 1, rb := e # rb s\<rparr>)"
  by (simp add: ringbuf_submit_def)

lemma lru_insert_same [simp]: "lru_insert ev k v m k = Some v"
  by (simp add: lru_insert_def)

lemma lru_insert_other: "lru_insert ev k v m k' = Some w \<Longrightarrow> k' \<noteq> k \<Longrightarrow> m k' = Some w"
  by (simp add: lru_insert_def split: if_splits)

section \<open>Frames\<close>

lemma keeps_helper_ok [frame_intros]:
  "(\<And>g s. f (helper_calls_update g s) = f s) \<Longrightarrow> keeps f helper_ok"
  by (simp add: keeps_def)

lemma keeps_map_update_elem [frame_intros]:
  "(\<And>g s. f (helper_calls_update g s) = f s) \<Longrightarrow> (\<And>s g. f (fu g s) = f s) \<Longrightarrow>
   keeps f (map_update_elem fu k v)"
  by (simp add: keeps_def run_map_update_elem Let_def)

lemma keeps_lru_update_elem [frame_intros]:
  "(\<And>g s. f (helper_calls_update g s) = f s) \<Longrightarrow> (\<And>s g. f (fu g s) = f s) \<Longrightarrow>
   keeps f (lru_update_elem fu k v)"
  by (simp add: keeps_def run_lru_update_elem Let_def)

lemma keeps_map_delete_elem [frame_intros]:
  "(\<And>s g. f (fu g s) = f s) \<Longrightarrow> keeps f (map_delete_elem fs fu k)"
  by (simp add: keeps_def run_map_delete_elem)

lemma keeps_ringbuf_discard [frame_intros]:
  "(\<And>g s. f (rb_reserved_update g s) = f s) \<Longrightarrow> keeps f ringbuf_discard"
  by (simp add: keeps_def)

lemma keeps_ringbuf_submit [frame_intros]:
  "(\<And>g s. f (rb_reserved_update g s) = f s) \<Longrightarrow> (\<And>g s. f (rb_update g s) = f s) \<Longrightarrow> keeps f (ringbuf_submit e)"
  by (simp add: keeps_def)

lemma keeps_ringbuf_reserve [frame_intros]:
  "(\<And>g s. f (helper_calls_update g s) = f s) \<Longrightarrow> (\<And>g s. f (rb_reserved_update g s) = f s) \<Longrightarrow>
   keeps f ringbuf_reserve"
  by (simp add: keeps_def run_ringbuf_reserve Let_def)

end
