(* ===== verification/Error_Reports.thy ===== *)
theory Error_Reports
  imports Bpf_State
begin

text \<open>
  \<^verbatim>\<open>error_reports.bpf.h\<close> and \<^verbatim>\<open>error_reports.bpf.c\<close>: the hook name of the running program and the
  error reports sent to userspace through the ring buffer \<^verbatim>\<open>errors\<close>. The text written to the
  kernel trace pipe and the formatted details of a report are not modelled. Reporting an error
  never changes anything but the report buffers, which \<open>report_frame\<close> makes available to every
  other component.
\<close>

text \<open>
  \<open>read_kernel_str dst n src\<close>: the effect of \<^verbatim>\<open>bpf_probe_read_kernel_str\<close> and its user variant,
  which copy at most \<open>n - 1\<close> bytes up to the terminating null byte and always terminate the
  copy. The length they return counts the null byte.
\<close>

definition c_string :: "bytes \<Rightarrow> bytes" where
  "c_string src = takeWhile (\<lambda>c. c \<noteq> 0) src"

definition read_kernel_str :: "bytes \<Rightarrow> nat \<Rightarrow> bytes \<Rightarrow> bytes" where
  "read_kernel_str dst n src =
     (let str = take (n - 1) (c_string src) in write_at dst 0 (str @ [0]))"

definition read_kernel_str_ret :: "nat \<Rightarrow> bytes \<Rightarrow> nat" where
  "read_kernel_str_ret n src = length (take (n - 1) (c_string src)) + 1"

definition allocate_empty_error_report_t :: "error_report_t option bpf" where
  "allocate_empty_error_report_t = do {
     reserved \<leftarrow> helper_ok;
     if \<not> reserved then State_Monad.return None
     else do {
       ok \<leftarrow> helper_ok;
       State_Monad.return (if ok then Some empty_error_report_t else None) } }"

definition get_hook_name :: "bytes \<Rightarrow> bytes bpf" where
  "get_hook_name hook_name = do {
     tmp \<leftarrow> reads (\<lambda>s. hook_names s 0);
     case tmp of
       None \<Rightarrow> State_Monad.return hook_name
     | Some name \<Rightarrow> do {
         ok \<leftarrow> helper_ok;
         State_Monad.return
           (if ok then read_kernel_str hook_name HOOK_NAME_MAX_LENGTH name else hook_name) } }"

definition report_error :: "int \<Rightarrow> string \<Rightarrow> int bpf" where
  "report_error error_code location = do {
     error \<leftarrow> allocate_empty_error_report_t;
     case error of
       None \<Rightarrow> State_Monad.return GENERIC_ERROR
     | Some e \<Rightarrow> do {
         name \<leftarrow> get_hook_name (er_hook_name e);
         State_Monad.update (errors_update ((#)
           (e\<lparr>er_error_code := error_code, er_hook_name := name, er_location := location\<rparr>)));
         State_Monad.return SUCCESS } }"

definition REPORT_ERROR :: "int \<Rightarrow> string \<Rightarrow> unit bpf" where
  "REPORT_ERROR code location = do {
     t \<leftarrow> reads (\<lambda>s. temp_error_report_t s 0);
     case t of
       None \<Rightarrow> State_Monad.return ()
     | Some r \<Rightarrow> do {
         State_Monad.update (temp_error_report_t_update (\<lambda>m. m(0 \<mapsto>
           r\<lparr>er_error_code := code, er_location := location\<rparr>)));
         _ \<leftarrow> report_error code location;
         State_Monad.return () } }"

definition set_hook_name :: "bytes \<Rightarrow> unit bpf" where
  "set_hook_name name = do {
     p \<leftarrow> reads (\<lambda>s. hook_names s 0);
     case p of
       None \<Rightarrow> REPORT_ERROR GENERIC_ERROR ''set_hook_name''
     | Some _ \<Rightarrow> do {
         ok \<leftarrow> helper_ok;
         if \<not> ok then REPORT_ERROR GENERIC_ERROR ''set_hook_name''
         else do {
           State_Monad.update (hook_names_update (\<lambda>m. m(0 \<mapsto> empty_hook_name)));
           ok2 \<leftarrow> helper_ok;
           if \<not> ok2 then REPORT_ERROR GENERIC_ERROR ''set_hook_name''
           else State_Monad.update (hook_names_update
             (\<lambda>m. m(0 \<mapsto> copy_into empty_hook_name (length name) name))) } } }"

text \<open>A hook name as the bytes of a string literal.\<close>

definition lit :: "string \<Rightarrow> bytes" where
  "lit cs = map of_char cs"

section \<open>Frame\<close>

text \<open>
  Reporting changes only the report buffers: any projection that does not depend on them is kept.
\<close>

definition report_free :: "(bpf_state \<Rightarrow> 'b) \<Rightarrow> bool" where
  "report_free f \<longleftrightarrow> (\<forall>s g h k. f (helper_calls_update g s) = f s \<and> f (errors_update h s) = f s
     \<and> f (temp_error_report_t_update k s) = f s)"

lemma report_freeI:
  "(\<And>g s. f (helper_calls_update g s) = f s) \<Longrightarrow> (\<And>g s. f (errors_update g s) = f s) \<Longrightarrow>
   (\<And>g s. f (temp_error_report_t_update g s) = f s) \<Longrightarrow> report_free f"
  by (simp add: report_free_def)

lemma keeps_report_error: "report_free f \<Longrightarrow> keeps f (report_error c l)"
  unfolding report_error_def allocate_empty_error_report_t_def get_hook_name_def
  by (intro frame_intros) (simp_all add: report_free_def)

lemma report_frame: "report_free f \<Longrightarrow> keeps f (REPORT_ERROR c l)"
  unfolding REPORT_ERROR_def
  by (intro frame_intros keeps_report_error) (simp_all add: report_free_def)

lemma keeps_REPORT_ERROR [frame_intros]:
  "(\<And>g s. f (helper_calls_update g s) = f s) \<Longrightarrow> (\<And>g s. f (errors_update g s) = f s) \<Longrightarrow>
   (\<And>g s. f (temp_error_report_t_update g s) = f s) \<Longrightarrow> keeps f (REPORT_ERROR c l)"
  by (intro report_frame report_freeI)

text \<open>The same, field by field, for the simplifier.\<close>

lemma report_fields [simp]:
  "rb (snd (run_state (REPORT_ERROR c l) s)) = rb s"
  "rb_reserved (snd (run_state (REPORT_ERROR c l) s)) = rb_reserved s"
  "alive_process_cache_map (snd (run_state (REPORT_ERROR c l) s)) = alive_process_cache_map s"
  "dead_process_cache_lru_map (snd (run_state (REPORT_ERROR c l) s)) = dead_process_cache_lru_map s"
  "heap_string_buffer_map (snd (run_state (REPORT_ERROR c l) s)) = heap_string_buffer_map s"
  "heap_process_t_map (snd (run_state (REPORT_ERROR c l) s)) = heap_process_t_map s"
  "heap_string_buffer_map_counter (snd (run_state (REPORT_ERROR c l) s)) = heap_string_buffer_map_counter s"
  "heap_process_t_map_counter (snd (run_state (REPORT_ERROR c l) s)) = heap_process_t_map_counter s"
  "currently_handled_event (snd (run_state (REPORT_ERROR c l) s)) = currently_handled_event s"
  "tail_call_counter (snd (run_state (REPORT_ERROR c l) s)) = tail_call_counter s"
  "parent_processes_to_kill (snd (run_state (REPORT_ERROR c l) s)) = parent_processes_to_kill s"
  "program_related_pids (snd (run_state (REPORT_ERROR c l) s)) = program_related_pids s"
  "protected_processes (snd (run_state (REPORT_ERROR c l) s)) = protected_processes s"
  "global_event_id_counter (snd (run_state (REPORT_ERROR c l) s)) = global_event_id_counter s"
  "hook_names (snd (run_state (REPORT_ERROR c l) s)) = hook_names s"
  "heap_string_utils_ctx (snd (run_state (REPORT_ERROR c l) s)) = heap_string_utils_ctx s"
  "predicates_results_cache (snd (run_state (REPORT_ERROR c l) s)) = predicates_results_cache s"
  "active_shell_pids (snd (run_state (REPORT_ERROR c l) s)) = active_shell_pids s"
  "kthread_exec_pids (snd (run_state (REPORT_ERROR c l) s)) = kthread_exec_pids s"
  "helper_stack (snd (run_state (REPORT_ERROR c l) s)) = helper_stack s"
  "exec_pids (snd (run_state (REPORT_ERROR c l) s)) = exec_pids s"
  "global_write_event_cache_lru_map (snd (run_state (REPORT_ERROR c l) s)) = global_write_event_cache_lru_map s"
  "private_write_event_cache_lru_map (snd (run_state (REPORT_ERROR c l) s)) = private_write_event_cache_lru_map s"
  "global_read_event_cache_lru_map (snd (run_state (REPORT_ERROR c l) s)) = global_read_event_cache_lru_map s"
  "private_read_event_cache_lru_map (snd (run_state (REPORT_ERROR c l) s)) = private_read_event_cache_lru_map s"
  "sk_incoming_connections (snd (run_state (REPORT_ERROR c l) s)) = sk_incoming_connections s"
  "sk_outgoing_connections (snd (run_state (REPORT_ERROR c l) s)) = sk_outgoing_connections s"
  "walk_state (snd (run_state (REPORT_ERROR c l) s)) = walk_state s"
  "subshell_state (snd (run_state (REPORT_ERROR c l) s)) = subshell_state s"
  "print_scratch (snd (run_state (REPORT_ERROR c l) s)) = print_scratch s"
  "sent_signals (snd (run_state (REPORT_ERROR c l) s)) = sent_signals s"
  "helper_outcome (snd (run_state (REPORT_ERROR c l) s)) = helper_outcome s"
  "lru_evicted (snd (run_state (REPORT_ERROR c l) s)) = lru_evicted s"
  by (rule keeps_snd, intro frame_intros, simp_all)+

lemma keeps_set_hook_name [frame_intros]:
  "(\<And>g s. f (helper_calls_update g s) = f s) \<Longrightarrow> (\<And>g s. f (errors_update g s) = f s) \<Longrightarrow>
   (\<And>g s. f (temp_error_report_t_update g s) = f s) \<Longrightarrow>
   (\<And>g s. f (hook_names_update g s) = f s) \<Longrightarrow> keeps f (set_hook_name n)"
  unfolding set_hook_name_def by (intro frame_intros) simp_all

end
