(* ===== verification/Allocators.thy ===== *)
theory Allocators
  imports Error_Reports
begin

text \<open>
  \<^verbatim>\<open>allocators.bpf.h\<close>. Per-CPU arrays of \<^verbatim>\<open>HEAP_SLOTS\<close> entries serve as scratch memory: an
  allocation takes the slot the counter names, advances the counter and clears the slot, so
  a pointer to scratch memory is the index of its slot. The string-buffer allocator and the
  process allocator are the same algorithm on two maps; its laws are the locale
  \<open>slot_allocator\<close>, which both interpret. Events are reserved in the ring buffer and cleared.
\<close>

abbreviation HEAP_SLOTS :: u32 where "HEAP_SLOTS \<equiv> 8"

definition allocate_string_buffer :: "u32 option bpf" where
  "allocate_string_buffer = do {
     idx \<leftarrow> reads (\<lambda>s. heap_string_buffer_map_counter s 0);
     case idx of
       None \<Rightarrow> do { REPORT_ERROR GENERIC_ERROR ''allocate_string_buffer''; State_Monad.return None }
     | Some i \<Rightarrow> do {
         let slot = (if i \<ge> HEAP_SLOTS then 0 else i);
         State_Monad.update (heap_string_buffer_map_counter_update (\<lambda>m. m(0 \<mapsto> slot + 1)));
         p \<leftarrow> reads (\<lambda>s. heap_string_buffer_map s slot);
         case p of
           None \<Rightarrow> do { REPORT_ERROR GENERIC_ERROR ''allocate_string_buffer''; State_Monad.return None }
         | Some _ \<Rightarrow> do {
             ok \<leftarrow> helper_ok;
             if \<not> ok
             then do { REPORT_ERROR GENERIC_ERROR ''allocate_string_buffer''; State_Monad.return None }
             else do {
               State_Monad.update (heap_string_buffer_map_update (\<lambda>m. m(slot \<mapsto> empty_string_buffer)));
               State_Monad.return (Some slot) } } } }"

definition allocate_process_t :: "u32 option bpf" where
  "allocate_process_t = do {
     idx \<leftarrow> reads (\<lambda>s. heap_process_t_map_counter s 0);
     case idx of
       None \<Rightarrow> do { REPORT_ERROR GENERIC_ERROR ''allocate_process_t''; State_Monad.return None }
     | Some i \<Rightarrow> do {
         let slot = (if i \<ge> HEAP_SLOTS then 0 else i);
         State_Monad.update (heap_process_t_map_counter_update (\<lambda>m. m(0 \<mapsto> slot + 1)));
         p \<leftarrow> reads (\<lambda>s. heap_process_t_map s slot);
         case p of
           None \<Rightarrow> do { REPORT_ERROR GENERIC_ERROR ''allocate_process_t''; State_Monad.return None }
         | Some _ \<Rightarrow> do {
             ok \<leftarrow> helper_ok;
             if \<not> ok
             then do { REPORT_ERROR GENERIC_ERROR ''allocate_process_t''; State_Monad.return None }
             else do {
               State_Monad.update (heap_process_t_map_update (\<lambda>m. m(slot \<mapsto> empty_process_t)));
               State_Monad.return (Some slot) } } } }"

definition allocate_empty_event :: "event_t option bpf" where
  "allocate_empty_event = do {
     reserved \<leftarrow> ringbuf_reserve;
     if \<not> reserved
     then do { REPORT_ERROR GENERIC_ERROR ''allocate_empty_event''; State_Monad.return None }
     else do {
       ok \<leftarrow> helper_ok;
       if \<not> ok then do {
         ringbuf_discard;
         REPORT_ERROR GENERIC_ERROR ''allocate_empty_event'';
         State_Monad.return None }
       else State_Monad.return (Some empty_event_t) } }"

definition get_next_event_id :: "u64 bpf" where
  "get_next_event_id = do {
     i \<leftarrow> reads global_event_id_counter;
     State_Monad.update (global_event_id_counter_update (\<lambda>n. n + 1));
     State_Monad.return i }"

text \<open>The argument is the time \<^verbatim>\<open>bpf_ktime_get_ns\<close> returns.\<close>

definition allocate_event_with_basic_stats :: "u64 \<Rightarrow> event_t option bpf" where
  "allocate_event_with_basic_stats now = do {
     event \<leftarrow> allocate_empty_event;
     case event of
       None \<Rightarrow> State_Monad.return None
     | Some e \<Rightarrow> do {
         i \<leftarrow> get_next_event_id;
         if i = 0 then do { ringbuf_discard; State_Monad.return None }
         else State_Monad.return (Some (e\<lparr>ev_time := now, ev_id := i\<rparr>)) } }"

definition allocate_empty_string_utils_ctx :: "string_utils_ctx option bpf" where
  "allocate_empty_string_utils_ctx = do {
     sctx \<leftarrow> reads (\<lambda>s. heap_string_utils_ctx s 0);
     case sctx of
       None \<Rightarrow> do {
         REPORT_ERROR GENERIC_ERROR ''allocate_empty_string_utils_ctx''; State_Monad.return None }
     | Some _ \<Rightarrow> do {
         ok \<leftarrow> helper_ok;
         if \<not> ok then do {
           REPORT_ERROR GENERIC_ERROR ''allocate_empty_string_utils_ctx''; State_Monad.return None }
         else do {
           State_Monad.update (heap_string_utils_ctx_update (\<lambda>m. m(0 \<mapsto> string_utils_ctx_empty)));
           State_Monad.return (Some string_utils_ctx_empty) } } }"

text \<open>Write back through the pointer to the context.\<close>

definition store_sctx :: "string_utils_ctx \<Rightarrow> unit bpf" where
  "store_sctx c = State_Monad.update (heap_string_utils_ctx_update (\<lambda>m. m(0 \<mapsto> c)))"

lemma run_store_sctx [simp]:
  "run_state (store_sctx c) s = ((), s\<lparr>heap_string_utils_ctx := (heap_string_utils_ctx s)(0 \<mapsto> c)\<rparr>)"
  by (simp add: store_sctx_def)

section \<open>Scratch slots\<close>

definition norm_slot :: "u32 \<Rightarrow> u32" where
  "norm_slot i = (if i \<ge> HEAP_SLOTS then 0 else i)"

text \<open>\<open>alloc_many m n\<close> is \<open>n\<close> calls of the allocator \<open>m\<close> in a row.\<close>

primrec alloc_many :: "'a option bpf \<Rightarrow> nat \<Rightarrow> 'a option list bpf" where
  "alloc_many m 0 = State_Monad.return []"
| "alloc_many m (Suc n) = do { x \<leftarrow> m; xs \<leftarrow> alloc_many m n; State_Monad.return (x # xs) }"

lemma norm_slot_less: "unat (norm_slot i) < 8"
  by (simp add: norm_slot_def not_le word_less_nat_alt)

lemma norm_slot_next: "unat (norm_slot (norm_slot i + 1)) = (unat (norm_slot i) + 1) mod 8"
proof -
  define c where "c = norm_slot i"
  have c: "unat c < 8" by (simp add: c_def norm_slot_less)
  then have u: "unat (c + 1) = unat c + 1" by (simp add: unat_word_ariths)
  show ?thesis
  proof (cases "unat c + 1 < 8")
    case True
    then have "\<not> 8 \<le> c + 1" by (simp add: word_le_nat_alt u)
    with True show ?thesis by (simp add: c_def [symmetric] norm_slot_def [of "c + 1"] u)
  next
    case False
    with c have "8 \<le> c + 1" and "unat c + 1 = 8" by (simp_all add: word_le_nat_alt u)
    then show ?thesis by (simp add: c_def [symmetric] norm_slot_def [of "c + 1"])
  qed
qed

locale slot_allocator =
  fixes alloc :: "u32 option bpf"
    and counter :: "bpf_state \<Rightarrow> (u32 \<rightharpoonup> u32)"
    and slots :: "bpf_state \<Rightarrow> (u32 \<rightharpoonup> 'v)"
    and empty :: 'v
  assumes alloc_counter:
    "counter s 0 = Some i \<Longrightarrow> run_state alloc s = (r, s') \<Longrightarrow>
     counter s' 0 = Some (norm_slot i + 1) \<and> (r = None \<or> r = Some (norm_slot i))"
    and alloc_cleared:
    "run_state alloc s = (Some k, s') \<Longrightarrow> slots s' = (slots s)(k \<mapsto> empty)"
    and alloc_failed: "run_state alloc s = (None, s') \<Longrightarrow> slots s' = slots s"
    and alloc_progress:
    "helpers_succeed s \<Longrightarrow> counter s 0 = Some i \<Longrightarrow> slots s (norm_slot i) \<noteq> None \<Longrightarrow>
     \<exists>s'. run_state alloc s = (Some (norm_slot i), s')"
begin

lemma alloc_many_slots:
  "counter s 0 = Some i \<Longrightarrow> run_state (alloc_many alloc n) s = (xs, s') \<Longrightarrow>
   length xs = n \<and>
   (\<forall>j<n. xs ! j = None \<or> (\<exists>a. xs ! j = Some a \<and> unat a = (unat (norm_slot i) + j) mod 8))"
proof (induction n arbitrary: s i xs s')
  case 0
  then show ?case by simp
next
  case (Suc n)
  obtain r s1 where r: "run_state alloc s = (r, s1)" by fastforce
  obtain ys s2 where ys: "run_state (alloc_many alloc n) s1 = (ys, s2)" by fastforce
  from Suc.prems(2) r ys have xs: "xs = r # ys" by simp
  from alloc_counter [OF Suc.prems(1) r]
  have c1: "counter s1 0 = Some (norm_slot i + 1)" and r': "r = None \<or> r = Some (norm_slot i)" by auto
  from Suc.IH [OF c1 ys] have len: "length ys = n"
    and IH: "\<And>j. j < n \<Longrightarrow> ys ! j = None \<or>
      (\<exists>a. ys ! j = Some a \<and> unat a = (unat (norm_slot (norm_slot i + 1)) + j) mod 8)" by auto
  have "xs ! j = None \<or> (\<exists>a. xs ! j = Some a \<and> unat a = (unat (norm_slot i) + j) mod 8)"
    if "j < Suc n" for j
  proof (cases j)
    case 0
    with r' xs show ?thesis using norm_slot_less [of i] by auto
  next
    case (Suc j')
    with that have "j' < n" by simp
    from IH [OF this] show ?thesis
      by (auto simp: xs Suc norm_slot_next mod_simps)
  qed
  with len xs show ?case by simp
qed

lemma alloc_many_distinct:
  assumes "counter s 0 = Some i" and "run_state (alloc_many alloc n) s = (xs, s')"
    and "j < k" and "k < n" and "k < j + 8" and "xs ! j = Some a" and "xs ! k = Some b"
  shows "a \<noteq> b"
proof -
  let ?c = "unat (norm_slot i)"
  note all = alloc_many_slots [OF assms(1,2), THEN conjunct2, rule_format]
  have "unat a = (?c + j) mod 8" and "unat b = (?c + k) mod 8"
    using all [of j] all [of k] assms(3,4,6,7) by auto
  moreover have "(?c + j) mod 8 \<noteq> (?c + k) mod 8"
  proof
    assume "(?c + j) mod 8 = (?c + k) mod 8"
    then have "8 dvd (?c + k) - (?c + j)" by (metis mod_eq_dvd_iff_nat assms(3) add_le_mono1 le_refl less_imp_le add_le_mono)
    then have "8 dvd k - j" by simp
    with assms(3,5) show False by (auto dest: dvd_imp_le)
  qed
  ultimately show ?thesis by metis
qed

end

lemmas allocator_simps = case_prod_beta Let_def norm_slot_def [symmetric]

interpretation sb: slot_allocator allocate_string_buffer heap_string_buffer_map_counter
  heap_string_buffer_map empty_string_buffer
  by unfold_locales
    (auto simp: allocate_string_buffer_def helpers_succeed_def allocator_simps
       split: option.splits if_splits)

interpretation pa: slot_allocator allocate_process_t heap_process_t_map_counter
  heap_process_t_map empty_process_t
  by unfold_locales
    (auto simp: allocate_process_t_def helpers_succeed_def allocator_simps
       split: option.splits if_splits)

section \<open>Events\<close>

lemma run_allocate_empty_event:
  "run_state allocate_empty_event s = (r, s') \<Longrightarrow>
   r \<in> {None, Some empty_event_t} \<and>
   rb_reserved s' = rb_reserved s + (if r = None then 0 else 1) \<and>
   rb s' = rb s \<and> global_event_id_counter s' = global_event_id_counter s"
  by (auto simp: allocate_empty_event_def run_ringbuf_reserve case_prod_beta Let_def
      split: if_splits)

lemma allocate_event_result:
  "run_state (allocate_event_with_basic_stats now) s = (r, s') \<Longrightarrow>
   rb_reserved s' = rb_reserved s + (if r = None then 0 else 1) \<and> rb s' = rb s \<and>
   (\<forall>e. r = Some e \<longrightarrow> ev_id e \<noteq> 0 \<and> ev_time e = now
      \<and> e = empty_event_t\<lparr>ev_time := now, ev_id := global_event_id_counter s\<rparr>
      \<and> global_event_id_counter s' = global_event_id_counter s + 1)"
  by (cases "run_state allocate_empty_event s")
    (auto dest!: run_allocate_empty_event
      simp: allocate_event_with_basic_stats_def get_next_event_id_def split: if_splits option.splits)

lemma keeps_allocate_empty_event [frame_intros]:
  "(\<And>g s. f (helper_calls_update g s) = f s) \<Longrightarrow> (\<And>g s. f (errors_update g s) = f s) \<Longrightarrow>
   (\<And>g s. f (temp_error_report_t_update g s) = f s) \<Longrightarrow>
   (\<And>g s. f (rb_reserved_update g s) = f s) \<Longrightarrow> keeps f allocate_empty_event"
  unfolding allocate_empty_event_def by (intro frame_intros) simp_all

lemma keeps_allocate_event [frame_intros]:
  "(\<And>g s. f (helper_calls_update g s) = f s) \<Longrightarrow> (\<And>g s. f (errors_update g s) = f s) \<Longrightarrow>
   (\<And>g s. f (temp_error_report_t_update g s) = f s) \<Longrightarrow>
   (\<And>g s. f (rb_reserved_update g s) = f s) \<Longrightarrow>
   (\<And>g s. f (global_event_id_counter_update g s) = f s) \<Longrightarrow>
   keeps f (allocate_event_with_basic_stats now)"
  unfolding allocate_event_with_basic_stats_def get_next_event_id_def by (intro frame_intros) simp_all

lemma keeps_allocate_process_t [frame_intros]:
  "(\<And>g s. f (helper_calls_update g s) = f s) \<Longrightarrow> (\<And>g s. f (errors_update g s) = f s) \<Longrightarrow>
   (\<And>g s. f (temp_error_report_t_update g s) = f s) \<Longrightarrow>
   (\<And>g s. f (heap_process_t_map_update g s) = f s) \<Longrightarrow>
   (\<And>g s. f (heap_process_t_map_counter_update g s) = f s) \<Longrightarrow> keeps f allocate_process_t"
  unfolding allocate_process_t_def by (intro frame_intros) simp_all

lemma keeps_allocate_string_buffer [frame_intros]:
  "(\<And>g s. f (helper_calls_update g s) = f s) \<Longrightarrow> (\<And>g s. f (errors_update g s) = f s) \<Longrightarrow>
   (\<And>g s. f (temp_error_report_t_update g s) = f s) \<Longrightarrow>
   (\<And>g s. f (heap_string_buffer_map_update g s) = f s) \<Longrightarrow>
   (\<And>g s. f (heap_string_buffer_map_counter_update g s) = f s) \<Longrightarrow> keeps f allocate_string_buffer"
  unfolding allocate_string_buffer_def by (intro frame_intros) simp_all

lemma keeps_allocate_empty_string_utils_ctx [frame_intros]:
  "(\<And>g s. f (helper_calls_update g s) = f s) \<Longrightarrow> (\<And>g s. f (errors_update g s) = f s) \<Longrightarrow>
   (\<And>g s. f (temp_error_report_t_update g s) = f s) \<Longrightarrow>
   (\<And>g s. f (heap_string_utils_ctx_update g s) = f s) \<Longrightarrow> keeps f allocate_empty_string_utils_ctx"
  unfolding allocate_empty_string_utils_ctx_def by (intro frame_intros) simp_all

lemma keeps_store_sctx [frame_intros]:
  "(\<And>g s. f (heap_string_utils_ctx_update g s) = f s) \<Longrightarrow> keeps f (store_sctx c)"
  unfolding store_sctx_def by (intro frame_intros) simp_all

end
