(* ===== verification/String_Utils.thy ===== *)
theory String_Utils
  imports Allocators
begin

text \<open>
  \<^verbatim>\<open>string_utils.bpf.h\<close>: comparison of an event string (the haystack) with a rule string (the
  needle), both copied into the per-CPU context \<^verbatim>\<open>string_utils_ctx\<close>. Lengths are bytes, buffer
  accesses are masked to the buffer size, and the comparison loops run to the needle's
  maximal length. The lemmas relate each routine to the list operation it stands for.
\<close>

section \<open>Operations\<close>

definition string_utils_setup ::
  "bytes \<Rightarrow> bytes \<Rightarrow> u8 \<Rightarrow> u8 \<Rightarrow> nat \<Rightarrow> string_utils_ctx option bpf" where
  "string_utils_setup haystack needle haystack_length needle_length haystack_max_length = do {
     sctx \<leftarrow> allocate_empty_string_utils_ctx;
     case sctx of
       None \<Rightarrow> State_Monad.return None
     | Some c \<Rightarrow> do {
         let c1 = c\<lparr>sc_haystack_max_length := word_of_nat haystack_max_length,
                    sc_haystack_length := haystack_length\<rparr>;
         store_sctx c1;
         ok \<leftarrow> helper_ok;
         if \<not> ok then do { REPORT_ERROR GENERIC_ERROR ''string_utils_setup''; State_Monad.return None }
         else do {
           let c2 = c1\<lparr>sc_haystack := copy_into (sc_haystack c1) haystack_max_length haystack,
                       sc_needle_max_length := word_of_nat MAX_NEEDLE_LENGTH,
                       sc_needle_length := needle_length\<rparr>;
           store_sctx c2;
           ok2 \<leftarrow> helper_ok;
           if \<not> ok2
           then do { REPORT_ERROR GENERIC_ERROR ''string_utils_setup''; State_Monad.return None }
           else do {
             let c3 = c2\<lparr>sc_needle :=
               copy_into (sc_needle c2) (unat (sc_needle_max_length c2)) needle\<rparr>;
             store_sctx c3;
             State_Monad.return (Some c3) } } } }"

function needle_loop :: "string_utils_ctx \<Rightarrow> u8 \<Rightarrow> nat \<Rightarrow> bool" where
  "needle_loop c index k =
     (if k < unat (sc_needle_max_length c)
      then if k = unat (sc_needle_length c) then True
        else if sc_haystack c ! LIMIT_PATH_SIZE (unat index + k) \<noteq> sc_needle c ! LIMIT_PATH_SIZE k
        then False
        else needle_loop c index (Suc k)
      else sc_needle_length c = sc_needle_max_length c)"
  by pat_completeness auto
termination
  by (relation "measure (\<lambda>(c, index, k). unat (sc_needle_max_length c) - k)") auto

definition is_needle_in_haystack_from_index :: "string_utils_ctx \<Rightarrow> u8 \<Rightarrow> bool" where
  "is_needle_in_haystack_from_index c index =
     (if int (unat (sc_needle_length c)) > int (unat (sc_haystack_length c)) - int (unat index)
      then False
      else needle_loop c index 0)"

definition string_exact_match :: "string_utils_ctx \<Rightarrow> bool" where
  "string_exact_match c =
     (if sc_needle_length c \<noteq> sc_haystack_length c then False
      else is_needle_in_haystack_from_index c 0)"

fun string_exact_match_known_length :: "bytes \<Rightarrow> bytes \<Rightarrow> nat \<Rightarrow> bool" where
  "string_exact_match_known_length a b 0 = True"
| "string_exact_match_known_length a b (Suc n) =
     (if hd a \<noteq> hd b then False else string_exact_match_known_length (tl a) (tl b) n)"

function starts_with_loop :: "string_utils_ctx \<Rightarrow> nat \<Rightarrow> bool" where
  "starts_with_loop c i =
     (if i < unat (sc_needle_max_length c)
      then if i \<ge> unat (sc_needle_length c) then True
        else if sc_haystack c ! LIMIT_PATH_SIZE i \<noteq> sc_needle c ! LIMIT_PATH_SIZE i then False
        else starts_with_loop c (Suc i)
      else True)"
  by pat_completeness auto
termination
  by (relation "measure (\<lambda>(c, i). unat (sc_needle_max_length c) - i)") auto

definition starts_with :: "string_utils_ctx \<Rightarrow> bool" where
  "starts_with c =
     (if sc_needle_length c = 0 \<or> sc_needle_length c > sc_haystack_length c
         \<or> sc_needle_length c > sc_needle_max_length c
      then False
      else starts_with_loop c 0)"

definition ends_with :: "string_utils_ctx \<Rightarrow> bool" where
  "ends_with c =
     (if sc_needle_length c = 0 \<or> sc_needle_length c > sc_haystack_length c
         \<or> sc_needle_length c > sc_needle_max_length c
      then False
      else is_needle_in_haystack_from_index c (sc_haystack_length c - sc_needle_length c))"

fun string_length_loop :: "bytes \<Rightarrow> nat \<Rightarrow> u8 \<Rightarrow> u8" where
  "string_length_loop str 0 len = len"
| "string_length_loop str (Suc n) len =
     (if hd str = 0 then len else string_length_loop (tl str) n (len + 1))"

definition string_length :: "bytes \<Rightarrow> u8 \<Rightarrow> u8" where
  "string_length str max_len = string_length_loop str (unat max_len) 0"

declare needle_loop.simps [simp del] starts_with_loop.simps [simp del]

section \<open>The strings of a context\<close>

definition haystack_str :: "string_utils_ctx \<Rightarrow> bytes" where
  "haystack_str c = take (unat (sc_haystack_length c)) (sc_haystack c)"

definition needle_str :: "string_utils_ctx \<Rightarrow> bytes" where
  "needle_str c = take (unat (sc_needle_length c)) (sc_needle c)"

definition wf_sctx :: "string_utils_ctx \<Rightarrow> bool" where
  "wf_sctx c \<longleftrightarrow> length (sc_haystack c) = PATH_MAX \<and> length (sc_needle c) = PATH_MAX"

lemma u8_less [simp]: "unat (x :: u8) < 256"
  using unsigned_less [of x, where ?'a = nat] by simp

lemma u8_le [simp]: "unat (x :: u8) \<le> 256"
  using u8_less [of x] by linarith

lemma length_haystack_str [simp]: "wf_sctx c \<Longrightarrow> length (haystack_str c) = unat (sc_haystack_length c)"
  by (simp add: haystack_str_def wf_sctx_def)

lemma length_needle_str [simp]: "wf_sctx c \<Longrightarrow> length (needle_str c) = unat (sc_needle_length c)"
  by (simp add: needle_str_def wf_sctx_def)

lemma needle_str_Nil: "wf_sctx c \<Longrightarrow> needle_str c = [] \<longleftrightarrow> sc_needle_length c = 0"
  by (metis length_0_conv length_needle_str unsigned_eq_0_iff)

lemma needle_too_long:
  "wf_sctx c \<Longrightarrow>
   sc_needle_length c = 0 \<or> sc_needle_length c > sc_haystack_length c
     \<or> sc_needle_length c > sc_needle_max_length c \<longleftrightarrow>
   needle_str c = [] \<or> length (needle_str c) > length (haystack_str c)
     \<or> \<not> sc_needle_length c \<le> sc_needle_max_length c"
  by (auto simp: needle_str_Nil word_less_nat_alt not_le)

lemma needle_loop_iff:
  assumes "k \<le> unat (sc_needle_length c)"
  shows "needle_loop c index k \<longleftrightarrow>
    unat (sc_needle_length c) \<le> unat (sc_needle_max_length c) \<and>
    (\<forall>i. k \<le> i \<and> i < unat (sc_needle_length c) \<longrightarrow>
       sc_haystack c ! LIMIT_PATH_SIZE (unat index + i) = sc_needle c ! LIMIT_PATH_SIZE i)"
  using assms
proof (induction c index k rule: needle_loop.induct)
  case (1 c index k)
  let ?n = "unat (sc_needle_length c)" and ?m = "unat (sc_needle_max_length c)"
  let ?eq = "\<lambda>i. sc_haystack c ! LIMIT_PATH_SIZE (unat index + i) = sc_needle c ! LIMIT_PATH_SIZE i"
  consider (over) "\<not> k < ?m" | (fin) "k < ?m" "k = ?n" | (diff) "k < ?m" "k \<noteq> ?n" "\<not> ?eq k"
    | (step) "k < ?m" "k \<noteq> ?n" "?eq k" by blast
  then show ?case
  proof cases
    case over
    with "1.prems" have "needle_loop c index k \<longleftrightarrow> ?n = ?m"
      by (simp add: needle_loop.simps [of c index k] word_unat_eq_iff)
    with over "1.prems" show ?thesis by auto
  next
    case fin
    then have "needle_loop c index k" by (subst needle_loop.simps) simp
    with fin show ?thesis by auto
  next
    case diff
    with "1.prems" have "k < ?n" by simp
    with diff show ?thesis by (auto simp: needle_loop.simps [of c index k])
  next
    case step
    with "1.prems" have "Suc k \<le> ?n" by simp
    with step "1.IH" have IH: "needle_loop c index (Suc k) \<longleftrightarrow>
      ?n \<le> ?m \<and> (\<forall>i. Suc k \<le> i \<and> i < ?n \<longrightarrow> ?eq i)" by simp
    have "(\<forall>i. k \<le> i \<and> i < ?n \<longrightarrow> ?eq i) \<longleftrightarrow> (\<forall>i. Suc k \<le> i \<and> i < ?n \<longrightarrow> ?eq i)"
      using step(3) by (metis Suc_leD Suc_leI order_le_less)
    with IH step show ?thesis by (simp add: needle_loop.simps [of c index k])
  qed
qed

lemma needle_from_index_iff:
  assumes "wf_sctx c" and "unat index + unat (sc_needle_length c) \<le> unat (sc_haystack_length c)"
  shows "is_needle_in_haystack_from_index c index \<longleftrightarrow>
    sc_needle_length c \<le> sc_needle_max_length c \<and>
    (\<forall>i<length (needle_str c). haystack_str c ! (unat index + i) = needle_str c ! i)"
proof -
  have bound: "unat index + i < 256" if "i < unat (sc_needle_length c)" for i
    using that assms(2) u8_less [of "sc_haystack_length c"] by linarith
  have eq: "sc_haystack c ! LIMIT_PATH_SIZE (unat index + i) = sc_needle c ! LIMIT_PATH_SIZE i
      \<longleftrightarrow> haystack_str c ! (unat index + i) = needle_str c ! i"
    if "i < unat (sc_needle_length c)" for i
    using that bound [OF that] assms(2) by (simp add: haystack_str_def needle_str_def)
  have "\<not> int (unat (sc_needle_length c)) > int (unat (sc_haystack_length c)) - int (unat index)"
    using assms(2) by linarith
  then show ?thesis
    using assms(1) eq by (simp add: is_needle_in_haystack_from_index_def needle_loop_iff word_le_nat_alt)
qed

lemma string_exact_match_iff:
  assumes "wf_sctx c"
  shows "string_exact_match c \<longleftrightarrow>
    sc_needle_length c \<le> sc_needle_max_length c \<and> haystack_str c = needle_str c"
proof (cases "sc_needle_length c = sc_haystack_length c")
  case True
  with assms have "is_needle_in_haystack_from_index c 0 \<longleftrightarrow>
    sc_needle_length c \<le> sc_needle_max_length c \<and>
    (\<forall>i<length (needle_str c). haystack_str c ! i = needle_str c ! i)"
    using needle_from_index_iff [of c 0] by simp
  with True assms show ?thesis by (auto simp: string_exact_match_def list_eq_iff_nth_eq)
next
  case False
  with assms have "length (haystack_str c) \<noteq> length (needle_str c)"
    by (simp add: word_unat_eq_iff)
  with False show ?thesis by (auto simp: string_exact_match_def)
qed

lemma starts_with_loop_iff:
  assumes "unat (sc_needle_length c) \<le> unat (sc_needle_max_length c)"
  shows "starts_with_loop c i \<longleftrightarrow>
    (\<forall>j. i \<le> j \<and> j < unat (sc_needle_length c) \<longrightarrow>
       sc_haystack c ! LIMIT_PATH_SIZE j = sc_needle c ! LIMIT_PATH_SIZE j)"
  using assms
proof (induction c i rule: starts_with_loop.induct)
  case (1 c i)
  let ?n = "unat (sc_needle_length c)"
  let ?eq = "\<lambda>j. sc_haystack c ! LIMIT_PATH_SIZE j = sc_needle c ! LIMIT_PATH_SIZE j"
  show ?case
  proof (cases "i < ?n \<and> ?eq i")
    case True
    with 1 have "starts_with_loop c i \<longleftrightarrow> (\<forall>j. Suc i \<le> j \<and> j < ?n \<longrightarrow> ?eq j)"
      by (simp add: starts_with_loop.simps [of c i])
    also have "\<dots> \<longleftrightarrow> (\<forall>j. i \<le> j \<and> j < ?n \<longrightarrow> ?eq j)"
      using True by (metis Suc_leD Suc_leI order_le_less)
    finally show ?thesis .
  next
    case False
    with "1.prems" show ?thesis by (auto simp: starts_with_loop.simps [of c i])
  qed
qed

lemma starts_with_iff:
  assumes "wf_sctx c"
  shows "starts_with c \<longleftrightarrow>
    needle_str c \<noteq> [] \<and> sc_needle_length c \<le> sc_needle_max_length c \<and>
    prefix (needle_str c) (haystack_str c)"
proof (cases "sc_needle_length c = 0 \<or> sc_needle_length c > sc_haystack_length c
         \<or> sc_needle_length c > sc_needle_max_length c")
  case True
  with needle_too_long [OF assms] show ?thesis by (auto simp: starts_with_def dest: prefix_length_le)
next
  case False
  then have "needle_str c \<noteq> []" and le: "unat (sc_needle_length c) \<le> unat (sc_haystack_length c)"
    and le': "unat (sc_needle_length c) \<le> unat (sc_needle_max_length c)"
    using assms by (auto simp: word_le_nat_alt not_less needle_str_Nil)
  moreover have "sc_haystack c ! LIMIT_PATH_SIZE j = sc_needle c ! LIMIT_PATH_SIZE j \<longleftrightarrow>
      needle_str c ! j = haystack_str c ! j" if "j < unat (sc_needle_length c)" for j
    using that le less_trans [OF that u8_less] by (auto simp: haystack_str_def needle_str_def)
  then have "(\<forall>j. 0 \<le> j \<and> j < unat (sc_needle_length c) \<longrightarrow>
       sc_haystack c ! LIMIT_PATH_SIZE j = sc_needle c ! LIMIT_PATH_SIZE j)
     \<longleftrightarrow> (\<forall>j<unat (sc_needle_length c). needle_str c ! j = haystack_str c ! j)"
    by auto
  ultimately show ?thesis
    using False assms by (simp add: starts_with_def starts_with_loop_iff prefix_nth_iff word_le_nat_alt)
qed

lemma ends_with_iff:
  assumes "wf_sctx c"
  shows "ends_with c \<longleftrightarrow>
    needle_str c \<noteq> [] \<and> sc_needle_length c \<le> sc_needle_max_length c \<and>
    suffix (needle_str c) (haystack_str c)"
proof (cases "sc_needle_length c = 0 \<or> sc_needle_length c > sc_haystack_length c
         \<or> sc_needle_length c > sc_needle_max_length c")
  case True
  with needle_too_long [OF assms] show ?thesis by (auto simp: ends_with_def dest: suffix_length_le)
next
  case False
  then have ne: "needle_str c \<noteq> []" and le: "sc_needle_length c \<le> sc_haystack_length c"
    using assms by (auto simp: not_less needle_str_Nil)
  then have diff: "unat (sc_haystack_length c - sc_needle_length c) =
      unat (sc_haystack_length c) - unat (sc_needle_length c)"
    by (simp add: unat_sub)
  with le have "unat (sc_haystack_length c - sc_needle_length c) + unat (sc_needle_length c)
      \<le> unat (sc_haystack_length c)" by (simp add: word_le_nat_alt)
  from needle_from_index_iff [OF assms this] ne False le diff assms show ?thesis
    by (simp add: ends_with_def suffix_nth_iff word_le_nat_alt)
qed

section \<open>Length of a C string\<close>

lemma string_length_loop_iff:
  "n \<le> length str \<Longrightarrow> unat len + n < 256 \<Longrightarrow>
   unat (string_length_loop str n len) = unat len + length (takeWhile (\<lambda>c. c \<noteq> 0) (take n str))"
proof (induction str n len rule: string_length_loop.induct)
  case (1 str len)
  then show ?case by simp
next
  case (2 str n len)
  then obtain x xs where str: "str = x # xs" by (cases str) auto
  from 2 have "unat (len + 1) = unat len + 1" by (simp add: unat_word_ariths)
  with 2 str show ?case by simp
qed

lemma string_length_c_string:
  "unat max_len \<le> length str \<Longrightarrow>
   unat (string_length str max_len) = length (takeWhile (\<lambda>c. c \<noteq> 0) (take (unat max_len) str))"
  by (simp add: string_length_def string_length_loop_iff)

lemma string_exact_match_known_length_iff:
  "n \<le> length a \<Longrightarrow> n \<le> length b \<Longrightarrow>
   string_exact_match_known_length a b n \<longleftrightarrow> take n a = take n b"
proof (induction a b n rule: string_exact_match_known_length.induct)
  case (1 a b)
  then show ?case by simp
next
  case (2 a b n)
  then show ?case by (cases a; cases b) auto
qed

end
