(* ===== verification/Dfa.thy ===== *)
theory Dfa
  imports String_Utils
begin

text \<open>
  \<^verbatim>\<open>dfa.bpf.c\<close>: the two table-driven searches of the kernel side. Both run a deterministic
  automaton over the haystack and stop at the first accepting state. The lemmas reduce a search
  to the run of the table over a prefix of the haystack (\<open>dfa_run\<close>): the result is true exactly
  when some non-empty prefix drives the table into an accepting state. What a table accepts is
  the business of the builder that filled it (\<^verbatim>\<open>dfa_builder.cpp\<close>).
\<close>

section \<open>Operations\<close>

text \<open>One transition: the table is left alone when the index is beyond it.\<close>

definition dfa_step :: "flat_2d_dfa_array_t \<Rightarrow> u32 \<Rightarrow> u8 \<Rightarrow> u32" where
  "dfa_step dfa state ch =
     (let c = ucast ch :: u32;
          idx = state * word_of_nat DFA_ALPHABET_SIZE + c
      in if idx < word_of_nat DFA_TOTAL_SIZE then ucast (dfa (unat idx)) else state)"

function kmp_loop :: "flat_2d_dfa_array_t \<Rightarrow> string_utils_ctx \<Rightarrow> u32 \<Rightarrow> nat \<Rightarrow> u32 \<Rightarrow> bool" where
  "kmp_loop dfa c match_state i state =
     (if i < unat (sc_haystack_length c) \<and> i < PATH_MAX
      then let state' = dfa_step dfa state (sc_haystack c ! i)
           in if state' = match_state then True else kmp_loop dfa c match_state (Suc i) state'
      else False)"
  by pat_completeness auto
termination
  by (relation "measure (\<lambda>(dfa, c, match_state, i, state). PATH_MAX - i)") auto

definition kmp_dfa_search :: "ro_env \<Rightarrow> string_utils_ctx \<Rightarrow> bool" where
  "kmp_dfa_search ro c =
     (if sc_needle_length c = 0 \<or> sc_needle_length c > sc_haystack_length c \<or> sc_idx_to_DFA c < 0
      then False
      else case idx_to_DFA_map ro (word_of_int (sc_idx_to_DFA c)) of
        None \<Rightarrow> False
      | Some dfa \<Rightarrow> kmp_loop dfa c (ucast (sc_needle_length c)) 0 0)"

definition string_contains :: "ro_env \<Rightarrow> string_utils_ctx \<Rightarrow> bool" where
  "string_contains ro c = kmp_dfa_search ro c"

definition regex_accepting :: "u64 \<Rightarrow> u32 \<Rightarrow> bool" where
  "regex_accepting accepting_states state \<longleftrightarrow>
     state < word_of_nat MAX_REGEX_DFA_STATES \<and>
     (drop_bit (unat state) accepting_states) AND 1 \<noteq> 0"

function regex_loop :: "flat_2d_dfa_array_t \<Rightarrow> u64 \<Rightarrow> string_utils_ctx \<Rightarrow> nat \<Rightarrow> u32 \<Rightarrow> bool" where
  "regex_loop dfa accepting_states c i state =
     (if i < unat (sc_haystack_length c) \<and> i < PATH_MAX
      then let state' = dfa_step dfa state (sc_haystack c ! i)
           in if regex_accepting accepting_states state' then True
              else regex_loop dfa accepting_states c (Suc i) state'
      else False)"
  by pat_completeness auto
termination
  by (relation "measure (\<lambda>(dfa, accepting_states, c, i, state). PATH_MAX - i)") auto

definition regex_dfa_search :: "ro_env \<Rightarrow> string_utils_ctx \<Rightarrow> bool" where
  "regex_dfa_search ro c =
     (if sc_idx_to_DFA c < 0 then False
      else let dfa_key = word_of_int (sc_idx_to_DFA c) in
        case idx_to_DFA_map ro dfa_key of
          None \<Rightarrow> False
        | Some dfa \<Rightarrow> (case idx_to_accepting_states_map ro dfa_key of
              None \<Rightarrow> False
            | Some accepting_states \<Rightarrow> regex_loop dfa accepting_states c 0 1))"

declare kmp_loop.simps [simp del] regex_loop.simps [simp del]

section \<open>Runs of a table\<close>

definition dfa_run :: "flat_2d_dfa_array_t \<Rightarrow> u32 \<Rightarrow> bytes \<Rightarrow> u32" where
  "dfa_run dfa = foldl (dfa_step dfa)"

lemma dfa_run_simps [simp]:
  "dfa_run dfa q [] = q"
  "dfa_run dfa q (x # xs) = dfa_run dfa (dfa_step dfa q x) xs"
  "dfa_run dfa q (xs @ ys) = dfa_run dfa (dfa_run dfa q xs) ys"
  by (simp_all add: dfa_run_def)

text \<open>
  The common shape of both loops: a search that stops at the first state with a property.
\<close>

fun first_hit :: "flat_2d_dfa_array_t \<Rightarrow> (u32 \<Rightarrow> bool) \<Rightarrow> u32 \<Rightarrow> bytes \<Rightarrow> bool" where
  "first_hit dfa P q [] = False"
| "first_hit dfa P q (x # xs) = (P (dfa_step dfa q x) \<or> first_hit dfa P (dfa_step dfa q x) xs)"

lemma first_hit_iff:
  "first_hit dfa P q xs \<longleftrightarrow> (\<exists>ys. ys \<noteq> [] \<and> prefix ys xs \<and> P (dfa_run dfa q ys))"
proof (induction xs arbitrary: q)
  case Nil
  then show ?case by simp
next
  case (Cons x xs)
  have "(\<exists>ys. ys \<noteq> [] \<and> prefix ys (x # xs) \<and> P (dfa_run dfa q ys)) \<longleftrightarrow>
        (\<exists>ys. prefix ys xs \<and> P (dfa_run dfa (dfa_step dfa q x) ys))"
    by (auto simp: prefix_Cons)
  also have "\<dots> \<longleftrightarrow> P (dfa_step dfa q x) \<or>
        (\<exists>ys. ys \<noteq> [] \<and> prefix ys xs \<and> P (dfa_run dfa (dfa_step dfa q x) ys))"
    by (metis dfa_run_simps(1) Nil_prefix)
  finally show ?case using Cons.IH by simp
qed

lemma drop_haystack:
  "wf_sctx c \<Longrightarrow> i < unat (sc_haystack_length c) \<Longrightarrow>
   drop i (haystack_str c) = sc_haystack c ! i # drop (Suc i) (haystack_str c)"
  using Cons_nth_drop_Suc [of i "haystack_str c"] by (simp add: haystack_str_def wf_sctx_def)

lemma word_of_nat_unat_8_32: "(word_of_nat (unat (x :: u8)) :: u32) = ucast x"
  by (rule word_unat_eq_iff [THEN iffD2]) (simp add: unat_of_nat less_trans [OF u8_less])

lemma kmp_loop_first_hit:
  assumes "wf_sctx c"
  shows "kmp_loop dfa c m i q =
    first_hit dfa (\<lambda>q. q = m) q (drop i (haystack_str c))"
  using assms
proof (induction dfa c m i q rule: kmp_loop.induct)
  case (1 dfa c m i q)
  show ?case
  proof (cases "i < unat (sc_haystack_length c)")
    case True
    then have "i < PATH_MAX" using u8_less [of "sc_haystack_length c"] by linarith
    with True "1.IH" "1.prems" show ?thesis by (simp add: drop_haystack kmp_loop.simps [of dfa c m i q] Let_def)
  next
    case False
    then show ?thesis using "1.prems" by (simp add: kmp_loop.simps [of dfa c m i q])
  qed
qed

lemma regex_loop_first_hit:
  assumes "wf_sctx c"
  shows "regex_loop dfa acc c i q =
    first_hit dfa (regex_accepting acc) q (drop i (haystack_str c))"
  using assms
proof (induction dfa acc c i q rule: regex_loop.induct)
  case (1 dfa acc c i q)
  show ?case
  proof (cases "i < unat (sc_haystack_length c)")
    case True
    then have "i < PATH_MAX" using u8_less [of "sc_haystack_length c"] by linarith
    with True "1.IH" "1.prems" show ?thesis by (simp add: drop_haystack regex_loop.simps [of dfa acc c i q] Let_def)
  next
    case False
    then show ?thesis using "1.prems" by (simp add: regex_loop.simps [of dfa acc c i q])
  qed
qed

lemma kmp_dfa_search_run:
  assumes "wf_sctx c" and "0 \<le> sc_idx_to_DFA c"
    and "idx_to_DFA_map ro (word_of_int (sc_idx_to_DFA c)) = Some dfa"
  shows "kmp_dfa_search ro c \<longleftrightarrow>
    needle_str c \<noteq> [] \<and> length (needle_str c) \<le> length (haystack_str c) \<and>
    (\<exists>ys. ys \<noteq> [] \<and> prefix ys (haystack_str c) \<and>
       dfa_run dfa 0 ys = word_of_nat (length (needle_str c)))"
proof -
  have "(ucast (sc_needle_length c) :: u32) = word_of_nat (length (needle_str c))"
    using assms(1) by (simp add: word_of_nat_unat_8_32)
  then show ?thesis
    using assms by (auto simp: kmp_dfa_search_def kmp_loop_first_hit first_hit_iff needle_str_Nil
        word_less_nat_alt not_less)
qed

lemma regex_dfa_search_run:
  assumes "wf_sctx c" and "0 \<le> sc_idx_to_DFA c"
    and "idx_to_DFA_map ro (word_of_int (sc_idx_to_DFA c)) = Some dfa"
    and "idx_to_accepting_states_map ro (word_of_int (sc_idx_to_DFA c)) = Some acc"
  shows "regex_dfa_search ro c \<longleftrightarrow>
    (\<exists>ys. ys \<noteq> [] \<and> prefix ys (haystack_str c) \<and> regex_accepting acc (dfa_run dfa 1 ys))"
  using assms by (simp add: regex_dfa_search_def Let_def regex_loop_first_hit first_hit_iff)

text \<open>Below the table's size a transition reads the table.\<close>

lemma dfa_step_table:
  assumes "q < DFA_NUM_STATES"
  shows "dfa_step dfa (word_of_nat q) ch = ucast (dfa (q * 256 + unat ch))"
proof -
  have less: "q * 256 + unat ch < 8448" using assms u8_less [of ch] by linarith
  have "word_of_nat q * 256 + ucast ch = (word_of_nat (q * 256 + unat ch) :: u32)"
    by (simp add: word_of_nat_unat_8_32)
  with less have "unat (word_of_nat q * 256 + ucast ch :: u32) = q * 256 + unat ch"
    by (simp add: unat_of_nat del: of_nat_add of_nat_mult)
  with less show ?thesis by (simp add: dfa_step_def Let_def word_less_nat_alt)
qed

end
