(* ===== verification/Fieldref.thy ===== *)
theory Fieldref
  imports Dfa
begin

text \<open>
  \<^verbatim>\<open>event_and_rule_matcher_fieldref_helper.bpf.h\<close>: the value of the field a predicate refers to
  instead of a constant. A numeric field yields the C \<^verbatim>\<open>int\<close> the function returns (kept as its 32
  bits), a string field is copied into the needle of the string context. \<open>field_subject\<close> says
  whose attribute a field is, and the lemmas show that the dispatch over the ninety-one fields
  returns that attribute.
\<close>

section \<open>Operations\<close>

definition get_currently_handled_event :: "event_t option bpf" where
  "get_currently_handled_event = reads (\<lambda>s. currently_handled_event s 0)"

definition fieldref_pred_get_numeric_value_file :: "file_t \<Rightarrow> rule_field_type \<Rightarrow> u32 bpf" where
  "fieldref_pred_get_numeric_value_file file rule_file_field_type = (case rule_file_field_type of
       TARGET_FILE_OWNER_UID \<Rightarrow> State_Monad.return (o_uid (f_owner file))
     | TARGET_FILE_OWNER_GID \<Rightarrow> State_Monad.return (o_gid (f_owner file))
     | TARGET_FILE_MODE \<Rightarrow> State_Monad.return (ucast (f_mode file))
     | TARGET_FILE_SUID \<Rightarrow> State_Monad.return (ucast (f_suid file))
     | TARGET_FILE_SGID \<Rightarrow> State_Monad.return (ucast (f_sgid file))
     | TARGET_FILE_NLINK \<Rightarrow> State_Monad.return (f_nlink file)
     | TARGET_FILE_TYPE \<Rightarrow> State_Monad.return (file_type_value (f_type file))
     | _ \<Rightarrow> do { REPORT_ERROR GENERIC_ERROR ''fieldref_pred_get_numeric_value_file'';
                State_Monad.return 0 })"

definition fieldref_pred_get_numeric_value_process :: "process_t \<Rightarrow> rule_field_type \<Rightarrow> u32 bpf" where
  "fieldref_pred_get_numeric_value_process process field = (case field of
       TARGET_PROCESS_PID \<Rightarrow> State_Monad.return (p_pid process)
     | TARGET_PROCESS_PPID \<Rightarrow> State_Monad.return (p_ppid process)
     | TARGET_PROCESS_RUID \<Rightarrow> State_Monad.return (p_ruid process)
     | TARGET_PROCESS_RGID \<Rightarrow> State_Monad.return (p_rgid process)
     | TARGET_PROCESS_EUID \<Rightarrow> State_Monad.return (p_euid process)
     | TARGET_PROCESS_EGID \<Rightarrow> State_Monad.return (p_egid process)
     | TARGET_PROCESS_SUID \<Rightarrow> State_Monad.return (p_suid process)
     | TARGET_PROCESS_PTRACE_FLAGS \<Rightarrow> State_Monad.return (p_ptrace_flags process)
     | _ \<Rightarrow> fieldref_pred_get_numeric_value_file (p_file process) field)"

definition fieldref_pred_get_numeric_value_target_file ::
  "ro_env \<Rightarrow> event_t \<Rightarrow> rule_field_type \<Rightarrow> u32 bpf" where
  "fieldref_pred_get_numeric_value_target_file ro current_event fieldref = (case ev_type current_event of
       FILE_CREATE \<Rightarrow> fieldref_pred_get_numeric_value_file (fc_file (data_file_create ro current_event)) fieldref
     | MKDIR \<Rightarrow> fieldref_pred_get_numeric_value_file (fc_file (data_file_create ro current_event)) fieldref
     | RMDIR \<Rightarrow> fieldref_pred_get_numeric_value_file (fc_file (data_file_create ro current_event)) fieldref
     | CHOWN \<Rightarrow> fieldref_pred_get_numeric_value_file (chown_file (data_chown ro current_event)) fieldref
     | CHMOD \<Rightarrow> fieldref_pred_get_numeric_value_file (chmod_file (data_chmod ro current_event)) fieldref
     | READ \<Rightarrow> fieldref_pred_get_numeric_value_file (w_file (data_write ro current_event)) fieldref
     | WRITE \<Rightarrow> fieldref_pred_get_numeric_value_file (w_file (data_write ro current_event)) fieldref
     | UNLINK \<Rightarrow> fieldref_pred_get_numeric_value_file (fc_file (data_file_create ro current_event)) fieldref
     | _ \<Rightarrow> do { REPORT_ERROR GENERIC_ERROR ''fieldref_pred_get_numeric_value_target_file''; State_Monad.return 0 })"

definition fieldref_pred_get_numeric_value_target_process ::
  "ro_env \<Rightarrow> event_t \<Rightarrow> rule_field_type \<Rightarrow> u32 bpf" where
  "fieldref_pred_get_numeric_value_target_process ro current_event field = (case ev_type current_event of
       EXEC \<Rightarrow> fieldref_pred_get_numeric_value_process (exec_new_process (data_exec ro current_event)) field
     | _ \<Rightarrow> do { REPORT_ERROR GENERIC_ERROR ''fieldref_pred_get_numeric_value_target_process''; State_Monad.return 0 })"

definition fieldref_pred_get_numeric_value ::
  "ro_env \<Rightarrow> event_t \<Rightarrow> rule_field_type \<Rightarrow> u32 bpf" where
  "fieldref_pred_get_numeric_value ro current_event fieldref = (case fieldref of
       TARGET_FILE_OWNER_UID \<Rightarrow> fieldref_pred_get_numeric_value_target_file ro current_event fieldref
     | TARGET_FILE_OWNER_GID \<Rightarrow> fieldref_pred_get_numeric_value_target_file ro current_event fieldref
     | TARGET_FILE_MODE \<Rightarrow> fieldref_pred_get_numeric_value_target_file ro current_event fieldref
     | TARGET_FILE_SUID \<Rightarrow> fieldref_pred_get_numeric_value_target_file ro current_event fieldref
     | TARGET_FILE_SGID \<Rightarrow> fieldref_pred_get_numeric_value_target_file ro current_event fieldref
     | TARGET_FILE_NLINK \<Rightarrow> fieldref_pred_get_numeric_value_target_file ro current_event fieldref
     | TARGET_FILE_TYPE \<Rightarrow> fieldref_pred_get_numeric_value_target_file ro current_event fieldref
     | TARGET_PROCESS_PID \<Rightarrow> fieldref_pred_get_numeric_value_target_process ro current_event TARGET_PROCESS_PID
     | TARGET_PROCESS_PPID \<Rightarrow> fieldref_pred_get_numeric_value_target_process ro current_event TARGET_PROCESS_PPID
     | TARGET_PROCESS_RUID \<Rightarrow> fieldref_pred_get_numeric_value_target_process ro current_event TARGET_PROCESS_RUID
     | TARGET_PROCESS_RGID \<Rightarrow> fieldref_pred_get_numeric_value_target_process ro current_event TARGET_PROCESS_RGID
     | TARGET_PROCESS_EUID \<Rightarrow> fieldref_pred_get_numeric_value_target_process ro current_event TARGET_PROCESS_EUID
     | TARGET_PROCESS_EGID \<Rightarrow> fieldref_pred_get_numeric_value_target_process ro current_event TARGET_PROCESS_EGID
     | TARGET_PROCESS_SUID \<Rightarrow> fieldref_pred_get_numeric_value_target_process ro current_event TARGET_PROCESS_SUID
     | TARGET_PROCESS_PTRACE_FLAGS \<Rightarrow> fieldref_pred_get_numeric_value_target_process ro current_event TARGET_PROCESS_PTRACE_FLAGS
     | TARGET_PROCESS_FILE_OWNER_UID \<Rightarrow> fieldref_pred_get_numeric_value_target_process ro current_event TARGET_FILE_OWNER_UID
     | TARGET_PROCESS_FILE_OWNER_GID \<Rightarrow> fieldref_pred_get_numeric_value_target_process ro current_event TARGET_FILE_OWNER_GID
     | TARGET_PROCESS_FILE_MODE \<Rightarrow> fieldref_pred_get_numeric_value_target_process ro current_event TARGET_FILE_MODE
     | TARGET_PROCESS_FILE_SUID \<Rightarrow> fieldref_pred_get_numeric_value_target_process ro current_event TARGET_FILE_SUID
     | TARGET_PROCESS_FILE_SGID \<Rightarrow> fieldref_pred_get_numeric_value_target_process ro current_event TARGET_FILE_SGID
     | TARGET_PROCESS_FILE_NLINK \<Rightarrow> fieldref_pred_get_numeric_value_target_process ro current_event TARGET_FILE_NLINK
     | TARGET_PROCESS_FILE_TYPE \<Rightarrow> fieldref_pred_get_numeric_value_target_process ro current_event TARGET_FILE_TYPE
     | PROCESS_PID \<Rightarrow> fieldref_pred_get_numeric_value_process (ev_process current_event) TARGET_PROCESS_PID
     | PROCESS_PPID \<Rightarrow> fieldref_pred_get_numeric_value_process (ev_process current_event) TARGET_PROCESS_PPID
     | PROCESS_RUID \<Rightarrow> fieldref_pred_get_numeric_value_process (ev_process current_event) TARGET_PROCESS_RUID
     | PROCESS_RGID \<Rightarrow> fieldref_pred_get_numeric_value_process (ev_process current_event) TARGET_PROCESS_RGID
     | PROCESS_EUID \<Rightarrow> fieldref_pred_get_numeric_value_process (ev_process current_event) TARGET_PROCESS_EUID
     | PROCESS_EGID \<Rightarrow> fieldref_pred_get_numeric_value_process (ev_process current_event) TARGET_PROCESS_EGID
     | PROCESS_SUID \<Rightarrow> fieldref_pred_get_numeric_value_process (ev_process current_event) TARGET_PROCESS_SUID
     | PROCESS_PTRACE_FLAGS \<Rightarrow> fieldref_pred_get_numeric_value_process (ev_process current_event) TARGET_PROCESS_PTRACE_FLAGS
     | PROCESS_FILE_OWNER_UID \<Rightarrow> fieldref_pred_get_numeric_value_file (p_file (ev_process current_event)) TARGET_FILE_OWNER_UID
     | PROCESS_FILE_OWNER_GID \<Rightarrow> fieldref_pred_get_numeric_value_file (p_file (ev_process current_event)) TARGET_FILE_OWNER_GID
     | PROCESS_FILE_MODE \<Rightarrow> fieldref_pred_get_numeric_value_file (p_file (ev_process current_event)) TARGET_FILE_MODE
     | PROCESS_FILE_SUID \<Rightarrow> fieldref_pred_get_numeric_value_file (p_file (ev_process current_event)) TARGET_FILE_SUID
     | PROCESS_FILE_SGID \<Rightarrow> fieldref_pred_get_numeric_value_file (p_file (ev_process current_event)) TARGET_FILE_SGID
     | PROCESS_FILE_NLINK \<Rightarrow> fieldref_pred_get_numeric_value_file (p_file (ev_process current_event)) TARGET_FILE_NLINK
     | PROCESS_FILE_TYPE \<Rightarrow> fieldref_pred_get_numeric_value_file (p_file (ev_process current_event)) TARGET_FILE_TYPE
     | PARENT_PROCESS_PID \<Rightarrow> fieldref_pred_get_numeric_value_process (ev_parent_process current_event) TARGET_PROCESS_PID
     | PARENT_PROCESS_PPID \<Rightarrow> fieldref_pred_get_numeric_value_process (ev_parent_process current_event) TARGET_PROCESS_PPID
     | PARENT_PROCESS_RUID \<Rightarrow> fieldref_pred_get_numeric_value_process (ev_parent_process current_event) TARGET_PROCESS_RUID
     | PARENT_PROCESS_RGID \<Rightarrow> fieldref_pred_get_numeric_value_process (ev_parent_process current_event) TARGET_PROCESS_RGID
     | PARENT_PROCESS_EUID \<Rightarrow> fieldref_pred_get_numeric_value_process (ev_parent_process current_event) TARGET_PROCESS_EUID
     | PARENT_PROCESS_EGID \<Rightarrow> fieldref_pred_get_numeric_value_process (ev_parent_process current_event) TARGET_PROCESS_EGID
     | PARENT_PROCESS_SUID \<Rightarrow> fieldref_pred_get_numeric_value_process (ev_parent_process current_event) TARGET_PROCESS_SUID
     | PARENT_PROCESS_PTRACE_FLAGS \<Rightarrow> fieldref_pred_get_numeric_value_process (ev_parent_process current_event) TARGET_PROCESS_PTRACE_FLAGS
     | PARENT_PROCESS_FILE_OWNER_UID \<Rightarrow> fieldref_pred_get_numeric_value_file (p_file (ev_parent_process current_event)) TARGET_FILE_OWNER_UID
     | PARENT_PROCESS_FILE_OWNER_GID \<Rightarrow> fieldref_pred_get_numeric_value_file (p_file (ev_parent_process current_event)) TARGET_FILE_OWNER_GID
     | PARENT_PROCESS_FILE_MODE \<Rightarrow> fieldref_pred_get_numeric_value_file (p_file (ev_parent_process current_event)) TARGET_FILE_MODE
     | PARENT_PROCESS_FILE_SUID \<Rightarrow> fieldref_pred_get_numeric_value_file (p_file (ev_parent_process current_event)) TARGET_FILE_SUID
     | PARENT_PROCESS_FILE_SGID \<Rightarrow> fieldref_pred_get_numeric_value_file (p_file (ev_parent_process current_event)) TARGET_FILE_SGID
     | PARENT_PROCESS_FILE_NLINK \<Rightarrow> fieldref_pred_get_numeric_value_file (p_file (ev_parent_process current_event)) TARGET_FILE_NLINK
     | PARENT_PROCESS_FILE_TYPE \<Rightarrow> fieldref_pred_get_numeric_value_file (p_file (ev_parent_process current_event)) TARGET_FILE_TYPE
     | RENAME_SOURCE_FILE_OWNER_UID \<Rightarrow> fieldref_pred_get_numeric_value_file (rn_source_file (data_rename ro current_event)) TARGET_FILE_OWNER_UID
     | RENAME_SOURCE_FILE_OWNER_GID \<Rightarrow> fieldref_pred_get_numeric_value_file (rn_source_file (data_rename ro current_event)) TARGET_FILE_OWNER_GID
     | RENAME_SOURCE_FILE_MODE \<Rightarrow> fieldref_pred_get_numeric_value_file (rn_source_file (data_rename ro current_event)) TARGET_FILE_MODE
     | RENAME_SOURCE_FILE_SUID \<Rightarrow> fieldref_pred_get_numeric_value_file (rn_source_file (data_rename ro current_event)) TARGET_FILE_SUID
     | RENAME_SOURCE_FILE_SGID \<Rightarrow> fieldref_pred_get_numeric_value_file (rn_source_file (data_rename ro current_event)) TARGET_FILE_SGID
     | RENAME_SOURCE_FILE_NLINK \<Rightarrow> fieldref_pred_get_numeric_value_file (rn_source_file (data_rename ro current_event)) TARGET_FILE_NLINK
     | RENAME_SOURCE_FILE_TYPE \<Rightarrow> fieldref_pred_get_numeric_value_file (rn_source_file (data_rename ro current_event)) TARGET_FILE_TYPE
     | RENAME_DESTINATION_FILE_OWNER_UID \<Rightarrow> fieldref_pred_get_numeric_value_file (rn_destination_file (data_rename ro current_event)) TARGET_FILE_OWNER_UID
     | RENAME_DESTINATION_FILE_OWNER_GID \<Rightarrow> fieldref_pred_get_numeric_value_file (rn_destination_file (data_rename ro current_event)) TARGET_FILE_OWNER_GID
     | RENAME_DESTINATION_FILE_MODE \<Rightarrow> fieldref_pred_get_numeric_value_file (rn_destination_file (data_rename ro current_event)) TARGET_FILE_MODE
     | RENAME_DESTINATION_FILE_SUID \<Rightarrow> fieldref_pred_get_numeric_value_file (rn_destination_file (data_rename ro current_event)) TARGET_FILE_SUID
     | RENAME_DESTINATION_FILE_SGID \<Rightarrow> fieldref_pred_get_numeric_value_file (rn_destination_file (data_rename ro current_event)) TARGET_FILE_SGID
     | RENAME_DESTINATION_FILE_NLINK \<Rightarrow> fieldref_pred_get_numeric_value_file (rn_destination_file (data_rename ro current_event)) TARGET_FILE_NLINK
     | RENAME_DESTINATION_FILE_TYPE \<Rightarrow> fieldref_pred_get_numeric_value_file (rn_destination_file (data_rename ro current_event)) TARGET_FILE_TYPE
     | CHMOD_REQUESTED_MODE \<Rightarrow> State_Monad.return (ucast (chmod_requested_mode (data_chmod ro current_event)))
     | NETWORK_SOURCE_PORT \<Rightarrow> State_Monad.return (ucast (n_source_port (data_network ro current_event)))
     | NETWORK_DESTINATION_PORT \<Rightarrow> State_Monad.return (ucast (n_destination_port (data_network ro current_event)))
     | NETWORK_DIRECTION \<Rightarrow> State_Monad.return (n_direction (data_network ro current_event))
     | _ \<Rightarrow> do { REPORT_ERROR GENERIC_ERROR ''fieldref_pred_get_numeric_value''; State_Monad.return 0 })"

text \<open>
  Copying a string field into the needle. The result is the context, or nothing when the
  C function returns \<^verbatim>\<open>FALSE\<close>; the context is also what the per-CPU map holds.
\<close>

definition fill_needle :: "string_utils_ctx \<Rightarrow> u16 \<Rightarrow> nat \<Rightarrow> bytes \<Rightarrow> string_utils_ctx option bpf" where
  "fill_needle sctx len max_len value = do {
     let c = sctx\<lparr>sc_needle_length := ucast len, sc_needle_max_length := word_of_nat max_len\<rparr>;
     store_sctx c;
     ok \<leftarrow> helper_ok;
     if ok then do {
       let c2 = c\<lparr>sc_needle := copy_into (sc_needle c) max_len value\<rparr>;
       store_sctx c2;
       State_Monad.return (Some c2) }
     else State_Monad.return None }"

definition fieldref_pred_fill_needle_file ::
  "string_utils_ctx \<Rightarrow> file_t \<Rightarrow> rule_field_type \<Rightarrow> string_utils_ctx option bpf" where
  "fieldref_pred_fill_needle_file sctx file field = (case field of
       TARGET_FILE_PATH \<Rightarrow>
         fill_needle sctx (pt_length (f_path file)) (PATH_MAX - 1) (pt_value (f_path file))
     | TARGET_FILE_FILENAME \<Rightarrow>
         fill_needle sctx (fn_length (f_filename file)) (FILENAME_MAX_LENGTH - 1) (fn_value (f_filename file))
     | _ \<Rightarrow> do { REPORT_ERROR GENERIC_ERROR ''fieldref_pred_fill_needle_file''; State_Monad.return None })"

definition fieldref_pred_fill_needle_process ::
  "string_utils_ctx \<Rightarrow> process_t \<Rightarrow> rule_field_type \<Rightarrow> string_utils_ctx option bpf" where
  "fieldref_pred_fill_needle_process sctx process field = (case field of
       TARGET_PROCESS_CMD \<Rightarrow>
         fill_needle sctx (c_length (p_cmd process)) (CMD_MAX - 1) (c_value (p_cmd process))
     | TARGET_PROCESS_SHELL_COMMAND \<Rightarrow>
         fill_needle sctx (c_length (p_shell_command process)) (CMD_MAX - 1)
           (c_value (p_shell_command process))
     | _ \<Rightarrow> fieldref_pred_fill_needle_file sctx (p_file process) field)"

definition fieldref_pred_fill_needle_target_file ::
  "ro_env \<Rightarrow> event_t \<Rightarrow> string_utils_ctx \<Rightarrow> rule_field_type \<Rightarrow> string_utils_ctx option bpf" where
  "fieldref_pred_fill_needle_target_file ro current_event sctx fieldref = (case ev_type current_event of
       FILE_CREATE \<Rightarrow> fieldref_pred_fill_needle_file sctx (fc_file (data_file_create ro current_event)) fieldref
     | MKDIR \<Rightarrow> fieldref_pred_fill_needle_file sctx (fc_file (data_file_create ro current_event)) fieldref
     | RMDIR \<Rightarrow> fieldref_pred_fill_needle_file sctx (fc_file (data_file_create ro current_event)) fieldref
     | CHOWN \<Rightarrow> fieldref_pred_fill_needle_file sctx (chown_file (data_chown ro current_event)) fieldref
     | CHMOD \<Rightarrow> fieldref_pred_fill_needle_file sctx (chmod_file (data_chmod ro current_event)) fieldref
     | READ \<Rightarrow> fieldref_pred_fill_needle_file sctx (w_file (data_write ro current_event)) fieldref
     | WRITE \<Rightarrow> fieldref_pred_fill_needle_file sctx (w_file (data_write ro current_event)) fieldref
     | UNLINK \<Rightarrow> fieldref_pred_fill_needle_file sctx (fc_file (data_file_create ro current_event)) fieldref
     | _ \<Rightarrow> do { REPORT_ERROR GENERIC_ERROR ''fieldref_pred_fill_needle_target_file''; State_Monad.return None })"

definition fieldref_pred_fill_needle_target_process ::
  "ro_env \<Rightarrow> event_t \<Rightarrow> string_utils_ctx \<Rightarrow> rule_field_type \<Rightarrow> string_utils_ctx option bpf" where
  "fieldref_pred_fill_needle_target_process ro current_event sctx field = (case ev_type current_event of
       EXEC \<Rightarrow> fieldref_pred_fill_needle_process sctx (exec_new_process (data_exec ro current_event)) field
     | _ \<Rightarrow> do { REPORT_ERROR GENERIC_ERROR ''fieldref_pred_fill_needle_target_process''; State_Monad.return None })"

definition fieldref_pred_fill_needle ::
  "ro_env \<Rightarrow> string_utils_ctx \<Rightarrow> rule_field_type \<Rightarrow> string_utils_ctx option bpf" where
  "fieldref_pred_fill_needle ro sctx fieldref = do {
     ev \<leftarrow> get_currently_handled_event;
     case ev of
       None \<Rightarrow> State_Monad.return None
     | Some current_event \<Rightarrow> (case fieldref of
       TARGET_FILE_PATH \<Rightarrow> fieldref_pred_fill_needle_target_file ro current_event sctx fieldref
     | TARGET_FILE_FILENAME \<Rightarrow> fieldref_pred_fill_needle_target_file ro current_event sctx fieldref
     | TARGET_PROCESS_CMD \<Rightarrow> fieldref_pred_fill_needle_target_process ro current_event sctx TARGET_PROCESS_CMD
     | TARGET_PROCESS_SHELL_COMMAND \<Rightarrow> fieldref_pred_fill_needle_target_process ro current_event sctx TARGET_PROCESS_SHELL_COMMAND
     | TARGET_PROCESS_FILE_PATH \<Rightarrow> fieldref_pred_fill_needle_target_process ro current_event sctx TARGET_FILE_PATH
     | TARGET_PROCESS_FILE_FILENAME \<Rightarrow> fieldref_pred_fill_needle_target_process ro current_event sctx TARGET_FILE_FILENAME
     | PROCESS_CMD \<Rightarrow> fieldref_pred_fill_needle_process sctx (ev_process current_event) TARGET_PROCESS_CMD
     | PROCESS_SHELL_COMMAND \<Rightarrow> fieldref_pred_fill_needle_process sctx (ev_process current_event) TARGET_PROCESS_SHELL_COMMAND
     | PROCESS_FILE_PATH \<Rightarrow> fieldref_pred_fill_needle_file sctx (p_file (ev_process current_event)) TARGET_FILE_PATH
     | PROCESS_FILE_FILENAME \<Rightarrow> fieldref_pred_fill_needle_file sctx (p_file (ev_process current_event)) TARGET_FILE_FILENAME
     | PARENT_PROCESS_CMD \<Rightarrow> fieldref_pred_fill_needle_process sctx (ev_parent_process current_event) TARGET_PROCESS_CMD
     | PARENT_PROCESS_SHELL_COMMAND \<Rightarrow> fieldref_pred_fill_needle_process sctx (ev_parent_process current_event) TARGET_PROCESS_SHELL_COMMAND
     | PARENT_PROCESS_FILE_PATH \<Rightarrow> fieldref_pred_fill_needle_file sctx (p_file (ev_parent_process current_event)) TARGET_FILE_PATH
     | PARENT_PROCESS_FILE_FILENAME \<Rightarrow> fieldref_pred_fill_needle_file sctx (p_file (ev_parent_process current_event)) TARGET_FILE_FILENAME
     | RENAME_SOURCE_FILE_PATH \<Rightarrow> fieldref_pred_fill_needle_file sctx (rn_source_file (data_rename ro current_event)) TARGET_FILE_PATH
     | RENAME_SOURCE_FILE_FILENAME \<Rightarrow> fieldref_pred_fill_needle_file sctx (rn_source_file (data_rename ro current_event)) TARGET_FILE_FILENAME
     | RENAME_DESTINATION_FILE_PATH \<Rightarrow> fieldref_pred_fill_needle_file sctx (rn_destination_file (data_rename ro current_event)) TARGET_FILE_PATH
     | RENAME_DESTINATION_FILE_FILENAME \<Rightarrow> fieldref_pred_fill_needle_file sctx (rn_destination_file (data_rename ro current_event)) TARGET_FILE_FILENAME
     | _ \<Rightarrow> do { REPORT_ERROR GENERIC_ERROR ''fieldref_pred_fill_needle''; State_Monad.return None }) }"

section \<open>What the fields denote\<close>

text \<open>
  A field is an attribute of a subject. Attributes are named by the \<^verbatim>\<open>TARGET_FILE\<close> and
  \<^verbatim>\<open>TARGET_PROCESS\<close> enumerators, as in the sources.
\<close>

datatype subject =
    Target_File
  | Target_Process
  | Event_Process
  | Parent_Process
  | Rename_Source
  | Rename_Destination

definition field_subject :: "rule_field_type \<Rightarrow> (subject \<times> rule_field_type) option" where
  "field_subject field = (case field of
       TARGET_FILE_PATH \<Rightarrow> Some (Target_File, TARGET_FILE_PATH)
     | TARGET_FILE_FILENAME \<Rightarrow> Some (Target_File, TARGET_FILE_FILENAME)
     | TARGET_FILE_OWNER_UID \<Rightarrow> Some (Target_File, TARGET_FILE_OWNER_UID)
     | TARGET_FILE_OWNER_GID \<Rightarrow> Some (Target_File, TARGET_FILE_OWNER_GID)
     | TARGET_FILE_MODE \<Rightarrow> Some (Target_File, TARGET_FILE_MODE)
     | TARGET_FILE_SUID \<Rightarrow> Some (Target_File, TARGET_FILE_SUID)
     | TARGET_FILE_SGID \<Rightarrow> Some (Target_File, TARGET_FILE_SGID)
     | TARGET_FILE_NLINK \<Rightarrow> Some (Target_File, TARGET_FILE_NLINK)
     | TARGET_FILE_TYPE \<Rightarrow> Some (Target_File, TARGET_FILE_TYPE)
     | TARGET_PROCESS_PID \<Rightarrow> Some (Target_Process, TARGET_PROCESS_PID)
     | TARGET_PROCESS_PPID \<Rightarrow> Some (Target_Process, TARGET_PROCESS_PPID)
     | TARGET_PROCESS_RUID \<Rightarrow> Some (Target_Process, TARGET_PROCESS_RUID)
     | TARGET_PROCESS_RGID \<Rightarrow> Some (Target_Process, TARGET_PROCESS_RGID)
     | TARGET_PROCESS_EUID \<Rightarrow> Some (Target_Process, TARGET_PROCESS_EUID)
     | TARGET_PROCESS_EGID \<Rightarrow> Some (Target_Process, TARGET_PROCESS_EGID)
     | TARGET_PROCESS_SUID \<Rightarrow> Some (Target_Process, TARGET_PROCESS_SUID)
     | TARGET_PROCESS_PTRACE_FLAGS \<Rightarrow> Some (Target_Process, TARGET_PROCESS_PTRACE_FLAGS)
     | TARGET_PROCESS_CMD \<Rightarrow> Some (Target_Process, TARGET_PROCESS_CMD)
     | TARGET_PROCESS_SHELL_COMMAND \<Rightarrow> Some (Target_Process, TARGET_PROCESS_SHELL_COMMAND)
     | TARGET_PROCESS_FILE_PATH \<Rightarrow> Some (Target_Process, TARGET_FILE_PATH)
     | TARGET_PROCESS_FILE_FILENAME \<Rightarrow> Some (Target_Process, TARGET_FILE_FILENAME)
     | TARGET_PROCESS_FILE_OWNER_UID \<Rightarrow> Some (Target_Process, TARGET_FILE_OWNER_UID)
     | TARGET_PROCESS_FILE_OWNER_GID \<Rightarrow> Some (Target_Process, TARGET_FILE_OWNER_GID)
     | TARGET_PROCESS_FILE_MODE \<Rightarrow> Some (Target_Process, TARGET_FILE_MODE)
     | TARGET_PROCESS_FILE_SUID \<Rightarrow> Some (Target_Process, TARGET_FILE_SUID)
     | TARGET_PROCESS_FILE_SGID \<Rightarrow> Some (Target_Process, TARGET_FILE_SGID)
     | TARGET_PROCESS_FILE_NLINK \<Rightarrow> Some (Target_Process, TARGET_FILE_NLINK)
     | TARGET_PROCESS_FILE_TYPE \<Rightarrow> Some (Target_Process, TARGET_FILE_TYPE)
     | PROCESS_PID \<Rightarrow> Some (Event_Process, TARGET_PROCESS_PID)
     | PROCESS_PPID \<Rightarrow> Some (Event_Process, TARGET_PROCESS_PPID)
     | PROCESS_RUID \<Rightarrow> Some (Event_Process, TARGET_PROCESS_RUID)
     | PROCESS_RGID \<Rightarrow> Some (Event_Process, TARGET_PROCESS_RGID)
     | PROCESS_EUID \<Rightarrow> Some (Event_Process, TARGET_PROCESS_EUID)
     | PROCESS_EGID \<Rightarrow> Some (Event_Process, TARGET_PROCESS_EGID)
     | PROCESS_SUID \<Rightarrow> Some (Event_Process, TARGET_PROCESS_SUID)
     | PROCESS_PTRACE_FLAGS \<Rightarrow> Some (Event_Process, TARGET_PROCESS_PTRACE_FLAGS)
     | PROCESS_CMD \<Rightarrow> Some (Event_Process, TARGET_PROCESS_CMD)
     | PROCESS_SHELL_COMMAND \<Rightarrow> Some (Event_Process, TARGET_PROCESS_SHELL_COMMAND)
     | PROCESS_FILE_PATH \<Rightarrow> Some (Event_Process, TARGET_FILE_PATH)
     | PROCESS_FILE_FILENAME \<Rightarrow> Some (Event_Process, TARGET_FILE_FILENAME)
     | PROCESS_FILE_OWNER_UID \<Rightarrow> Some (Event_Process, TARGET_FILE_OWNER_UID)
     | PROCESS_FILE_OWNER_GID \<Rightarrow> Some (Event_Process, TARGET_FILE_OWNER_GID)
     | PROCESS_FILE_MODE \<Rightarrow> Some (Event_Process, TARGET_FILE_MODE)
     | PROCESS_FILE_SUID \<Rightarrow> Some (Event_Process, TARGET_FILE_SUID)
     | PROCESS_FILE_SGID \<Rightarrow> Some (Event_Process, TARGET_FILE_SGID)
     | PROCESS_FILE_NLINK \<Rightarrow> Some (Event_Process, TARGET_FILE_NLINK)
     | PROCESS_FILE_TYPE \<Rightarrow> Some (Event_Process, TARGET_FILE_TYPE)
     | PARENT_PROCESS_PID \<Rightarrow> Some (Parent_Process, TARGET_PROCESS_PID)
     | PARENT_PROCESS_PPID \<Rightarrow> Some (Parent_Process, TARGET_PROCESS_PPID)
     | PARENT_PROCESS_RUID \<Rightarrow> Some (Parent_Process, TARGET_PROCESS_RUID)
     | PARENT_PROCESS_RGID \<Rightarrow> Some (Parent_Process, TARGET_PROCESS_RGID)
     | PARENT_PROCESS_EUID \<Rightarrow> Some (Parent_Process, TARGET_PROCESS_EUID)
     | PARENT_PROCESS_EGID \<Rightarrow> Some (Parent_Process, TARGET_PROCESS_EGID)
     | PARENT_PROCESS_SUID \<Rightarrow> Some (Parent_Process, TARGET_PROCESS_SUID)
     | PARENT_PROCESS_PTRACE_FLAGS \<Rightarrow> Some (Parent_Process, TARGET_PROCESS_PTRACE_FLAGS)
     | PARENT_PROCESS_CMD \<Rightarrow> Some (Parent_Process, TARGET_PROCESS_CMD)
     | PARENT_PROCESS_SHELL_COMMAND \<Rightarrow> Some (Parent_Process, TARGET_PROCESS_SHELL_COMMAND)
     | PARENT_PROCESS_FILE_PATH \<Rightarrow> Some (Parent_Process, TARGET_FILE_PATH)
     | PARENT_PROCESS_FILE_FILENAME \<Rightarrow> Some (Parent_Process, TARGET_FILE_FILENAME)
     | PARENT_PROCESS_FILE_OWNER_UID \<Rightarrow> Some (Parent_Process, TARGET_FILE_OWNER_UID)
     | PARENT_PROCESS_FILE_OWNER_GID \<Rightarrow> Some (Parent_Process, TARGET_FILE_OWNER_GID)
     | PARENT_PROCESS_FILE_MODE \<Rightarrow> Some (Parent_Process, TARGET_FILE_MODE)
     | PARENT_PROCESS_FILE_SUID \<Rightarrow> Some (Parent_Process, TARGET_FILE_SUID)
     | PARENT_PROCESS_FILE_SGID \<Rightarrow> Some (Parent_Process, TARGET_FILE_SGID)
     | PARENT_PROCESS_FILE_NLINK \<Rightarrow> Some (Parent_Process, TARGET_FILE_NLINK)
     | PARENT_PROCESS_FILE_TYPE \<Rightarrow> Some (Parent_Process, TARGET_FILE_TYPE)
     | RENAME_SOURCE_FILE_PATH \<Rightarrow> Some (Rename_Source, TARGET_FILE_PATH)
     | RENAME_SOURCE_FILE_FILENAME \<Rightarrow> Some (Rename_Source, TARGET_FILE_FILENAME)
     | RENAME_SOURCE_FILE_OWNER_UID \<Rightarrow> Some (Rename_Source, TARGET_FILE_OWNER_UID)
     | RENAME_SOURCE_FILE_OWNER_GID \<Rightarrow> Some (Rename_Source, TARGET_FILE_OWNER_GID)
     | RENAME_SOURCE_FILE_MODE \<Rightarrow> Some (Rename_Source, TARGET_FILE_MODE)
     | RENAME_SOURCE_FILE_SUID \<Rightarrow> Some (Rename_Source, TARGET_FILE_SUID)
     | RENAME_SOURCE_FILE_SGID \<Rightarrow> Some (Rename_Source, TARGET_FILE_SGID)
     | RENAME_SOURCE_FILE_NLINK \<Rightarrow> Some (Rename_Source, TARGET_FILE_NLINK)
     | RENAME_SOURCE_FILE_TYPE \<Rightarrow> Some (Rename_Source, TARGET_FILE_TYPE)
     | RENAME_DESTINATION_FILE_PATH \<Rightarrow> Some (Rename_Destination, TARGET_FILE_PATH)
     | RENAME_DESTINATION_FILE_FILENAME \<Rightarrow> Some (Rename_Destination, TARGET_FILE_FILENAME)
     | RENAME_DESTINATION_FILE_OWNER_UID \<Rightarrow> Some (Rename_Destination, TARGET_FILE_OWNER_UID)
     | RENAME_DESTINATION_FILE_OWNER_GID \<Rightarrow> Some (Rename_Destination, TARGET_FILE_OWNER_GID)
     | RENAME_DESTINATION_FILE_MODE \<Rightarrow> Some (Rename_Destination, TARGET_FILE_MODE)
     | RENAME_DESTINATION_FILE_SUID \<Rightarrow> Some (Rename_Destination, TARGET_FILE_SUID)
     | RENAME_DESTINATION_FILE_SGID \<Rightarrow> Some (Rename_Destination, TARGET_FILE_SGID)
     | RENAME_DESTINATION_FILE_NLINK \<Rightarrow> Some (Rename_Destination, TARGET_FILE_NLINK)
     | RENAME_DESTINATION_FILE_TYPE \<Rightarrow> Some (Rename_Destination, TARGET_FILE_TYPE)
     | _ \<Rightarrow> None)"

text \<open>The file an event acts on, for the event types that have one.\<close>

definition target_file :: "ro_env \<Rightarrow> event_t \<Rightarrow> file_t option" where
  "target_file ro e = (case ev_type e of
       FILE_CREATE \<Rightarrow> Some (fc_file (data_file_create ro e))
     | MKDIR \<Rightarrow> Some (fc_file (data_file_create ro e))
     | RMDIR \<Rightarrow> Some (fc_file (data_file_create ro e))
     | UNLINK \<Rightarrow> Some (fc_file (data_file_create ro e))
     | CHOWN \<Rightarrow> Some (chown_file (data_chown ro e))
     | CHMOD \<Rightarrow> Some (chmod_file (data_chmod ro e))
     | READ \<Rightarrow> Some (w_file (data_write ro e))
     | WRITE \<Rightarrow> Some (w_file (data_write ro e))
     | _ \<Rightarrow> None)"

text \<open>The process whose attributes a subject has, and the file when it is no process.\<close>

definition subject_process :: "ro_env \<Rightarrow> event_t \<Rightarrow> subject \<Rightarrow> process_t option" where
  "subject_process ro e subj = (case subj of
       Target_Process \<Rightarrow>
         if ev_type e = EXEC then Some (exec_new_process (data_exec ro e)) else None
     | Event_Process \<Rightarrow> Some (ev_process e)
     | Parent_Process \<Rightarrow> Some (ev_parent_process e)
     | _ \<Rightarrow> None)"

definition subject_file :: "ro_env \<Rightarrow> event_t \<Rightarrow> subject \<Rightarrow> file_t option" where
  "subject_file ro e subj = (case subj of
       Target_File \<Rightarrow> target_file ro e
     | Rename_Source \<Rightarrow> Some (rn_source_file (data_rename ro e))
     | Rename_Destination \<Rightarrow> Some (rn_destination_file (data_rename ro e))
     | _ \<Rightarrow> map_option p_file (subject_process ro e subj))"

definition file_numeric :: "rule_field_type \<Rightarrow> file_t \<Rightarrow> u32 option" where
  "file_numeric a file = (case a of
       TARGET_FILE_OWNER_UID \<Rightarrow> Some (o_uid (f_owner file))
     | TARGET_FILE_OWNER_GID \<Rightarrow> Some (o_gid (f_owner file))
     | TARGET_FILE_MODE \<Rightarrow> Some (ucast (f_mode file))
     | TARGET_FILE_SUID \<Rightarrow> Some (ucast (f_suid file))
     | TARGET_FILE_SGID \<Rightarrow> Some (ucast (f_sgid file))
     | TARGET_FILE_NLINK \<Rightarrow> Some (f_nlink file)
     | TARGET_FILE_TYPE \<Rightarrow> Some (file_type_value (f_type file))
     | _ \<Rightarrow> None)"

definition process_numeric :: "rule_field_type \<Rightarrow> process_t \<Rightarrow> u32 option" where
  "process_numeric a process = (case a of
       TARGET_PROCESS_PID \<Rightarrow> Some (p_pid process)
     | TARGET_PROCESS_PPID \<Rightarrow> Some (p_ppid process)
     | TARGET_PROCESS_RUID \<Rightarrow> Some (p_ruid process)
     | TARGET_PROCESS_RGID \<Rightarrow> Some (p_rgid process)
     | TARGET_PROCESS_EUID \<Rightarrow> Some (p_euid process)
     | TARGET_PROCESS_EGID \<Rightarrow> Some (p_egid process)
     | TARGET_PROCESS_SUID \<Rightarrow> Some (p_suid process)
     | TARGET_PROCESS_PTRACE_FLAGS \<Rightarrow> Some (p_ptrace_flags process)
     | _ \<Rightarrow> None)"

text \<open>A string attribute: its recorded length, the size of its buffer less one, its buffer.\<close>

definition file_string :: "rule_field_type \<Rightarrow> file_t \<Rightarrow> (u16 \<times> nat \<times> bytes) option" where
  "file_string a file = (case a of
       TARGET_FILE_PATH \<Rightarrow> Some (pt_length (f_path file), PATH_MAX - 1, pt_value (f_path file))
     | TARGET_FILE_FILENAME \<Rightarrow>
         Some (fn_length (f_filename file), FILENAME_MAX_LENGTH - 1, fn_value (f_filename file))
     | _ \<Rightarrow> None)"

definition process_string :: "rule_field_type \<Rightarrow> process_t \<Rightarrow> (u16 \<times> nat \<times> bytes) option" where
  "process_string a process = (case a of
       TARGET_PROCESS_CMD \<Rightarrow> Some (c_length (p_cmd process), CMD_MAX - 1, c_value (p_cmd process))
     | TARGET_PROCESS_SHELL_COMMAND \<Rightarrow>
         Some (c_length (p_shell_command process), CMD_MAX - 1, c_value (p_shell_command process))
     | _ \<Rightarrow> None)"

text \<open>
  \<open>attribute_of\<close> reads an attribute of a subject: a process attribute of the subject's process
  or a file attribute of its file.
\<close>

definition attribute_of ::
  "(rule_field_type \<Rightarrow> process_t \<Rightarrow> 'v option) \<Rightarrow> (rule_field_type \<Rightarrow> file_t \<Rightarrow> 'v option) \<Rightarrow>
   ro_env \<Rightarrow> event_t \<Rightarrow> rule_field_type \<Rightarrow> 'v option" where
  "attribute_of of_process of_file ro e field = (case field_subject field of
       None \<Rightarrow> None
     | Some (subj, a) \<Rightarrow>
         (case Option.bind (subject_process ro e subj) (of_process a) of
            Some v \<Rightarrow> Some v
          | None \<Rightarrow> Option.bind (subject_file ro e subj) (of_file a)))"

definition field_string :: "ro_env \<Rightarrow> event_t \<Rightarrow> rule_field_type \<Rightarrow> (u16 \<times> nat \<times> bytes) option" where
  "field_string = attribute_of process_string file_string"

definition field_numeric :: "ro_env \<Rightarrow> event_t \<Rightarrow> rule_field_type \<Rightarrow> u32 option" where
  "field_numeric ro e field = (case field of
       CHMOD_REQUESTED_MODE \<Rightarrow> Some (ucast (chmod_requested_mode (data_chmod ro e)))
     | NETWORK_SOURCE_PORT \<Rightarrow> Some (ucast (n_source_port (data_network ro e)))
     | NETWORK_DESTINATION_PORT \<Rightarrow> Some (ucast (n_destination_port (data_network ro e)))
     | NETWORK_DIRECTION \<Rightarrow> Some (n_direction (data_network ro e))
     | _ \<Rightarrow> attribute_of process_numeric file_numeric ro e field)"

section \<open>The dispatch returns the denoted value\<close>

lemmas field_defs = field_subject_def attribute_of_def subject_process_def subject_file_def
  target_file_def file_numeric_def process_numeric_def file_string_def process_string_def

lemma numeric_value_file:
  "fst (run_state (fieldref_pred_get_numeric_value_file file a) s) =
     (case file_numeric a file of None \<Rightarrow> 0 | Some v \<Rightarrow> v)"
  by (cases a) (simp_all add: fieldref_pred_get_numeric_value_file_def file_numeric_def case_prod_beta)

lemma numeric_value_process:
  "fst (run_state (fieldref_pred_get_numeric_value_process process a) s) =
     (case process_numeric a process of
        Some v \<Rightarrow> v | None \<Rightarrow> (case file_numeric a (p_file process) of None \<Rightarrow> 0 | Some v \<Rightarrow> v))"
  by (cases a) (simp_all add: fieldref_pred_get_numeric_value_process_def process_numeric_def
      numeric_value_file)

lemma numeric_value_target_file:
  "fst (run_state (fieldref_pred_get_numeric_value_target_file ro e a) s) =
     (case Option.bind (target_file ro e) (file_numeric a) of None \<Rightarrow> 0 | Some v \<Rightarrow> v)"
  by (cases "ev_type e") (simp_all add: fieldref_pred_get_numeric_value_target_file_def
      target_file_def numeric_value_file case_prod_beta)

lemma numeric_value_target_process:
  "fst (run_state (fieldref_pred_get_numeric_value_target_process ro e a) s) =
     (case subject_process ro e Target_Process of None \<Rightarrow> 0
      | Some process \<Rightarrow> (case process_numeric a process of
        Some v \<Rightarrow> v | None \<Rightarrow> (case file_numeric a (p_file process) of None \<Rightarrow> 0 | Some v \<Rightarrow> v)))"
  by (cases "ev_type e") (simp_all add: fieldref_pred_get_numeric_value_target_process_def
      subject_process_def numeric_value_process case_prod_beta)

lemmas numeric_values = numeric_value_file numeric_value_process numeric_value_target_file
  numeric_value_target_process

lemma fieldref_numeric_value:
  "fst (run_state (fieldref_pred_get_numeric_value ro e field) s) =
     (case field_numeric ro e field of None \<Rightarrow> 0 | Some v \<Rightarrow> v)"
  by (cases field)
    (simp_all add: fieldref_pred_get_numeric_value_def field_numeric_def attribute_of_def
      field_subject_def numeric_values subject_file_def subject_process_def file_numeric_def
      process_numeric_def case_prod_beta split: option.splits,
     auto simp: file_numeric_def Option.bind_eq_Some_conv)

text \<open>The context after the needle has been filled.\<close>

definition filled_needle :: "string_utils_ctx \<Rightarrow> (u16 \<times> nat \<times> bytes) \<Rightarrow> string_utils_ctx" where
  "filled_needle c = (\<lambda>(len, max_len, value).
     c\<lparr>sc_needle_length := ucast len, sc_needle_max_length := word_of_nat max_len,
       sc_needle := copy_into (sc_needle c) max_len value\<rparr>)"

lemma run_fill_needle:
  "fst (run_state (fill_needle c len max_len value) s) =
     (if helper_outcome s (helper_calls s) then Some (filled_needle c (len, max_len, value)) else None)"
  by (simp add: fill_needle_def filled_needle_def Let_def)

lemma fill_needle_file:
  "helpers_succeed s \<Longrightarrow>
   fst (run_state (fieldref_pred_fill_needle_file c file a) s) =
     map_option (filled_needle c) (file_string a file)"
  by (cases a) (simp_all add: fieldref_pred_fill_needle_file_def file_string_def run_fill_needle
      helpers_succeed_def case_prod_beta)

lemma fill_needle_process:
  "helpers_succeed s \<Longrightarrow>
   fst (run_state (fieldref_pred_fill_needle_process c process a) s) =
     (case process_string a process of
        Some v \<Rightarrow> Some (filled_needle c v) | None \<Rightarrow> map_option (filled_needle c) (file_string a (p_file process)))"
  by (cases a) (simp_all add: fieldref_pred_fill_needle_process_def process_string_def run_fill_needle
      fill_needle_file, simp_all add: helpers_succeed_def)

lemma fill_needle_target_file:
  "helpers_succeed s \<Longrightarrow>
   fst (run_state (fieldref_pred_fill_needle_target_file ro e c a) s) =
     map_option (filled_needle c) (Option.bind (target_file ro e) (file_string a))"
  by (cases "ev_type e") (simp_all add: fieldref_pred_fill_needle_target_file_def
      target_file_def fill_needle_file case_prod_beta)

lemma fill_needle_target_process:
  "helpers_succeed s \<Longrightarrow>
   fst (run_state (fieldref_pred_fill_needle_target_process ro e c a) s) =
     (case subject_process ro e Target_Process of None \<Rightarrow> None
      | Some process \<Rightarrow> (case process_string a process of
        Some v \<Rightarrow> Some (filled_needle c v) | None \<Rightarrow> map_option (filled_needle c) (file_string a (p_file process))))"
  by (cases "ev_type e") (simp_all add: fieldref_pred_fill_needle_target_process_def
      subject_process_def fill_needle_process case_prod_beta)

lemmas fill_needles = fill_needle_file fill_needle_process fill_needle_target_file
  fill_needle_target_process

lemma fieldref_fill_needle:
  assumes "helpers_succeed s" and "currently_handled_event s 0 = Some e"
  shows "fst (run_state (fieldref_pred_fill_needle ro c field) s) =
     map_option (filled_needle c) (field_string ro e field)"
  using assms
  by (cases field)
    (simp_all add: fieldref_pred_fill_needle_def get_currently_handled_event_def field_string_def
      attribute_of_def field_subject_def fill_needles subject_file_def subject_process_def
      file_string_def process_string_def case_prod_beta split: option.splits,
     auto simp: file_string_def Option.bind_eq_None_conv)

section \<open>Frames\<close>

text \<open>
  Reading a numeric field changes nothing but the report buffers; filling the needle changes the
  string context besides, whose slot stays allocated.
\<close>

definition sctx_stable :: "(bpf_state \<Rightarrow> bool) \<Rightarrow> bool" where
  "sctx_stable P \<longleftrightarrow> report_free P \<and>
     (\<forall>s c. P s \<longrightarrow> P (heap_string_utils_ctx_update (\<lambda>m. m(0 \<mapsto> c)) s))"

lemma sctx_stableI [frame_intros]:
  "report_free P \<Longrightarrow> (\<And>s c. P s \<Longrightarrow> P (heap_string_utils_ctx_update (\<lambda>m. m(0 \<mapsto> c)) s)) \<Longrightarrow>
   sctx_stable P"
  by (simp add: sctx_stable_def)

declare keeps_return [frame_simps] preserves_return [frame_simps] report_freeI [frame_intros]

lemma keeps_report_then [frame_simps]:
  "report_free f \<Longrightarrow> keeps f (do { REPORT_ERROR c l; State_Monad.return x })"
  by (intro keeps_bind keeps_return report_frame)

lemma stable_keeps: "sctx_stable P \<Longrightarrow> (report_free P \<Longrightarrow> keeps P m) \<Longrightarrow> preserves P m"
  by (simp add: sctx_stable_def keeps_preserves)

lemma stable_report [frame_intros]: "sctx_stable P \<Longrightarrow> preserves P (REPORT_ERROR c l)"
  by (erule stable_keeps) (rule report_frame)

lemma stable_report_then [frame_simps]:
  "sctx_stable P \<Longrightarrow> preserves P (do { REPORT_ERROR c l; State_Monad.return x })"
  by (erule stable_keeps) (rule keeps_report_then)

lemma stable_helper_ok [frame_intros]: "sctx_stable P \<Longrightarrow> preserves P helper_ok"
  by (erule stable_keeps) (auto simp: keeps_def report_free_def)

lemma stable_store_sctx [frame_intros]: "sctx_stable P \<Longrightarrow> preserves P (store_sctx c)"
  unfolding store_sctx_def by (intro frame_intros) (simp add: sctx_stable_def)

lemma stable_allocate_sctx [frame_intros]:
  "sctx_stable P \<Longrightarrow> preserves P allocate_empty_string_utils_ctx"
  unfolding allocate_empty_string_utils_ctx_def
  by (intro preserves_bind preserves_reads preserves_case_option preserves_if preserves_return
      preserves_update stable_report stable_helper_ok) (auto simp: sctx_stable_def)

lemma stable_fill_needle [frame_simps]: "sctx_stable P \<Longrightarrow> preserves P (fill_needle c l m v)"
  unfolding fill_needle_def
  by (intro preserves_bind preserves_Let preserves_if preserves_return stable_store_sctx
      stable_helper_ok)

lemma keeps_numeric_file [frame_simps]:
  "report_free f \<Longrightarrow> keeps f (fieldref_pred_get_numeric_value_file file a)"
  unfolding fieldref_pred_get_numeric_value_file_def
  by (cases a) (simp_all only: rule_field_type.case frame_simps)

lemma keeps_numeric_process [frame_simps]:
  "report_free f \<Longrightarrow> keeps f (fieldref_pred_get_numeric_value_process process a)"
  unfolding fieldref_pred_get_numeric_value_process_def
  by (cases a) (simp_all only: rule_field_type.case frame_simps)

lemma keeps_numeric_target_file [frame_simps]:
  "report_free f \<Longrightarrow> keeps f (fieldref_pred_get_numeric_value_target_file ro e a)"
  unfolding fieldref_pred_get_numeric_value_target_file_def
  by (cases "ev_type e") (simp_all only: event_type.case frame_simps)

lemma keeps_numeric_target_process [frame_simps]:
  "report_free f \<Longrightarrow> keeps f (fieldref_pred_get_numeric_value_target_process ro e a)"
  unfolding fieldref_pred_get_numeric_value_target_process_def
  by (cases "ev_type e") (simp_all only: event_type.case frame_simps)

lemma keeps_numeric_value [frame_simps]:
  "report_free f \<Longrightarrow> keeps f (fieldref_pred_get_numeric_value ro e a)"
  unfolding fieldref_pred_get_numeric_value_def
  by (cases a) (simp_all only: rule_field_type.case frame_simps)

lemma stable_fill_needle_file [frame_simps]:
  "sctx_stable P \<Longrightarrow> preserves P (fieldref_pred_fill_needle_file c file a)"
  unfolding fieldref_pred_fill_needle_file_def
  by (cases a) (simp_all only: rule_field_type.case frame_simps)

lemma stable_fill_needle_process [frame_simps]:
  "sctx_stable P \<Longrightarrow> preserves P (fieldref_pred_fill_needle_process c process a)"
  unfolding fieldref_pred_fill_needle_process_def
  by (cases a) (simp_all only: rule_field_type.case frame_simps)

lemma stable_fill_needle_target_file [frame_simps]:
  "sctx_stable P \<Longrightarrow> preserves P (fieldref_pred_fill_needle_target_file ro e c a)"
  unfolding fieldref_pred_fill_needle_target_file_def
  by (cases "ev_type e") (simp_all only: event_type.case frame_simps)

lemma stable_fill_needle_target_process [frame_simps]:
  "sctx_stable P \<Longrightarrow> preserves P (fieldref_pred_fill_needle_target_process ro e c a)"
  unfolding fieldref_pred_fill_needle_target_process_def
  by (cases "ev_type e") (simp_all only: event_type.case frame_simps)

lemma stable_fieldref_fill_needle: "sctx_stable P \<Longrightarrow> preserves P (fieldref_pred_fill_needle ro c a)"
  unfolding fieldref_pred_fill_needle_def get_currently_handled_event_def
  by (intro preserves_bind preserves_reads preserves_case_option preserves_return, cases a)
    (simp_all only: rule_field_type.case frame_simps)

declare keeps_numeric_value [frame_intros] stable_fieldref_fill_needle [frame_intros]

end
