(* ===== verification/Kmp_Builder.thy ===== *)
theory Kmp_Builder
  imports Dfa "HOL-Library.While_Combinator"
begin

text \<open>
  \<^verbatim>\<open>DfaBuilder::buildKmpDfa\<close> of \<^verbatim>\<open>dfa_builder.cpp\<close>, which userspace runs for every string of a
  \<^verbatim>\<open>contains\<close> predicate, and the proof that the table it fills makes the kernel-side search
  \<^verbatim>\<open>kmp_dfa_search\<close> a substring test. The reference notion is \<open>longest p x\<close>, the length of the
  longest prefix of the pattern that is a suffix of the text read so far.
\<close>

section \<open>The builder\<close>

text \<open>The inner \<^verbatim>\<open>while\<close> loop and the test that follows it, for position \<open>i\<close> of the pattern.\<close>

definition failure_step :: "bytes \<Rightarrow> nat list \<Rightarrow> nat \<Rightarrow> nat \<Rightarrow> nat" where
  "failure_step pattern failure i k =
     (let k' = while (\<lambda>k. k > 0 \<and> pattern ! k \<noteq> pattern ! i) (\<lambda>k. failure ! (k - 1)) k
      in if pattern ! k' = pattern ! i then k' + 1 else k')"

definition failure_function :: "bytes \<Rightarrow> nat list" where
  "failure_function pattern =
     snd (fold (\<lambda>i (k, failure). let k' = failure_step pattern failure i k in (k', failure[i := k']))
       [1..<length pattern] (0, replicate (length pattern) 0))"

definition kmp_entry ::
  "bytes \<Rightarrow> nat list \<Rightarrow> nat \<Rightarrow> nat \<Rightarrow> flat_2d_dfa_array_t \<Rightarrow> u8" where
  "kmp_entry pattern failure state c dfa =
     (if state < length pattern \<and> unat (pattern ! state) = c then word_of_nat (state + 1)
      else if state = 0 then 0
      else dfa (failure ! (state - 1) * DFA_ALPHABET_SIZE + c))"

definition kmp_row :: "bytes \<Rightarrow> nat list \<Rightarrow> nat \<Rightarrow> flat_2d_dfa_array_t \<Rightarrow> flat_2d_dfa_array_t" where
  "kmp_row pattern failure state dfa =
     fold (\<lambda>c d. d(state * DFA_ALPHABET_SIZE + c := kmp_entry pattern failure state c d)) [0..<256] dfa"

definition buildKmpDfa :: "bytes \<Rightarrow> flat_2d_dfa_array_t" where
  "buildKmpDfa pattern =
     fold (kmp_row pattern (failure_function pattern)) [0..<length pattern + 1] (\<lambda>_. 0)"

section \<open>The longest matched prefix\<close>

definition cand :: "bytes \<Rightarrow> bytes \<Rightarrow> nat \<Rightarrow> bool" where
  "cand p x k \<longleftrightarrow> k \<le> length p \<and> suffix (take k p) x"

definition longest :: "bytes \<Rightarrow> bytes \<Rightarrow> nat" where
  "longest p x = Max {k. cand p x k}"

lemma cand_0 [simp]: "cand p x 0"
  by (simp add: cand_def)

lemma finite_cand [simp]: "finite {k. cand p x k}"
  by (rule finite_subset [of _ "{..length p}"]) (auto simp: cand_def)

lemma longest_cand: "cand p x (longest p x)"
  using Max_in [of "{k. cand p x k}"] by (auto simp: longest_def intro: cand_0)

lemma longest_ge: "cand p x k \<Longrightarrow> k \<le> longest p x"
  by (simp add: longest_def)

lemma longest_eqI: "(\<And>k. cand p x k \<longleftrightarrow> cand p y k) \<Longrightarrow> longest p x = longest p y"
  by (simp add: longest_def)

lemma longest_unique: "cand p x k \<Longrightarrow> (\<And>j. cand p x j \<Longrightarrow> j \<le> k) \<Longrightarrow> longest p x = k"
  using longest_cand longest_ge by (metis le_antisym)

lemma longest_le: "longest p x \<le> length p"
  using longest_cand [of p x] by (simp add: cand_def)

lemma longest_full_iff: "longest p x = length p \<longleftrightarrow> suffix p x"
  using longest_cand [of p x] longest_ge [of p x "length p"] longest_le [of p x]
  by (auto simp: cand_def)

lemma cand_length: "cand p x k \<Longrightarrow> k \<le> length x"
  using suffix_length_le [of "take k p" x] by (auto simp: cand_def)

text \<open>A candidate of an extended text extends a candidate of the text.\<close>

lemma cand_snoc: "cand p (x @ [c]) k \<longleftrightarrow> k = 0 \<or> (\<exists>j. k = Suc j \<and> j < length p \<and> p ! j = c \<and> cand p x j)"
proof (cases k)
  case (Suc j)
  show ?thesis
  proof (cases "j < length p")
    case True
    with Suc show ?thesis by (auto simp: cand_def take_Suc_conv_app_nth)
  next
    case False
    with Suc show ?thesis by (auto simp: cand_def)
  qed
qed simp

lemma cand_longest: "cand p (take (longest p x) p) k \<longleftrightarrow> cand p x k"
proof
  assume "cand p (take (longest p x) p) k"
  with longest_cand [of p x] show "cand p x k"
    by (auto simp: cand_def intro: suffix_order.trans)
next
  assume k: "cand p x k"
  then have "k \<le> longest p x" by (rule longest_ge)
  with k longest_cand [of p x] show "cand p (take (longest p x) p) k"
    by (auto simp: cand_def intro: suffix_length_suffix)
qed

lemma longest_snoc: "longest p (x @ [c]) = longest p (take (longest p x) p @ [c])"
  by (rule longest_eqI) (simp add: cand_snoc cand_longest)

text \<open>\<open>border p q\<close> is the longest proper border of the prefix of length \<open>q\<close>.\<close>

definition border :: "bytes \<Rightarrow> nat \<Rightarrow> nat" where
  "border p q = longest p (tl (take q p))"

lemma border_less: "0 < q \<Longrightarrow> q \<le> length p \<Longrightarrow> border p q < q"
  using cand_length [OF longest_cand, of p "tl (take q p)"] by (simp add: border_def)

lemma border_1 [simp]: "border p (Suc 0) = 0"
  by (cases p) (auto simp: border_def dest: cand_length intro!: longest_unique)

lemma longest_take_hit:
  assumes "q < length p" and "p ! q = c"
  shows "longest p (take q p @ [c]) = Suc q"
proof (rule longest_unique)
  show "cand p (take q p @ [c]) (Suc q)" using assms by (simp add: cand_def take_Suc_conv_app_nth)
  fix j
  assume "cand p (take q p @ [c]) j"
  from cand_length [OF this] show "j \<le> Suc q" by simp
qed

lemma cand_take_proper:
  assumes "k < q" and "q \<le> length p"
  shows "cand p (take q p) k \<longleftrightarrow> cand p (tl (take q p)) k"
proof -
  from assms obtain a w where w: "take q p = a # w" by (cases "take q p") auto
  have "length (take k p) < length (take q p)" using assms by simp
  then have "take k p \<noteq> a # w" unfolding w by (metis less_irrefl)
  then show ?thesis by (auto simp: cand_def w suffix_Cons)
qed

lemma longest_take_miss:
  assumes "\<not> (q < length p \<and> p ! q = c)" and "0 < q" and "q \<le> length p"
  shows "longest p (take q p @ [c]) = longest p (take (border p q) p @ [c])"
proof -
  have "cand p (take q p @ [c]) k \<longleftrightarrow> cand p (tl (take q p) @ [c]) k" for k
  proof -
    have "j < q" if "j < length p" "p ! j = c" "cand p (take q p) j" for j
      using that assms cand_length [OF that(3)] by (cases "j = q") auto
    moreover have "j < q" if "cand p (tl (take q p)) j" for j
      using cand_length [OF that] assms by simp
    ultimately show ?thesis unfolding cand_snoc using cand_take_proper [OF _ assms(3)] by blast
  qed
  then have "longest p (take q p @ [c]) = longest p (tl (take q p) @ [c])" by (rule longest_eqI)
  then show ?thesis by (simp add: longest_snoc [of p "tl (take q p)"] border_def)
qed

lemma longest_start_miss:
  assumes "\<not> (0 < length p \<and> p ! 0 = c)"
  shows "longest p [c] = 0"
proof (rule longest_unique)
  fix j
  assume "cand p [c] j"
  with cand_snoc [of p "[]" c j] show "j \<le> 0" using assms by (auto simp: cand_def)
qed simp

lemma border_Suc:
  assumes "0 < i" and "i < length p"
  shows "border p (Suc i) = longest p (take (border p i) p @ [p ! i])"
proof -
  have "tl (take (Suc i) p) = tl (take i p) @ [p ! i]"
    using assms by (cases "take i p") (auto simp: take_Suc_conv_app_nth)
  then show ?thesis by (simp add: border_def longest_snoc [of p "tl (take i p)"])
qed

section \<open>The failure function\<close>

lemma failure_step_fail:
  "k > 0 \<Longrightarrow> p ! k \<noteq> p ! i \<Longrightarrow> failure_step p f i k = failure_step p f i (f ! (k - 1))"
  unfolding failure_step_def by (subst while_unfold) (simp only: simp_thms if_True)

lemma failure_step_stop:
  "\<not> (k > 0 \<and> p ! k \<noteq> p ! i) \<Longrightarrow> failure_step p f i k = (if p ! k = p ! i then k + 1 else k)"
  unfolding failure_step_def by (subst while_unfold) (simp only: if_False Let_def)

lemma failure_step_longest:
  assumes "i < length p" and "\<And>j. j < i \<Longrightarrow> f ! j = border p (Suc j)" and "k \<le> i"
  shows "failure_step p f i k = longest p (take k p @ [p ! i])"
  using assms(3)
proof (induction k rule: less_induct)
  case (less k)
  show ?case
  proof (cases "k > 0 \<and> p ! k \<noteq> p ! i")
    case True
    then have fk: "f ! (k - 1) = border p k" using assms(2) [of "k - 1"] less.prems by auto
    have b: "border p k < k" using True less.prems assms(1) by (intro border_less) auto
    have "failure_step p f i k = failure_step p f i (border p k)"
      using failure_step_fail [of k p i f] True fk by simp
    also have "\<dots> = longest p (take (border p k) p @ [p ! i])"
      using less.IH [OF b] b less.prems by simp
    also have "\<dots> = longest p (take k p @ [p ! i])"
      using True less.prems assms(1) by (intro longest_take_miss [symmetric]) auto
    finally show ?thesis .
  next
    case False
    then have "failure_step p f i k = (if p ! k = p ! i then k + 1 else k)"
      by (rule failure_step_stop)
    then show ?thesis
      using False less.prems assms(1) longest_take_hit [of k p "p ! i"] longest_start_miss [of p "p ! i"]
      by auto
  qed
qed

lemma failure_fold:
  assumes "0 < n" and "n \<le> length p"
  shows "\<exists>f. fold (\<lambda>i (k, failure). let k' = failure_step p failure i k in (k', failure[i := k']))
       [1..<n] (0, replicate (length p) 0) = (border p n, f) \<and> length f = length p \<and>
     (\<forall>j<n. f ! j = border p (Suc j))"
  using assms
proof (induction n rule: nat_induct_non_zero)
  case 1
  then show ?case by (cases p) simp_all
next
  case (Suc n)
  then obtain f where f: "fold (\<lambda>i (k, failure). let k' = failure_step p failure i k in (k', failure[i := k']))
       [1..<n] (0, replicate (length p) 0) = (border p n, f)"
    and len: "length f = length p" and fj: "\<And>j. j < n \<Longrightarrow> f ! j = border p (Suc j)" by auto
  have "failure_step p f n (border p n) = longest p (take (border p n) p @ [p ! n])"
    using Suc fj border_less [of n p] by (intro failure_step_longest) auto
  then have "failure_step p f n (border p n) = border p (Suc n)"
    using Suc border_Suc [of n p] by simp
  with Suc f len fj show ?case by (auto simp: Let_def less_Suc_eq)
qed

lemma failure_function_border:
  assumes "0 < q" and "q \<le> length p"
  shows "failure_function p ! (q - 1) = border p q"
proof -
  from assms have "0 < length p" by linarith
  from failure_fold [OF this le_refl] have "\<forall>j<length p. failure_function p ! j = border p (Suc j)"
    by (auto simp: failure_function_def)
  with assms show ?thesis by (auto dest: spec [of _ "q - 1"])
qed

section \<open>The table\<close>

lemma kmp_row_fold:
  fixes d :: flat_2d_dfa_array_t
  assumes upd: "upd = (\<lambda>c d. d(q * 256 + c := val c d))"
    and local: "\<And>c d d'. c < 256 \<Longrightarrow> (\<forall>i<q * 256. d i = d' i) \<Longrightarrow> val c d = val c d'"
    and "n \<le> 256"
  shows "(\<forall>i<q * 256. fold upd [0..<n] d i = d i) \<and>
    (\<forall>c<n. fold upd [0..<n] d (q * 256 + c) = val c d)"
  using assms(3)
proof (induction n)
  case (Suc n)
  let ?r = "fold upd [0..<n] d"
  have IH: "\<forall>i<q * 256. ?r i = d i" "\<forall>c<n. ?r (q * 256 + c) = val c d"
    using Suc by auto
  have "val n ?r = val n d" by (rule local) (use Suc.prems IH in auto)
  then have "fold upd [0..<Suc n] d = ?r(q * 256 + n := val n d)"
    by (simp add: upd [THEN fun_cong, THEN fun_cong])
  with IH show ?case by (auto simp: less_Suc_eq simp del: upt_Suc)
qed simp

lemma kmp_row_longest:
  assumes "q \<le> length p" and "length p \<le> MAX_NEEDLE_LENGTH"
    and "\<And>s c. s < q \<Longrightarrow> d (s * 256 + unat c) = word_of_nat (longest p (take s p @ [c]))"
    and "s \<le> q"
  shows "kmp_row p (failure_function p) q d (s * 256 + unat c) =
    word_of_nat (longest p (take s p @ [c]))"
proof -
  let ?val = "\<lambda>c d. kmp_entry p (failure_function p) q c d"
  have fail: "failure_function p ! (q - 1) = border p q" "border p q < q" if "0 < q"
    using failure_function_border border_less that assms(1) by blast+
  have local: "?val c d = ?val c d'" if "c < 256" "\<forall>i<q * 256. d i = d' i" for c d d'
  proof (cases "0 < q")
    case True
    have "border p q * 256 + c < Suc (border p q) * 256" using that(1) by simp
    also have "\<dots> \<le> q * 256" using fail(2) [OF True] by (intro mult_le_mono1) simp
    finally show ?thesis using that(2) fail(1) [OF True] by (simp add: kmp_entry_def)
  qed (simp add: kmp_entry_def)
  have row: "(\<forall>i<q * 256. kmp_row p (failure_function p) q d i = d i) \<and>
      (\<forall>c<256. kmp_row p (failure_function p) q d (q * 256 + c) = ?val c d)"
    unfolding kmp_row_def by (rule kmp_row_fold [OF refl local le_refl])
  show ?thesis
  proof (cases "s < q")
    case True
    have "s * 256 + unat c < Suc s * 256" by simp
    also have "\<dots> \<le> q * 256" using True by (intro mult_le_mono1) simp
    finally show ?thesis using row assms(3) [OF True] by simp
  next
    case False
    with assms(4) have [simp]: "s = q" by simp
    have "?val (unat c) d = word_of_nat (longest p (take q p @ [c]))"
    proof -
      consider (hit) "q < length p \<and> p ! q = c" | (zero) "\<not> (q < length p \<and> p ! q = c)" "q = 0"
        | (miss) "\<not> (q < length p \<and> p ! q = c)" "0 < q" by auto
      then show ?thesis
      proof cases
        case hit
        then show ?thesis by (simp add: kmp_entry_def longest_take_hit)
      next
        case zero
        then show ?thesis using longest_start_miss [of p c]
          by (auto simp: kmp_entry_def word_unat_eq_iff)
      next
        case miss
        then have "?val (unat c) d = d (border p q * 256 + unat c)"
          using fail by (simp only: kmp_entry_def) (auto simp: word_unat_eq_iff)
        then show ?thesis
          using miss assms(1,3) fail longest_take_miss [OF miss(1,2) assms(1)] by simp
      qed
    qed
    then show ?thesis using row by simp
  qed
qed

lemma buildKmpDfa_entry:
  assumes "length p \<le> MAX_NEEDLE_LENGTH" and "s \<le> length p"
  shows "buildKmpDfa p (s * 256 + unat c) = word_of_nat (longest p (take s p @ [c]))"
proof -
  have "fold (kmp_row p (failure_function p)) [0..<n] (\<lambda>_. 0) (s * 256 + unat c) =
      word_of_nat (longest p (take s p @ [c]))" if "s < n" "n \<le> length p + 1" for n s c
    using that
  proof (induction n arbitrary: s c)
    case (Suc n)
    then show ?case using assms(1) by (simp add: kmp_row_longest)
  qed simp
  from this [of s "length p + 1" c] assms(2) show ?thesis
    unfolding buildKmpDfa_def by (simp del: upt_Suc)
qed

lemma kmp_run_longest:
  assumes "length p \<le> MAX_NEEDLE_LENGTH"
  shows "dfa_run (buildKmpDfa p) 0 x = word_of_nat (longest p x)"
proof (induction x rule: rev_induct)
  case Nil
  have "longest p [] = 0" by (rule longest_unique) (auto dest: cand_length)
  then show ?case by simp
next
  case (snoc c x)
  let ?q = "longest p x"
  have q: "?q \<le> length p" by (rule longest_le)
  with assms have "?q < DFA_NUM_STATES" by simp
  from dfa_step_table [OF this] have "dfa_step (buildKmpDfa p) (word_of_nat ?q) c =
      ucast (word_of_nat (longest p (x @ [c])) :: u8)"
    using buildKmpDfa_entry [OF assms q] by (simp add: longest_snoc [of p x])
  moreover have "longest p (x @ [c]) < 256" using longest_le [of p "x @ [c]"] assms by simp
  ultimately have "dfa_step (buildKmpDfa p) (word_of_nat ?q) c = word_of_nat (longest p (x @ [c]))"
    by (simp add: word_unat_eq_iff unat_of_nat)
  with snoc show ?case by simp
qed

lemma kmp_dfa_search_sublist:
  assumes "wf_sctx c" and "0 \<le> sc_idx_to_DFA c" and "length (needle_str c) \<le> MAX_NEEDLE_LENGTH"
    and "idx_to_DFA_map ro (word_of_int (sc_idx_to_DFA c)) = Some (buildKmpDfa (needle_str c))"
  shows "kmp_dfa_search ro c \<longleftrightarrow> needle_str c \<noteq> [] \<and> sublist (needle_str c) (haystack_str c)"
proof -
  let ?p = "needle_str c"
  have full: "word_of_nat (longest ?p y) = (word_of_nat (length ?p) :: u32) \<longleftrightarrow> suffix ?p y" for y
    using longest_le [of ?p y] assms(3)
    by (simp add: word_unat_eq_iff unat_of_nat longest_full_iff)
  have "(\<exists>ys. ys \<noteq> [] \<and> prefix ys (haystack_str c) \<and> suffix ?p ys) \<longleftrightarrow> sublist ?p (haystack_str c)"
    if "?p \<noteq> []"
    using that by (metis sublist_altdef suffix_bot.extremum_uniqueI)
  then show ?thesis
    unfolding kmp_dfa_search_run [OF assms(1,2,4)] kmp_run_longest [OF assms(3)] full
    using sublist_length_le by auto
qed

end
