(* ===== verification/Predicates.thy ===== *)
theory Predicates
  imports Fieldref Kmp_Builder
begin

text \<open>
  The predicate half of \<^verbatim>\<open>event_and_rule_matcher.bpf.h\<close> and \<^verbatim>\<open>.bpf.c\<close>: comparison of one field of an
  event with a constant or with another field. \<open>pred_sem\<close> is the meaning of a predicate, in terms
  of the field values of \<open>Fieldref\<close> and of list operations on strings, and \<open>eval_pred_correct\<close>
  shows that \<^verbatim>\<open>eval_pred\<close> decides it for a well-formed rule database and event.
\<close>

section \<open>Operations\<close>

definition compare_numeric :: "ro_env \<Rightarrow> event_t \<Rightarrow> u32 \<Rightarrow> predicate_t \<Rightarrow> bool bpf" where
  "compare_numeric ro current_event event_value pred = do {
     rule_value \<leftarrow> (if pr_fieldref pred \<noteq> FIELD_TYPE_NONE
       then fieldref_pred_get_numeric_value ro current_event (pr_fieldref pred)
       else State_Monad.return (pr_numerical_value pred));
     case pr_operation pred of
       COMPARISON_TYPE_EQUAL \<Rightarrow> State_Monad.return (event_value = rule_value)
     | COMPARISON_TYPE_ABOVE \<Rightarrow> State_Monad.return (sint event_value > sint rule_value)
     | COMPARISON_TYPE_BELOW \<Rightarrow> State_Monad.return (sint event_value < sint rule_value)
     | COMPARISON_TYPE_EQUAL_ABOVE \<Rightarrow> State_Monad.return (sint event_value \<ge> sint rule_value)
     | COMPARISON_TYPE_EQUAL_BELOW \<Rightarrow> State_Monad.return (sint event_value \<le> sint rule_value)
     | _ \<Rightarrow> do { REPORT_ERROR GENERIC_ERROR ''compare_numeric''; State_Monad.return False } }"

definition create_sctx ::
  "ro_env \<Rightarrow> bytes \<Rightarrow> u8 \<Rightarrow> nat \<Rightarrow> predicate_t \<Rightarrow> string_utils_ctx option bpf" where
  "create_sctx ro haystack haystack_length haystack_max_length pred = do {
     let string_idx = word_of_int (pr_string_idx pred);
     case rules_strings_map ro string_idx of
       None \<Rightarrow> do { REPORT_ERROR GENERIC_ERROR ''create_sctx''; State_Monad.return None }
     | Some str \<Rightarrow> do {
         sctx \<leftarrow> string_utils_setup haystack (rs_value str) haystack_length (rs_length str)
                  haystack_max_length;
         case sctx of
           None \<Rightarrow> do { REPORT_ERROR GENERIC_ERROR ''create_sctx''; State_Monad.return None }
         | Some c \<Rightarrow> do {
             let c2 = c\<lparr>sc_idx_to_DFA := rs_idx_to_DFA str, sc_comparison_type := pr_operation pred\<rparr>;
             store_sctx c2;
             State_Monad.return (Some c2) } } }"

definition create_sctx_fieldref ::
  "ro_env \<Rightarrow> bytes \<Rightarrow> u8 \<Rightarrow> nat \<Rightarrow> predicate_t \<Rightarrow> string_utils_ctx option bpf" where
  "create_sctx_fieldref ro haystack haystack_length haystack_max_length pred = do {
     sctx \<leftarrow> allocate_empty_string_utils_ctx;
     case sctx of
       None \<Rightarrow> State_Monad.return None
     | Some c \<Rightarrow> do {
         ok \<leftarrow> helper_ok;
         if \<not> ok then do { REPORT_ERROR GENERIC_ERROR ''create_sctx_fieldref''; State_Monad.return None }
         else do {
           let c1 = c\<lparr>sc_haystack := copy_into (sc_haystack c) haystack_max_length haystack\<rparr>;
           store_sctx c1;
           filled \<leftarrow> fieldref_pred_fill_needle ro c1 (pr_fieldref pred);
           case filled of
             None \<Rightarrow> do { REPORT_ERROR GENERIC_ERROR ''create_sctx_fieldref''; State_Monad.return None }
           | Some c2 \<Rightarrow> do {
               let c3 = c2\<lparr>sc_haystack_max_length := word_of_nat haystack_max_length,
                           sc_haystack_length := haystack_length,
                           sc_comparison_type := pr_operation pred\<rparr>;
               store_sctx c3;
               State_Monad.return (Some c3) } } } }"

definition compare_string :: "ro_env \<Rightarrow> bytes \<Rightarrow> u8 \<Rightarrow> nat \<Rightarrow> predicate_t \<Rightarrow> bool bpf" where
  "compare_string ro haystack haystack_length haystack_max_length pred = do {
     sctx \<leftarrow> (if pr_fieldref pred \<noteq> FIELD_TYPE_NONE
       then create_sctx_fieldref ro haystack haystack_length haystack_max_length pred
       else create_sctx ro haystack haystack_length haystack_max_length pred);
     case sctx of
       None \<Rightarrow> State_Monad.return False
     | Some c \<Rightarrow> (case sc_comparison_type c of
           COMPARISON_TYPE_EXACT_MATCH \<Rightarrow> State_Monad.return (string_exact_match c)
         | COMPARISON_TYPE_CONTAINS \<Rightarrow> State_Monad.return (string_contains ro c)
         | COMPARISON_TYPE_STARTS_WITH \<Rightarrow> State_Monad.return (starts_with c)
         | COMPARISON_TYPE_ENDS_WITH \<Rightarrow> State_Monad.return (ends_with c)
         | COMPARISON_TYPE_REGEX \<Rightarrow> State_Monad.return (regex_dfa_search ro c)
         | _ \<Rightarrow> do { REPORT_ERROR GENERIC_ERROR ''compare_string''; State_Monad.return False }) }"

definition eval_ip :: "ro_env \<Rightarrow> network_event_t \<Rightarrow> predicate_t \<Rightarrow> bool bpf" where
  "eval_ip ro event pred = (case rules_ips_map ro (pr_numerical_value pred) of
       None \<Rightarrow> do { REPORT_ERROR GENERIC_ERROR ''eval_ip''; State_Monad.return False }
     | Some ip \<Rightarrow>
         let matches = (\<lambda>cell i. cell AND (ri_cidr_mask ip ! i) = (ri_ip ip ! i) AND (ri_cidr_mask ip ! i))
         in if n_ip_type event = AF_INET then
              if pr_field pred = NETWORK_SOURCE_IP
              then State_Monad.return (matches (ipv4_source_ip event) 0)
              else if pr_field pred = NETWORK_DESTINATION_IP
              then State_Monad.return (matches (ipv4_destination_ip event) 0)
              else do { REPORT_ERROR GENERIC_ERROR ''eval_ip''; State_Monad.return False }
            else if n_ip_type event = AF_INET6 then
              if pr_field pred = NETWORK_SOURCE_IP
              then State_Monad.return
                (matches (ipv6_source_ip event 0) 0 \<and> matches (ipv6_source_ip event 1) 1
                 \<and> matches (ipv6_source_ip event 2) 2 \<and> matches (ipv6_source_ip event 3) 3)
              else if pr_field pred = NETWORK_DESTINATION_IP
              then State_Monad.return
                (matches (ipv6_destination_ip event 0) 0 \<and> matches (ipv6_destination_ip event 1) 1
                 \<and> matches (ipv6_destination_ip event 2) 2 \<and> matches (ipv6_destination_ip event 3) 3)
              else do { REPORT_ERROR GENERIC_ERROR ''eval_ip''; State_Monad.return False }
            else do { REPORT_ERROR GENERIC_ERROR ''eval_ip''; State_Monad.return False })"

definition eval_file :: "ro_env \<Rightarrow> event_t \<Rightarrow> file_t \<Rightarrow> predicate_t \<Rightarrow> rule_field_type \<Rightarrow> bool bpf" where
  "eval_file ro current_event file pred rule_file_field_type = (case rule_file_field_type of
       TARGET_FILE_PATH \<Rightarrow>
         compare_string ro (pt_value (f_path file)) (ucast (pt_length (f_path file))) (PATH_MAX - 1) pred
     | TARGET_FILE_FILENAME \<Rightarrow>
         compare_string ro (fn_value (f_filename file)) (ucast (fn_length (f_filename file)))
           (FILENAME_MAX_LENGTH - 1) pred
     | TARGET_FILE_OWNER_UID \<Rightarrow> compare_numeric ro current_event (o_uid (f_owner file)) pred
     | TARGET_FILE_OWNER_GID \<Rightarrow> compare_numeric ro current_event (o_gid (f_owner file)) pred
     | TARGET_FILE_MODE \<Rightarrow> compare_numeric ro current_event (ucast (f_mode file)) pred
     | TARGET_FILE_SUID \<Rightarrow> compare_numeric ro current_event (ucast (f_suid file)) pred
     | TARGET_FILE_SGID \<Rightarrow> compare_numeric ro current_event (ucast (f_sgid file)) pred
     | TARGET_FILE_NLINK \<Rightarrow> compare_numeric ro current_event (f_nlink file) pred
     | TARGET_FILE_TYPE \<Rightarrow> compare_numeric ro current_event (file_type_value (f_type file)) pred
     | _ \<Rightarrow> do { REPORT_ERROR GENERIC_ERROR ''eval_file''; State_Monad.return False })"

definition eval_process ::
  "ro_env \<Rightarrow> event_t \<Rightarrow> process_t \<Rightarrow> predicate_t \<Rightarrow> rule_field_type \<Rightarrow> bool bpf" where
  "eval_process ro current_event process pred rule_file_field_type = (case rule_file_field_type of
       TARGET_PROCESS_CMD \<Rightarrow>
         compare_string ro (c_value (p_cmd process)) (ucast (c_length (p_cmd process))) (CMD_MAX - 1) pred
     | TARGET_PROCESS_SHELL_COMMAND \<Rightarrow>
         compare_string ro (c_value (p_shell_command process))
           (ucast (c_length (p_shell_command process))) (CMD_MAX - 1) pred
     | TARGET_PROCESS_PID \<Rightarrow> compare_numeric ro current_event (p_pid process) pred
     | TARGET_PROCESS_PPID \<Rightarrow> compare_numeric ro current_event (p_ppid process) pred
     | TARGET_PROCESS_RUID \<Rightarrow> compare_numeric ro current_event (p_ruid process) pred
     | TARGET_PROCESS_RGID \<Rightarrow> compare_numeric ro current_event (p_rgid process) pred
     | TARGET_PROCESS_EUID \<Rightarrow> compare_numeric ro current_event (p_euid process) pred
     | TARGET_PROCESS_EGID \<Rightarrow> compare_numeric ro current_event (p_egid process) pred
     | TARGET_PROCESS_SUID \<Rightarrow> compare_numeric ro current_event (p_suid process) pred
     | TARGET_PROCESS_PTRACE_FLAGS \<Rightarrow> compare_numeric ro current_event (p_ptrace_flags process) pred
     | _ \<Rightarrow> eval_file ro current_event (p_file process) pred rule_file_field_type)"

definition eval_target_file :: "ro_env \<Rightarrow> event_t \<Rightarrow> predicate_t \<Rightarrow> bool bpf" where
  "eval_target_file ro current_event pred = (case ev_type current_event of
       FILE_CREATE \<Rightarrow> eval_file ro current_event (fc_file (data_file_create ro current_event)) pred (pr_field pred)
     | MKDIR \<Rightarrow> eval_file ro current_event (fc_file (data_file_create ro current_event)) pred (pr_field pred)
     | RMDIR \<Rightarrow> eval_file ro current_event (fc_file (data_file_create ro current_event)) pred (pr_field pred)
     | CHOWN \<Rightarrow> eval_file ro current_event (chown_file (data_chown ro current_event)) pred (pr_field pred)
     | CHMOD \<Rightarrow> eval_file ro current_event (chmod_file (data_chmod ro current_event)) pred (pr_field pred)
     | READ \<Rightarrow> eval_file ro current_event (w_file (data_write ro current_event)) pred (pr_field pred)
     | WRITE \<Rightarrow> eval_file ro current_event (w_file (data_write ro current_event)) pred (pr_field pred)
     | UNLINK \<Rightarrow> eval_file ro current_event (fc_file (data_file_create ro current_event)) pred (pr_field pred)
     | _ \<Rightarrow> do { REPORT_ERROR GENERIC_ERROR ''eval_target_file''; State_Monad.return False })"

definition eval_target_process :: "ro_env \<Rightarrow> event_t \<Rightarrow> predicate_t \<Rightarrow> rule_field_type \<Rightarrow> bool bpf" where
  "eval_target_process ro current_event pred rule_file_field_type = (case ev_type current_event of
       EXEC \<Rightarrow> eval_process ro current_event (exec_new_process (data_exec ro current_event)) pred rule_file_field_type
     | _ \<Rightarrow> do { REPORT_ERROR GENERIC_ERROR ''eval_target_process''; State_Monad.return False })"

definition eval_pred :: "ro_env \<Rightarrow> u32 \<Rightarrow> event_t \<Rightarrow> bool bpf" where
  "eval_pred ro pred_idx current_event = (case predicates_map ro pred_idx of
       None \<Rightarrow> do { REPORT_ERROR GENERIC_ERROR ''eval_pred''; State_Monad.return False }
     | Some pred \<Rightarrow> (case pr_field pred of
       TARGET_FILE_PATH \<Rightarrow> eval_target_file ro current_event pred
     | TARGET_FILE_FILENAME \<Rightarrow> eval_target_file ro current_event pred
     | TARGET_FILE_OWNER_UID \<Rightarrow> eval_target_file ro current_event pred
     | TARGET_FILE_OWNER_GID \<Rightarrow> eval_target_file ro current_event pred
     | TARGET_FILE_MODE \<Rightarrow> eval_target_file ro current_event pred
     | TARGET_FILE_SUID \<Rightarrow> eval_target_file ro current_event pred
     | TARGET_FILE_SGID \<Rightarrow> eval_target_file ro current_event pred
     | TARGET_FILE_NLINK \<Rightarrow> eval_target_file ro current_event pred
     | TARGET_FILE_TYPE \<Rightarrow> eval_target_file ro current_event pred
     | TARGET_PROCESS_PID \<Rightarrow> eval_target_process ro current_event pred TARGET_PROCESS_PID
     | TARGET_PROCESS_PPID \<Rightarrow> eval_target_process ro current_event pred TARGET_PROCESS_PPID
     | TARGET_PROCESS_RUID \<Rightarrow> eval_target_process ro current_event pred TARGET_PROCESS_RUID
     | TARGET_PROCESS_RGID \<Rightarrow> eval_target_process ro current_event pred TARGET_PROCESS_RGID
     | TARGET_PROCESS_EUID \<Rightarrow> eval_target_process ro current_event pred TARGET_PROCESS_EUID
     | TARGET_PROCESS_EGID \<Rightarrow> eval_target_process ro current_event pred TARGET_PROCESS_EGID
     | TARGET_PROCESS_SUID \<Rightarrow> eval_target_process ro current_event pred TARGET_PROCESS_SUID
     | TARGET_PROCESS_PTRACE_FLAGS \<Rightarrow> eval_target_process ro current_event pred TARGET_PROCESS_PTRACE_FLAGS
     | TARGET_PROCESS_CMD \<Rightarrow> eval_target_process ro current_event pred TARGET_PROCESS_CMD
     | TARGET_PROCESS_SHELL_COMMAND \<Rightarrow> eval_target_process ro current_event pred TARGET_PROCESS_SHELL_COMMAND
     | TARGET_PROCESS_FILE_PATH \<Rightarrow> eval_target_process ro current_event pred TARGET_FILE_PATH
     | TARGET_PROCESS_FILE_FILENAME \<Rightarrow> eval_target_process ro current_event pred TARGET_FILE_FILENAME
     | TARGET_PROCESS_FILE_OWNER_UID \<Rightarrow> eval_target_process ro current_event pred TARGET_FILE_OWNER_UID
     | TARGET_PROCESS_FILE_OWNER_GID \<Rightarrow> eval_target_process ro current_event pred TARGET_FILE_OWNER_GID
     | TARGET_PROCESS_FILE_MODE \<Rightarrow> eval_target_process ro current_event pred TARGET_FILE_MODE
     | TARGET_PROCESS_FILE_SUID \<Rightarrow> eval_target_process ro current_event pred TARGET_FILE_SUID
     | TARGET_PROCESS_FILE_SGID \<Rightarrow> eval_target_process ro current_event pred TARGET_FILE_SGID
     | TARGET_PROCESS_FILE_NLINK \<Rightarrow> eval_target_process ro current_event pred TARGET_FILE_NLINK
     | TARGET_PROCESS_FILE_TYPE \<Rightarrow> eval_target_process ro current_event pred TARGET_FILE_TYPE
     | PROCESS_PID \<Rightarrow> eval_process ro current_event (ev_process current_event) pred TARGET_PROCESS_PID
     | PROCESS_PPID \<Rightarrow> eval_process ro current_event (ev_process current_event) pred TARGET_PROCESS_PPID
     | PROCESS_RUID \<Rightarrow> eval_process ro current_event (ev_process current_event) pred TARGET_PROCESS_RUID
     | PROCESS_RGID \<Rightarrow> eval_process ro current_event (ev_process current_event) pred TARGET_PROCESS_RGID
     | PROCESS_EUID \<Rightarrow> eval_process ro current_event (ev_process current_event) pred TARGET_PROCESS_EUID
     | PROCESS_EGID \<Rightarrow> eval_process ro current_event (ev_process current_event) pred TARGET_PROCESS_EGID
     | PROCESS_SUID \<Rightarrow> eval_process ro current_event (ev_process current_event) pred TARGET_PROCESS_SUID
     | PROCESS_PTRACE_FLAGS \<Rightarrow> eval_process ro current_event (ev_process current_event) pred TARGET_PROCESS_PTRACE_FLAGS
     | PROCESS_CMD \<Rightarrow> eval_process ro current_event (ev_process current_event) pred TARGET_PROCESS_CMD
     | PROCESS_SHELL_COMMAND \<Rightarrow> eval_process ro current_event (ev_process current_event) pred TARGET_PROCESS_SHELL_COMMAND
     | PROCESS_FILE_PATH \<Rightarrow> eval_process ro current_event (ev_process current_event) pred TARGET_FILE_PATH
     | PROCESS_FILE_FILENAME \<Rightarrow> eval_process ro current_event (ev_process current_event) pred TARGET_FILE_FILENAME
     | PROCESS_FILE_OWNER_UID \<Rightarrow> eval_process ro current_event (ev_process current_event) pred TARGET_FILE_OWNER_UID
     | PROCESS_FILE_OWNER_GID \<Rightarrow> eval_process ro current_event (ev_process current_event) pred TARGET_FILE_OWNER_GID
     | PROCESS_FILE_MODE \<Rightarrow> eval_process ro current_event (ev_process current_event) pred TARGET_FILE_MODE
     | PROCESS_FILE_SUID \<Rightarrow> eval_process ro current_event (ev_process current_event) pred TARGET_FILE_SUID
     | PROCESS_FILE_SGID \<Rightarrow> eval_process ro current_event (ev_process current_event) pred TARGET_FILE_SGID
     | PROCESS_FILE_NLINK \<Rightarrow> eval_process ro current_event (ev_process current_event) pred TARGET_FILE_NLINK
     | PROCESS_FILE_TYPE \<Rightarrow> eval_process ro current_event (ev_process current_event) pred TARGET_FILE_TYPE
     | PARENT_PROCESS_PID \<Rightarrow> eval_process ro current_event (ev_parent_process current_event) pred TARGET_PROCESS_PID
     | PARENT_PROCESS_PPID \<Rightarrow> eval_process ro current_event (ev_parent_process current_event) pred TARGET_PROCESS_PPID
     | PARENT_PROCESS_RUID \<Rightarrow> eval_process ro current_event (ev_parent_process current_event) pred TARGET_PROCESS_RUID
     | PARENT_PROCESS_RGID \<Rightarrow> eval_process ro current_event (ev_parent_process current_event) pred TARGET_PROCESS_RGID
     | PARENT_PROCESS_EUID \<Rightarrow> eval_process ro current_event (ev_parent_process current_event) pred TARGET_PROCESS_EUID
     | PARENT_PROCESS_EGID \<Rightarrow> eval_process ro current_event (ev_parent_process current_event) pred TARGET_PROCESS_EGID
     | PARENT_PROCESS_SUID \<Rightarrow> eval_process ro current_event (ev_parent_process current_event) pred TARGET_PROCESS_SUID
     | PARENT_PROCESS_PTRACE_FLAGS \<Rightarrow> eval_process ro current_event (ev_parent_process current_event) pred TARGET_PROCESS_PTRACE_FLAGS
     | PARENT_PROCESS_CMD \<Rightarrow> eval_process ro current_event (ev_parent_process current_event) pred TARGET_PROCESS_CMD
     | PARENT_PROCESS_SHELL_COMMAND \<Rightarrow> eval_process ro current_event (ev_parent_process current_event) pred TARGET_PROCESS_SHELL_COMMAND
     | PARENT_PROCESS_FILE_PATH \<Rightarrow> eval_process ro current_event (ev_parent_process current_event) pred TARGET_FILE_PATH
     | PARENT_PROCESS_FILE_FILENAME \<Rightarrow> eval_process ro current_event (ev_parent_process current_event) pred TARGET_FILE_FILENAME
     | PARENT_PROCESS_FILE_OWNER_UID \<Rightarrow> eval_process ro current_event (ev_parent_process current_event) pred TARGET_FILE_OWNER_UID
     | PARENT_PROCESS_FILE_OWNER_GID \<Rightarrow> eval_process ro current_event (ev_parent_process current_event) pred TARGET_FILE_OWNER_GID
     | PARENT_PROCESS_FILE_MODE \<Rightarrow> eval_process ro current_event (ev_parent_process current_event) pred TARGET_FILE_MODE
     | PARENT_PROCESS_FILE_SUID \<Rightarrow> eval_process ro current_event (ev_parent_process current_event) pred TARGET_FILE_SUID
     | PARENT_PROCESS_FILE_SGID \<Rightarrow> eval_process ro current_event (ev_parent_process current_event) pred TARGET_FILE_SGID
     | PARENT_PROCESS_FILE_NLINK \<Rightarrow> eval_process ro current_event (ev_parent_process current_event) pred TARGET_FILE_NLINK
     | PARENT_PROCESS_FILE_TYPE \<Rightarrow> eval_process ro current_event (ev_parent_process current_event) pred TARGET_FILE_TYPE
     | RENAME_SOURCE_FILE_PATH \<Rightarrow> eval_file ro current_event (rn_source_file (data_rename ro current_event)) pred TARGET_FILE_PATH
     | RENAME_SOURCE_FILE_FILENAME \<Rightarrow> eval_file ro current_event (rn_source_file (data_rename ro current_event)) pred TARGET_FILE_FILENAME
     | RENAME_SOURCE_FILE_OWNER_UID \<Rightarrow> eval_file ro current_event (rn_source_file (data_rename ro current_event)) pred TARGET_FILE_OWNER_UID
     | RENAME_SOURCE_FILE_OWNER_GID \<Rightarrow> eval_file ro current_event (rn_source_file (data_rename ro current_event)) pred TARGET_FILE_OWNER_GID
     | RENAME_SOURCE_FILE_MODE \<Rightarrow> eval_file ro current_event (rn_source_file (data_rename ro current_event)) pred TARGET_FILE_MODE
     | RENAME_SOURCE_FILE_SUID \<Rightarrow> eval_file ro current_event (rn_source_file (data_rename ro current_event)) pred TARGET_FILE_SUID
     | RENAME_SOURCE_FILE_SGID \<Rightarrow> eval_file ro current_event (rn_source_file (data_rename ro current_event)) pred TARGET_FILE_SGID
     | RENAME_SOURCE_FILE_NLINK \<Rightarrow> eval_file ro current_event (rn_source_file (data_rename ro current_event)) pred TARGET_FILE_NLINK
     | RENAME_SOURCE_FILE_TYPE \<Rightarrow> eval_file ro current_event (rn_source_file (data_rename ro current_event)) pred TARGET_FILE_TYPE
     | RENAME_DESTINATION_FILE_PATH \<Rightarrow> eval_file ro current_event (rn_destination_file (data_rename ro current_event)) pred TARGET_FILE_PATH
     | RENAME_DESTINATION_FILE_FILENAME \<Rightarrow> eval_file ro current_event (rn_destination_file (data_rename ro current_event)) pred TARGET_FILE_FILENAME
     | RENAME_DESTINATION_FILE_OWNER_UID \<Rightarrow> eval_file ro current_event (rn_destination_file (data_rename ro current_event)) pred TARGET_FILE_OWNER_UID
     | RENAME_DESTINATION_FILE_OWNER_GID \<Rightarrow> eval_file ro current_event (rn_destination_file (data_rename ro current_event)) pred TARGET_FILE_OWNER_GID
     | RENAME_DESTINATION_FILE_MODE \<Rightarrow> eval_file ro current_event (rn_destination_file (data_rename ro current_event)) pred TARGET_FILE_MODE
     | RENAME_DESTINATION_FILE_SUID \<Rightarrow> eval_file ro current_event (rn_destination_file (data_rename ro current_event)) pred TARGET_FILE_SUID
     | RENAME_DESTINATION_FILE_SGID \<Rightarrow> eval_file ro current_event (rn_destination_file (data_rename ro current_event)) pred TARGET_FILE_SGID
     | RENAME_DESTINATION_FILE_NLINK \<Rightarrow> eval_file ro current_event (rn_destination_file (data_rename ro current_event)) pred TARGET_FILE_NLINK
     | RENAME_DESTINATION_FILE_TYPE \<Rightarrow> eval_file ro current_event (rn_destination_file (data_rename ro current_event)) pred TARGET_FILE_TYPE
     | CHMOD_REQUESTED_MODE \<Rightarrow> compare_numeric ro current_event (ucast (chmod_requested_mode (data_chmod ro current_event))) pred
     | NETWORK_SOURCE_IP \<Rightarrow> eval_ip ro (data_network ro current_event) pred
     | NETWORK_DESTINATION_IP \<Rightarrow> eval_ip ro (data_network ro current_event) pred
     | NETWORK_SOURCE_PORT \<Rightarrow> compare_numeric ro current_event (ucast (n_source_port (data_network ro current_event))) pred
     | NETWORK_DESTINATION_PORT \<Rightarrow> compare_numeric ro current_event (ucast (n_destination_port (data_network ro current_event))) pred
     | NETWORK_DIRECTION \<Rightarrow> compare_numeric ro current_event (n_direction (data_network ro current_event)) pred
     | _ \<Rightarrow> do { REPORT_ERROR GENERIC_ERROR ''eval_pred''; State_Monad.return False }))"

section \<open>The meaning of a predicate\<close>

definition numeric_sem :: "ro_env \<Rightarrow> event_t \<Rightarrow> predicate_t \<Rightarrow> u32 \<Rightarrow> bool" where
  "numeric_sem ro e p v =
     (let w = (if pr_fieldref p \<noteq> FIELD_TYPE_NONE
               then (case field_numeric ro e (pr_fieldref p) of None \<Rightarrow> 0 | Some w \<Rightarrow> w)
               else pr_numerical_value p)
      in case pr_operation p of
           COMPARISON_TYPE_EQUAL \<Rightarrow> sint v = sint w
         | COMPARISON_TYPE_ABOVE \<Rightarrow> sint v > sint w
         | COMPARISON_TYPE_BELOW \<Rightarrow> sint v < sint w
         | COMPARISON_TYPE_EQUAL_ABOVE \<Rightarrow> sint v \<ge> sint w
         | COMPARISON_TYPE_EQUAL_BELOW \<Rightarrow> sint v \<le> sint w
         | _ \<Rightarrow> False)"

text \<open>
  The string an attribute holds, the string a predicate compares it with. The code keeps the
  length in a byte and copies all of the buffer but its last byte into a zeroed context: a
  recorded length that does not fit the buffer, which a view of other data may have, shows zeros
  behind it, and no needle of such a length matches. For the lengths the extractors record, the
  string is the recorded prefix of the buffer (\<open>content_recorded\<close>).
\<close>

definition content :: "u16 \<times> nat \<times> bytes \<Rightarrow> bytes" where
  "content = (\<lambda>(len, max_len, value).
     take (unat (ucast len :: u8)) (take max_len value @ replicate (PATH_MAX - max_len) 0))"

definition string_fits :: "u16 \<times> nat \<times> bytes \<Rightarrow> bool" where
  "string_fits = (\<lambda>(len, max_len, value). unat (ucast len :: u8) \<le> max_len)"

definition rule_content :: "rule_string_t \<Rightarrow> bytes" where
  "rule_content str = take (unat (rs_length str)) (rs_value str)"

definition rule_string :: "ro_env \<Rightarrow> predicate_t \<Rightarrow> rule_string_t option" where
  "rule_string ro p = rules_strings_map ro (word_of_int (pr_string_idx p))"

definition needle_of :: "ro_env \<Rightarrow> event_t \<Rightarrow> predicate_t \<Rightarrow> bytes option" where
  "needle_of ro e p =
     (if pr_fieldref p \<noteq> FIELD_TYPE_NONE
      then Option.bind (field_string ro e (pr_fieldref p)) (\<lambda>v. if string_fits v then Some (content v) else None)
      else map_option rule_content (rule_string ro p))"

text \<open>A regular expression is the table userspace compiled it to.\<close>

definition regex_sem :: "ro_env \<Rightarrow> rule_string_t \<Rightarrow> bytes \<Rightarrow> bool" where
  "regex_sem ro str h =
     (let idx = word_of_int (rs_idx_to_DFA str)
      in 0 \<le> rs_idx_to_DFA str \<and>
         (case (idx_to_DFA_map ro idx, idx_to_accepting_states_map ro idx) of
            (Some dfa, Some acc) \<Rightarrow> first_hit dfa (regex_accepting acc) 1 h
          | _ \<Rightarrow> False))"

definition string_sem :: "ro_env \<Rightarrow> event_t \<Rightarrow> predicate_t \<Rightarrow> u16 \<times> nat \<times> bytes \<Rightarrow> bool" where
  "string_sem ro e p v =
     (let h = content v in case needle_of ro e p of
        None \<Rightarrow> False
      | Some n \<Rightarrow> (case pr_operation p of
            COMPARISON_TYPE_EXACT_MATCH \<Rightarrow> h = n
          | COMPARISON_TYPE_CONTAINS \<Rightarrow> n \<noteq> [] \<and> sublist n h
          | COMPARISON_TYPE_STARTS_WITH \<Rightarrow> n \<noteq> [] \<and> prefix n h
          | COMPARISON_TYPE_ENDS_WITH \<Rightarrow> n \<noteq> [] \<and> suffix n h
          | COMPARISON_TYPE_REGEX \<Rightarrow>
              (case rule_string ro p of None \<Rightarrow> False | Some str \<Rightarrow> regex_sem ro str h)
          | _ \<Rightarrow> False))"

text \<open>An address is in the network of the rule when they agree on the bits of the mask.\<close>

definition in_network :: "rule_ip_t \<Rightarrow> u32 list \<Rightarrow> bool" where
  "in_network ip cells \<longleftrightarrow>
     list_all2 (\<lambda>cell (net, mask). cell AND mask = net AND mask) cells
       (take (length cells) (zip (ri_ip ip) (ri_cidr_mask ip)))"

definition event_address :: "rule_field_type \<Rightarrow> network_event_t \<Rightarrow> u32 list option" where
  "event_address field n =
     (let v4 = n_ip_type n = AF_INET; v6 = n_ip_type n = AF_INET6; src = field = NETWORK_SOURCE_IP
      in if v4 then Some (if src then [ipv4_source_ip n] else [ipv4_destination_ip n])
         else if v6 then Some (map (if src then ipv6_source_ip n else ipv6_destination_ip n) [0,1,2,3])
         else None)"

definition ip_sem :: "ro_env \<Rightarrow> event_t \<Rightarrow> predicate_t \<Rightarrow> bool" where
  "ip_sem ro e p =
     (case (rules_ips_map ro (pr_numerical_value p), event_address (pr_field p) (data_network ro e)) of
        (Some ip, Some cells) \<Rightarrow> in_network ip cells
      | _ \<Rightarrow> False)"

definition pred_sem :: "ro_env \<Rightarrow> event_t \<Rightarrow> predicate_t \<Rightarrow> bool" where
  "pred_sem ro e p =
     (if pr_field p = NETWORK_SOURCE_IP \<or> pr_field p = NETWORK_DESTINATION_IP then ip_sem ro e p
      else case field_string ro e (pr_field p) of
        Some v \<Rightarrow> string_sem ro e p v
      | None \<Rightarrow> (case field_numeric ro e (pr_field p) of
            Some v \<Rightarrow> numeric_sem ro e p v | None \<Rightarrow> False))"

definition pred_holds :: "ro_env \<Rightarrow> event_t \<Rightarrow> u32 \<Rightarrow> bool" where
  "pred_holds ro e i = (case predicates_map ro i of None \<Rightarrow> False | Some p \<Rightarrow> pred_sem ro e p)"

section \<open>Well-formed inputs\<close>

text \<open>
  The buffers of event strings have the sizes of their arrays, a fact of their types. Rule strings
  fit theirs, and a \<^verbatim>\<open>contains\<close> predicate carries the table the builder makes of its string.
  Predicates that compare two fields use neither \<^verbatim>\<open>contains\<close> nor a regular expression (the rules
  generator rejects them).
\<close>

definition wf_string :: "u16 \<times> nat \<times> bytes \<Rightarrow> bool" where
  "wf_string = (\<lambda>(len, max_len, value). max_len < 256 \<and> length value = max_len + 1)"

definition wf_event_strings :: "ro_env \<Rightarrow> event_t \<Rightarrow> bool" where
  "wf_event_strings ro e \<longleftrightarrow>
     (\<forall>subj p. subject_process ro e subj = Some p \<longrightarrow> wf_process p) \<and>
     (\<forall>subj f. subject_file ro e subj = Some f \<longrightarrow> wf_file f)"

definition wf_rule_string :: "ro_env \<Rightarrow> predicate_t \<Rightarrow> rule_string_t \<Rightarrow> bool" where
  "wf_rule_string ro p str \<longleftrightarrow>
     length (rs_value str) = MAX_NEEDLE_LENGTH \<and> unat (rs_length str) \<le> MAX_NEEDLE_LENGTH \<and>
     (pr_operation p = COMPARISON_TYPE_CONTAINS \<longrightarrow> 0 \<le> rs_idx_to_DFA str \<and>
        idx_to_DFA_map ro (word_of_int (rs_idx_to_DFA str)) = Some (buildKmpDfa (rule_content str)))"

definition wf_pred :: "ro_env \<Rightarrow> predicate_t \<Rightarrow> bool" where
  "wf_pred ro p \<longleftrightarrow>
     (pr_fieldref p \<noteq> FIELD_TYPE_NONE \<longrightarrow>
        pr_operation p \<noteq> COMPARISON_TYPE_CONTAINS \<and> pr_operation p \<noteq> COMPARISON_TYPE_REGEX) \<and>
     (\<forall>str. rule_string ro p = Some str \<longrightarrow> wf_rule_string ro p str) \<and>
     (\<forall>ip. rules_ips_map ro (pr_numerical_value p) = Some ip \<longrightarrow>
        length (ri_ip ip) = 4 \<and> length (ri_cidr_mask ip) = 4)"

definition wf_rules_db :: "ro_env \<Rightarrow> bool" where
  "wf_rules_db ro \<longleftrightarrow> (\<forall>i p. predicates_map ro i = Some p \<longrightarrow> wf_pred ro p)"

definition matcher_ready :: "event_t \<Rightarrow> bpf_state \<Rightarrow> bool" where
  "matcher_ready e s \<longleftrightarrow> helpers_succeed s \<and> heap_string_utils_ctx s 0 \<noteq> None
     \<and> currently_handled_event s 0 = Some e"

lemma matcher_ready_stable: "sctx_stable (matcher_ready e)"
  by (intro frame_intros) (auto simp: matcher_ready_def helpers_succeed_def)

section \<open>Numbers and addresses\<close>

lemma sint_eq_iff: "sint v = sint w \<longleftrightarrow> v = w" for v w :: u32
  by (auto intro: signed_word_eqI)

lemma compare_numeric_result:
  "fst (run_state (compare_numeric ro e v p) s) = numeric_sem ro e p v"
  by (cases "pr_operation p"; cases "pr_fieldref p = FIELD_TYPE_NONE")
    (simp_all add: compare_numeric_def numeric_sem_def Let_def case_prod_beta fieldref_numeric_value
      sint_eq_iff)

lemma eval_ip_result:
  assumes "wf_pred ro p" and "pr_field p = NETWORK_SOURCE_IP \<or> pr_field p = NETWORK_DESTINATION_IP"
  shows "fst (run_state (eval_ip ro (data_network ro e) p) s) = ip_sem ro e p"
proof (cases "rules_ips_map ro (pr_numerical_value p)")
  case None
  then show ?thesis by (simp add: eval_ip_def ip_sem_def case_prod_beta)
next
  case (Some ip)
  with assms(1) have "length (ri_ip ip) = 4" "length (ri_cidr_mask ip) = 4" by (auto simp: wf_pred_def)
  then obtain a b c d k l m n where "ri_ip ip = [a, b, c, d]" "ri_cidr_mask ip = [k, l, m, n]"
    by (auto simp: numeral_eq_Suc length_Suc_conv)
  with assms(2) Some show ?thesis
    by (auto simp: eval_ip_def ip_sem_def event_address_def in_network_def Let_def case_prod_beta)
qed

section \<open>Strings\<close>

text \<open>
  The context a comparison works on: well formed, holding the two strings and the operation.
\<close>

definition sctx_holds :: "string_utils_ctx \<Rightarrow> bytes \<Rightarrow> bytes \<Rightarrow> comparison_type \<Rightarrow> bool" where
  "sctx_holds c h n op \<longleftrightarrow> wf_sctx c \<and> haystack_str c = h \<and> needle_str c = n
     \<and> sc_comparison_type c = op"

definition needle_fits :: "string_utils_ctx \<Rightarrow> bool" where
  "needle_fits c \<longleftrightarrow> sc_needle_length c \<le> sc_needle_max_length c"

lemma unat_ucast_16_8: "unat (len :: u16) < 256 \<Longrightarrow> unat (ucast len :: u8) = unat len"
  by (simp add: unsigned_ucast_eq take_bit_nat_eq_self)

lemma content_recorded:
  "unat len \<le> max_len \<Longrightarrow> max_len < 256 \<Longrightarrow> length value_bytes = max_len + 1 \<Longrightarrow>
   content (len, max_len, value_bytes) = take (unat len) value_bytes \<and> string_fits (len, max_len, value_bytes)"
  by (simp add: content_def string_fits_def unat_ucast_16_8)

lemma length_empty_buffers [simp]:
  "length (sc_haystack string_utils_ctx_empty) = PATH_MAX"
  "length (sc_needle string_utils_ctx_empty) = PATH_MAX"
  by (simp_all add: string_utils_ctx_empty_def)

lemma run_allocate_sctx:
  assumes "matcher_ready e s"
  shows "\<exists>s'. run_state allocate_empty_string_utils_ctx s = (Some string_utils_ctx_empty, s')
    \<and> matcher_ready e s'"
proof -
  have "fst (run_state allocate_empty_string_utils_ctx s) = Some string_utils_ctx_empty"
    using assms by (auto simp: allocate_empty_string_utils_ctx_def matcher_ready_def helpers_succeed_def)
  moreover have "matcher_ready e (snd (run_state allocate_empty_string_utils_ctx s))"
    using preservesD [OF stable_allocate_sctx [OF matcher_ready_stable] assms] .
  ultimately show ?thesis by (metis prod.collapse)
qed

lemma string_utils_setup_result:
  assumes "matcher_ready e s"
  shows "fst (run_state (string_utils_setup h n hl nl hmax) s) =
    Some (string_utils_ctx_empty\<lparr>sc_haystack_max_length := word_of_nat hmax, sc_haystack_length := hl,
      sc_haystack := copy_into (sc_haystack string_utils_ctx_empty) hmax h,
      sc_needle_max_length := 32, sc_needle_length := nl,
      sc_needle := copy_into (sc_needle string_utils_ctx_empty) 32 n\<rparr>)"
proof -
  obtain s' where "run_state allocate_empty_string_utils_ctx s = (Some string_utils_ctx_empty, s')"
    "matcher_ready e s'" using run_allocate_sctx [OF assms] by blast
  then show ?thesis
    by (simp add: string_utils_setup_def Let_def matcher_ready_def helpers_succeed_def)
qed

lemma copied_content:
  "hmax < 256 \<Longrightarrow> length h = hmax + 1 \<Longrightarrow>
   take (unat (ucast len :: u8)) (copy_into (replicate PATH_MAX 0) hmax h) = content (len, hmax, h)"
  by (simp add: copy_into_def content_def)

lemma create_sctx_result:
  assumes "matcher_ready e s" and "wf_string (len, hmax, h)" and "rule_string ro p = Some str"
    and "wf_rule_string ro p str"
  shows "\<exists>c. fst (run_state (create_sctx ro h (ucast len) hmax p) s) = Some c
    \<and> sctx_holds c (content (len, hmax, h)) (rule_content str) (pr_operation p)
    \<and> needle_fits c \<and> sc_idx_to_DFA c = rs_idx_to_DFA str"
  using assms(2-4) string_utils_setup_result [OF assms(1), of h "rs_value str" "ucast len" "rs_length str" hmax]
  by (simp add: create_sctx_def rule_string_def Let_def case_prod_beta sctx_holds_def needle_fits_def wf_sctx_def
      haystack_str_def needle_str_def copied_content rule_content_def wf_string_def wf_rule_string_def
      word_le_nat_alt string_utils_ctx_empty_def)

lemma create_sctx_fieldref_result:
  assumes "matcher_ready e s" and "wf_string (len, hmax, h)"
    and "field_string ro e (pr_fieldref p) = Some v" and "wf_string v"
  shows "\<exists>c. fst (run_state (create_sctx_fieldref ro h (ucast len) hmax p) s) = Some c
    \<and> sctx_holds c (content (len, hmax, h)) (content v) (pr_operation p) \<and> (needle_fits c \<longleftrightarrow> string_fits v)"
proof -
  obtain s1 where s1: "run_state allocate_empty_string_utils_ctx s = (Some string_utils_ctx_empty, s1)"
    and r1: "matcher_ready e s1" using run_allocate_sctx [OF assms(1)] by blast
  obtain nl nmax n where v: "v = (nl, nmax, n)" by (cases v)
  let ?c1 = "string_utils_ctx_empty\<lparr>sc_haystack := copy_into (sc_haystack string_utils_ctx_empty) hmax h\<rparr>"
  let ?s2 = "s1\<lparr>helper_calls := Suc (helper_calls s1),
      heap_string_utils_ctx := (heap_string_utils_ctx s1)(0 \<mapsto> ?c1)\<rparr>"
  have fill: "fst (run_state (fieldref_pred_fill_needle ro ?c1 (pr_fieldref p)) ?s2) =
      Some (filled_needle ?c1 v)"
    using r1 assms(3) by (subst fieldref_fill_needle [of _ e]) (simp_all add: matcher_ready_def helpers_succeed_def)
  have "unat (word_of_nat nmax :: u8) = nmax" using assms(4) v by (simp add: wf_string_def unat_of_nat)
  then show ?thesis
    using s1 fill assms(2,4) r1
    by (simp add: create_sctx_fieldref_def Let_def case_prod_beta v filled_needle_def sctx_holds_def
        wf_sctx_def haystack_str_def needle_str_def copied_content wf_string_def word_le_nat_alt needle_fits_def string_fits_def
        matcher_ready_def helpers_succeed_def string_utils_ctx_empty_def)
qed

lemma create_sctx_fieldref_None:
  assumes "matcher_ready e s" and "field_string ro e (pr_fieldref p) = None"
  shows "fst (run_state (create_sctx_fieldref ro h hl hmax p) s) = None"
proof -
  obtain s1 where s1: "run_state allocate_empty_string_utils_ctx s = (Some string_utils_ctx_empty, s1)"
    and r1: "matcher_ready e s1" using run_allocate_sctx [OF assms(1)] by blast
  let ?c1 = "string_utils_ctx_empty\<lparr>sc_haystack := copy_into (sc_haystack string_utils_ctx_empty) hmax h\<rparr>"
  let ?s2 = "s1\<lparr>helper_calls := Suc (helper_calls s1),
      heap_string_utils_ctx := (heap_string_utils_ctx s1)(0 \<mapsto> ?c1)\<rparr>"
  have "fst (run_state (fieldref_pred_fill_needle ro ?c1 (pr_fieldref p)) ?s2) = None"
    using r1 assms(2) by (subst fieldref_fill_needle [of _ e]) (simp_all add: matcher_ready_def helpers_succeed_def)
  with s1 r1 show ?thesis
    by (simp add: create_sctx_fieldref_def Let_def case_prod_beta matcher_ready_def helpers_succeed_def)
qed

lemma wf_file_string: "wf_file f \<Longrightarrow> file_string a f = Some v \<Longrightarrow> wf_string v"
  by (cases a) (auto simp: wf_file_def file_string_def wf_string_def)

lemma wf_process_string: "wf_process q \<Longrightarrow> process_string a q = Some v \<Longrightarrow> wf_string v"
  by (cases a) (auto simp: wf_process_def process_string_def wf_string_def)

lemma wf_field_string:
  assumes "wf_event_strings ro e" and "field_string ro e field = Some v"
  shows "wf_string v"
proof -
  have "\<exists>subj a. (\<exists>q. subject_process ro e subj = Some q \<and> process_string a q = Some v) \<or>
      (\<exists>f. subject_file ro e subj = Some f \<and> file_string a f = Some v)"
    using assms(2) unfolding field_string_def attribute_of_def
    by (auto simp: Option.bind_eq_Some_conv split: option.splits; blast)
  with assms(1) show ?thesis
    unfolding wf_event_strings_def by (metis wf_file_string wf_process_string)
qed

text \<open>The operations on a context that holds two strings.\<close>

lemma sctx_operations:
  assumes "sctx_holds c h n op"
  shows "string_exact_match c \<longleftrightarrow> needle_fits c \<and> h = n"
    and "starts_with c \<longleftrightarrow> needle_fits c \<and> n \<noteq> [] \<and> prefix n h"
    and "ends_with c \<longleftrightarrow> needle_fits c \<and> n \<noteq> [] \<and> suffix n h"
  using assms by (auto simp: sctx_holds_def needle_fits_def string_exact_match_iff starts_with_iff ends_with_iff)

lemma regex_search_sem:
  assumes "sctx_holds c h n op" and "sc_idx_to_DFA c = rs_idx_to_DFA str"
  shows "regex_dfa_search ro c \<longleftrightarrow> regex_sem ro str h"
  using assms
  by (auto simp: sctx_holds_def regex_sem_def regex_dfa_search_def Let_def regex_loop_first_hit
      split: option.splits)

lemma contains_sem:
  assumes "sctx_holds c h (rule_content str) op" and "sc_idx_to_DFA c = rs_idx_to_DFA str"
    and "wf_rule_string ro p str" and "pr_operation p = COMPARISON_TYPE_CONTAINS"
  shows "string_contains ro c \<longleftrightarrow> rule_content str \<noteq> [] \<and> sublist (rule_content str) h"
proof -
  have "length (rule_content str) \<le> MAX_NEEDLE_LENGTH"
    using assms(3) by (simp add: wf_rule_string_def rule_content_def)
  with assms show ?thesis
    using kmp_dfa_search_sublist [of c ro]
    by (simp add: string_contains_def sctx_holds_def wf_rule_string_def)
qed

lemma compare_string_result:
  assumes ready: "matcher_ready e s" and wf: "wf_string (len, hmax, h)" and p: "wf_pred ro p"
    and strs: "wf_event_strings ro e"
  shows "fst (run_state (compare_string ro h (ucast len) hmax p) s) =
    string_sem ro e p (len, hmax, h)"
proof (cases "pr_fieldref p = FIELD_TYPE_NONE")
  case True
  show ?thesis
  proof (cases "rule_string ro p")
    case None
    with True show ?thesis
      by (simp add: compare_string_def string_sem_def needle_of_def create_sctx_def rule_string_def
          case_prod_beta)
  next
    case (Some str)
    with p have ws: "wf_rule_string ro p str" by (simp add: wf_pred_def)
    from create_sctx_result [OF ready wf Some ws] obtain c
      where c: "fst (run_state (create_sctx ro h (ucast len) hmax p) s) = Some c"
        and holds: "sctx_holds c (content (len, hmax, h)) (rule_content str) (pr_operation p)"
        and fit: "needle_fits c" and idx: "sc_idx_to_DFA c = rs_idx_to_DFA str" by blast
    then have "sc_comparison_type c = pr_operation p" by (simp add: sctx_holds_def)
    with True Some c show ?thesis
      by (cases "pr_operation p")
        (simp_all add: compare_string_def string_sem_def needle_of_def case_prod_beta Let_def
          sctx_operations [OF holds] fit regex_search_sem [OF holds idx] contains_sem [OF holds idx ws])
  qed
next
  case False
  then have op: "pr_operation p \<noteq> COMPARISON_TYPE_CONTAINS" "pr_operation p \<noteq> COMPARISON_TYPE_REGEX"
    using p by (auto simp: wf_pred_def)
  show ?thesis
  proof (cases "field_string ro e (pr_fieldref p)")
    case None
    with False create_sctx_fieldref_None [OF ready None] show ?thesis
      by (simp add: compare_string_def string_sem_def needle_of_def case_prod_beta)
  next
    case (Some v)
    then have "wf_string v" by (rule wf_field_string [OF strs])
    from create_sctx_fieldref_result [OF ready wf Some this] obtain c
      where c: "fst (run_state (create_sctx_fieldref ro h (ucast len) hmax p) s) = Some c"
        and holds: "sctx_holds c (content (len, hmax, h)) (content v) (pr_operation p)"
        and fit: "needle_fits c \<longleftrightarrow> string_fits v" by blast
    then have "sc_comparison_type c = pr_operation p" by (simp add: sctx_holds_def)
    with False Some c op show ?thesis
      by (cases "pr_operation p")
        (simp_all add: compare_string_def string_sem_def needle_of_def case_prod_beta Let_def
          sctx_operations [OF holds] fit)
  qed
qed

section \<open>Evaluation of a predicate\<close>

definition attr_sem ::
  "ro_env \<Rightarrow> event_t \<Rightarrow> predicate_t \<Rightarrow> (u16 \<times> nat \<times> bytes) option \<Rightarrow> u32 option \<Rightarrow> bool" where
  "attr_sem ro e p str num =
     (case str of Some v \<Rightarrow> string_sem ro e p v
      | None \<Rightarrow> (case num of Some v \<Rightarrow> numeric_sem ro e p v | None \<Rightarrow> False))"

lemma eval_file_result:
  assumes "matcher_ready e s" and "wf_pred ro p" and "wf_event_strings ro e" and "wf_file f"
  shows "fst (run_state (eval_file ro e f p a) s) = attr_sem ro e p (file_string a f) (file_numeric a f)"
  using assms
  by (cases a) (simp_all add: eval_file_def attr_sem_def file_string_def file_numeric_def
      compare_numeric_result compare_string_result wf_file_def wf_string_def case_prod_beta)

lemma eval_process_result:
  assumes "matcher_ready e s" and "wf_pred ro p" and "wf_event_strings ro e" and "wf_process q"
  shows "fst (run_state (eval_process ro e q p a) s) =
    (if process_string a q = None \<and> process_numeric a q = None
     then attr_sem ro e p (file_string a (p_file q)) (file_numeric a (p_file q))
     else attr_sem ro e p (process_string a q) (process_numeric a q))"
  using assms
  by (cases a) (simp_all add: eval_process_def attr_sem_def process_string_def process_numeric_def
      compare_numeric_result compare_string_result wf_process_def wf_string_def eval_file_result)

text \<open>The dispatch of \<^verbatim>\<open>eval_pred\<close>, by the subject of the field.\<close>

definition eval_subject :: "ro_env \<Rightarrow> event_t \<Rightarrow> predicate_t \<Rightarrow> subject \<Rightarrow> rule_field_type \<Rightarrow> bool bpf" where
  "eval_subject ro e p subj a = (case subj of
       Target_File \<Rightarrow> eval_target_file ro e p
     | Target_Process \<Rightarrow> eval_target_process ro e p a
     | Event_Process \<Rightarrow> eval_process ro e (ev_process e) p a
     | Parent_Process \<Rightarrow> eval_process ro e (ev_parent_process e) p a
     | Rename_Source \<Rightarrow> eval_file ro e (rn_source_file (data_rename ro e)) p a
     | Rename_Destination \<Rightarrow> eval_file ro e (rn_destination_file (data_rename ro e)) p a)"

lemma eval_pred_subject:
  assumes "predicates_map ro i = Some p" and "field_subject (pr_field p) = Some (subj, a)"
  shows "eval_pred ro i e = eval_subject ro e p subj a"
    and "subj = Target_File \<longrightarrow> a = pr_field p"
    and "pr_field p \<noteq> NETWORK_SOURCE_IP \<and> pr_field p \<noteq> NETWORK_DESTINATION_IP"
    and "field_numeric ro e (pr_field p) = attribute_of process_numeric file_numeric ro e (pr_field p)"
  using assms
  by (cases "pr_field p"; auto simp only: eval_pred_def option.case rule_field_type.case
      field_subject_def eval_subject_def subject.case field_numeric_def option.inject prod.inject
      option.distinct rule_field_type.distinct simp_thms)+

lemma process_attr_disjoint:
  "process_numeric a q \<noteq> None \<Longrightarrow> file_string a f = None"
  "process_string a q \<noteq> None \<Longrightarrow> file_numeric a f = None"
  by (cases a; simp add: process_numeric_def process_string_def file_string_def file_numeric_def)+

lemma eval_process_attr:
  assumes "matcher_ready e s" and "wf_pred ro p" and "wf_event_strings ro e" and "wf_process q"
  shows "fst (run_state (eval_process ro e q p a) s) =
    attr_sem ro e p
      (case process_string a q of Some v \<Rightarrow> Some v | None \<Rightarrow> file_string a (p_file q))
      (case process_numeric a q of Some v \<Rightarrow> Some v | None \<Rightarrow> file_numeric a (p_file q))"
  using eval_process_result [OF assms] process_attr_disjoint [of a q "p_file q"]
  by (cases "process_string a q"; cases "process_numeric a q") (auto simp: attr_sem_def)

lemma eval_target_file_result:
  assumes "matcher_ready e s" and "wf_pred ro p" and "wf_event_strings ro e"
  shows "fst (run_state (eval_target_file ro e p) s) =
    attr_sem ro e p (Option.bind (target_file ro e) (file_string (pr_field p)))
      (Option.bind (target_file ro e) (file_numeric (pr_field p)))"
proof -
  have "wf_file f" if "target_file ro e = Some f" for f
    using that assms(3) by (auto simp: wf_event_strings_def subject_file_def split: subject.splits)
  then show ?thesis
    using assms by (cases "ev_type e") (simp_all add: eval_target_file_def target_file_def
        eval_file_result case_prod_beta attr_sem_def)
qed

lemma eval_subject_result:
  assumes "matcher_ready e s" and "wf_pred ro p" and "wf_event_strings ro e"
    and "subj = Target_File \<longrightarrow> a = pr_field p"
  shows "fst (run_state (eval_subject ro e p subj a) s) =
    attr_sem ro e p
      (case Option.bind (subject_process ro e subj) (process_string a) of
         Some v \<Rightarrow> Some v | None \<Rightarrow> Option.bind (subject_file ro e subj) (file_string a))
      (case Option.bind (subject_process ro e subj) (process_numeric a) of
         Some v \<Rightarrow> Some v | None \<Rightarrow> Option.bind (subject_file ro e subj) (file_numeric a))"
proof -
  have wf: "\<And>q. subject_process ro e subj = Some q \<Longrightarrow> wf_process q"
    "\<And>f. subject_file ro e subj = Some f \<Longrightarrow> wf_file f"
    using assms(3) unfolding wf_event_strings_def by blast+
  then show ?thesis
    using assms
    by (cases subj; cases "ev_type e = EXEC")
      (simp_all add: eval_subject_def subject_process_def subject_file_def eval_target_file_result
        eval_process_attr eval_file_result eval_target_process_def attr_sem_def case_prod_beta
        cong: option.case_cong split: event_type.split)
qed

lemma eval_pred_correct:
  assumes "matcher_ready e s" and "wf_rules_db ro" and "wf_event_strings ro e"
  shows "fst (run_state (eval_pred ro i e) s) = pred_holds ro e i"
proof (cases "predicates_map ro i")
  case None
  then show ?thesis by (simp add: eval_pred_def pred_holds_def case_prod_beta)
next
  case (Some p)
  with assms(2) have p: "wf_pred ro p" by (simp add: wf_rules_db_def)
  show ?thesis
  proof (cases "field_subject (pr_field p)")
    case None
    with Some p show ?thesis
      by (cases "pr_field p")
        (simp_all add: field_subject_def eval_pred_def pred_holds_def pred_sem_def eval_ip_result
          compare_numeric_result field_numeric_def field_string_def attribute_of_def case_prod_beta)
  next
    case sa: (Some sa)
    obtain subj a where "sa = (subj, a)" by (cases sa)
    note sa = sa [unfolded this]
    note d = eval_pred_subject [OF Some sa]
    have "fst (run_state (eval_pred ro i e) s) =
        attr_sem ro e p (field_string ro e (pr_field p)) (field_numeric ro e (pr_field p))"
      unfolding d(1,4) field_string_def attribute_of_def sa option.case prod.case
      by (rule eval_subject_result [OF assms(1) p assms(3) d(2)])
    then show ?thesis using Some d(3) by (simp add: pred_holds_def pred_sem_def attr_sem_def)
  qed
qed

section \<open>Frames\<close>

text \<open>Evaluating a predicate changes the string context and the report buffers only.\<close>

lemma keeps_case_comparison [frame_intros]:
  "keeps f m0 \<Longrightarrow> keeps f m1 \<Longrightarrow> keeps f m2 \<Longrightarrow> keeps f m3 \<Longrightarrow> keeps f m4 \<Longrightarrow> keeps f m5 \<Longrightarrow>
   keeps f m6 \<Longrightarrow> keeps f m7 \<Longrightarrow> keeps f m8 \<Longrightarrow> keeps f m9 \<Longrightarrow>
   keeps f (case_comparison_type m0 m1 m2 m3 m4 m5 m6 m7 m8 m9 op)"
  by (cases op) simp_all

lemma keeps_compare_numeric: "report_free f \<Longrightarrow> keeps f (compare_numeric ro e v p)"
  unfolding compare_numeric_def by (intro frame_intros) (simp_all add: report_free_def)

lemma stable_compare_numeric [frame_simps]: "sctx_stable P \<Longrightarrow> preserves P (compare_numeric ro e v p)"
  by (erule stable_keeps) (rule keeps_compare_numeric)

lemma stable_eval_ip [frame_simps]: "sctx_stable P \<Longrightarrow> preserves P (eval_ip ro n p)"
  unfolding eval_ip_def Let_def
  by (intro frame_intros) (simp_all add: sctx_stable_def report_free_def)

lemma stable_case_comparison [frame_intros]:
  "preserves P m0 \<Longrightarrow> preserves P m1 \<Longrightarrow> preserves P m2 \<Longrightarrow> preserves P m3 \<Longrightarrow> preserves P m4 \<Longrightarrow>
   preserves P m5 \<Longrightarrow> preserves P m6 \<Longrightarrow> preserves P m7 \<Longrightarrow> preserves P m8 \<Longrightarrow> preserves P m9 \<Longrightarrow>
   preserves P (case_comparison_type m0 m1 m2 m3 m4 m5 m6 m7 m8 m9 op)"
  by (cases op) simp_all

lemma stable_compare_string [frame_simps]: "sctx_stable P \<Longrightarrow> preserves P (compare_string ro h hl hmax p)"
  unfolding compare_string_def create_sctx_def create_sctx_fieldref_def string_utils_setup_def
  by (intro frame_intros) (simp_all add: sctx_stable_def report_free_def)

lemma stable_eval_file [frame_simps]: "sctx_stable P \<Longrightarrow> preserves P (eval_file ro e f p a)"
  unfolding eval_file_def by (cases a) (simp_all only: rule_field_type.case frame_simps)

lemma stable_eval_process [frame_simps]: "sctx_stable P \<Longrightarrow> preserves P (eval_process ro e q p a)"
  unfolding eval_process_def by (cases a) (simp_all only: rule_field_type.case frame_simps)

lemma stable_eval_target_file [frame_simps]: "sctx_stable P \<Longrightarrow> preserves P (eval_target_file ro e p)"
  unfolding eval_target_file_def by (cases "ev_type e") (simp_all only: event_type.case frame_simps)

lemma stable_eval_target_process [frame_simps]:
  "sctx_stable P \<Longrightarrow> preserves P (eval_target_process ro e p a)"
  unfolding eval_target_process_def by (cases "ev_type e") (simp_all only: event_type.case frame_simps)

lemma stable_eval_pred:
  assumes "sctx_stable P"
  shows "preserves P (eval_pred ro i e)"
proof (cases "predicates_map ro i")
  case None
  with assms show ?thesis by (simp add: eval_pred_def frame_simps)
next
  case (Some p)
  with assms show ?thesis unfolding eval_pred_def option.case
    by (cases "pr_field p") (simp_all only: option.case rule_field_type.case frame_simps)
qed

lemma keeps_eval_pred [frame_intros]:
  "report_free f \<Longrightarrow> (\<And>s g. f (heap_string_utils_ctx_update g s) = f s) \<Longrightarrow> keeps f (eval_pred ro i e)"
  by (intro preserves_keeps stable_eval_pred sctx_stableI) (simp_all add: report_free_def)

end
