(* ===== verification/Matcher.thy ===== *)
theory Matcher
  imports Predicates
begin

text \<open>
  The rule half of \<^verbatim>\<open>event_and_rule_matcher.bpf.h\<close> and \<^verbatim>\<open>.bpf.c\<close>. A rule is a list of tokens in
  postfix order, evaluated on a stack of at most 128 tokens; predicates are pushed unevaluated
  and evaluated only when an operator needs them, with their results kept in a cache keyed by
  the predicate and stamped with the time of the event. The locale \<open>stack_machine\<close> states what
  one step promises and proves that a postfix expression leaves its value on the stack;
  \<^verbatim>\<open>evaluate_token_against_event\<close> interprets it.
\<close>

section \<open>The token stack\<close>

definition STACK_IDX :: "u8 \<Rightarrow> nat" where
  "STACK_IDX stack_pointer = unat stack_pointer AND (MAX_TOKENS_PER_RULE - 1)"

definition get_helper_stack :: "eval_stack option bpf" where
  "get_helper_stack = reads (\<lambda>s. helper_stack s 0)"

definition store_stack :: "eval_stack \<Rightarrow> unit bpf" where
  "store_stack st = State_Monad.update (helper_stack_update (\<lambda>m. m(0 \<mapsto> st)))"

definition stack_empty :: "eval_stack option \<Rightarrow> bool" where
  "stack_empty stack = (case stack of None \<Rightarrow> True | Some st \<Rightarrow> es_stack_pointer st = 0)"

definition stack_push :: "token_t \<Rightarrow> bool bpf" where
  "stack_push token = do {
     stack \<leftarrow> get_helper_stack;
     case stack of
       None \<Rightarrow> State_Monad.return False
     | Some st \<Rightarrow>
         if es_stack_pointer st \<ge> word_of_nat MAX_TOKENS_PER_RULE then State_Monad.return False
         else do {
           store_stack (st\<lparr>es_tokens := (es_tokens st)[STACK_IDX (es_stack_pointer st) := token],
                           es_stack_pointer := es_stack_pointer st + 1\<rparr>);
           State_Monad.return True } }"

definition stack_pop :: "token_t option bpf" where
  "stack_pop = do {
     stack \<leftarrow> get_helper_stack;
     case stack of
       None \<Rightarrow> State_Monad.return None
     | Some st \<Rightarrow>
         if stack_empty (Some st) then State_Monad.return None
         else do {
           let sp = es_stack_pointer st - 1;
           store_stack (st\<lparr>es_stack_pointer := sp\<rparr>);
           State_Monad.return (Some (es_tokens st ! STACK_IDX sp)) } }"

definition stack_top :: "token_t option bpf" where
  "stack_top = do {
     stack \<leftarrow> get_helper_stack;
     case stack of
       None \<Rightarrow> State_Monad.return None
     | Some st \<Rightarrow>
         if stack_empty (Some st) then State_Monad.return None
         else State_Monad.return (Some (es_tokens st ! STACK_IDX (es_stack_pointer st - 1))) }"

section \<open>The result cache\<close>

definition get_cached_pred_result :: "u32 \<Rightarrow> event_t \<Rightarrow> token_result bpf" where
  "get_cached_pred_result pred_idx event =
     (if ev_time event = 0
      then do { REPORT_ERROR GENERIC_ERROR ''get_cached_pred_result''; State_Monad.return TOKEN_RESULT_UNKNOWN }
      else do {
        result \<leftarrow> reads (\<lambda>s. predicates_results_cache s pred_idx);
        case result of
          None \<Rightarrow> State_Monad.return TOKEN_RESULT_UNKNOWN
        | Some r \<Rightarrow>
            if ev_time event = pres_time r then State_Monad.return (pres_result r)
            else State_Monad.return TOKEN_RESULT_UNKNOWN })"

definition set_cached_pred_result :: "u32 \<Rightarrow> token_result \<Rightarrow> event_t \<Rightarrow> unit bpf" where
  "set_cached_pred_result pred_idx pred_result event =
     (if ev_time event = 0 then REPORT_ERROR GENERIC_ERROR ''set_cached_pred_result''
      else do {
        ok \<leftarrow> map_update_elem predicates_results_cache_update pred_idx
               \<lparr>pres_result = pred_result, pres_time = ev_time event\<rparr>;
        if \<not> ok then REPORT_ERROR GENERIC_ERROR ''set_cached_pred_result''
        else State_Monad.return () })"

section \<open>Evaluation\<close>

text \<open>The token passed by reference is a local copy of the caller that is not used again.\<close>

definition get_pred_evaluation :: "ro_env \<Rightarrow> token_t \<Rightarrow> event_t \<Rightarrow> token_result bpf" where
  "get_pred_evaluation ro token current_event =
     (if t_result token \<noteq> TOKEN_RESULT_UNKNOWN then State_Monad.return (t_result token)
      else do {
        cached_result \<leftarrow> get_cached_pred_result (t_pred_idx token) current_event;
        if cached_result \<noteq> TOKEN_RESULT_UNKNOWN then State_Monad.return cached_result
        else do {
          eval_result \<leftarrow> eval_pred ro (t_pred_idx token) current_event;
          let result = (if eval_result then TOKEN_RESULT_TRUE else TOKEN_RESULT_FALSE);
          set_cached_pred_result (t_pred_idx token) result current_event;
          State_Monad.return result } })"

definition result_token :: "token_result \<Rightarrow> token_t" where
  "result_token final_res =
     \<lparr>t_operator_type = OPERATOR_PREDICATE, t_pred_idx = -1, t_result = final_res\<rparr>"

definition push_or_report :: "token_t \<Rightarrow> bool bpf" where
  "push_or_report token = do {
     pushed \<leftarrow> stack_push token;
     if \<not> pushed
     then do { REPORT_ERROR GENERIC_ERROR ''evaluate_token_against_event''; State_Monad.return False }
     else State_Monad.return True }"

definition stack_underflow :: "bool bpf" where
  "stack_underflow = do {
     REPORT_ERROR GENERIC_ERROR ''evaluate_token_against_event''; State_Monad.return False }"

definition evaluate_token_against_event :: "ro_env \<Rightarrow> event_t \<Rightarrow> token_t \<Rightarrow> bool bpf" where
  "evaluate_token_against_event ro event token = (case t_operator_type token of
       OPERATOR_PREDICATE \<Rightarrow> push_or_report token
     | OPERATOR_AND \<Rightarrow> do {
         b \<leftarrow> stack_pop;
         case b of None \<Rightarrow> stack_underflow | Some b \<Rightarrow> do {
         a \<leftarrow> stack_pop;
         case a of None \<Rightarrow> stack_underflow | Some a \<Rightarrow> do {
         a_res \<leftarrow> get_pred_evaluation ro a event;
         final_res \<leftarrow> (if a_res = TOKEN_RESULT_FALSE then State_Monad.return TOKEN_RESULT_FALSE
                       else get_pred_evaluation ro b event);
         push_or_report (result_token final_res) } } }
     | OPERATOR_OR \<Rightarrow> do {
         b \<leftarrow> stack_pop;
         case b of None \<Rightarrow> stack_underflow | Some b \<Rightarrow> do {
         a \<leftarrow> stack_pop;
         case a of None \<Rightarrow> stack_underflow | Some a \<Rightarrow> do {
         a_res \<leftarrow> get_pred_evaluation ro a event;
         final_res \<leftarrow> (if a_res = TOKEN_RESULT_TRUE then State_Monad.return TOKEN_RESULT_TRUE
                       else get_pred_evaluation ro b event);
         push_or_report (result_token final_res) } } }
     | OPERATOR_NOT \<Rightarrow> do {
         a \<leftarrow> stack_pop;
         case a of None \<Rightarrow> stack_underflow | Some a \<Rightarrow> do {
         a_res \<leftarrow> get_pred_evaluation ro a event;
         push_or_report (result_token
           (if a_res = TOKEN_RESULT_TRUE then TOKEN_RESULT_FALSE else TOKEN_RESULT_TRUE)) } })"

text \<open>The token loop, over the indices it runs through.\<close>

primrec token_loop :: "ro_env \<Rightarrow> rule_t \<Rightarrow> event_t \<Rightarrow> nat list \<Rightarrow> bool bpf" where
  "token_loop ro rule event [] = State_Monad.return True"
| "token_loop ro rule event (i # is) =
     (if i \<ge> unat (r_token_count rule) then State_Monad.return True
      else do {
        ok \<leftarrow> evaluate_token_against_event ro event (r_tokens rule ! i);
        if \<not> ok then State_Monad.return False else token_loop ro rule event is })"

definition evaluate_rule_against_event :: "ro_env \<Rightarrow> rule_t \<Rightarrow> event_t \<Rightarrow> bool bpf" where
  "evaluate_rule_against_event ro rule event = do {
     stack \<leftarrow> get_helper_stack;
     case stack of
       None \<Rightarrow> do { REPORT_ERROR GENERIC_ERROR ''evaluate_rule_against_event''; State_Monad.return False }
     | Some st \<Rightarrow> do {
         store_stack (st\<lparr>es_stack_pointer := 0\<rparr>);
         ok \<leftarrow> token_loop ro rule event [0..<MAX_TOKENS_PER_RULE];
         if \<not> ok then State_Monad.return False
         else do {
           final_sp \<leftarrow> reads (\<lambda>s. map_option es_stack_pointer (helper_stack s 0));
           if final_sp \<noteq> Some 1
           then do { REPORT_ERROR GENERIC_ERROR ''evaluate_rule_against_event''; State_Monad.return False }
           else do {
             final_token \<leftarrow> stack_pop;
             case final_token of
               None \<Rightarrow> do {
                 REPORT_ERROR GENERIC_ERROR ''evaluate_rule_against_event''; State_Monad.return False }
             | Some t \<Rightarrow> do {
                 final_result \<leftarrow> get_pred_evaluation ro t event;
                 State_Monad.return (final_result = TOKEN_RESULT_TRUE) } } } } }"

text \<open>
  The callback of \<^verbatim>\<open>bpf_for_each_map_elem\<close>; the result says whether the iteration stops. The event
  it receives by reference is the one in \<^verbatim>\<open>currently_handled_event\<close>.
\<close>

definition event_rule_matcher_callback :: "ro_env \<Rightarrow> rule_t \<Rightarrow> bool bpf" where
  "event_rule_matcher_callback ro current_rule = do {
     current_event \<leftarrow> get_currently_handled_event;
     case current_event of
       None \<Rightarrow> do { REPORT_ERROR GENERIC_ERROR ''event_rule_matcher_callback''; State_Monad.return True }
     | Some event \<Rightarrow>
         if r_is_end_of_rules current_rule \<noteq> 0 then State_Monad.return True
         else do {
           matched \<leftarrow> evaluate_rule_against_event ro current_rule event;
           if matched then do {
             State_Monad.update (currently_handled_event_update (\<lambda>m. m(0 \<mapsto>
               event\<lparr>ev_action := r_action current_rule, ev_matched_rule_id := r_id current_rule\<rparr>)));
             State_Monad.return True }
           else State_Monad.return False } }"

primrec for_each_rule :: "ro_env \<Rightarrow> rule_t list \<Rightarrow> unit bpf" where
  "for_each_rule ro [] = State_Monad.return ()"
| "for_each_rule ro (r # rs) = do {
     stop \<leftarrow> event_rule_matcher_callback ro r;
     if stop then State_Monad.return () else for_each_rule ro rs }"

section \<open>Postfix expressions\<close>

datatype expr = Pred u32 | And expr expr | Or expr expr | Not expr

primrec expr_sem :: "(u32 \<Rightarrow> bool) \<Rightarrow> expr \<Rightarrow> bool" where
  "expr_sem P (Pred i) = P i"
| "expr_sem P (And a b) = (expr_sem P a \<and> expr_sem P b)"
| "expr_sem P (Or a b) = (expr_sem P a \<or> expr_sem P b)"
| "expr_sem P (Not a) = (\<not> expr_sem P a)"

definition op_token :: "operator_types \<Rightarrow> u32 \<Rightarrow> token_t" where
  "op_token opr i = \<lparr>t_operator_type = opr, t_pred_idx = i, t_result = TOKEN_RESULT_UNKNOWN\<rparr>"

text \<open>The parser of the rules file gives an operator token the index \<open>-1\<close>; the machine never reads it.\<close>

primrec postfix :: "expr \<Rightarrow> token_t list" where
  "postfix (Pred i) = [op_token OPERATOR_PREDICATE i]"
| "postfix (And a b) = postfix a @ postfix b @ [op_token OPERATOR_AND (-1)]"
| "postfix (Or a b) = postfix a @ postfix b @ [op_token OPERATOR_OR (-1)]"
| "postfix (Not a) = postfix a @ [op_token OPERATOR_NOT (-1)]"

definition tok_val :: "(u32 \<Rightarrow> bool) \<Rightarrow> token_t \<Rightarrow> bool" where
  "tok_val P t = (case t_result t of
     TOKEN_RESULT_UNKNOWN \<Rightarrow> P (t_pred_idx t) | TOKEN_RESULT_TRUE \<Rightarrow> True | TOKEN_RESULT_FALSE \<Rightarrow> False)"

primrec steps :: "('t \<Rightarrow> ('s, bool) state) \<Rightarrow> 't list \<Rightarrow> ('s, bool) state" where
  "steps step [] = State_Monad.return True"
| "steps step (t # ts) = do {
     ok \<leftarrow> step t;
     if \<not> ok then State_Monad.return False else steps step ts }"

lemma steps_append:
  "steps step (xs @ ys) = do { ok \<leftarrow> steps step xs; if ok then steps step ys else State_Monad.return False }"
  by (induction xs) (simp_all add: if_distrib [of "\<lambda>m. State_Monad.bind m _"] cong: if_cong)

lemma op_token_simps [simp]:
  "t_operator_type (op_token opr i) = opr" "t_pred_idx (op_token opr i) = i"
  "t_result (op_token opr i) = TOKEN_RESULT_UNKNOWN"
  by (simp_all add: op_token_def)

lemma postfix_not_Nil: "0 < length (postfix e)"
  by (induction e) simp_all

locale stack_machine =
  fixes step :: "token_t \<Rightarrow> bool bpf"
    and stk :: "bpf_state \<Rightarrow> token_t list"
    and inv :: "bpf_state \<Rightarrow> bool"
    and sem :: "u32 \<Rightarrow> bool"
  assumes step_pred:
    "inv s \<Longrightarrow> length (stk s) < MAX_TOKENS_PER_RULE \<Longrightarrow> t_operator_type t = OPERATOR_PREDICATE \<Longrightarrow>
     \<exists>s'. run_state (step t) s = (True, s') \<and> inv s' \<and> stk s' = t # stk s"
    and step_and:
    "inv s \<Longrightarrow> t_operator_type t = OPERATOR_AND \<Longrightarrow> stk s = b # a # ts \<Longrightarrow>
     \<exists>s' r. run_state (step t) s = (True, s') \<and> inv s' \<and> stk s' = r # ts
        \<and> tok_val sem r = (tok_val sem a \<and> tok_val sem b)"
    and step_or:
    "inv s \<Longrightarrow> t_operator_type t = OPERATOR_OR \<Longrightarrow> stk s = b # a # ts \<Longrightarrow>
     \<exists>s' r. run_state (step t) s = (True, s') \<and> inv s' \<and> stk s' = r # ts
        \<and> tok_val sem r = (tok_val sem a \<or> tok_val sem b)"
    and step_not:
    "inv s \<Longrightarrow> t_operator_type t = OPERATOR_NOT \<Longrightarrow> stk s = a # ts \<Longrightarrow>
     \<exists>s' r. run_state (step t) s = (True, s') \<and> inv s' \<and> stk s' = r # ts
        \<and> tok_val sem r = (\<not> tok_val sem a)"
begin

text \<open>The tokens of an expression leave one token with the value of the expression.\<close>

lemma postfix_steps:
  "inv s \<Longrightarrow> length (stk s) + length (postfix e) \<le> MAX_TOKENS_PER_RULE \<Longrightarrow>
   \<exists>s' r. run_state (steps step (postfix e)) s = (True, s') \<and> inv s' \<and> stk s' = r # stk s
     \<and> tok_val sem r = expr_sem sem e"
proof (induction e arbitrary: s)
  case (Pred i)
  then have "length (stk s) < MAX_TOKENS_PER_RULE" by simp
  from step_pred [OF Pred(1) this, of "op_token OPERATOR_PREDICATE i"] obtain s'
    where "run_state (step (op_token OPERATOR_PREDICATE i)) s = (True, s')" "inv s'"
      "stk s' = op_token OPERATOR_PREDICATE i # stk s" by auto
  then show ?case by (simp add: tok_val_def)
next
  case (And a b)
  from And.IH(1) [OF And.prems(1)] And.prems(2) obtain s1 x where
    1: "run_state (steps step (postfix a)) s = (True, s1)" "inv s1" "stk s1 = x # stk s"
      "tok_val sem x = expr_sem sem a" by auto
  with And.IH(2) [OF 1(2)] And.prems(2) postfix_not_Nil [of a] obtain s2 y where
    2: "run_state (steps step (postfix b)) s1 = (True, s2)" "inv s2" "stk s2 = y # x # stk s"
      "tok_val sem y = expr_sem sem b" by auto
  from step_and [OF 2(2) _ 2(3), of "op_token OPERATOR_AND (-1)"] show ?case
    using 1 2 by (fastforce simp: steps_append)
next
  case (Or a b)
  from Or.IH(1) [OF Or.prems(1)] Or.prems(2) obtain s1 x where
    1: "run_state (steps step (postfix a)) s = (True, s1)" "inv s1" "stk s1 = x # stk s"
      "tok_val sem x = expr_sem sem a" by auto
  with Or.IH(2) [OF 1(2)] Or.prems(2) postfix_not_Nil [of a] obtain s2 y where
    2: "run_state (steps step (postfix b)) s1 = (True, s2)" "inv s2" "stk s2 = y # x # stk s"
      "tok_val sem y = expr_sem sem b" by auto
  from step_or [OF 2(2) _ 2(3), of "op_token OPERATOR_OR (-1)"] show ?case
    using 1 2 by (fastforce simp: steps_append)
next
  case (Not a)
  from Not.IH [OF Not.prems(1)] Not.prems(2) obtain s1 x where
    1: "run_state (steps step (postfix a)) s = (True, s1)" "inv s1" "stk s1 = x # stk s"
      "tok_val sem x = expr_sem sem a" by auto
  from step_not [OF 1(2) _ 1(3), of "op_token OPERATOR_NOT (-1)"] show ?case
    using 1 by (fastforce simp: steps_append)
qed

end

section \<open>Stack and cache\<close>

definition tok_stack :: "bpf_state \<Rightarrow> token_t list" where
  "tok_stack s = (case helper_stack s 0 of
     None \<Rightarrow> [] | Some st \<Rightarrow> rev (take (unat (es_stack_pointer st)) (es_tokens st)))"

definition stack_ok :: "bpf_state \<Rightarrow> bool" where
  "stack_ok s \<longleftrightarrow> (\<exists>st. helper_stack s 0 = Some st \<and> length (es_tokens st) = MAX_TOKENS_PER_RULE
     \<and> unat (es_stack_pointer st) \<le> MAX_TOKENS_PER_RULE)"

definition cache_coherent :: "ro_env \<Rightarrow> event_t \<Rightarrow> bpf_state \<Rightarrow> bool" where
  "cache_coherent ro e s \<longleftrightarrow> (\<forall>i r. predicates_results_cache s i = Some r \<longrightarrow> pres_time r = ev_time e \<longrightarrow>
     pres_result r = (if pred_holds ro e i then TOKEN_RESULT_TRUE else TOKEN_RESULT_FALSE))"

definition matcher_inv :: "ro_env \<Rightarrow> event_t \<Rightarrow> bpf_state \<Rightarrow> bool" where
  "matcher_inv ro e s \<longleftrightarrow> wf_rules_db ro \<and> wf_event_strings ro e \<and> ev_time e \<noteq> 0 \<and>
     matcher_ready e s \<and> stack_ok s \<and> cache_coherent ro e s"

lemma STACK_IDX_id: "unat sp < 128 \<Longrightarrow> STACK_IDX sp = unat sp"
  by (simp add: STACK_IDX_def and_127_mod)

lemma run_store_stack [simp]:
  "run_state (store_stack st) s = ((), s\<lparr>helper_stack := (helper_stack s)(0 \<mapsto> st)\<rparr>)"
  by (simp add: store_stack_def)

lemma matcher_inv_stack:
  "matcher_inv ro e s \<Longrightarrow> length (es_tokens st) = MAX_TOKENS_PER_RULE \<Longrightarrow>
   unat (es_stack_pointer st) \<le> MAX_TOKENS_PER_RULE \<Longrightarrow>
   matcher_inv ro e (s\<lparr>helper_stack := (helper_stack s)(0 \<mapsto> st)\<rparr>)"
  by (auto simp: matcher_inv_def matcher_ready_def helpers_succeed_def stack_ok_def cache_coherent_def)

lemma run_stack_push:
  assumes "matcher_inv ro e s" and "length (tok_stack s) < MAX_TOKENS_PER_RULE"
  shows "\<exists>s'. run_state (stack_push t) s = (True, s') \<and> matcher_inv ro e s' \<and> tok_stack s' = t # tok_stack s"
proof -
  obtain st where st: "helper_stack s 0 = Some st" "length (es_tokens st) = 128"
    "unat (es_stack_pointer st) \<le> 128"
    using assms(1) by (auto simp: matcher_inv_def stack_ok_def)
  then have sp: "unat (es_stack_pointer st) < 128" using assms(2) by (simp add: tok_stack_def)
  then have suc: "unat (es_stack_pointer st + 1) = Suc (unat (es_stack_pointer st))"
    by (simp add: unat_word_ariths)
  let ?st = "st\<lparr>es_tokens := (es_tokens st)[unat (es_stack_pointer st) := t],
                es_stack_pointer := es_stack_pointer st + 1\<rparr>"
  have "run_state (stack_push t) s = (True, s\<lparr>helper_stack := (helper_stack s)(0 \<mapsto> ?st)\<rparr>)"
    using st sp by (simp add: stack_push_def get_helper_stack_def STACK_IDX_id word_le_nat_alt)
  moreover have "matcher_inv ro e (s\<lparr>helper_stack := (helper_stack s)(0 \<mapsto> ?st)\<rparr>)"
    using st sp suc by (intro matcher_inv_stack [OF assms(1)]) simp_all
  ultimately show ?thesis
    using st sp suc by (simp add: tok_stack_def take_Suc_conv_app_nth)
qed

lemma run_stack_pop:
  assumes "matcher_inv ro e s" and "tok_stack s = t # ts"
  shows "\<exists>s'. run_state stack_pop s = (Some t, s') \<and> matcher_inv ro e s' \<and> tok_stack s' = ts"
proof -
  obtain st where st: "helper_stack s 0 = Some st" "length (es_tokens st) = 128"
    "unat (es_stack_pointer st) \<le> 128"
    using assms(1) by (auto simp: matcher_inv_def stack_ok_def)
  with assms(2) have pos: "0 < unat (es_stack_pointer st)" by (auto simp: tok_stack_def intro: gr0I)
  then have dec: "unat (es_stack_pointer st) = Suc (unat (es_stack_pointer st - 1))"
    by (metis Suc_pred' unat_minus_one unsigned_eq_0_iff gr_implies_not0)
  let ?st = "st\<lparr>es_stack_pointer := es_stack_pointer st - 1\<rparr>"
  have t: "es_tokens st ! unat (es_stack_pointer st - 1) = t"
    "rev (take (unat (es_stack_pointer st - 1)) (es_tokens st)) = ts"
    using assms(2) st dec by (auto simp: tok_stack_def take_Suc_conv_app_nth)
  have "run_state stack_pop s = (Some t, s\<lparr>helper_stack := (helper_stack s)(0 \<mapsto> ?st)\<rparr>)"
    using st t dec pos by (auto simp: stack_pop_def get_helper_stack_def stack_empty_def STACK_IDX_id Let_def)
  moreover have "matcher_inv ro e (s\<lparr>helper_stack := (helper_stack s)(0 \<mapsto> ?st)\<rparr>)"
    using st dec by (intro matcher_inv_stack [OF assms(1)]) simp_all
  ultimately show ?thesis using t by (simp add: tok_stack_def)
qed

text \<open>Evaluating a token yields its value, keeps the cache coherent and leaves the stack alone.\<close>

definition as_result :: "bool \<Rightarrow> token_result" where
  "as_result b = (if b then TOKEN_RESULT_TRUE else TOKEN_RESULT_FALSE)"

lemma as_result_simps [simp]:
  "as_result b \<noteq> TOKEN_RESULT_UNKNOWN" "as_result b = TOKEN_RESULT_TRUE \<longleftrightarrow> b"
  "as_result b = TOKEN_RESULT_FALSE \<longleftrightarrow> \<not> b"
  by (simp_all add: as_result_def)

lemma tok_val_result_token [simp]: "tok_val P (result_token (as_result b)) = b"
  by (simp add: tok_val_def result_token_def as_result_def)

lemma get_cached_result:
  assumes "matcher_inv ro e s"
  shows "\<exists>r. run_state (get_cached_pred_result i e) s = (r, s) \<and>
    (r = TOKEN_RESULT_UNKNOWN \<or> r = as_result (pred_holds ro e i))"
  using assms
  by (auto simp: matcher_inv_def cache_coherent_def get_cached_pred_result_def as_result_def
      split: option.splits)

lemma eval_pred_inv:
  assumes "matcher_inv ro e s"
  shows "\<exists>s'. run_state (eval_pred ro i e) s = (pred_holds ro e i, s') \<and> matcher_inv ro e s'
    \<and> helper_stack s' = helper_stack s"
proof -
  let ?s = "snd (run_state (eval_pred ro i e) s)"
  have "fst (run_state (eval_pred ro i e) s) = pred_holds ro e i"
    using assms by (intro eval_pred_correct) (simp_all add: matcher_inv_def)
  moreover have "matcher_ready e ?s"
    using assms by (intro preservesD [OF stable_eval_pred [OF matcher_ready_stable]])
      (simp add: matcher_inv_def)
  moreover have "helper_stack ?s = helper_stack s"
    "predicates_results_cache ?s = predicates_results_cache s"
    by (rule keeps_snd, intro frame_intros, simp_all)+
  ultimately show ?thesis
    using assms by (cases "run_state (eval_pred ro i e) s")
      (auto simp: matcher_inv_def stack_ok_def cache_coherent_def)
qed

lemma set_cached_result:
  assumes "matcher_inv ro e s"
  shows "\<exists>s'. run_state (set_cached_pred_result i (as_result (pred_holds ro e i)) e) s = ((), s')
    \<and> matcher_inv ro e s' \<and> helper_stack s' = helper_stack s"
  using assms
  by (auto simp: matcher_inv_def set_cached_pred_result_def run_map_update_elem matcher_ready_def
      helpers_succeed_def stack_ok_def cache_coherent_def as_result_def Let_def)

lemma get_pred_evaluation_result:
  assumes "matcher_inv ro e s"
  shows "\<exists>s'. run_state (get_pred_evaluation ro t e) s = (as_result (tok_val (pred_holds ro e) t), s')
    \<and> matcher_inv ro e s' \<and> tok_stack s' = tok_stack s"
proof (cases "t_result t = TOKEN_RESULT_UNKNOWN")
  case False
  with assms show ?thesis
    by (cases "t_result t") (auto simp: get_pred_evaluation_def tok_val_def as_result_def)
next
  case True
  let ?i = "t_pred_idx t"
  from get_cached_result [OF assms] obtain r where r: "run_state (get_cached_pred_result ?i e) s = (r, s)"
    and cases: "r = TOKEN_RESULT_UNKNOWN \<or> r = as_result (pred_holds ro e ?i)" by blast
  show ?thesis
  proof (cases "r = TOKEN_RESULT_UNKNOWN")
    case False
    with True r cases assms show ?thesis by (simp add: get_pred_evaluation_def tok_val_def)
  next
    case unknown: True
    obtain s1 where s1: "run_state (eval_pred ro ?i e) s = (pred_holds ro e ?i, s1)"
      "matcher_inv ro e s1" "helper_stack s1 = helper_stack s" using eval_pred_inv [OF assms] by blast
    obtain s2 where s2: "run_state (set_cached_pred_result ?i (as_result (pred_holds ro e ?i)) e) s1 = ((), s2)"
      "matcher_inv ro e s2" "helper_stack s2 = helper_stack s1" using set_cached_result [OF s1(2)] by blast
    show ?thesis
      using True unknown r s1 s2
      by (simp add: get_pred_evaluation_def tok_val_def Let_def as_result_def [symmetric] tok_stack_def)
  qed
qed

section \<open>One step\<close>

lemma run_push_result:
  assumes "matcher_inv ro e s" and "length (tok_stack s) < MAX_TOKENS_PER_RULE"
  shows "\<exists>s'. run_state (push_or_report t) s = (True, s') \<and> matcher_inv ro e s' \<and> tok_stack s' = t # tok_stack s"
  using run_stack_push [OF assms, of t] by (auto simp: push_or_report_def)

lemma tok_stack_length: "matcher_inv ro e s \<Longrightarrow> length (tok_stack s) \<le> MAX_TOKENS_PER_RULE"
  by (auto simp: matcher_inv_def stack_ok_def tok_stack_def)

text \<open>The binary operators: the second operand is evaluated only when the first does not decide.\<close>

lemma step_binary:
  assumes inv: "matcher_inv ro e s" and stk: "tok_stack s = b # a # ts"
    and opr: "t_operator_type t = OPERATOR_AND \<and> f = (\<and>) \<or> t_operator_type t = OPERATOR_OR \<and> f = (\<or>)"
  shows "\<exists>s' r. run_state (evaluate_token_against_event ro e t) s = (True, s') \<and> matcher_inv ro e s'
    \<and> tok_stack s' = r # ts
    \<and> tok_val (pred_holds ro e) r = f (tok_val (pred_holds ro e) a) (tok_val (pred_holds ro e) b)"
proof -
  let ?v = "tok_val (pred_holds ro e)"
  obtain s1 where s1: "run_state stack_pop s = (Some b, s1)" "matcher_inv ro e s1" "tok_stack s1 = a # ts"
    using run_stack_pop [OF inv stk] by blast
  obtain s2 where s2: "run_state stack_pop s1 = (Some a, s2)" "matcher_inv ro e s2" "tok_stack s2 = ts"
    using run_stack_pop [OF s1(2,3)] by blast
  obtain s3 where s3: "run_state (get_pred_evaluation ro a e) s2 = (as_result (?v a), s3)"
    "matcher_inv ro e s3" "tok_stack s3 = ts" using get_pred_evaluation_result [OF s2(2)] s2(3) by metis
  obtain s4 where s4: "run_state (get_pred_evaluation ro b e) s3 = (as_result (?v b), s4)"
    "matcher_inv ro e s4" "tok_stack s4 = ts" using get_pred_evaluation_result [OF s3(2)] s3(3) by metis
  have room: "length ts < MAX_TOKENS_PER_RULE" using tok_stack_length [OF inv] stk by simp
  define s5 where "s5 = (if ?v a = (t_operator_type t = OPERATOR_OR) then s3 else s4)"
  have s5: "matcher_inv ro e s5" "tok_stack s5 = ts" using s3 s4 by (simp_all add: s5_def)
  obtain s6 where s6: "run_state (push_or_report (result_token (as_result (f (?v a) (?v b))))) s5 = (True, s6)"
    "matcher_inv ro e s6" "tok_stack s6 = result_token (as_result (f (?v a) (?v b))) # ts"
    using run_push_result [OF s5(1)] s5(2) room by metis
  have "run_state (evaluate_token_against_event ro e t) s = (True, s6)"
    using opr s1(1) s2(1) s3(1) s4(1) s6(1)
    by (cases "?v a") (auto simp: evaluate_token_against_event_def s5_def as_result_def)
  with s6 show ?thesis by auto
qed

lemma step_unary:
  assumes inv: "matcher_inv ro e s" and stk: "tok_stack s = a # ts"
    and opr: "t_operator_type t = OPERATOR_NOT"
  shows "\<exists>s' r. run_state (evaluate_token_against_event ro e t) s = (True, s') \<and> matcher_inv ro e s'
    \<and> tok_stack s' = r # ts \<and> tok_val (pred_holds ro e) r = (\<not> tok_val (pred_holds ro e) a)"
proof -
  let ?v = "tok_val (pred_holds ro e)"
  obtain s1 where s1: "run_state stack_pop s = (Some a, s1)" "matcher_inv ro e s1" "tok_stack s1 = ts"
    using run_stack_pop [OF inv stk] by blast
  obtain s2 where s2: "run_state (get_pred_evaluation ro a e) s1 = (as_result (?v a), s2)"
    "matcher_inv ro e s2" "tok_stack s2 = ts" using get_pred_evaluation_result [OF s1(2)] s1(3) by metis
  have room: "length ts < MAX_TOKENS_PER_RULE" using tok_stack_length [OF inv] stk by simp
  obtain s3 where s3: "run_state (push_or_report (result_token (as_result (\<not> ?v a)))) s2 = (True, s3)"
    "matcher_inv ro e s3" "tok_stack s3 = result_token (as_result (\<not> ?v a)) # ts"
    using run_push_result [OF s2(2)] s2(3) room by metis
  have "run_state (evaluate_token_against_event ro e t) s = (True, s3)"
    using opr s1(1) s2(1) s3(1)
    by (cases "?v a") (auto simp: evaluate_token_against_event_def as_result_def)
  with s3 show ?thesis by auto
qed

interpretation rm: stack_machine "evaluate_token_against_event ro e" tok_stack "matcher_inv ro e"
  "pred_holds ro e" for ro e
proof
  show "\<exists>s'. run_state (evaluate_token_against_event ro e t) s = (True, s') \<and> matcher_inv ro e s' \<and>
      tok_stack s' = t # tok_stack s"
    if "matcher_inv ro e s" "length (tok_stack s) < MAX_TOKENS_PER_RULE"
      "t_operator_type t = OPERATOR_PREDICATE" for s t
    using run_push_result [OF that(1,2), of t] that(3) by (simp add: evaluate_token_against_event_def)
qed (rule step_binary step_unary; simp)+

section \<open>Rules\<close>

lemma token_loop_steps:
  "n \<le> MAX_TOKENS_PER_RULE \<Longrightarrow> i \<le> unat (r_token_count rule) \<Longrightarrow> unat (r_token_count rule) \<le> n \<Longrightarrow>
   unat (r_token_count rule) \<le> length (r_tokens rule) \<Longrightarrow>
   token_loop ro rule e [i..<n] =
     steps (evaluate_token_against_event ro e) (drop i (take (unat (r_token_count rule)) (r_tokens rule)))"
proof (induction "n - i" arbitrary: i)
  case 0
  then show ?case by simp
next
  case (Suc d)
  then have "i < n" by simp
  then have upt: "[i..<n] = i # [Suc i..<n]" by (rule upt_conv_Cons)
  show ?case
  proof (cases "i = unat (r_token_count rule)")
    case True
    then show ?thesis unfolding upt by simp
  next
    case False
    with Suc.prems have i: "i < unat (r_token_count rule)" by simp
    let ?ts = "take (unat (r_token_count rule)) (r_tokens rule)"
    have "drop i ?ts = r_tokens rule ! i # drop (Suc i) ?ts"
      using i Suc.prems Cons_nth_drop_Suc [of i ?ts] by simp
    moreover have "token_loop ro rule e [Suc i..<n] = steps (evaluate_token_against_event ro e) (drop (Suc i) ?ts)"
      using Suc i by (intro Suc.hyps(1)) auto
    ultimately show ?thesis using i unfolding upt by (simp cong: if_cong)
  qed
qed

text \<open>\<open>rule_encodes r x\<close>: the token array of the rule holds the postfix form of the expression.\<close>

definition rule_encodes :: "rule_t \<Rightarrow> expr \<Rightarrow> bool" where
  "rule_encodes r x \<longleftrightarrow> length (r_tokens r) = MAX_TOKENS_PER_RULE \<and>
     unat (r_token_count r) = length (postfix x) \<and>
     take (length (postfix x)) (r_tokens r) = postfix x"

lemma rule_encodes_length: "rule_encodes r x \<Longrightarrow> length (postfix x) \<le> MAX_TOKENS_PER_RULE"
  unfolding rule_encodes_def by (metis length_take min.absorb_iff2 min.commute)

lemma evaluate_rule_result:
  assumes inv: "matcher_inv ro e s" and enc: "rule_encodes r x"
  shows "\<exists>s'. run_state (evaluate_rule_against_event ro r e) s = (expr_sem (pred_holds ro e) x, s')
    \<and> matcher_inv ro e s'"
proof -
  obtain st where st: "helper_stack s 0 = Some st" "length (es_tokens st) = MAX_TOKENS_PER_RULE"
    using inv by (auto simp: matcher_inv_def stack_ok_def)
  let ?s0 = "s\<lparr>helper_stack := (helper_stack s)(0 \<mapsto> st\<lparr>es_stack_pointer := 0\<rparr>)\<rparr>"
  have inv0: "matcher_inv ro e ?s0" using st by (intro matcher_inv_stack [OF inv]) simp_all
  have empty: "tok_stack ?s0 = []" by (simp add: tok_stack_def)
  note len = rule_encodes_length [OF enc]
  have "token_loop ro r e [0..<MAX_TOKENS_PER_RULE] = steps (evaluate_token_against_event ro e) (postfix x)"
    using enc len by (subst token_loop_steps) (simp_all add: rule_encodes_def)
  moreover obtain s1 t where s1: "run_state (steps (evaluate_token_against_event ro e) (postfix x)) ?s0 = (True, s1)"
    "matcher_inv ro e s1" "tok_stack s1 = [t]" "tok_val (pred_holds ro e) t = expr_sem (pred_holds ro e) x"
    using rm.postfix_steps [OF inv0, of x] empty len by auto
  ultimately have loop: "run_state (token_loop ro r e [0..<MAX_TOKENS_PER_RULE]) ?s0 = (True, s1)" by simp
  have "length (tok_stack s1) = 1" using s1(3) by simp
  then have sp: "map_option es_stack_pointer (helper_stack s1 0) = Some 1"
    using s1(2) by (auto simp: matcher_inv_def stack_ok_def tok_stack_def word_unat_eq_iff)
  obtain s2 where s2: "run_state stack_pop s1 = (Some t, s2)" "matcher_inv ro e s2"
    using run_stack_pop [OF s1(2,3)] by blast
  obtain s3 where s3: "run_state (get_pred_evaluation ro t e) s2 =
      (as_result (expr_sem (pred_holds ro e) x), s3)" "matcher_inv ro e s3"
    using get_pred_evaluation_result [OF s2(2), of t] s1(4) by auto
  show ?thesis
    using st(1) loop sp s2(1) s3
    by (simp add: evaluate_rule_against_event_def get_helper_stack_def del: upt_rec_numeral upt_Suc)
qed

section \<open>The rule list\<close>

text \<open>The first rule before the end marker that satisfies \<open>P\<close>.\<close>

fun first_match :: "(rule_t \<Rightarrow> bool) \<Rightarrow> rule_t list \<Rightarrow> rule_t option" where
  "first_match P [] = None"
| "first_match P (r # rs) =
     (if r_is_end_of_rules r \<noteq> 0 then None else if P r then Some r else first_match P rs)"

definition decided_event :: "rule_t option \<Rightarrow> event_t \<Rightarrow> event_t" where
  "decided_event m e = (case m of
     None \<Rightarrow> e | Some r \<Rightarrow> e\<lparr>ev_action := r_action r, ev_matched_rule_id := r_id r\<rparr>)"

text \<open>The rules before the end marker encode expressions; the iteration stops at the marker.\<close>

definition rules_encode :: "rule_t list \<Rightarrow> (rule_t \<Rightarrow> expr) \<Rightarrow> bool" where
  "rules_encode rs ex \<longleftrightarrow> (\<forall>r \<in> set (takeWhile (\<lambda>r. r_is_end_of_rules r = 0) rs). rule_encodes r (ex r))"

lemma first_match_Some:
  "first_match P rs = Some r \<longleftrightarrow>
   (\<exists>us vs. rs = us @ r # vs \<and> (\<forall>u \<in> set us. r_is_end_of_rules u = 0 \<and> \<not> P u)
      \<and> r_is_end_of_rules r = 0 \<and> P r)" (is "_ \<longleftrightarrow> ?R rs")
proof
  show "?R rs" if "first_match P rs = Some r"
    using that
  proof (induction rs)
    case (Cons a rs)
    show ?case
    proof (cases "r_is_end_of_rules a = 0 \<and> \<not> P a")
      case True
      with Cons obtain us vs where "rs = us @ r # vs" "\<forall>u \<in> set us. r_is_end_of_rules u = 0 \<and> \<not> P u"
        "r_is_end_of_rules r = 0 \<and> P r" by auto
      with True show ?thesis by (intro exI [of _ "a # us"] exI [of _ vs]) simp
    next
      case False
      with Cons.prems have "a = r" "r_is_end_of_rules r = 0 \<and> P r" by (auto split: if_splits)
      then show ?thesis by (intro exI [of _ "[]"] exI [of _ rs]) simp
    qed
  qed simp
  show "first_match P rs = Some r" if "?R rs"
  proof -
    from that obtain us vs where rs: "rs = us @ r # vs" and r: "r_is_end_of_rules r = 0 \<and> P r"
      and us: "\<forall>u \<in> set us. r_is_end_of_rules u = 0 \<and> \<not> P u" by blast
    show ?thesis unfolding rs using us r by (induction us) simp_all
  qed
qed

lemma for_each_rule_result:
  assumes "matcher_inv ro e s" and "rules_encode rs ex"
  shows "\<exists>s'. run_state (for_each_rule ro rs) s = ((), s') \<and> helpers_succeed s' \<and>
    currently_handled_event s' 0 = Some (decided_event (first_match (\<lambda>r. expr_sem (pred_holds ro e) (ex r)) rs) e)"
  using assms
proof (induction rs arbitrary: s)
  case Nil
  then show ?case by (auto simp: matcher_inv_def matcher_ready_def decided_event_def)
next
  case (Cons r rs)
  have cur: "currently_handled_event s 0 = Some e" and hs: "helpers_succeed s"
    using Cons.prems(1) by (auto simp: matcher_inv_def matcher_ready_def)
  show ?case
  proof (cases "r_is_end_of_rules r = 0")
    case False
    with cur hs show ?thesis
      by (simp add: event_rule_matcher_callback_def get_currently_handled_event_def decided_event_def)
  next
    case True
    with Cons.prems(2) have "rule_encodes r (ex r)" by (simp add: rules_encode_def)
    from evaluate_rule_result [OF Cons.prems(1) this] obtain s1 where
      s1: "run_state (evaluate_rule_against_event ro r e) s = (expr_sem (pred_holds ro e) (ex r), s1)"
      "matcher_inv ro e s1" by blast
    have "rules_encode rs ex" using Cons.prems(2) by (auto simp: rules_encode_def True)
    from Cons.IH [OF s1(2) this] s1 True cur show ?thesis
      by (auto simp: event_rule_matcher_callback_def get_currently_handled_event_def decided_event_def
          matcher_inv_def matcher_ready_def helpers_succeed_def)
  qed
qed

section \<open>Frames\<close>

text \<open>
  Matching changes the string context, the token stack, the result cache, the decision fields of
  the handled event and the report buffers; every other part of the state is kept.
\<close>

definition matcher_free :: "(bpf_state \<Rightarrow> 'b) \<Rightarrow> bool" where
  "matcher_free f \<longleftrightarrow> report_free f \<and> (\<forall>s g. f (heap_string_utils_ctx_update g s) = f s) \<and>
     (\<forall>s g. f (helper_stack_update g s) = f s) \<and> (\<forall>s g. f (predicates_results_cache_update g s) = f s) \<and>
     (\<forall>s g. f (currently_handled_event_update g s) = f s)"

lemma matcher_freeI [frame_intros]:
  "report_free f \<Longrightarrow> (\<And>s g. f (heap_string_utils_ctx_update g s) = f s) \<Longrightarrow>
   (\<And>s g. f (helper_stack_update g s) = f s) \<Longrightarrow> (\<And>s g. f (predicates_results_cache_update g s) = f s) \<Longrightarrow>
   (\<And>s g. f (currently_handled_event_update g s) = f s) \<Longrightarrow> matcher_free f"
  by (simp add: matcher_free_def)

lemmas matcher_defs = get_pred_evaluation_def get_cached_pred_result_def set_cached_pred_result_def
  push_or_report_def stack_push_def stack_pop_def stack_underflow_def get_helper_stack_def
  store_stack_def get_currently_handled_event_def

lemma keeps_get_pred_evaluation:
  "matcher_free f \<Longrightarrow> keeps f (get_pred_evaluation ro t e)"
  unfolding matcher_defs
  by (intro frame_intros) (simp_all add: matcher_free_def report_free_def)

lemma keeps_evaluate_token:
  assumes "matcher_free f"
  shows "keeps f (evaluate_token_against_event ro e t)"
proof -
  note [frame_intros] = keeps_get_pred_evaluation [OF assms]
  have "keeps f (push_or_report t)" "keeps f stack_pop" "keeps f stack_underflow" for t
    using assms unfolding matcher_defs
    by (intro frame_intros; simp add: matcher_free_def report_free_def)+
  note [frame_intros] = this
  show ?thesis unfolding evaluate_token_against_event_def
    by (cases "t_operator_type t"; simp only: operator_types.case; intro frame_intros)
qed

lemma keeps_token_loop: "matcher_free f \<Longrightarrow> keeps f (token_loop ro r e is)"
  by (induction "is") (auto intro!: keeps_bind keeps_if keeps_return keeps_evaluate_token)

lemma keeps_evaluate_rule: "matcher_free f \<Longrightarrow> keeps f (evaluate_rule_against_event ro r e)"
  unfolding evaluate_rule_against_event_def get_helper_stack_def store_stack_def stack_pop_def
  by (intro frame_intros keeps_token_loop keeps_get_pred_evaluation)
    (simp_all add: matcher_free_def report_free_def)

lemma keeps_callback: "matcher_free f \<Longrightarrow> keeps f (event_rule_matcher_callback ro r)"
  unfolding event_rule_matcher_callback_def get_currently_handled_event_def
  by (intro frame_intros keeps_evaluate_rule) (simp_all add: matcher_free_def report_free_def)

lemma keeps_for_each_rule [frame_intros]: "matcher_free f \<Longrightarrow> keeps f (for_each_rule ro rs)"
  by (induction rs) (auto intro!: keeps_bind keeps_if keeps_return keeps_callback)

end
