(* ===== verification/Process_Cache.thy ===== *)
theory Process_Cache
  imports Allocators
begin

text \<open>
  \<^verbatim>\<open>process_cache.bpf.h\<close>, \<^verbatim>\<open>pids_to_ignore.bpf.h\<close>, \<^verbatim>\<open>protected_processes.bpf.h\<close> and
  \<^verbatim>\<open>active_shells.bpf.h\<close>: the cache of running processes by pid, the LRU cache of exited processes
  by unique id, and the pid sets. A cached process is handed out as a copy in a scratch slot.
  The two caches share one contract, the locale \<open>process_store\<close>: what is stored under a key is
  what a later lookup of that key copies out.
\<close>

section \<open>Scratch slots\<close>

definition store_process :: "u32 \<Rightarrow> process_t \<Rightarrow> unit bpf" where
  "store_process slot p = State_Monad.update (heap_process_t_map_update (\<lambda>m. m(slot \<mapsto> p)))"

definition load_process :: "u32 \<Rightarrow> process_t bpf" where
  "load_process slot = reads (\<lambda>s. case heap_process_t_map s slot of None \<Rightarrow> empty_process_t | Some p \<Rightarrow> p)"

section \<open>Operations on the caches\<close>

definition delete_process_from_alive_process_cache :: "u32 \<Rightarrow> unit bpf" where
  "delete_process_from_alive_process_cache pid = do {
     _ \<leftarrow> map_delete_elem alive_process_cache_map alive_process_cache_map_update pid;
     State_Monad.return () }"

text \<open>The key and the cache are the update \<open>put\<close> of that key in that cache.\<close>

definition update_process_in_cache :: "(process_t \<Rightarrow> bool bpf) \<Rightarrow> process_t \<Rightarrow> int bpf" where
  "update_process_in_cache put p = do {
     tmp \<leftarrow> allocate_process_t;
     case tmp of
       None \<Rightarrow> do { REPORT_ERROR GENERIC_ERROR ''update_process_in_cache''; State_Monad.return GENERIC_ERROR }
     | Some slot \<Rightarrow> do {
         ok \<leftarrow> helper_ok;
         if \<not> ok
         then do { REPORT_ERROR GENERIC_ERROR ''update_process_in_cache''; State_Monad.return GENERIC_ERROR }
         else do {
           store_process slot p;
           copy \<leftarrow> load_process slot;
           updated \<leftarrow> put copy;
           if \<not> updated
           then do { REPORT_ERROR GENERIC_ERROR ''update_process_in_cache''; State_Monad.return GENERIC_ERROR }
           else State_Monad.return SUCCESS } } }"

definition get_process_from_cache :: "(bpf_state \<Rightarrow> process_t option) \<Rightarrow> u32 option bpf" where
  "get_process_from_cache lookup = do {
     ent \<leftarrow> reads lookup;
     case ent of
       None \<Rightarrow> State_Monad.return None
     | Some cached \<Rightarrow> do {
         p \<leftarrow> allocate_process_t;
         case p of
           None \<Rightarrow> do { REPORT_ERROR GENERIC_ERROR ''get_process_from_cache''; State_Monad.return None }
         | Some slot \<Rightarrow> do {
             ok \<leftarrow> helper_ok;
             if \<not> ok
             then do { REPORT_ERROR GENERIC_ERROR ''get_process_from_cache''; State_Monad.return None }
             else do { store_process slot cached; State_Monad.return (Some slot) } } } }"

definition update_process_in_alive_process_cache :: "u32 \<Rightarrow> process_t \<Rightarrow> int bpf" where
  "update_process_in_alive_process_cache pid p =
     update_process_in_cache (map_update_elem alive_process_cache_map_update pid) p"

definition add_process_to_dead_proccesses_lru :: "process_t \<Rightarrow> int bpf" where
  "add_process_to_dead_proccesses_lru p =
     update_process_in_cache
       (lru_update_elem dead_process_cache_lru_map_update (p_unique_process_id p)) p"

definition get_process_from_alive_process_cache :: "u32 \<Rightarrow> u32 option bpf" where
  "get_process_from_alive_process_cache pid = get_process_from_cache (\<lambda>s. alive_process_cache_map s pid)"

definition get_process_from_dead_proccesses_lru :: "u64 \<Rightarrow> u32 option bpf" where
  "get_process_from_dead_proccesses_lru unique_process_id =
     get_process_from_cache (\<lambda>s. dead_process_cache_lru_map s unique_process_id)"

definition get_process_from_caches :: "u32 \<Rightarrow> u64 \<Rightarrow> u32 option bpf" where
  "get_process_from_caches pid unique_process_id = do {
     p \<leftarrow> get_process_from_alive_process_cache pid;
     case p of
       Some slot \<Rightarrow> State_Monad.return (Some slot)
     | None \<Rightarrow> get_process_from_dead_proccesses_lru unique_process_id }"

definition is_process_in_alive_process_cache :: "u32 \<Rightarrow> bool bpf" where
  "is_process_in_alive_process_cache pid = reads (\<lambda>s. alive_process_cache_map s pid \<noteq> None)"

definition delete_shell_command_from_process ::
  "(bpf_state \<Rightarrow> ('k \<rightharpoonup> process_t)) \<Rightarrow> ((('k \<rightharpoonup> process_t) \<Rightarrow> ('k \<rightharpoonup> process_t)) \<Rightarrow> bpf_state \<Rightarrow> bpf_state) \<Rightarrow>
   'k \<Rightarrow> unit bpf" where
  "delete_shell_command_from_process cache cache_update key = do {
     process \<leftarrow> reads (\<lambda>s. cache s key);
     case process of
       None \<Rightarrow> State_Monad.return ()
     | Some p \<Rightarrow>
         if c_length (p_shell_command p) > 0 then do {
           ok \<leftarrow> helper_ok;
           if \<not> ok then REPORT_ERROR GENERIC_ERROR ''delete_shell_command_from_process''
           else State_Monad.update (cache_update
             (\<lambda>m. m(key \<mapsto> p\<lparr>p_shell_command := empty_command_line_t\<rparr>))) }
         else State_Monad.return () }"

definition delete_shell_command_from_alive_process :: "u32 \<Rightarrow> unit bpf" where
  "delete_shell_command_from_alive_process pid =
     delete_shell_command_from_process alive_process_cache_map alive_process_cache_map_update pid"

definition delete_shell_command_from_dead_process :: "u64 \<Rightarrow> unit bpf" where
  "delete_shell_command_from_dead_process unique_process_id =
     delete_shell_command_from_process dead_process_cache_lru_map dead_process_cache_lru_map_update
       unique_process_id"

definition update_shell_command_in_process :: "u32 \<Rightarrow> command_line_t \<Rightarrow> unit bpf" where
  "update_shell_command_in_process pid cmd = do {
     process \<leftarrow> reads (\<lambda>s. alive_process_cache_map s pid);
     case process of
       None \<Rightarrow> State_Monad.return ()
     | Some p \<Rightarrow> do {
         ok \<leftarrow> helper_ok;
         if \<not> ok then REPORT_ERROR GENERIC_ERROR ''update_shell_command_in_process''
         else State_Monad.update (alive_process_cache_map_update
           (\<lambda>m. m(pid \<mapsto> p\<lparr>p_shell_command := cmd\<rparr>))) } }"

section \<open>Pid sets\<close>

text \<open>\<open>pid\<close> is the thread group of the running task, \<^verbatim>\<open>bpf_get_current_pid_tgid() >> 32\<close>.\<close>

definition add_pid_to_related_pids :: "u32 \<Rightarrow> unit bpf" where
  "add_pid_to_related_pids pid = do {
     ok \<leftarrow> map_update_elem program_related_pids_update pid 1;
     if \<not> ok then REPORT_ERROR GENERIC_ERROR ''add_pid_to_related_pids'' else State_Monad.return () }"

definition add_current_pid_to_related_pids :: "u32 \<Rightarrow> unit bpf" where
  "add_current_pid_to_related_pids pid = do {
     ok \<leftarrow> map_update_elem program_related_pids_update pid 1;
     if \<not> ok then REPORT_ERROR GENERIC_ERROR ''add_current_pid_to_related_pids''
     else State_Monad.return () }"

definition remove_current_pid_from_related_pids :: "u32 \<Rightarrow> unit bpf" where
  "remove_current_pid_from_related_pids pid = do {
     ok \<leftarrow> map_delete_elem program_related_pids program_related_pids_update pid;
     if \<not> ok then REPORT_ERROR GENERIC_ERROR ''remove_current_pid_from_related_pids''
     else State_Monad.return () }"

definition is_current_pid_related :: "u32 \<Rightarrow> bool bpf" where
  "is_current_pid_related pid = reads (\<lambda>s. program_related_pids s pid \<noteq> None)"

definition add_pid_to_protected_processes :: "u32 \<Rightarrow> unit bpf" where
  "add_pid_to_protected_processes pid = do {
     ok \<leftarrow> map_update_elem protected_processes_update pid 1;
     if \<not> ok then REPORT_ERROR GENERIC_ERROR ''add_pid_to_protected_processes''
     else State_Monad.return () }"

definition remove_current_pid_from_protected_processes :: "u32 \<Rightarrow> unit bpf" where
  "remove_current_pid_from_protected_processes pid = do {
     ok \<leftarrow> map_delete_elem protected_processes protected_processes_update pid;
     if \<not> ok then REPORT_ERROR GENERIC_ERROR ''remove_current_pid_from_protected_processes''
     else State_Monad.return () }"

definition is_pid_protected :: "u32 \<Rightarrow> bool bpf" where
  "is_pid_protected pid = reads (\<lambda>s. protected_processes s pid \<noteq> None)"

definition is_current_pid_protected :: "u32 \<Rightarrow> bool bpf" where
  "is_current_pid_protected pid = is_pid_protected pid"

definition delete_pid_from_active_shell_pids :: "u32 \<Rightarrow> unit bpf" where
  "delete_pid_from_active_shell_pids pid = do {
     _ \<leftarrow> map_delete_elem active_shell_pids active_shell_pids_update pid;
     State_Monad.return () }"

section \<open>What the caches promise\<close>

text \<open>
  The scratch memory of a CPU: eight slots, always present, and a counter.
\<close>

definition heap_ok :: "bpf_state \<Rightarrow> bool" where
  "heap_ok s \<longleftrightarrow> heap_process_t_map_counter s 0 \<noteq> None \<and>
     (\<forall>i<HEAP_SLOTS. heap_process_t_map s i \<noteq> None)"

lemma heap_ok_slot: "heap_ok s \<Longrightarrow> heap_process_t_map s (norm_slot i) \<noteq> None"
  by (simp add: heap_ok_def norm_slot_def)

lemma run_store_process [simp]:
  "run_state (store_process k p) s = ((), s\<lparr>heap_process_t_map := (heap_process_t_map s)(k \<mapsto> p)\<rparr>)"
  by (simp add: store_process_def)

lemma run_allocate_process:
  assumes "helpers_succeed s" and "heap_ok s"
  shows "\<exists>k s'. run_state allocate_process_t s = (Some k, s') \<and> helpers_succeed s' \<and> heap_ok s'
    \<and> alive_process_cache_map s' = alive_process_cache_map s
    \<and> dead_process_cache_lru_map s' = dead_process_cache_lru_map s"
proof -
  obtain i where i: "heap_process_t_map_counter s 0 = Some i" using assms(2) by (auto simp: heap_ok_def)
  from pa.alloc_progress [OF assms(1) i heap_ok_slot [OF assms(2)]]
  obtain s' where s': "run_state allocate_process_t s = (Some (norm_slot i), s')" by blast
  have "helper_outcome s' = helper_outcome s" "alive_process_cache_map s' = alive_process_cache_map s"
    "dead_process_cache_lru_map s' = dead_process_cache_lru_map s"
    by (rule keepsD [OF _ s'], intro frame_intros, simp_all)+
  moreover have "heap_ok s'"
    using pa.alloc_counter [OF i s'] pa.alloc_cleared [OF s'] assms(2) by (simp add: heap_ok_def)
  ultimately show ?thesis using s' assms(1) by (auto simp: helpers_succeed_def)
qed

locale process_store =
  fixes put :: "'k \<Rightarrow> process_t \<Rightarrow> bool bpf"
    and get :: "bpf_state \<Rightarrow> 'k \<rightharpoonup> process_t"
  assumes put_get: "helpers_succeed s \<Longrightarrow> run_state (put k p) s = (b, s') \<Longrightarrow> b \<and> get s' k = Some p"
    and put_failed: "run_state (put k p) s = (False, s') \<Longrightarrow> get s' = get s"
    and put_keeps: "run_state (put k p) s = (b, s') \<Longrightarrow> heap_process_t_map s' = heap_process_t_map s \<and>
      heap_process_t_map_counter s' = heap_process_t_map_counter s \<and> helper_outcome s' = helper_outcome s"
    and get_heap: "get (heap_process_t_map_update f s) = get s"
    and get_helper: "get (helper_calls_update g s) = get s"
    and alloc_keeps: "run_state allocate_process_t s = (r, s') \<Longrightarrow> get s' = get s"
begin

lemma update_then_lookup:
  assumes "helpers_succeed s" and "heap_ok s"
  shows "\<exists>s'. run_state (update_process_in_cache (put k) p) s = (SUCCESS, s') \<and> get s' k = Some p
    \<and> helpers_succeed s' \<and> heap_ok s'"
proof -
  obtain i s1 where s1: "run_state allocate_process_t s = (Some i, s1)" "helpers_succeed s1" "heap_ok s1"
    using run_allocate_process [OF assms] by blast
  let ?s2 = "s1\<lparr>helper_calls := Suc (helper_calls s1), heap_process_t_map := (heap_process_t_map s1)(i \<mapsto> p)\<rparr>"
  have h2: "helpers_succeed ?s2" using s1(2) by (simp add: helpers_succeed_def)
  obtain b s3 where s3: "run_state (put k p) ?s2 = (b, s3)" by fastforce
  from put_get [OF h2 s3] put_keeps [OF s3] s1 s3 show ?thesis
    by (auto simp: update_process_in_cache_def load_process_def helpers_succeed_def heap_ok_def)
qed

lemma lookup_copies:
  assumes "helpers_succeed s" and "heap_ok s" and "get s k = Some p"
  shows "\<exists>i s'. run_state (get_process_from_cache (\<lambda>s. get s k)) s = (Some i, s')
    \<and> heap_process_t_map s' i = Some p \<and> get s' = get s \<and> helpers_succeed s' \<and> heap_ok s'"
proof -
  obtain i s1 where s1: "run_state allocate_process_t s = (Some i, s1)" "helpers_succeed s1" "heap_ok s1"
    using run_allocate_process [OF assms(1,2)] by blast
  let ?s2 = "s1\<lparr>helper_calls := Suc (helper_calls s1), heap_process_t_map := (heap_process_t_map s1)(i \<mapsto> p)\<rparr>"
  have "run_state (get_process_from_cache (\<lambda>s. get s k)) s = (Some i, ?s2)"
    using s1 assms(3) by (simp add: get_process_from_cache_def helpers_succeed_def)
  moreover have "get ?s2 = get s"
    by (simp add: get_heap get_helper alloc_keeps [OF s1(1)])
  ultimately show ?thesis using s1 by (simp add: helpers_succeed_def heap_ok_def)
qed

text \<open>Storing a process and asking for it again returns a copy of it.\<close>

lemma store_lookup_roundtrip:
  assumes "helpers_succeed s" and "heap_ok s"
  shows "\<exists>i s'. run_state (do { _ \<leftarrow> update_process_in_cache (put k) p; get_process_from_cache (\<lambda>s. get s k) }) s
      = (Some i, s') \<and> heap_process_t_map s' i = Some p"
proof -
  obtain s1 where s1: "run_state (update_process_in_cache (put k) p) s = (SUCCESS, s1)" "get s1 k = Some p"
    "helpers_succeed s1" "heap_ok s1" using update_then_lookup [OF assms] by blast
  with lookup_copies [OF s1(3,4,2)] show ?thesis by auto
qed

end

interpretation alive: process_store "map_update_elem alive_process_cache_map_update" alive_process_cache_map
proof
  fix s r s'
  assume "run_state allocate_process_t s = (r, s')"
  then show "alive_process_cache_map s' = alive_process_cache_map s"
    by (rule keepsD [rotated], intro frame_intros) simp_all
qed (auto simp: run_map_update_elem helpers_succeed_def Let_def split: if_splits)

interpretation dead: process_store "lru_update_elem dead_process_cache_lru_map_update" dead_process_cache_lru_map
proof
  fix s r s'
  assume "run_state allocate_process_t s = (r, s')"
  then show "dead_process_cache_lru_map s' = dead_process_cache_lru_map s"
    by (rule keepsD [rotated], intro frame_intros) simp_all
qed (auto simp: run_lru_update_elem helpers_succeed_def Let_def split: if_splits)

section \<open>Frames\<close>

definition proc_free :: "(bpf_state \<Rightarrow> 'b) \<Rightarrow> bool" where
  "proc_free f \<longleftrightarrow> report_free f \<and> (\<forall>s g. f (heap_process_t_map_update g s) = f s) \<and>
     (\<forall>s g. f (heap_process_t_map_counter_update g s) = f s)"

lemma proc_freeI [frame_intros]:
  "report_free f \<Longrightarrow> (\<And>s g. f (heap_process_t_map_update g s) = f s) \<Longrightarrow>
   (\<And>s g. f (heap_process_t_map_counter_update g s) = f s) \<Longrightarrow> proc_free f"
  by (simp add: proc_free_def)

lemma keeps_store_process [frame_intros]: "proc_free f \<Longrightarrow> keeps f (store_process k p)"
  unfolding store_process_def by (intro frame_intros) (simp add: proc_free_def)

lemma keeps_load_process [frame_intros]: "keeps f (load_process k)"
  unfolding load_process_def by (intro frame_intros)

lemma keeps_get_process_from_cache [frame_intros]: "proc_free f \<Longrightarrow> keeps f (get_process_from_cache l)"
  unfolding get_process_from_cache_def
  by (intro frame_intros) (simp_all add: proc_free_def report_free_def)

lemma keeps_get_process_from_caches [frame_intros]:
  "proc_free f \<Longrightarrow> keeps f (get_process_from_caches pid u)"
  unfolding get_process_from_caches_def get_process_from_alive_process_cache_def
    get_process_from_dead_proccesses_lru_def
  by (intro keeps_bind keeps_get_process_from_cache keeps_case_option keeps_return)

lemma keeps_update_process_in_cache [frame_intros]:
  "proc_free f \<Longrightarrow> (\<And>p. keeps f (put p)) \<Longrightarrow> keeps f (update_process_in_cache put p)"
  unfolding update_process_in_cache_def
  by (intro frame_intros) (simp_all add: proc_free_def report_free_def)

lemma keeps_update_alive [frame_intros]:
  "proc_free f \<Longrightarrow> (\<And>s g. f (alive_process_cache_map_update g s) = f s) \<Longrightarrow>
   keeps f (update_process_in_alive_process_cache pid p)"
  unfolding update_process_in_alive_process_cache_def
  by (intro frame_intros) (simp_all add: proc_free_def report_free_def)

lemma keeps_add_dead [frame_intros]:
  "proc_free f \<Longrightarrow> (\<And>s g. f (dead_process_cache_lru_map_update g s) = f s) \<Longrightarrow>
   keeps f (add_process_to_dead_proccesses_lru p)"
  unfolding add_process_to_dead_proccesses_lru_def
  by (intro frame_intros) (simp_all add: proc_free_def report_free_def)

end
