(* ===== verification/Tail_Calls.thy ===== *)
theory Tail_Calls
  imports Matcher Process_Cache
begin

text \<open>
  \<^verbatim>\<open>prevention.bpf.h\<close> and \<^verbatim>\<open>tail_calls_manager.bpf.h\<close>: a hook stores its event and tail-calls the
  matching program of the event type, which evaluates the rules, sends the event to userspace,
  kills processes as the action says and returns the verdict. A tail call that succeeds does
  not return, so \<open>do_tail_call\<close> yields whether control moved to the matching program.
\<close>

section \<open>prevention.bpf.h\<close>

definition is_process_created_after_ebpf_attached :: "ro_env \<Rightarrow> u64 \<Rightarrow> bool" where
  "is_process_created_after_ebpf_attached ro process_start_time =
     (case ebpf_program_start_time ro 0 of
        None \<Rightarrow> False
      | Some prog_start \<Rightarrow> process_start_time > prog_start)"

text \<open>\<^verbatim>\<open>bpf_send_signal\<close> signals the running process, whose pid is the first argument.\<close>

definition bpf_send_signal :: "u32 \<Rightarrow> nat \<Rightarrow> unit bpf" where
  "bpf_send_signal pid sig = do {
     ok \<leftarrow> helper_ok;
     if ok then State_Monad.update (sent_signals_update ((#) (pid, sig))) else State_Monad.return () }"

text \<open>
  The parent is marked only if it is still alive, is the original parent by its unique id, and
  started after the programs were attached.
\<close>

definition kill_parent :: "ro_env \<Rightarrow> event_t \<Rightarrow> unit bpf" where
  "kill_parent ro event = do {
     parent \<leftarrow> get_process_from_alive_process_cache (p_ppid (ev_process event));
     case parent of
       None \<Rightarrow> State_Monad.return ()
     | Some slot \<Rightarrow> do {
         p \<leftarrow> load_process slot;
         if p_unique_ppid_id (ev_process event) \<noteq> p_unique_process_id p then State_Monad.return ()
         else if \<not> is_process_created_after_ebpf_attached ro (p_start_time p)
         then State_Monad.return ()
         else do {
           let ppid = p_ppid (ev_process event);
           ok \<leftarrow> map_update_elem parent_processes_to_kill_update ppid ppid;
           if \<not> ok then REPORT_ERROR GENERIC_ERROR ''kill_proccesses'' else State_Monad.return () } } }"

definition kill_proccesses :: "ro_env \<Rightarrow> u32 \<Rightarrow> rule_action \<Rightarrow> event_t \<Rightarrow> unit bpf" where
  "kill_proccesses ro pid action event =
     (if action = BLOCK_KILL_PROCESS then bpf_send_signal pid SIGKILL
      else if action = BLOCK_KILL_PROCESS_KILL_PARENT then do {
        bpf_send_signal pid SIGKILL;
        kill_parent ro event }
      else State_Monad.return ())"

section \<open>tail\_calls\_manager.bpf.h\<close>

abbreviation MAX_TAIL_CALL_CNT :: int where "MAX_TAIL_CALL_CNT \<equiv> 32"

text \<open>
  The counter is incremented in place; the map update that follows writes the same value again.
\<close>

definition get_current_and_increment_tail_counter :: "int bpf" where
  "get_current_and_increment_tail_counter = do {
     p \<leftarrow> reads (\<lambda>s. tail_call_counter s 0);
     case p of
       None \<Rightarrow> do {
         REPORT_ERROR GENERIC_ERROR ''get_current_and_increment_tail_counter'';
         State_Monad.return GENERIC_ERROR }
     | Some c \<Rightarrow> do {
         State_Monad.update (tail_call_counter_update (\<lambda>m. m(0 \<mapsto> c + 1)));
         _ \<leftarrow> map_update_elem tail_call_counter_update 0 (c + 1);
         State_Monad.return (sint c) } }"

definition reset_tail_counter :: "unit bpf" where
  "reset_tail_counter = do {
     _ \<leftarrow> map_update_elem tail_call_counter_update 0 0;
     State_Monad.return () }"

definition do_tail_call :: "bool bpf" where
  "do_tail_call = do {
     hops \<leftarrow> get_current_and_increment_tail_counter;
     if hops = GENERIC_ERROR then State_Monad.return False
     else if hops < MAX_TAIL_CALL_CNT then do {
       ok \<leftarrow> helper_ok;
       if ok then State_Monad.return True
       else do { REPORT_ERROR GENERIC_ERROR ''do_tail_call''; State_Monad.return False } }
     else State_Monad.return False }"

definition store_currently_handled_event :: "ro_env \<Rightarrow> event_t \<Rightarrow> int bpf" where
  "store_currently_handled_event ro e =
     (if ringbuffer_map_value_available (g_ebpf_features ro) then do {
        ok \<leftarrow> map_update_elem currently_handled_event_update 0 e;
        if \<not> ok then do {
          REPORT_ERROR GENERIC_ERROR ''store_currently_handled_event''; State_Monad.return GENERIC_ERROR }
        else State_Monad.return SUCCESS }
      else do {
        slot \<leftarrow> reads (\<lambda>s. currently_handled_event s 0);
        case slot of
          None \<Rightarrow> do {
            REPORT_ERROR GENERIC_ERROR ''store_currently_handled_event''; State_Monad.return GENERIC_ERROR }
        | Some _ \<Rightarrow> do {
            ok \<leftarrow> helper_ok;
            if \<not> ok then do {
              REPORT_ERROR GENERIC_ERROR ''store_currently_handled_event''; State_Monad.return GENERIC_ERROR }
            else do {
              State_Monad.update (currently_handled_event_update (\<lambda>m. m(0 \<mapsto> e)));
              State_Monad.return SUCCESS } } })"

definition submit_event_to_userspace :: "event_t \<Rightarrow> unit bpf" where
  "submit_event_to_userspace event = do {
     event_to_send \<leftarrow> allocate_empty_event;
     case event_to_send of
       None \<Rightarrow> REPORT_ERROR GENERIC_ERROR ''submit_event_to_userspace''
     | Some _ \<Rightarrow> do {
         ok \<leftarrow> helper_ok;
         if \<not> ok then do { REPORT_ERROR GENERIC_ERROR ''submit_event_to_userspace''; ringbuf_discard }
         else ringbuf_submit event } }"

definition submit_event :: "event_t \<Rightarrow> unit bpf" where
  "submit_event event =
     (if ev_action event \<noteq> EXCLUDE_EVENT then submit_event_to_userspace event
      else State_Monad.return ())"

text \<open>
  The event type stands for the macro the matching program is compiled with; the types without a
  rule map have no rules.
\<close>

definition generic_tail_call :: "ro_env \<Rightarrow> u32 \<Rightarrow> event_type \<Rightarrow> int bpf" where
  "generic_tail_call ro pid ty = do {
     current \<leftarrow> get_currently_handled_event;
     case current of
       None \<Rightarrow> do { REPORT_ERROR GENERIC_ERROR ''generic_tail_call''; State_Monad.return ALLOW }
     | Some _ \<Rightarrow> do {
         for_each_rule ro (event_rules ro ty);
         matched \<leftarrow> get_currently_handled_event;
         case matched of
           None \<Rightarrow> State_Monad.return ALLOW
         | Some current_event \<Rightarrow> do {
             (if ev_id current_event > 0 then submit_event current_event else State_Monad.return ());
             (if ev_action current_event = KILL_PROCESS \<or> ev_action current_event = BLOCK_KILL_PROCESS
                 \<or> ev_action current_event = BLOCK_KILL_PROCESS_KILL_PARENT
              then kill_proccesses ro pid (ev_action current_event) current_event
              else State_Monad.return ());
             (if ev_action current_event = BLOCK_EVENT \<or> ev_action current_event = BLOCK_KILL_PROCESS
                 \<or> ev_action current_event = BLOCK_KILL_PROCESS_KILL_PARENT
              then State_Monad.return DENY else State_Monad.return ALLOW) } } }"

text \<open>
  The socket storage of a network program is a map from sockets; the operation that deletes the
  entry of the socket is the argument \<open>sk_storage_delete\<close>. A null socket is \<open>None\<close>.
\<close>

definition discard_sk_from_sk_storage :: "u64 option \<Rightarrow> (u64 \<Rightarrow> bool bpf) \<Rightarrow> unit bpf" where
  "discard_sk_from_sk_storage sk sk_storage_delete = (case sk of
       None \<Rightarrow> REPORT_ERROR GENERIC_ERROR ''discard_sk_from_sk_storage''
     | Some k \<Rightarrow> do {
         ok \<leftarrow> sk_storage_delete k;
         if \<not> ok then REPORT_ERROR GENERIC_ERROR ''discard_sk_from_sk_storage''
         else State_Monad.return () })"

definition set_event_id_when_id_is_zero :: "event_t \<Rightarrow> event_t bpf" where
  "set_event_id_when_id_is_zero event =
     (if ev_id event \<noteq> 0
      then do { REPORT_ERROR GENERIC_ERROR ''set_event_id_when_id_is_zero''; State_Monad.return event }
      else do { i \<leftarrow> get_next_event_id; State_Monad.return (event\<lparr>ev_id := i\<rparr>) })"

text \<open>Write back through the pointer to the handled event.\<close>

definition store_event :: "event_t \<Rightarrow> unit bpf" where
  "store_event e = State_Monad.update (currently_handled_event_update (\<lambda>m. m(0 \<mapsto> e)))"

definition network_event_tcp_outgoing_tail_call ::
  "ro_env \<Rightarrow> u32 \<Rightarrow> u64 \<Rightarrow> u64 option \<Rightarrow> (u64 \<Rightarrow> bool bpf) \<Rightarrow> int bpf" where
  "network_event_tcp_outgoing_tail_call ro pid now sk sk_storage_delete = do {
     ev \<leftarrow> get_currently_handled_event;
     case ev of
       None \<Rightarrow> do {
         REPORT_ERROR GENERIC_ERROR ''network_event_tcp_outgoing_tail_call'';
         discard_sk_from_sk_storage sk sk_storage_delete;
         State_Monad.return ALLOW }
     | Some event \<Rightarrow> do {
         store_event (event\<lparr>ev_time := now\<rparr>);
         ret \<leftarrow> generic_tail_call ro pid NETWORK;
         if ret = ALLOW then State_Monad.return ALLOW
         else do {
           ev2 \<leftarrow> get_currently_handled_event;
           (case ev2 of
              None \<Rightarrow> State_Monad.return ()
            | Some e2 \<Rightarrow> do {
                e3 \<leftarrow> set_event_id_when_id_is_zero e2;
                store_event e3;
                submit_event e3 });
           discard_sk_from_sk_storage sk sk_storage_delete;
           State_Monad.return ret } } }"

definition network_event_tcp_incoming_tail_call ::
  "ro_env \<Rightarrow> u32 \<Rightarrow> u64 \<Rightarrow> u64 option \<Rightarrow> (u64 \<Rightarrow> bool bpf) \<Rightarrow> int bpf" where
  "network_event_tcp_incoming_tail_call ro pid now sk sk_storage_delete = do {
     ev \<leftarrow> get_currently_handled_event;
     case ev of
       None \<Rightarrow> do {
         REPORT_ERROR GENERIC_ERROR ''network_event_tcp_incoming_tail_call'';
         discard_sk_from_sk_storage sk sk_storage_delete;
         State_Monad.return ALLOW }
     | Some event \<Rightarrow> do {
         e2 \<leftarrow> set_event_id_when_id_is_zero event;
         store_event (e2\<lparr>ev_time := now\<rparr>);
         ret \<leftarrow> generic_tail_call ro pid NETWORK;
         discard_sk_from_sk_storage sk sk_storage_delete;
         State_Monad.return ret } }"

section \<open>What the verdict is\<close>

definition blocks :: "rule_action \<Rightarrow> bool" where
  "blocks a \<longleftrightarrow> a = BLOCK_EVENT \<or> a = BLOCK_KILL_PROCESS \<or> a = BLOCK_KILL_PROCESS_KILL_PARENT"

definition kills_process :: "rule_action \<Rightarrow> bool" where
  "kills_process a \<longleftrightarrow> a = BLOCK_KILL_PROCESS \<or> a = BLOCK_KILL_PROCESS_KILL_PARENT"

definition decision :: "ro_env \<Rightarrow> (rule_t \<Rightarrow> expr) \<Rightarrow> event_type \<Rightarrow> event_t \<Rightarrow> event_t" where
  "decision ro ex ty e =
     decided_event (first_match (\<lambda>r. expr_sem (pred_holds ro e) (ex r)) (event_rules ro ty)) e"

lemma keeps_send_signal [frame_intros]:
  "report_free f \<Longrightarrow> (\<And>s g. f (sent_signals_update g s) = f s) \<Longrightarrow> keeps f (bpf_send_signal pid sig)"
  unfolding bpf_send_signal_def by (intro frame_intros) (simp_all add: report_free_def)

lemma keeps_kill_parent [frame_intros]:
  "proc_free f \<Longrightarrow> (\<And>s g. f (parent_processes_to_kill_update g s) = f s) \<Longrightarrow> keeps f (kill_parent ro e)"
  unfolding kill_parent_def get_process_from_alive_process_cache_def
  by (intro frame_intros) (simp_all add: proc_free_def report_free_def)

lemma keeps_kill_proccesses [frame_intros]:
  "proc_free f \<Longrightarrow> (\<And>s g. f (sent_signals_update g s) = f s) \<Longrightarrow>
   (\<And>s g. f (parent_processes_to_kill_update g s) = f s) \<Longrightarrow> keeps f (kill_proccesses ro pid a e)"
  unfolding kill_proccesses_def
  by (intro frame_intros) (simp_all add: proc_free_def report_free_def)

lemma run_send_signal:
  "helpers_succeed s \<Longrightarrow> run_state (bpf_send_signal pid sig) s =
     ((), s\<lparr>helper_calls := Suc (helper_calls s), sent_signals := (pid, sig) # sent_signals s\<rparr>)"
  by (simp add: bpf_send_signal_def helpers_succeed_def)

lemma kill_proccesses_signals:
  assumes "helpers_succeed s"
  shows "sent_signals (snd (run_state (kill_proccesses ro pid a e) s)) =
    (if kills_process a then (pid, SIGKILL) # sent_signals s else sent_signals s)"
proof -
  have "keeps sent_signals (kill_parent ro e)" by (intro frame_intros) simp_all
  with assms show ?thesis
    by (simp add: kill_proccesses_def run_send_signal kills_process_def keeps_snd)
qed

lemma submit_result:
  assumes "helpers_succeed s"
  shows "\<exists>s'. run_state (submit_event e) s = ((), s') \<and> helpers_succeed s' \<and>
    rb s' = (if ev_action e \<noteq> EXCLUDE_EVENT then e # rb s else rb s) \<and>
    rb_reserved s' = rb_reserved s \<and> sent_signals s' = sent_signals s \<and>
    currently_handled_event s' = currently_handled_event s"
  using assms
  by (simp add: submit_event_def submit_event_to_userspace_def allocate_empty_event_def
      run_ringbuf_reserve Let_def helpers_succeed_def)

text \<open>
  The complete effect of the matching program: the verdict, the record sent to userspace and the
  signals are those of the first matching rule.
\<close>

lemma generic_tail_call_result:
  assumes "matcher_inv ro e s" and "rules_encode (event_rules ro ty) ex"
  defines "d \<equiv> decision ro ex ty e"
  shows "\<exists>s'. run_state (generic_tail_call ro pid ty) s = (if blocks (ev_action d) then DENY else ALLOW, s') \<and>
    rb s' = (if ev_id d > 0 \<and> ev_action d \<noteq> EXCLUDE_EVENT then d # rb s else rb s) \<and>
    rb_reserved s' = rb_reserved s \<and>
    sent_signals s' = (if kills_process (ev_action d) then (pid, SIGKILL) # sent_signals s else sent_signals s) \<and>
    currently_handled_event s' 0 = Some d \<and> helpers_succeed s'"
proof -
  have cur: "currently_handled_event s 0 = Some e"
    using assms(1) by (simp add: matcher_inv_def matcher_ready_def)
  obtain s1 where s1: "run_state (for_each_rule ro (event_rules ro ty)) s = ((), s1)" "helpers_succeed s1"
    "currently_handled_event s1 0 = Some d"
    using for_each_rule_result [OF assms(1,2)] unfolding d_def decision_def by blast
  have keep1: "rb s1 = rb s" "rb_reserved s1 = rb_reserved s" "sent_signals s1 = sent_signals s"
    by (rule keepsD [OF keeps_for_each_rule s1(1)], intro frame_intros, simp_all)+
  define sub where "sub = (if ev_id d > 0 then submit_event d else State_Monad.return ())"
  obtain s2 where s2: "run_state sub s1 = ((), s2)" "helpers_succeed s2"
    "rb s2 = (if ev_id d > 0 \<and> ev_action d \<noteq> EXCLUDE_EVENT then d # rb s else rb s)"
    "rb_reserved s2 = rb_reserved s" "sent_signals s2 = sent_signals s" "currently_handled_event s2 0 = Some d"
    using submit_result [OF s1(2), of d] keep1 s1(2,3) by (cases "ev_id d > 0") (auto simp: sub_def)
  define kill where "kill = (if ev_action d = KILL_PROCESS \<or> ev_action d = BLOCK_KILL_PROCESS
                 \<or> ev_action d = BLOCK_KILL_PROCESS_KILL_PARENT
              then kill_proccesses ro pid (ev_action d) d else State_Monad.return ())"
  obtain s3 where s3: "run_state kill s2 = ((), s3)" by (cases "run_state kill s2") auto
  have "keeps rb kill" "keeps rb_reserved kill" "keeps currently_handled_event kill" "keeps helper_outcome kill"
    unfolding kill_def by (intro frame_intros; simp)+
  from this [THEN keepsD, OF s3] have "rb s3 = rb s2" "rb_reserved s3 = rb_reserved s2"
    "currently_handled_event s3 = currently_handled_event s2" "helper_outcome s3 = helper_outcome s2" .
  moreover have "sent_signals s3 =
      (if kills_process (ev_action d) then (pid, SIGKILL) # sent_signals s else sent_signals s)"
    using kill_proccesses_signals [OF s2(2), of ro pid "ev_action d" d] s3 s2(5)
    by (auto simp: kill_def kills_process_def split: if_splits)
  moreover have "run_state (generic_tail_call ro pid ty) s =
      (if blocks (ev_action d) then DENY else ALLOW, s3)"
    using cur s1(1,3) s2(1) s3
    by (simp add: generic_tail_call_def get_currently_handled_event_def sub_def [symmetric]
        kill_def [symmetric] blocks_def)
  ultimately show ?thesis using s2 by (auto simp: helpers_succeed_def)
qed

text \<open>When the parent is marked for killing.\<close>

lemma kill_parent_result:
  fixes e :: event_t
  assumes "helpers_succeed s" and "heap_ok s"
  defines "ppid \<equiv> p_ppid (ev_process e)"
  shows "parent_processes_to_kill (snd (run_state (kill_parent ro e) s)) =
    (case alive_process_cache_map s ppid of
       Some p \<Rightarrow>
         if p_unique_process_id p = p_unique_ppid_id (ev_process e)
            \<and> is_process_created_after_ebpf_attached ro (p_start_time p)
         then (parent_processes_to_kill s)(ppid \<mapsto> ppid) else parent_processes_to_kill s
     | None \<Rightarrow> parent_processes_to_kill s)"
proof (cases "alive_process_cache_map s ppid")
  case None
  then show ?thesis
    by (simp add: kill_parent_def get_process_from_alive_process_cache_def get_process_from_cache_def
        ppid_def)
next
  case (Some p)
  obtain i s1 where s1: "run_state (get_process_from_cache (\<lambda>s. alive_process_cache_map s ppid)) s = (Some i, s1)"
    "heap_process_t_map s1 i = Some p" "helpers_succeed s1"
    using alive.lookup_copies [OF assms(1,2) Some] by blast
  have "parent_processes_to_kill s1 = parent_processes_to_kill s"
    by (rule keepsD [OF _ s1(1)], intro frame_intros) simp_all
  with Some s1 show ?thesis
    by (auto simp: kill_parent_def get_process_from_alive_process_cache_def load_process_def
        run_map_update_elem Let_def helpers_succeed_def ppid_def)
qed

section \<open>Tail calls are bounded\<close>

text \<open>\<open>calls n\<close>: \<open>n\<close> tail calls in a row with no reset of the counter between them.\<close>

primrec calls :: "nat \<Rightarrow> bool list bpf" where
  "calls 0 = State_Monad.return []"
| "calls (Suc n) = do { b \<leftarrow> do_tail_call; bs \<leftarrow> calls n; State_Monad.return (b # bs) }"

lemma do_tail_call_counter:
  assumes "tail_call_counter s 0 = Some c" and "run_state do_tail_call s = (b, s')"
  shows "tail_call_counter s' 0 = Some (c + 1)" and "b \<longrightarrow> sint c < MAX_TAIL_CALL_CNT"
  using assms
  by (auto simp: do_tail_call_def get_current_and_increment_tail_counter_def case_prod_beta run_map_update_elem Let_def
      split: if_splits)

lemma sint_small: "n < 2 ^ 31 \<Longrightarrow> sint (word_of_nat n :: u32) = int n"
  by (simp add: signed_of_nat signed_take_bit_int_eq_self)

lemma calls_bounded_aux:
  assumes "tail_call_counter s 0 = Some (word_of_nat k)" and "run_state (calls n) s = (bs, s')"
    and "k + n < 2 ^ 31" and "j < n" and "bs ! j"
  shows "k + j < 32"
  using assms
proof (induction n arbitrary: s s' k bs j)
  case 0
  then show ?case by simp
next
  case (Suc n)
  obtain b s1 where b: "run_state do_tail_call s = (b, s1)" by fastforce
  obtain cs s2 where cs: "run_state (calls n) s1 = (cs, s2)" by fastforce
  from Suc.prems(2) b cs have bs: "bs = b # cs" by simp
  from do_tail_call_counter [OF Suc.prems(1) b] have c1: "tail_call_counter s1 0 = Some (word_of_nat (Suc k))"
    and less: "b \<longrightarrow> sint (word_of_nat k :: u32) < 32" by (simp_all add: add.commute)
  show ?case
  proof (cases j)
    case 0
    with Suc.prems less bs show ?thesis by (simp add: sint_small)
  next
    case (Suc j')
    with Suc.IH [OF c1 cs, of j'] Suc.prems bs show ?thesis by simp
  qed
qed

end
