(* ===== verification/Sample_States.thy ===== *)
theory Sample_States
  imports Tail_Calls
begin

text \<open>
  A concrete rule database, event and state for the instances of the properties: every map the
  programs need is present, every helper call succeeds, and one rule blocks what process 7 does.
\<close>

definition boot_state :: bpf_state where
  "boot_state = \<lparr>rb = [], rb_reserved = 0, errors = [],
     alive_process_cache_map = Map.empty, dead_process_cache_lru_map = Map.empty,
     heap_string_buffer_map = (\<lambda>i. if i < HEAP_SLOTS then Some empty_string_buffer else None),
     heap_process_t_map = (\<lambda>i. if i < HEAP_SLOTS then Some empty_process_t else None),
     heap_string_buffer_map_counter = [0 \<mapsto> 0], heap_process_t_map_counter = [0 \<mapsto> 0],
     currently_handled_event = [0 \<mapsto> empty_event_t], tail_call_counter = [0 \<mapsto> 0],
     temp_error_report_t = [0 \<mapsto> empty_error_report_t],
     parent_processes_to_kill = Map.empty, program_related_pids = Map.empty,
     protected_processes = Map.empty, global_event_id_counter = 1, hook_names = [0 \<mapsto> empty_hook_name],
     heap_string_utils_ctx = [0 \<mapsto> string_utils_ctx_empty], predicates_results_cache = Map.empty,
     active_shell_pids = Map.empty, kthread_exec_pids = Map.empty,
     helper_stack = [0 \<mapsto> \<lparr>es_tokens = replicate MAX_TOKENS_PER_RULE (op_token OPERATOR_PREDICATE 0),
                            es_stack_pointer = 0\<rparr>],
     exec_pids = Map.empty,
     global_write_event_cache_lru_map = Map.empty, private_write_event_cache_lru_map = Map.empty,
     global_read_event_cache_lru_map = Map.empty, private_read_event_cache_lru_map = Map.empty,
     sk_incoming_connections = Map.empty, sk_outgoing_connections = Map.empty,
     walk_state = Map.empty, subshell_state = Map.empty, print_scratch = Map.empty,
     sent_signals = [], helper_calls = 0, helper_outcome = (\<lambda>_. True), lru_evicted = (\<lambda>_ _. False)\<rparr>"

definition pid_predicate :: predicate_t where
  "pid_predicate = \<lparr>pr_field = PROCESS_PID, pr_operation = COMPARISON_TYPE_EQUAL, pr_string_idx = -1,
     pr_numerical_value = 7, pr_fieldref = FIELD_TYPE_NONE\<rparr>"

text \<open>
  Process 7 acts, and predicate 3, which the database does not hold and which is therefore
  false, is negated.
\<close>

definition sample_expr :: expr where
  "sample_expr = And (Pred 5) (Not (Pred 3))"

definition sample_rule :: "rule_action \<Rightarrow> rule_t" where
  "sample_rule a = \<lparr>r_id = 11, r_action = a, r_token_count = 4, r_is_end_of_rules = 0,
     r_tokens = postfix sample_expr @ replicate 124 (op_token OPERATOR_PREDICATE 0)\<rparr>"

definition sample_ro :: "rule_action \<Rightarrow> ro_env" where
  "sample_ro a = \<lparr>predicates_map = [5 \<mapsto> pid_predicate], rules_strings_map = Map.empty,
     rules_ips_map = Map.empty, idx_to_DFA_map = Map.empty, idx_to_accepting_states_map = Map.empty,
     event_rules = (\<lambda>_. [sample_rule a]),
     g_ebpf_features = \<lparr>chown_hook_available = True, ringbuffer_map_value_available = True\<rparr>,
     ebpf_program_start_time = [0 \<mapsto> 100],
     anti_tampering_signals_action = a, anti_tampering_ptrace_action = a,
     union_rest = (\<lambda>d i. 0)\<rparr>"

definition sample_event :: event_t where
  "sample_event = empty_event_t\<lparr>ev_id := 1, ev_type := CHMOD, ev_time := 55,
     ev_process := empty_process_t\<lparr>p_pid := 7\<rparr>,
     ev_data := Data_chmod \<lparr>chmod_file = empty_file_t, chmod_requested_mode = 511\<rparr>\<rparr>"

definition sample_state :: bpf_state where
  "sample_state = boot_state\<lparr>currently_handled_event := [0 \<mapsto> sample_event]\<rparr>"

lemma boot_helpers [simp]: "helpers_succeed boot_state"
  by (simp add: helpers_succeed_def boot_state_def)

lemma boot_heap [simp]: "heap_ok boot_state"
  by (simp add: heap_ok_def boot_state_def)

lemma sample_helpers [simp]: "helpers_succeed sample_state"
  by (simp add: helpers_succeed_def sample_state_def boot_state_def)

lemma wf_empty_strings [simp]: "wf_file empty_file_t" "wf_process empty_process_t"
  "wf_process (empty_process_t\<lparr>p_pid := p\<rparr>)"
  by (simp_all add: wf_file_def wf_process_def empty_file_t_def
      empty_process_t_def empty_command_line_t_def)

lemma sample_db [simp]: "wf_rules_db (sample_ro a)"
  by (simp add: wf_rules_db_def sample_ro_def wf_pred_def pid_predicate_def rule_string_def)

lemma sample_strings [simp]: "wf_event_strings (sample_ro a) sample_event"
  unfolding wf_event_strings_def
proof (intro conjI allI impI)
  fix subj p
  assume "subject_process (sample_ro a) sample_event subj = Some p"
  then show "wf_process p"
    by (cases subj) (auto simp: subject_process_def sample_event_def empty_event_t_def)
next
  fix subj f
  assume "subject_file (sample_ro a) sample_event subj = Some f"
  then show "wf_file f"
    using wf_rename_view [of sample_event "sample_ro a"]
    by (cases subj)
      (auto simp: subject_file_def subject_process_def target_file_def sample_event_def empty_event_t_def
        data_chmod_def empty_process_t_def)
qed

lemma sample_event_simps [simp]:
  "ev_time sample_event = 55" "ev_id sample_event = 1" "ev_process sample_event = empty_process_t\<lparr>p_pid := 7\<rparr>"
  "ev_type sample_event = CHMOD"
  by (simp_all add: sample_event_def)

lemma sample_inv [simp]: "matcher_inv (sample_ro a) sample_event sample_state"
  by (simp add: matcher_inv_def matcher_ready_def stack_ok_def cache_coherent_def sample_state_def
      boot_state_def helpers_succeed_def)

lemma sample_encodes [simp]: "rules_encode (event_rules (sample_ro a) ty) (\<lambda>_. sample_expr)"
  by (simp add: rules_encode_def rule_encodes_def sample_ro_def sample_rule_def sample_expr_def)

lemma sample_preds [simp]:
  "pred_holds (sample_ro a) sample_event 5" "\<not> pred_holds (sample_ro a) sample_event 3"
  by (simp_all add: pred_holds_def sample_ro_def pid_predicate_def pred_sem_def field_string_def
      field_numeric_def attribute_of_def field_subject_def subject_process_def subject_file_def
      process_string_def process_numeric_def file_string_def numeric_sem_def)

lemma sample_decision [simp]:
  "decision (sample_ro a) (\<lambda>_. sample_expr) ty sample_event =
     sample_event\<lparr>ev_action := a, ev_matched_rule_id := 11\<rparr>"
proof -
  have "event_rules (sample_ro a) ty = [sample_rule a]" by (simp add: sample_ro_def)
  then show ?thesis
    by (simp add: decision_def decided_event_def sample_rule_def sample_expr_def)
qed

end
