(* ===== verification/Extractors.thy ===== *)
theory Extractors
  imports String_Utils
begin

text \<open>
  \<^verbatim>\<open>struct_extractors.bpf.h\<close>: reading kernel structures. The kernel memory a program sees during
  one run is the record \<open>kernel\<close>: the objects behind dentry, mount and task pointers, the running
  task and the clock. Reads with \<^verbatim>\<open>BPF_CORE_READ\<close> are field selections; a read through a null
  inode yields zeros. The main result is that \<^verbatim>\<open>get_path_from_path\<close>, which fills its buffer from
  the end while climbing from a file to the root, yields the slash-separated names.
\<close>

section \<open>Kernel objects\<close>

type_synonym ptr = u64

record inode_v =
  i_ino :: u64
  i_dev :: u32
  i_generation :: u32
  i_uid :: u32
  i_gid :: u32
  i_mode :: u16
  i_mtime_sec :: u64
  i_nlink :: u32

record dentry_v =
  d_parent :: ptr
  d_name_len :: u32
  d_name :: bytes
  d_magic :: u32
  d_inode :: inode_v

record mount_v =
  mnt_root :: ptr
  mnt_mountpoint :: ptr
  mnt_parent :: ptr

text \<open>A path is a dentry and the mount it is seen through.\<close>

type_synonym path_v = "ptr \<times> ptr"

datatype fd_slot = Fd_none | Fd_no_inode | Fd_mode u16

datatype fd_table = No_files | No_fdt | No_fdtab | Fds fd_slot fd_slot fd_slot

record task_v =
  t_pid :: u32
  t_tgid :: u32
  t_start_time :: u64
  t_real_parent :: ptr
  t_flags :: u32
  t_ptrace :: u32
  t_uid :: u32
  t_euid :: u32
  t_gid :: u32
  t_egid :: u32
  t_suid :: u32
  t_has_mm :: bool
  t_exe_file :: "path_v option"
  t_arg_start :: u64
  t_arg_end :: u64
  t_user_mem :: "u64 \<Rightarrow> u8"
  t_fd_table :: fd_table

text \<open>Which of the three inode layouts the running kernel has.\<close>

datatype mtime_layout = Mtime_sec | Mtime_611 | Mtime_66 | Mtime_unknown

record kernel =
  dentries :: "ptr \<Rightarrow> dentry_v"
  mounts :: "ptr \<Rightarrow> mount_v"
  tasks :: "ptr \<Rightarrow> task_v"
  current_task :: ptr
  cgroup_id :: u64
  ktime_ns :: u64
  inode_layout :: mtime_layout

section \<open>Operations\<close>

abbreviation TMPFS_MAGIC :: u32 where "TMPFS_MAGIC \<equiv> 0x01021994"

abbreviation MEMFD_WITH_NULL_LENGTH :: nat where "MEMFD_WITH_NULL_LENGTH \<equiv> 6"

abbreviation MAX_PATH_COMPONENT_LEN :: nat where "MAX_PATH_COMPONENT_LEN \<equiv> FILENAME_MAX_LENGTH"

abbreviation MAX_PATH_COMPONENTS :: nat where "MAX_PATH_COMPONENTS \<equiv> 20"

abbreviation HALF_PERCPU_ARRAY_SIZE :: nat where "HALF_PERCPU_ARRAY_SIZE \<equiv> 512"

definition LIMIT_HALF_PERCPU_ARRAY_SIZE :: "nat \<Rightarrow> nat" where
  "LIMIT_HALF_PERCPU_ARRAY_SIZE x = x AND (HALF_PERCPU_ARRAY_SIZE - 1)"

abbreviation SLASH :: u8 where "SLASH \<equiv> 47"

abbreviation SPACE :: u8 where "SPACE \<equiv> 32"

text \<open>
  The loop that replaces null bytes runs over the whole buffer.
\<close>

definition nulls_to_spaces :: "bytes \<Rightarrow> bytes" where
  "nulls_to_spaces value = map (\<lambda>c. if c = 0 then SPACE else c) value"

definition get_cmd_from_task :: "task_v \<Rightarrow> command_line_t \<Rightarrow> (int \<times> command_line_t) bpf" where
  "get_cmd_from_task task output_cmd =
     (if t_pid task \<le> 2 then State_Monad.return (SUCCESS, output_cmd)
      else if t_arg_end task > t_arg_start task then do {
        let full = t_arg_end task - t_arg_start task;
        let size = (if full \<ge> word_of_nat CMD_MAX then CMD_MAX - 1 else unat full);
        ok \<leftarrow> helper_ok;
        if \<not> ok then do {
          REPORT_ERROR GENERIC_ERROR ''get_cmd_from_task''; State_Monad.return (GENERIC_ERROR, output_cmd) }
        else do {
          let args = map (\<lambda>i. t_user_mem task (t_arg_start task + word_of_nat i)) [0..<size];
          let value = nulls_to_spaces (copy_into (c_value output_cmd) size args);
          State_Monad.return (SUCCESS,
            output_cmd\<lparr>c_value := value[size := 0], c_length := word_of_nat (size - 1)\<rparr>) } }
      else do {
        REPORT_ERROR GENERIC_ERROR ''get_cmd_from_task''; State_Monad.return (GENERIC_ERROR, output_cmd) })"

definition get_unique_inode_id_from_dentry :: "dentry_v \<Rightarrow> u64" where
  "get_unique_inode_id_from_dentry dentry =
     (let ino = i_ino (d_inode dentry);
          dev = i_dev (d_inode dentry);
          gen = i_generation (d_inode dentry);
          lane = push_bit 32 (ucast dev) OR ucast gen;
          x = ino XOR lane;
          x = x XOR drop_bit 33 x;
          x = x * 0xff51afd7ed558ccd;
          x = x XOR drop_bit 33 x;
          x = x * 0xc4ceb9fe1a85ec53;
          x = x XOR drop_bit 33 x
      in x)"

definition get_filename_from_dentry :: "filename_t \<Rightarrow> dentry_v \<Rightarrow> (int \<times> filename_t) bpf" where
  "get_filename_from_dentry output_filename dentry =
     (if d_name_len dentry > word_of_nat FILENAME_MAX_LENGTH \<or> d_name_len dentry < 1 then do {
        REPORT_ERROR GENERIC_ERROR ''get_filename_from_dentry'';
        State_Monad.return (GENERIC_ERROR, output_filename) }
      else do {
        ok \<leftarrow> helper_ok;
        State_Monad.return (SUCCESS, output_filename\<lparr>
          fn_value := (if ok then read_kernel_str (fn_value output_filename) FILENAME_MAX_LENGTH (d_name dentry)
                       else fn_value output_filename),
          fn_length := ucast (d_name_len dentry)\<rparr>) })"

text \<open>
  The climb from a file to the root. The loop variables are the dentry, the mount (with
  \<^verbatim>\<open>mnt_parent\<close> and \<^verbatim>\<open>vfsmnt\<close>, which are always those of the mount), the offset and the buffer;
  \<open>path_iteration\<close> is one round.
\<close>

record path_walk =
  pw_dentry :: ptr
  pw_mnt :: ptr
  pw_off :: nat
  pw_data :: bytes

datatype walk_result = Walk_next path_walk | Walk_done path_walk | Walk_error

definition is_memfd_name :: "bytes \<Rightarrow> bool" where
  "is_memfd_name name =
     string_exact_match_known_length (read_kernel_str (replicate MEMFD_WITH_NULL_LENGTH 0) MEMFD_WITH_NULL_LENGTH name)
       (lit ''memfd'') (MEMFD_WITH_NULL_LENGTH - 1)"

text \<open>
  The part after the label \<^verbatim>\<open>build_path\<close>: copy the name in front of what is there. A name that
  cannot be read is the empty name here, which is an error as in the source. The last
  subtraction wraps in the source and is masked to the half buffer, hence the added size. The
  buffer is scratch memory that is cleared when its slot is taken again, so it is threaded
  through the loop and not written back.
\<close>

definition build_path :: "kernel \<Rightarrow> bool \<Rightarrow> path_walk \<Rightarrow> walk_result" where
  "build_path k is_memfd w =
     (let d = dentries k (pw_dentry w);
          name_len = LIMIT_PATH_SIZE (unat (d_name_len d)) + 1
      in if name_len > pw_off w then Walk_error
         else
           let new_off = pw_off w - name_len;
               str = take (MAX_PATH_COMPONENT_LEN - 1) (c_string (d_name d));
               ret = read_kernel_str_ret MAX_PATH_COMPONENT_LEN (d_name d);
               data1 = write_at (pw_data w) (LIMIT_HALF_PERCPU_ARRAY_SIZE new_off) (str @ [0])
           in if ret \<le> 1 then Walk_error
              else
                let off1 = LIMIT_HALF_PERCPU_ARRAY_SIZE (pw_off w - 1);
                    data2 = data1[off1 := SLASH];
                    off2 = LIMIT_HALF_PERCPU_ARRAY_SIZE (off1 + HALF_PERCPU_ARRAY_SIZE - (ret - 1));
                    w2 = w\<lparr>pw_off := off2, pw_data := data2\<rparr>
                in if is_memfd then Walk_done w2 else Walk_next (w2\<lparr>pw_dentry := d_parent d\<rparr>))"

definition path_iteration :: "kernel \<Rightarrow> path_walk \<Rightarrow> walk_result" where
  "path_iteration k w =
     (let dentry = pw_dentry w;
          d = dentries k dentry;
          m = mounts k (pw_mnt w)
      in if dentry = mnt_root m \<or> dentry = d_parent d then
           if dentry \<noteq> mnt_root m then
             if d_magic d = TMPFS_MAGIC \<and> is_memfd_name (d_name d) then build_path k True w
             else Walk_error
           else if pw_mnt w \<noteq> mnt_parent m then
             Walk_next (w\<lparr>pw_dentry := mnt_mountpoint m, pw_mnt := mnt_parent m\<rparr>)
           else Walk_done w
         else build_path k False w)"

fun path_loop :: "kernel \<Rightarrow> nat \<Rightarrow> path_walk \<Rightarrow> path_walk option" where
  "path_loop k 0 w = Some w"
| "path_loop k (Suc n) w = (case path_iteration k w of
     Walk_next w' \<Rightarrow> path_loop k n w' | Walk_done w' \<Rightarrow> Some w' | Walk_error \<Rightarrow> None)"

text \<open>The leading slash, the terminator and the copy to the output.\<close>

definition finish_path :: "path_walk \<Rightarrow> bool \<Rightarrow> path_t \<Rightarrow> path_t" where
  "finish_path w readable output_path =
     (let (off, data) =
            (if pw_off w = HALF_PERCPU_ARRAY_SIZE then (pw_off w - 1, (pw_data w)[pw_off w - 1 := SLASH])
             else if pw_off w > 0 \<and> pw_data w ! pw_off w \<noteq> SLASH
             then (LIMIT_HALF_PERCPU_ARRAY_SIZE (pw_off w - 1),
                   (pw_data w)[LIMIT_HALF_PERCPU_ARRAY_SIZE (pw_off w - 1) := SLASH])
             else (pw_off w, pw_data w));
          data2 = data[HALF_PERCPU_ARRAY_SIZE - 1 := 0];
          test_offset = LIMIT_PATH_SIZE (HALF_PERCPU_ARRAY_SIZE - off)
      in \<lparr>pt_length = word_of_nat (HALF_PERCPU_ARRAY_SIZE - off - 1),
          pt_value = (if readable then copy_into (pt_value output_path) test_offset (drop off data2)
                      else pt_value output_path)\<rparr>)"

definition get_path_from_path :: "kernel \<Rightarrow> path_t \<Rightarrow> path_v \<Rightarrow> (int \<times> path_t) bpf" where
  "get_path_from_path k output_path path = do {
     out_buf \<leftarrow> allocate_string_buffer;
     case out_buf of
       None \<Rightarrow> do {
         REPORT_ERROR GENERIC_ERROR ''get_path_from_path''; State_Monad.return (GENERIC_ERROR, output_path) }
     | Some _ \<Rightarrow>
         (case path_loop k MAX_PATH_COMPONENTS
            \<lparr>pw_dentry = fst path, pw_mnt = snd path, pw_off = HALF_PERCPU_ARRAY_SIZE, pw_data = empty_string_buffer\<rparr> of
            None \<Rightarrow> do {
              REPORT_ERROR GENERIC_ERROR ''get_path_from_path''; State_Monad.return (GENERIC_ERROR, output_path) }
          | Some w \<Rightarrow> do {
              readable \<leftarrow> helper_ok;
              let out = finish_path w readable output_path;
              State_Monad.return (int (unat (pt_length out)), out) }) }"

text \<open>
  \<^verbatim>\<open>BPF_SNPRINTF\<close> with the format \<open>%s/%s\<close>: the two strings up to their terminators, cut to one byte less
  than the buffer, terminated.
\<close>

definition snprintf_join :: "bytes \<Rightarrow> bytes \<Rightarrow> bytes" where
  "snprintf_join value filename =
     (let str = take (PATH_MAX - 1) (c_string value @ [SLASH] @ c_string filename)
      in write_at value 0 (str @ [0]))"

definition get_file_strings_from_path_and_dentry ::
  "kernel \<Rightarrow> file_t \<Rightarrow> path_v \<Rightarrow> ptr \<Rightarrow> (int \<times> file_t) bpf" where
  "get_file_strings_from_path_and_dentry k output_file dir dentry = do {
     (len, path) \<leftarrow> get_path_from_path k (f_path output_file) dir;
     let file1 = output_file\<lparr>f_path := path\<rparr>;
     if len \<le> 0 then do {
       REPORT_ERROR GENERIC_ERROR ''get_file_strings_from_path_and_dentry'';
       State_Monad.return (GENERIC_ERROR, file1) }
     else do {
       (ret, filename) \<leftarrow> get_filename_from_dentry (f_filename file1) (dentries k dentry);
       let file2 = file1\<lparr>f_filename := filename\<rparr>;
       if ret \<noteq> SUCCESS then do {
         REPORT_ERROR GENERIC_ERROR ''get_file_strings_from_path_and_dentry'';
         State_Monad.return (GENERIC_ERROR, file2) }
       else do {
         let full_path_length = unat (pt_length path) + unat (fn_length filename) + 1;
         if full_path_length > PATH_MAX \<or> full_path_length < 1 then do {
           REPORT_ERROR GENERIC_ERROR ''get_file_strings_from_path_and_dentry'';
           State_Monad.return (GENERIC_ERROR, file2) }
         else State_Monad.return (SUCCESS, file2\<lparr>f_path :=
           \<lparr>pt_length = word_of_nat full_path_length,
            pt_value = snprintf_join (pt_value path) (fn_value filename)\<rparr>\<rparr>) } } }"

definition get_owner_uid_from_dentry :: "dentry_v \<Rightarrow> u32" where
  "get_owner_uid_from_dentry dentry = i_uid (d_inode dentry)"

definition get_owner_gid_from_dentry :: "dentry_v \<Rightarrow> u32" where
  "get_owner_gid_from_dentry dentry = i_gid (d_inode dentry)"

definition get_mode_from_dentry :: "dentry_v \<Rightarrow> u16" where
  "get_mode_from_dentry dentry = i_mode (d_inode dentry)"

definition get_inode_from_dentry :: "dentry_v \<Rightarrow> u64" where
  "get_inode_from_dentry dentry = i_ino (d_inode dentry)"

definition get_dev_from_dentry :: "dentry_v \<Rightarrow> u32" where
  "get_dev_from_dentry dentry = i_dev (d_inode dentry)"

definition get_last_modified_from_dentry :: "kernel \<Rightarrow> dentry_v \<Rightarrow> u64 bpf" where
  "get_last_modified_from_dentry k dentry = (case inode_layout k of
       Mtime_sec \<Rightarrow> State_Monad.return (i_mtime_sec (d_inode dentry))
     | Mtime_611 \<Rightarrow> State_Monad.return (i_mtime_sec (d_inode dentry))
     | Mtime_66 \<Rightarrow> State_Monad.return (i_mtime_sec (d_inode dentry))
     | Mtime_unknown \<Rightarrow> do {
         REPORT_ERROR GENERIC_ERROR ''get_last_modified_from_dentry''; State_Monad.return 0 })"

definition get_nlink_from_dentry :: "dentry_v \<Rightarrow> u32" where
  "get_nlink_from_dentry dentry = i_nlink (d_inode dentry)"

abbreviation S_IFMT :: u16 where "S_IFMT \<equiv> 0xF000"

abbreviation S_ISUID :: u16 where "S_ISUID \<equiv> 0x800"

abbreviation S_ISGID :: u16 where "S_ISGID \<equiv> 0x400"

definition get_file_type_from_mode :: "u16 \<Rightarrow> file_type" where
  "get_file_type_from_mode mode =
     (let fmt = mode AND S_IFMT
      in if fmt = 0xC000 then SOCKET
         else if fmt = 0xA000 then SYMLINK
         else if fmt = 0x8000 then REGULAR_FILE
         else if fmt = 0x4000 then DIRECTORY
         else if fmt = 0x2000 then CHAR_DEVICE
         else if fmt = 0x6000 then BLOCK_DEVICE
         else if fmt = 0x1000 then FIFO
         else UNKNOWN_FILE_TYPE)"

definition READ_FD_TYPE :: "fd_slot \<Rightarrow> file_type \<Rightarrow> file_type bpf" where
  "READ_FD_TYPE slot old = (case slot of
       Fd_none \<Rightarrow> State_Monad.return NO_FILE
     | Fd_no_inode \<Rightarrow> do { REPORT_ERROR GENERIC_ERROR ''get_stdio_file_descriptors''; State_Monad.return old }
     | Fd_mode m \<Rightarrow> State_Monad.return (get_file_type_from_mode m))"

definition get_stdio_file_descriptors_at_process_creation_from_task ::
  "task_v \<Rightarrow> stdio_fds_t \<Rightarrow> stdio_fds_t bpf" where
  "get_stdio_file_descriptors_at_process_creation_from_task task stdio = (case t_fd_table task of
       Fds fd0 fd1 fd2 \<Rightarrow> do {
         a \<leftarrow> READ_FD_TYPE fd0 (fd_stdin stdio);
         b \<leftarrow> READ_FD_TYPE fd1 (fd_stdout stdio);
         c \<leftarrow> READ_FD_TYPE fd2 (fd_stderr stdio);
         State_Monad.return \<lparr>fd_stdin = a, fd_stdout = b, fd_stderr = c\<rparr> }
     | _ \<Rightarrow> do { REPORT_ERROR GENERIC_ERROR ''get_stdio_file_descriptors''; State_Monad.return stdio })"

section \<open>Paths\<close>

text \<open>
  The names on the way from a file to the root, leaf first, for at most \<open>n\<close> rounds; crossing a
  mount point takes a round and adds no name. \<open>full_path\<close> is the path they spell.
\<close>

fun path_names :: "kernel \<Rightarrow> nat \<Rightarrow> ptr \<Rightarrow> ptr \<Rightarrow> bytes list option" where
  "path_names k 0 d m = Some []"
| "path_names k (Suc n) d m =
     (if d = mnt_root (mounts k m) then
        if m \<noteq> mnt_parent (mounts k m)
        then path_names k n (mnt_mountpoint (mounts k m)) (mnt_parent (mounts k m))
        else Some []
      else if d = d_parent (dentries k d) then None
      else map_option ((#) (d_name (dentries k d))) (path_names k n (d_parent (dentries k d)) m))"

definition full_path :: "bytes list \<Rightarrow> bytes" where
  "full_path ns = concat (map (\<lambda>n. SLASH # n) (rev ns))"

text \<open>A component name as the kernel stores it, short enough for the component buffer.\<close>

definition ok_name :: "bytes \<Rightarrow> bool" where
  "ok_name n \<longleftrightarrow> n \<noteq> [] \<and> length n < MAX_PATH_COMPONENT_LEN \<and> 0 \<notin> set n \<and> SLASH \<notin> set n"

definition ok_names :: "kernel \<Rightarrow> bool" where
  "ok_names k \<longleftrightarrow> (\<forall>d. unat (d_name_len (dentries k d)) = length (d_name (dentries k d)))"

definition spelled :: "bytes list \<Rightarrow> bytes" where
  "spelled ns = concat (map (\<lambda>n. n @ [SLASH]) (rev ns))"

definition walked :: "path_walk \<Rightarrow> bytes \<Rightarrow> bool" where
  "walked w acc \<longleftrightarrow> length (pw_data w) = MAX_PERCPU_ARRAY_SIZE \<and> pw_off w + length acc = HALF_PERCPU_ARRAY_SIZE
     \<and> take (length acc) (drop (pw_off w) (pw_data w)) = acc"

lemma LIMIT_HALF_id: "x < 512 \<Longrightarrow> LIMIT_HALF_PERCPU_ARRAY_SIZE x = x"
  by (simp add: LIMIT_HALF_PERCPU_ARRAY_SIZE_def and_511_mod)

lemma LIMIT_HALF_add: "x < 512 \<Longrightarrow> LIMIT_HALF_PERCPU_ARRAY_SIZE (x + 512) = x"
  by (simp add: LIMIT_HALF_PERCPU_ARRAY_SIZE_def and_511_mod)

lemma c_string_ok: "0 \<notin> set n \<Longrightarrow> c_string n = n"
  by (simp add: c_string_def takeWhile_eq_all_conv) metis

lemma write_name:
  assumes "length buf = 1024" and "length n + 1 \<le> off" and "off \<le> 512"
  shows "take (length n + 1 + l) (drop (off - (length n + 1))
      ((write_at buf (off - (length n + 1)) (n @ [0]))[off - 1 := SLASH])) =
    n @ [SLASH] @ take l (drop off buf)"
proof -
  let ?o = "off - (length n + 1)"
  have "write_at buf ?o (n @ [0]) = (take ?o buf @ n) @ 0 # drop off buf"
    using assms by (simp add: write_at_def)
  moreover have "length (take ?o buf @ n) = off - 1" using assms by simp
  ultimately have "(write_at buf ?o (n @ [0]))[off - 1 := SLASH] = take ?o buf @ n @ SLASH # drop off buf"
    using assms by (metis append.assoc append_Cons list_update_length)
  then show ?thesis using assms by simp
qed

lemma build_path_step:
  assumes w: "walked w acc" and nm: "ok_name (d_name (dentries k (pw_dentry w)))" and "ok_names k"
    and fit: "length (d_name (dentries k (pw_dentry w))) + 1 + length acc \<le> 512"
  shows "\<exists>w'. build_path k False w = Walk_next w' \<and> pw_mnt w' = pw_mnt w \<and>
    pw_dentry w' = d_parent (dentries k (pw_dentry w)) \<and>
    walked w' (d_name (dentries k (pw_dentry w)) @ [SLASH] @ acc)"
proof -
  let ?n = "d_name (dentries k (pw_dentry w))"
  have len: "unat (d_name_len (dentries k (pw_dentry w))) = length ?n" "length ?n < 128" "0 < length ?n"
    and c: "c_string ?n = ?n" "take 127 ?n = ?n"
    using nm assms(3) by (auto simp: ok_name_def ok_names_def c_string_ok)
  have off: "pw_off w + length acc = 512" "length (pw_data w) = 1024"
    "take (length acc) (drop (pw_off w) (pw_data w)) = acc" using w by (auto simp: walked_def)
  then have o: "length ?n + 1 \<le> pw_off w" "pw_off w \<le> 512" using fit by auto
  have ret: "read_kernel_str_ret MAX_PATH_COMPONENT_LEN ?n = length ?n + 1"
    using c by (simp add: read_kernel_str_ret_def)
  have l1: "LIMIT_HALF_PERCPU_ARRAY_SIZE (pw_off w - Suc (length ?n)) = pw_off w - (length ?n + 1)"
    "LIMIT_HALF_PERCPU_ARRAY_SIZE (pw_off w - Suc 0) = pw_off w - 1"
    using o by (auto intro!: LIMIT_HALF_id)
  have l2: "LIMIT_HALF_PERCPU_ARRAY_SIZE (pw_off w - Suc 0 + 512 - length ?n) = pw_off w - (length ?n + 1)"
  proof -
    have "pw_off w - Suc 0 + 512 - length ?n = (pw_off w - (length ?n + 1)) + 512" using o by simp
    then show ?thesis using o by (simp only:) (rule LIMIT_HALF_add, simp)
  qed
  define data where "data = (write_at (pw_data w) (pw_off w - (length ?n + 1)) (?n @ [0]))[pw_off w - 1 := SLASH]"
  let ?w = "w\<lparr>pw_off := pw_off w - (length ?n + 1), pw_data := data, pw_dentry := d_parent (dentries k (pw_dentry w))\<rparr>"
  have "build_path k False w = Walk_next ?w"
    using o len c ret l1 l2 by (simp add: build_path_def Let_def data_def)
  moreover have "walked ?w (?n @ [SLASH] @ acc)"
    using write_name [OF off(2) o, of "length acc"] off o by (simp add: walked_def data_def)
  ultimately show ?thesis by auto
qed

lemma path_loop_names:
  assumes "walked w acc" and "ok_names k" and "path_names k n (pw_dentry w) (pw_mnt w) = Some ns"
    and "list_all ok_name ns" and "length (spelled ns) + length acc \<le> 512"
  shows "\<exists>w'. path_loop k n w = Some w' \<and> walked w' (spelled ns @ acc)"
  using assms
proof (induction n arbitrary: w acc ns)
  case 0
  then show ?case by (simp add: spelled_def)
next
  case (Suc n)
  let ?d = "dentries k (pw_dentry w)" and ?m = "mounts k (pw_mnt w)"
  consider (cross) "pw_dentry w = mnt_root ?m" "pw_mnt w \<noteq> mnt_parent ?m"
    | (root) "pw_dentry w = mnt_root ?m" "pw_mnt w = mnt_parent ?m"
    | (name) "pw_dentry w \<noteq> mnt_root ?m" by blast
  then show ?case
  proof cases
    case cross
    let ?w = "w\<lparr>pw_dentry := mnt_mountpoint ?m, pw_mnt := mnt_parent ?m\<rparr>"
    have "walked ?w acc" using Suc.prems(1) by (simp add: walked_def)
    from Suc.IH [OF this Suc.prems(2)] Suc.prems cross show ?thesis
      by (simp add: path_iteration_def Let_def)
  next
    case root
    with Suc.prems show ?thesis by (simp add: path_iteration_def Let_def spelled_def)
  next
    case name
    with Suc.prems(3) obtain rest where d: "pw_dentry w \<noteq> d_parent ?d"
      and rest: "path_names k n (d_parent ?d) (pw_mnt w) = Some rest" and ns: "ns = d_name ?d # rest"
      by (auto split: if_splits)
    have fit: "length (d_name ?d) + 1 + length acc \<le> 512" and ok: "ok_name (d_name ?d)"
      using Suc.prems(4,5) ns by (auto simp: spelled_def)
    from build_path_step [OF Suc.prems(1) ok Suc.prems(2) fit] obtain w' where
      w': "build_path k False w = Walk_next w'" "pw_mnt w' = pw_mnt w" "pw_dentry w' = d_parent ?d"
      "walked w' (d_name ?d @ [SLASH] @ acc)" by blast
    have "\<exists>w''. path_loop k n w' = Some w'' \<and> walked w'' (spelled rest @ d_name ?d @ [SLASH] @ acc)"
      using Suc.prems rest w' ns by (intro Suc.IH) (auto simp: spelled_def)
    with w' d name ns show ?thesis by (auto simp: path_iteration_def Let_def spelled_def)
  qed
qed

text \<open>Names followed by slashes, behind a slash, are slashes followed by names, and a slash.\<close>

lemma slash_concat:
  "SLASH # concat (map (\<lambda>n. n @ [SLASH]) xs) = concat (map (\<lambda>n. SLASH # n) xs) @ [SLASH]"
  by (induction xs) simp_all

lemma slash_spelled: "SLASH # spelled ns = full_path ns @ [SLASH]"
  unfolding spelled_def full_path_def by (rule slash_concat)

lemma length_spelled: "length (spelled ns) = length (full_path ns)"
  using arg_cong [OF slash_spelled [of ns], of length] by simp

lemma hd_spelled: "ns \<noteq> [] \<Longrightarrow> list_all ok_name ns \<Longrightarrow> spelled ns \<noteq> [] \<and> hd (spelled ns) \<noteq> SLASH"
proof -
  assume "ns \<noteq> []" and ok: "list_all ok_name ns"
  then obtain n ms where ms: "rev ns = n # ms" by (cases "rev ns") auto
  then have "n \<in> set ns" by (metis list.set_intros(1) set_rev)
  with ok have "n \<noteq> []" "SLASH \<notin> set n" by (auto simp: list_all_iff ok_name_def)
  with ms show ?thesis by (cases n) (auto simp: spelled_def)
qed

text \<open>Putting the slash in front and the terminator at the end.\<close>

lemma terminated_path:
  assumes "length buf = 1024" and "off + L = 512" and "0 < off" and "take L (drop off buf) = xs"
    and "SLASH # xs = ys @ [z]"
  shows "take (L + 1) (drop (off - 1) (buf[off - 1 := SLASH, 511 := 0])) = ys @ [0]"
proof -
  have "length (take L (drop off buf)) = L" using assms(1,2) by simp
  with assms(4) have "length xs = L" by simp
  then have len: "length ys = L" using arg_cong [OF assms(5), of length] by simp
  have "drop (off - 1) (buf[off - 1 := SLASH]) = SLASH # drop off buf"
    using assms(1-3) Cons_nth_drop_Suc [of "off - 1" buf, symmetric] by (simp add: drop_update_swap)
  then have "take (L + 1) (drop (off - 1) (buf[off - 1 := SLASH])) = ys @ [z]"
    using assms(4,5) by simp
  moreover have "drop (off - 1) (buf[off - 1 := SLASH, 511 := 0]) = (drop (off - 1) (buf[off - 1 := SLASH]))[L := 0]"
  proof -
    have "512 - off = L" using assms(2) by simp
    then show ?thesis using assms(2,3) by (simp add: drop_update_swap)
  qed
  ultimately show ?thesis using len by (simp add: take_update_swap list_update_append)
qed

lemma finish_path_result:
  assumes w: "walked w (spelled ns)" and ns: "ns \<noteq> []" "list_all ok_name ns"
    and fit: "length (full_path ns) + 1 < PATH_MAX"
  shows "finish_path w True out =
    \<lparr>pt_length = word_of_nat (length (full_path ns)),
     pt_value = full_path ns @ [0] @ drop (length (full_path ns) + 1) (pt_value out)\<rparr>"
proof -
  let ?L = "length (full_path ns)"
  have off: "length (pw_data w) = 1024" "pw_off w + ?L = 512" "take ?L (drop (pw_off w) (pw_data w)) = spelled ns"
    using w by (auto simp: walked_def length_spelled)
  have pos: "0 < ?L" using hd_spelled [OF ns] length_spelled [of ns] by (metis length_greater_0_conv)
  have "hd (take ?L (drop (pw_off w) (pw_data w))) = pw_data w ! pw_off w"
    using off(1,2) pos by (simp add: hd_drop_conv_nth)
  with off(3) have "pw_data w ! pw_off w = hd (spelled ns)" by simp
  then have first: "pw_data w ! pw_off w \<noteq> SLASH" using hd_spelled [OF ns] by simp
  have o: "0 < pw_off w" "pw_off w \<noteq> 512" "pw_off w - 1 < 512" using off(2) pos fit by auto
  note t = terminated_path [OF off(1,2) o(1) off(3) slash_spelled]
  have "512 - (pw_off w - 1) = ?L + 1" using off(2) o by linarith
  moreover have "(512 - word_of_nat (pw_off w) :: u16) = word_of_nat ?L"
    using arg_cong [OF off(2), of "word_of_nat :: nat \<Rightarrow> u16"] by (simp add: algebra_simps)
  ultimately show ?thesis
    using o first t fit LIMIT_HALF_id [OF o(3)]
    by (simp add: finish_path_def Let_def copy_into_def)
qed

lemma get_path_result:
  assumes ok: "ok_names k" and "path_names k MAX_PATH_COMPONENTS (fst p) (snd p) = Some ns"
    and ns: "ns \<noteq> []" "list_all ok_name ns" and fit: "length (full_path ns) + 1 < PATH_MAX"
    and s: "helpers_succeed s" "heap_string_buffer_map_counter s 0 = Some i" "heap_string_buffer_map s (norm_slot i) \<noteq> None"
  shows "fst (run_state (get_path_from_path k out p) s) =
    (int (length (full_path ns)),
     \<lparr>pt_length = word_of_nat (length (full_path ns)),
      pt_value = full_path ns @ [0] @ drop (length (full_path ns) + 1) (pt_value out)\<rparr>)"
proof -
  let ?w = "\<lparr>pw_dentry = fst p, pw_mnt = snd p, pw_off = HALF_PERCPU_ARRAY_SIZE, pw_data = empty_string_buffer\<rparr>"
  have "walked ?w []" by (simp add: walked_def empty_string_buffer_def)
  then obtain w where w: "path_loop k MAX_PATH_COMPONENTS ?w = Some w" "walked w (spelled ns)"
    using path_loop_names [of ?w "[]" k MAX_PATH_COMPONENTS ns] assms(1,2,4) fit
    by (auto simp: length_spelled)
  obtain s' where s': "run_state allocate_string_buffer s = (Some (norm_slot i), s')"
    using sb.alloc_progress [OF s] by blast
  have "helper_outcome s' = helper_outcome s"
    by (rule keepsD [OF _ s'], intro frame_intros) simp_all
  with s(1) have "helpers_succeed s'" by (simp add: helpers_succeed_def)
  moreover have "int (unat (word_of_nat (length (full_path ns)) :: u16)) = int (length (full_path ns))"
    using fit by (simp only: of_nat_eq_iff) (simp add: unat_of_nat)
  ultimately show ?thesis
    using s' w finish_path_result [OF w(2) ns fit, of out]
    by (simp add: get_path_from_path_def helpers_succeed_def Let_def del: path_loop.simps)
qed

section \<open>The path of a directory entry\<close>

definition buffers_ready :: "bpf_state \<Rightarrow> bool" where
  "buffers_ready s \<longleftrightarrow> (\<exists>i. heap_string_buffer_map_counter s 0 = Some i) \<and>
     (\<forall>i<HEAP_SLOTS. heap_string_buffer_map s i \<noteq> None)"

lemma buffers_slot: "buffers_ready s \<Longrightarrow> heap_string_buffer_map s (norm_slot i) \<noteq> None"
  by (simp add: buffers_ready_def norm_slot_def)

lemma full_path_Cons: "full_path (n # ns) = full_path ns @ SLASH # n"
  by (simp add: full_path_def)

lemma full_path_no_null: "list_all ok_name ns \<Longrightarrow> 0 \<notin> set (full_path ns)"
  by (auto simp: full_path_def list_all_iff ok_name_def)

lemma c_string_terminated: "0 \<notin> set xs \<Longrightarrow> c_string (xs @ 0 # ys) = xs"
proof -
  assume "0 \<notin> set xs"
  then have "\<forall>x \<in> set xs. x \<noteq> 0" by metis
  then show ?thesis by (simp add: c_string_def takeWhile_append2)
qed

lemma read_kernel_str_name:
  "ok_name n \<Longrightarrow> length dst = FILENAME_MAX_LENGTH \<Longrightarrow>
   read_kernel_str dst FILENAME_MAX_LENGTH n = n @ 0 # drop (length n + 1) dst"
  by (simp add: read_kernel_str_def ok_name_def c_string_ok write_at_def Let_def)

lemma filename_result:
  assumes "helpers_succeed s" and "ok_name (d_name d)" and "unat (d_name_len d) = length (d_name d)"
    and "length (fn_value out) = FILENAME_MAX_LENGTH"
  shows "fst (run_state (get_filename_from_dentry out d) s) = (SUCCESS,
     \<lparr>fn_length = word_of_nat (length (d_name d)),
      fn_value = d_name d @ 0 # drop (length (d_name d) + 1) (fn_value out)\<rparr>)"
proof -
  have "\<not> (d_name_len d > word_of_nat FILENAME_MAX_LENGTH \<or> d_name_len d < 1)"
    using assms(2,3) by (auto simp: ok_name_def word_less_nat_alt)
  moreover have "(ucast (d_name_len d) :: u16) = word_of_nat (length (d_name d))"
    using assms(2,3) by (simp add: ok_name_def word_unat_eq_iff unsigned_ucast_eq unat_of_nat take_bit_nat_eq_self)
  ultimately show ?thesis
    using assms by (simp add: get_filename_from_dentry_def helpers_succeed_def read_kernel_str_name)
qed

lemma keeps_get_path [frame_intros]:
  "(\<And>g s. f (helper_calls_update g s) = f s) \<Longrightarrow> (\<And>g s. f (errors_update g s) = f s) \<Longrightarrow>
   (\<And>g s. f (temp_error_report_t_update g s) = f s) \<Longrightarrow>
   (\<And>g s. f (heap_string_buffer_map_update g s) = f s) \<Longrightarrow>
   (\<And>g s. f (heap_string_buffer_map_counter_update g s) = f s) \<Longrightarrow> keeps f (get_path_from_path k out p)"
  unfolding get_path_from_path_def by (intro frame_intros) simp_all

text \<open>
  A file that is created, unlinked or renamed is recorded with the path of its directory, a
  slash and its name.
\<close>

lemma file_strings_result:
  assumes ok: "ok_names k" and dir: "path_names k MAX_PATH_COMPONENTS (fst p) (snd p) = Some ns"
    and ns: "ns \<noteq> []" "list_all ok_name ns" and name: "ok_name (d_name (dentries k d))"
    and fit: "length (full_path (d_name (dentries k d) # ns)) < PATH_MAX"
    and s: "helpers_succeed s" "buffers_ready s" and wf: "wf_file out"
  shows "fst (run_state (get_file_strings_from_path_and_dentry k out p d) s) = (SUCCESS,
    out\<lparr>f_path := \<lparr>pt_length = word_of_nat (length (full_path (d_name (dentries k d) # ns))),
          pt_value = full_path (d_name (dentries k d) # ns)
            @ 0 # drop (length (full_path (d_name (dentries k d) # ns)) + 1) (pt_value (f_path out))\<rparr>,
        f_filename := \<lparr>fn_length = word_of_nat (length (d_name (dentries k d))),
          fn_value = d_name (dentries k d) @ 0 # drop (length (d_name (dentries k d)) + 1) (fn_value (f_filename out))\<rparr>\<rparr>)"
proof -
  let ?n = "d_name (dentries k d)" and ?L = "length (full_path ns)"
  obtain i where i: "heap_string_buffer_map_counter s 0 = Some i" using s(2) by (auto simp: buffers_ready_def)
  have pos: "0 < ?L" using hd_spelled [OF ns] length_spelled [of ns] by (metis length_greater_0_conv)
  have fit': "?L + 1 < PATH_MAX" and nl: "length ?n < 128" "?n \<noteq> []"
    using fit name by (auto simp: full_path_Cons ok_name_def)
  let ?path = "\<lparr>pt_length = word_of_nat ?L, pt_value = full_path ns @ [0] @ drop (?L + 1) (pt_value (f_path out))\<rparr>"
  obtain s1 where s1: "run_state (get_path_from_path k (f_path out) p) s = ((int ?L, ?path), s1)"
    using get_path_result [OF ok dir ns fit' s(1) i buffers_slot [OF s(2)], of "f_path out"]
    by (metis prod.collapse)
  have "helper_outcome s1 = helper_outcome s" by (rule keepsD [OF _ s1], intro frame_intros) simp_all
  with s(1) have h1: "helpers_succeed s1" by (simp add: helpers_succeed_def)
  let ?fn = "\<lparr>fn_length = word_of_nat (length ?n), fn_value = ?n @ 0 # drop (length ?n + 1) (fn_value (f_filename out))\<rparr>"
  obtain s2 where s2: "run_state (get_filename_from_dentry (f_filename out) (dentries k d)) s1 = ((SUCCESS, ?fn), s2)"
    using filename_result [OF h1 name, of "f_filename out"] ok wf
    by (auto simp: ok_names_def wf_file_def) (metis prod.collapse)
  have lens: "unat (word_of_nat ?L :: u16) = ?L" "unat (word_of_nat (length ?n) :: u16) = length ?n"
    using fit' nl by (simp_all add: unat_of_nat)
  have join: "snprintf_join (full_path ns @ 0 # drop (?L + 1) (pt_value (f_path out))) (?n @ 0 # zs) =
      full_path (?n # ns) @ 0 # drop (length (full_path (?n # ns)) + 1) (pt_value (f_path out))" for zs
    using fit name wf full_path_no_null [OF ns(2)]
    by (simp add: snprintf_join_def c_string_terminated ok_name_def full_path_Cons write_at_def Let_def wf_file_def
        add.commute [of "length ?n"])
  show ?thesis
    using s1 s2 lens join pos fit
    by (simp add: get_file_strings_from_path_and_dentry_def Let_def full_path_Cons)
qed

section \<open>The edges of the path builder\<close>

text \<open>The root directory itself: the slash is written and overwritten by the terminator.\<close>

lemma root_path_result:
  assumes "path_names k MAX_PATH_COMPONENTS (fst p) (snd p) = Some []" and "ok_names k"
    and s: "helpers_succeed s" "buffers_ready s"
  shows "fst (run_state (get_path_from_path k out p) s) =
    (0, \<lparr>pt_length = 0, pt_value = 0 # drop 1 (pt_value out)\<rparr>)"
proof -
  let ?w = "\<lparr>pw_dentry = fst p, pw_mnt = snd p, pw_off = HALF_PERCPU_ARRAY_SIZE, pw_data = empty_string_buffer\<rparr>"
  have "walked ?w []" by (simp add: walked_def empty_string_buffer_def)
  then obtain w where w: "path_loop k MAX_PATH_COMPONENTS ?w = Some w" "walked w []"
    using path_loop_names [of ?w "[]" k MAX_PATH_COMPONENTS "[]"] assms(1,2) by (auto simp: spelled_def)
  obtain i where i: "heap_string_buffer_map_counter s 0 = Some i" using s(2) by (auto simp: buffers_ready_def)
  obtain s' where s': "run_state allocate_string_buffer s = (Some (norm_slot i), s')"
    using sb.alloc_progress [OF s(1) i buffers_slot [OF s(2)]] by blast
  have "helper_outcome s' = helper_outcome s" by (rule keepsD [OF _ s'], intro frame_intros) simp_all
  moreover have "pw_off w = 512" "length (pw_data w) = 1024" using w(2) by (auto simp: walked_def)
  then have "finish_path w True out = \<lparr>pt_length = 0, pt_value = 0 # drop 1 (pt_value out)\<rparr>"
    by (simp add: finish_path_def Let_def copy_into_def take_Suc hd_drop_conv_nth)
  ultimately show ?thesis
    using s' w(1) s(1) by (simp add: get_path_from_path_def helpers_succeed_def Let_def del: path_loop.simps)
qed

text \<open>So an entry of the root directory has no path, and filling its strings fails.\<close>

lemma root_entry_fails:
  assumes "path_names k MAX_PATH_COMPONENTS (fst p) (snd p) = Some []" and "ok_names k"
    and "helpers_succeed s" "buffers_ready s"
  shows "fst (fst (run_state (get_file_strings_from_path_and_dentry k out p d) s)) = GENERIC_ERROR"
proof -
  obtain s1 where "run_state (get_path_from_path k (f_path out) p) s =
      ((0, \<lparr>pt_length = 0, pt_value = 0 # drop 1 (pt_value (f_path out))\<rparr>), s1)"
    using root_path_result [OF assms, of "f_path out"] by (metis prod.collapse)
  then show ?thesis
    by (simp add: get_file_strings_from_path_and_dentry_def Let_def case_prod_beta)
qed

text \<open>
  Only the last twenty names are kept: with more rounds needed, the names found in twenty
  rounds are a proper initial segment (leaf first) of all names.
\<close>

lemma path_names_more:
  "path_names k n d m = Some xs \<Longrightarrow> path_names k (n + j) d m = Some ys \<Longrightarrow> prefix xs ys"
proof (induction n arbitrary: d m xs ys)
  case (Suc n)
  then show ?case by (auto split: if_splits)
qed simp

section \<open>Command lines and modes\<close>

text \<open>The bytes of the argument area, with the null bytes between the arguments as spaces.\<close>

definition arg_bytes :: "task_v \<Rightarrow> nat \<Rightarrow> bytes" where
  "arg_bytes t n = map (\<lambda>i. let c = t_user_mem t (t_arg_start t + word_of_nat i) in if c = 0 then SPACE else c) [0..<n]"

definition arg_size :: "task_v \<Rightarrow> nat" where
  "arg_size t = min (unat (t_arg_end t - t_arg_start t)) (CMD_MAX - 1)"

lemma get_cmd_result:
  assumes "helpers_succeed s" and "t_pid t > 2" and "t_arg_end t > t_arg_start t"
    and "length (c_value out) = CMD_MAX"
  shows "\<exists>cmd. fst (run_state (get_cmd_from_task t out) s) = (SUCCESS, cmd) \<and>
    take (arg_size t) (c_value cmd) = arg_bytes t (arg_size t) \<and> c_value cmd ! arg_size t = 0 \<and>
    unat (c_length cmd) = arg_size t - 1 \<and> length (c_value cmd) = CMD_MAX"
proof -
  let ?full = "t_arg_end t - t_arg_start t"
  have size: "(if ?full \<ge> word_of_nat CMD_MAX then CMD_MAX - 1 else unat ?full) = arg_size t"
    by (simp add: arg_size_def word_le_nat_alt)
  have less: "arg_size t < 256" by (simp add: arg_size_def)
  let ?args = "map (\<lambda>i. t_user_mem t (t_arg_start t + word_of_nat i)) [0..<arg_size t]"
  let ?v = "(nulls_to_spaces (copy_into (c_value out) (arg_size t) ?args))[arg_size t := 0]"
  have run: "fst (run_state (get_cmd_from_task t out) s) =
      (SUCCESS, out\<lparr>c_value := ?v, c_length := word_of_nat (arg_size t - 1)\<rparr>)"
    using assms size by (simp add: get_cmd_from_task_def helpers_succeed_def Let_def not_le [symmetric]
        del: of_nat_diff)
  have len: "length (nulls_to_spaces (copy_into (c_value out) (arg_size t) ?args)) = 256"
    using assms(4) less by (simp add: nulls_to_spaces_def)
  have "take (arg_size t) ?v = arg_bytes t (arg_size t)"
    using less by (simp add: nulls_to_spaces_def take_map arg_bytes_def Let_def comp_def)
  moreover have "?v ! arg_size t = 0" using len less by simp
  moreover have "unat (word_of_nat (arg_size t - 1) :: u16) = arg_size t - 1"
    using less by (simp add: unat_of_nat del: of_nat_diff)
  ultimately show ?thesis using run len by simp
qed

end
