(* ===== verification/Event_Caching.thy ===== *)
theory Event_Caching
  imports Extractors
begin

text \<open>
  \<^verbatim>\<open>event_caching.bpf.h\<close>: verdicts of read and write events, by a hash of the process and the
  file, in a private LRU map per CPU backed by a global one. The two pairs of maps have one
  contract, the locale \<open>verdict_cache\<close>.
\<close>

section \<open>Operations\<close>

definition build_process_unique_id :: "u32 \<Rightarrow> u64 \<Rightarrow> u64" where
  "build_process_unique_id pid start_time = push_bit 32 (ucast pid) OR drop_bit 32 start_time"

text \<open>The file is given by its path; the inode of an open file is that of its dentry.\<close>

definition hash_mix :: "u64 \<Rightarrow> u64 \<Rightarrow> u64" where
  "hash_mix h v = h XOR (v + 0x9e3779b97f4a7c15 + push_bit 6 h + drop_bit 2 h)"

definition calculate_event_hash :: "kernel \<Rightarrow> path_v \<Rightarrow> u64" where
  "calculate_event_hash k file =
     (let task = tasks k (current_task k);
          unique_process_id = build_process_unique_id (t_tgid task) (t_start_time task);
          dentry = dentries k (fst file);
          h = hash_mix unique_process_id (i_ino (d_inode dentry));
          h = hash_mix h (ucast (i_dev (d_inode dentry)))
      in hash_mix h (fst file))"

definition get_event_verdict_from_cache ::
  "(bpf_state \<Rightarrow> (u64 \<rightharpoonup> u8)) \<Rightarrow> (((u64 \<rightharpoonup> u8) \<Rightarrow> (u64 \<rightharpoonup> u8)) \<Rightarrow> bpf_state \<Rightarrow> bpf_state) \<Rightarrow>
   (bpf_state \<Rightarrow> (u64 \<rightharpoonup> u8)) \<Rightarrow> u64 \<Rightarrow> int bpf" where
  "get_event_verdict_from_cache per_cpu_lru per_cpu_lru_update global_lru key = do {
     val \<leftarrow> reads (\<lambda>s. per_cpu_lru s key);
     case val of
       Some v \<Rightarrow> State_Monad.return (int (unat v))
     | None \<Rightarrow> do {
         val2 \<leftarrow> reads (\<lambda>s. global_lru s key);
         case val2 of
           Some v \<Rightarrow> do {
             _ \<leftarrow> lru_update_elem per_cpu_lru_update key v;
             State_Monad.return (int (unat v)) }
         | None \<Rightarrow> State_Monad.return NOT_IN_CACHE } }"

definition update_event_verdict_to_cache ::
  "(((u64 \<rightharpoonup> u8) \<Rightarrow> (u64 \<rightharpoonup> u8)) \<Rightarrow> bpf_state \<Rightarrow> bpf_state) \<Rightarrow>
   (((u64 \<rightharpoonup> u8) \<Rightarrow> (u64 \<rightharpoonup> u8)) \<Rightarrow> bpf_state \<Rightarrow> bpf_state) \<Rightarrow> u64 \<Rightarrow> u8 \<Rightarrow> unit bpf" where
  "update_event_verdict_to_cache private_lru_update public_lru_update key verdict = do {
     _ \<leftarrow> lru_update_elem public_lru_update key verdict;
     _ \<leftarrow> lru_update_elem private_lru_update key verdict;
     State_Monad.return () }"

definition get_write_event_verdict_from_cache :: "u64 \<Rightarrow> int bpf" where
  "get_write_event_verdict_from_cache key =
     get_event_verdict_from_cache private_write_event_cache_lru_map
       private_write_event_cache_lru_map_update global_write_event_cache_lru_map key"

text \<open>The verdict is converted to \<^verbatim>\<open>unsigned char\<close> at the call.\<close>

definition update_write_event_verdict_to_cache :: "u64 \<Rightarrow> int \<Rightarrow> unit bpf" where
  "update_write_event_verdict_to_cache key verdict =
     update_event_verdict_to_cache private_write_event_cache_lru_map_update
       global_write_event_cache_lru_map_update key (word_of_int verdict)"

definition get_read_event_verdict_from_cache :: "u64 \<Rightarrow> int bpf" where
  "get_read_event_verdict_from_cache key =
     get_event_verdict_from_cache private_read_event_cache_lru_map
       private_read_event_cache_lru_map_update global_read_event_cache_lru_map key"

definition update_read_event_verdict_to_cache :: "u64 \<Rightarrow> int \<Rightarrow> unit bpf" where
  "update_read_event_verdict_to_cache key verdict =
     update_event_verdict_to_cache private_read_event_cache_lru_map_update
       global_read_event_cache_lru_map_update key (word_of_int verdict)"

section \<open>The contract\<close>

text \<open>How the hooks read a cached number.\<close>

definition as_verdict :: "int \<Rightarrow> int" where
  "as_verdict v = (if v = ALLOW then ALLOW else DENY)"

locale verdict_cache =
  fixes priv :: "bpf_state \<Rightarrow> (u64 \<rightharpoonup> u8)"
    and priv_update :: "((u64 \<rightharpoonup> u8) \<Rightarrow> (u64 \<rightharpoonup> u8)) \<Rightarrow> bpf_state \<Rightarrow> bpf_state"
    and glob :: "bpf_state \<Rightarrow> (u64 \<rightharpoonup> u8)"
    and glob_update :: "((u64 \<rightharpoonup> u8) \<Rightarrow> (u64 \<rightharpoonup> u8)) \<Rightarrow> bpf_state \<Rightarrow> bpf_state"
  assumes priv_priv: "priv (priv_update g s) = g (priv s)"
    and glob_glob: "glob (glob_update g s) = g (glob s)"
    and priv_glob: "priv (glob_update g s) = priv s"
    and glob_priv: "glob (priv_update g s) = glob s"
    and helper_frame: "priv (helper_calls_update h s) = priv s" "glob (helper_calls_update h s) = glob s"
    and outcome_frame: "helper_outcome (priv_update g s) = helper_outcome s"
      "helper_outcome (glob_update g s) = helper_outcome s"
begin

lemma get_result:
  "fst (run_state (get_event_verdict_from_cache priv priv_update glob key) s) =
     (case priv s key of Some v \<Rightarrow> int (unat v)
      | None \<Rightarrow> (case glob s key of Some v \<Rightarrow> int (unat v) | None \<Rightarrow> NOT_IN_CACHE))"
  by (simp add: get_event_verdict_from_cache_def case_prod_beta split: option.splits)

text \<open>A cached verdict is never mistaken for a miss.\<close>

lemma hit_not_miss:
  assumes "priv s key \<noteq> None \<or> glob s key \<noteq> None"
  shows "fst (run_state (get_event_verdict_from_cache priv priv_update glob key) s) \<noteq> NOT_IN_CACHE"
proof -
  have "int (unat (v :: u8)) \<noteq> NOT_IN_CACHE" for v by linarith
  then show ?thesis using assms unfolding get_result by (auto split: option.splits simp del: int_nat_eq of_nat_unat)
qed

lemma update_get:
  assumes "helpers_succeed s"
  shows "priv (snd (run_state (update_event_verdict_to_cache priv_update glob_update key v) s)) key = Some v"
    and "glob (snd (run_state (update_event_verdict_to_cache priv_update glob_update key v) s)) key = Some v"
  using assms
  by (simp_all add: update_event_verdict_to_cache_def run_lru_update_elem helpers_succeed_def Let_def
      priv_priv glob_glob priv_glob glob_priv helper_frame outcome_frame case_prod_beta)

text \<open>What a verdict is stored as is read back as the same verdict.\<close>

lemma verdict_roundtrip:
  assumes "helpers_succeed s" and "v = ALLOW \<or> v = DENY"
  shows "as_verdict (fst (run_state (get_event_verdict_from_cache priv priv_update glob key)
      (snd (run_state (update_event_verdict_to_cache priv_update glob_update key (word_of_int v)) s)))) = v"
proof -
  have "unat (word_of_int DENY :: u8) = 255" by (simp add: unsigned_minus_1_eq_mask mask_eq_exp_minus_1)
  with assms(2) show ?thesis
    unfolding get_result update_get [OF assms(1)]
    by (auto simp: as_verdict_def simp del: of_nat_unat)
qed

end

interpretation wc: verdict_cache private_write_event_cache_lru_map private_write_event_cache_lru_map_update
  global_write_event_cache_lru_map global_write_event_cache_lru_map_update
  by unfold_locales simp_all

interpretation rc: verdict_cache private_read_event_cache_lru_map private_read_event_cache_lru_map_update
  global_read_event_cache_lru_map global_read_event_cache_lru_map_update
  by unfold_locales simp_all

section \<open>Unique ids\<close>

text \<open>
  The id of a process is its pid and the upper half of its start time: processes with different
  pids never share it, and processes with one pid share it exactly when they started in the
  same interval of 2 to the 32 nanoseconds.
\<close>

lemma unique_id_bits:
  "build_process_unique_id p t = build_process_unique_id p' t' \<longleftrightarrow> p = p' \<and> drop_bit 32 t = drop_bit 32 t'"
proof -
  have bit: "bit (build_process_unique_id p t) n \<longleftrightarrow>
      (if n < 32 then bit t (n + 32) else n < 64 \<and> bit p (n - 32))" for n p t
    by (auto simp: build_process_unique_id_def bit_or_iff bit_push_bit_iff bit_drop_bit_eq bit_ucast_iff
        not_less add.commute dest: bit_imp_le_length)
  show ?thesis
  proof
    assume eq: "build_process_unique_id p t = build_process_unique_id p' t'"
    have "bit p n = bit p' n" for n
    proof (cases "n < 32")
      case True
      then show ?thesis
        using arg_cong [OF eq, of "\<lambda>w. bit w (n + 32)"] by (simp add: bit)
    qed (auto dest: bit_imp_le_length)
    moreover have "bit (drop_bit 32 t) n = bit (drop_bit 32 t') n" for n
    proof (cases "n < 32")
      case True
      then show ?thesis
        using arg_cong [OF eq, of "\<lambda>w. bit w n"] by (simp add: bit bit_drop_bit_eq add.commute)
    qed (auto simp: bit_drop_bit_eq dest!: bit_imp_le_length)
    ultimately show "p = p' \<and> drop_bit 32 t = drop_bit 32 t'" by (simp add: bit_eq_iff)
  qed (auto simp: build_process_unique_id_def)
qed

end
