(* ===== verification/Fill_Events.thy ===== *)
theory Fill_Events
  imports Event_Caching Process_Cache
begin

text \<open>
  \<^verbatim>\<open>fill_event_structs.bpf.h\<close> and the task predicates of \<^verbatim>\<open>pids_to_ignore.bpf.h\<close>: the file, process
  and network parts of an event, from the kernel objects and the process caches. A structure
  that is filled in place is an argument and a result. When a kernel read fails, the helper
  clears the destination.
\<close>

section \<open>The running task\<close>

abbreviation PF_VCPU :: u32 where "PF_VCPU \<equiv> 0x1"

abbreviation PF_WQ_WORKER :: u32 where "PF_WQ_WORKER \<equiv> 0x20"

abbreviation PF_KTHREAD :: u32 where "PF_KTHREAD \<equiv> 0x200000"

abbreviation running :: "kernel \<Rightarrow> task_v" where "running k \<equiv> tasks k (current_task k)"

definition current_pid :: "kernel \<Rightarrow> u32" where
  "current_pid k = t_tgid (running k)"

definition is_system_task :: "kernel \<Rightarrow> bool" where
  "is_system_task k \<longleftrightarrow> t_pid (running k) \<le> 1 \<or>
     t_flags (running k) AND (PF_VCPU OR PF_WQ_WORKER OR PF_KTHREAD) \<noteq> 0"

definition is_task_with_mm :: "kernel \<Rightarrow> bool" where
  "is_task_with_mm k = t_has_mm (running k)"

definition is_in_kthread_exec_pids :: "kernel \<Rightarrow> bool bpf" where
  "is_in_kthread_exec_pids k = reads (\<lambda>s. kthread_exec_pids s (t_pid (running k)) \<noteq> None)"

definition is_userspace_program :: "kernel \<Rightarrow> bool bpf" where
  "is_userspace_program k =
     (if is_task_with_mm k \<and> \<not> is_system_task k
      then do { b \<leftarrow> is_in_kthread_exec_pids k; State_Monad.return (\<not> b) }
      else State_Monad.return False)"

section \<open>Files\<close>

abbreviation PERMISSION_BITS :: u16 where "PERMISSION_BITS \<equiv> 0x1FF"

definition fill_file_t_numeric_values :: "kernel \<Rightarrow> file_t \<Rightarrow> ptr \<Rightarrow> u16 option \<Rightarrow> file_t bpf" where
  "fill_file_t_numeric_values k file dentry mode = do {
     let d = dentries k dentry;
     let m = (case mode of Some m \<Rightarrow> m | None \<Rightarrow> get_mode_from_dentry d);
     last_modified \<leftarrow> get_last_modified_from_dentry k d;
     State_Monad.return (file\<lparr>
       f_inode := get_inode_from_dentry d,
       f_dev := get_dev_from_dentry d,
       f_unique_inode_id := get_unique_inode_id_from_dentry d,
       f_owner := \<lparr>o_uid = get_owner_uid_from_dentry d, o_gid = get_owner_gid_from_dentry d\<rparr>,
       f_type := get_file_type_from_mode m,
       f_suid := (if m AND S_ISUID \<noteq> 0 then 1 else 0),
       f_sgid := (if m AND S_ISGID \<noteq> 0 then 1 else 0),
       f_mode := m AND PERMISSION_BITS,
       f_last_modified_seconds := last_modified,
       f_nlink := get_nlink_from_dentry d\<rparr>) }"

definition fill_file_t :: "kernel \<Rightarrow> file_t \<Rightarrow> path_v \<Rightarrow> (int \<times> file_t) bpf" where
  "fill_file_t k file path = do {
     file1 \<leftarrow> fill_file_t_numeric_values k file (fst path) None;
     (_, p) \<leftarrow> get_path_from_path k (f_path file1) path;
     (_, n) \<leftarrow> get_filename_from_dentry (f_filename file1) (dentries k (fst path));
     State_Monad.return (SUCCESS, file1\<lparr>f_path := p, f_filename := n\<rparr>) }"

section \<open>Processes\<close>

definition fill_process_t_numeric_values :: "kernel \<Rightarrow> process_t \<Rightarrow> ptr \<Rightarrow> process_t bpf" where
  "fill_process_t_numeric_values k process_event task = do {
     let t = tasks k task;
     let real_parent = tasks k (t_real_parent t);
     stdio \<leftarrow> get_stdio_file_descriptors_at_process_creation_from_task t (p_stdio process_event);
     State_Monad.return (process_event\<lparr>
       p_pid := t_tgid t,
       p_ppid := t_tgid real_parent,
       p_start_time := t_start_time t,
       p_ruid := t_uid t,
       p_euid := t_euid t,
       p_rgid := t_gid t,
       p_egid := t_egid t,
       p_suid := t_suid t,
       p_ptrace_flags := t_ptrace t,
       p_cgroup_id := cgroup_id k,
       p_stdio := stdio,
       p_unique_process_id := build_process_unique_id (t_tgid t) (t_start_time t),
       p_unique_ppid_id := build_process_unique_id (t_tgid real_parent) (t_start_time real_parent)\<rparr>) }"

text \<open>The executable file is read through the memory descriptor, which a kernel thread has not.\<close>

definition exe_file_of :: "task_v \<Rightarrow> path_v option" where
  "exe_file_of t = (if t_has_mm t then t_exe_file t else None)"

definition fill_process_t :: "kernel \<Rightarrow> process_t \<Rightarrow> ptr \<Rightarrow> (int \<times> process_t) bpf" where
  "fill_process_t k process_event task = (case exe_file_of (tasks k task) of
       None \<Rightarrow> do {
         REPORT_ERROR GENERIC_ERROR ''fill_process_t''; State_Monad.return (GENERIC_ERROR, process_event) }
     | Some path \<Rightarrow> do {
         (_, file) \<leftarrow> fill_file_t k (p_file process_event) path;
         (_, cmd) \<leftarrow> get_cmd_from_task (tasks k task) (p_cmd process_event);
         p \<leftarrow> fill_process_t_numeric_values k (process_event\<lparr>p_file := file, p_cmd := cmd\<rparr>) task;
         State_Monad.return (SUCCESS, p) })"

definition fill_current_process_t :: "kernel \<Rightarrow> process_t \<Rightarrow> (int \<times> process_t) bpf" where
  "fill_current_process_t k process_event = fill_process_t k process_event (current_task k)"

definition fill_event_process_from_cache_for_task ::
  "kernel \<Rightarrow> process_t \<Rightarrow> ptr \<Rightarrow> (int \<times> process_t) bpf" where
  "fill_event_process_from_cache_for_task k process_event task = do {
     let pid = t_tgid (tasks k task);
     process \<leftarrow> get_process_from_alive_process_cache pid;
     case process of
       None \<Rightarrow> do {
         (ret, p) \<leftarrow> fill_process_t k process_event task;
         if ret = SUCCESS then do {
           ret2 \<leftarrow> update_process_in_alive_process_cache pid p;
           State_Monad.return (ret2, p) }
         else State_Monad.return (ret, p) }
     | Some slot \<Rightarrow> do {
         ok \<leftarrow> helper_ok;
         if \<not> ok then do {
           REPORT_ERROR GENERIC_ERROR ''fill_event_process_from_cache_for_task'';
           State_Monad.return (GENERIC_ERROR, empty_process_t) }
         else do {
           p \<leftarrow> load_process slot;
           State_Monad.return (SUCCESS, p) } } }"

definition fill_event_process_from_cache :: "kernel \<Rightarrow> process_t \<Rightarrow> (int \<times> process_t) bpf" where
  "fill_event_process_from_cache k process_event =
     fill_event_process_from_cache_for_task k process_event (current_task k)"

text \<open>
  The result of \<^verbatim>\<open>fill_process_t\<close> is not inspected, and the parent is looked for from the running
  task, not from the child process that is asked about.
\<close>

definition get_or_update_parent_process_in_caches :: "kernel \<Rightarrow> process_t \<Rightarrow> u32 option bpf" where
  "get_or_update_parent_process_in_caches k child_process = do {
     parent_process \<leftarrow> get_process_from_caches (p_ppid child_process) (p_unique_ppid_id child_process);
     case parent_process of
       Some slot \<Rightarrow> State_Monad.return (Some slot)
     | None \<Rightarrow> do {
         allocated \<leftarrow> allocate_process_t;
         case allocated of
           None \<Rightarrow> do {
             REPORT_ERROR GENERIC_ERROR ''get_or_update_parent_process_in_caches''; State_Monad.return None }
         | Some slot \<Rightarrow> do {
             p0 \<leftarrow> load_process slot;
             (_, p) \<leftarrow> fill_process_t k p0 (t_real_parent (running k));
             store_process slot p;
             ret \<leftarrow> update_process_in_alive_process_cache (p_pid p) p;
             (if ret \<noteq> SUCCESS then REPORT_ERROR GENERIC_ERROR ''get_or_update_parent_process_in_caches''
              else State_Monad.return ());
             State_Monad.return (Some slot) } } }"

definition fill_event_parent_process_from_cache ::
  "kernel \<Rightarrow> process_t \<Rightarrow> process_t \<Rightarrow> (int \<times> process_t) bpf" where
  "fill_event_parent_process_from_cache k child_process parent_process = do {
     parent \<leftarrow> get_or_update_parent_process_in_caches k child_process;
     case parent of
       None \<Rightarrow> State_Monad.return (GENERIC_ERROR, parent_process)
     | Some slot \<Rightarrow> do {
         ok \<leftarrow> helper_ok;
         if \<not> ok then do {
           REPORT_ERROR GENERIC_ERROR ''fill_event_parent_process_from_cache'';
           State_Monad.return (GENERIC_ERROR, empty_process_t) }
         else do {
           p \<leftarrow> load_process slot;
           State_Monad.return (SUCCESS, p) } } }"

section \<open>Event data\<close>

text \<open>The members of a cleared event.\<close>

definition empty_chown_event_t :: chown_event_t where
  "empty_chown_event_t = \<lparr>chown_file = empty_file_t, chown_requested_owner_uid = 0, chown_requested_owner_gid = 0\<rparr>"

definition empty_chmod_event_t :: chmod_event_t where
  "empty_chmod_event_t = \<lparr>chmod_file = empty_file_t, chmod_requested_mode = 0\<rparr>"

definition empty_file_create_event_t :: file_create_event_t where
  "empty_file_create_event_t = \<lparr>fc_file = empty_file_t\<rparr>"

definition empty_write_event_t :: write_event_t where
  "empty_write_event_t = \<lparr>w_event_hash = 0, w_file = empty_file_t\<rparr>"

definition empty_rename_event_t :: rename_event_t where
  "empty_rename_event_t = \<lparr>rn_flags = 0, rn_source_file = empty_file_t, rn_destination_file = empty_file_t\<rparr>"

definition empty_network_event_t :: network_event_t where
  "empty_network_event_t = \<lparr>n_direction = 0, n_protocol = 0, n_ip_type = 0, n_source_port = 0,
     n_destination_port = 0, n_addresses = replicate 8 0\<rparr>"

definition fill_chown_event_t :: "kernel \<Rightarrow> chown_event_t \<Rightarrow> path_v \<Rightarrow> (int \<times> chown_event_t) bpf" where
  "fill_chown_event_t k chown_event path = do {
     (_, file) \<leftarrow> fill_file_t k (chown_file chown_event) path;
     State_Monad.return (SUCCESS, chown_event\<lparr>chown_file := file\<rparr>) }"

definition fill_chmod_event_t ::
  "kernel \<Rightarrow> chmod_event_t \<Rightarrow> path_v \<Rightarrow> u16 \<Rightarrow> (int \<times> chmod_event_t) bpf" where
  "fill_chmod_event_t k chmod_event path mode = do {
     (_, file) \<leftarrow> fill_file_t k (chmod_file chmod_event) path;
     State_Monad.return (SUCCESS, chmod_event\<lparr>chmod_file := file, chmod_requested_mode := mode\<rparr>) }"

text \<open>The exit code is a \<^verbatim>\<open>long\<close>, cut to its lower 32 bits.\<close>

definition fill_exit_event_t :: "u64 \<Rightarrow> exit_event_t" where
  "fill_exit_event_t code =
     \<lparr>exit_exit_code = drop_bit 8 (ucast code :: u32),
      exit_signal = ((ucast code :: u32) AND 0xFF) AND 0x7F\<rparr>"

definition fill_file_create_event_t ::
  "kernel \<Rightarrow> file_create_event_t \<Rightarrow> path_v \<Rightarrow> ptr \<Rightarrow> u16 \<Rightarrow> (int \<times> file_create_event_t) bpf" where
  "fill_file_create_event_t k file_create_event dir dentry mode = do {
     file1 \<leftarrow> fill_file_t_numeric_values k (fc_file file_create_event) dentry (Some mode);
     (ret, file2) \<leftarrow> get_file_strings_from_path_and_dentry k file1 dir dentry;
     State_Monad.return (ret, file_create_event\<lparr>fc_file := file2\<rparr>) }"

definition fill_unlink_event_t ::
  "kernel \<Rightarrow> file_create_event_t \<Rightarrow> path_v \<Rightarrow> ptr \<Rightarrow> (int \<times> file_create_event_t) bpf" where
  "fill_unlink_event_t k unlink_event dir dentry = do {
     file1 \<leftarrow> fill_file_t_numeric_values k (fc_file unlink_event) dentry None;
     (ret, file2) \<leftarrow> get_file_strings_from_path_and_dentry k file1 dir dentry;
     State_Monad.return (ret, unlink_event\<lparr>fc_file := file2\<rparr>) }"

definition fill_write_event_t ::
  "kernel \<Rightarrow> write_event_t \<Rightarrow> path_v \<Rightarrow> u64 \<Rightarrow> (int \<times> write_event_t) bpf" where
  "fill_write_event_t k write_event path event_hash = do {
     (_, file) \<leftarrow> fill_file_t k (w_file write_event) path;
     State_Monad.return (SUCCESS, write_event\<lparr>w_file := file, w_event_hash := event_hash\<rparr>) }"

definition fill_read_event_t ::
  "kernel \<Rightarrow> write_event_t \<Rightarrow> path_v \<Rightarrow> u64 \<Rightarrow> (int \<times> write_event_t) bpf" where
  "fill_read_event_t k read_event path event_hash = do {
     (_, file) \<leftarrow> fill_file_t k (w_file read_event) path;
     State_Monad.return (SUCCESS, read_event\<lparr>w_file := file, w_event_hash := event_hash\<rparr>) }"

definition fill_rename_event_t ::
  "kernel \<Rightarrow> rename_event_t \<Rightarrow> path_v \<Rightarrow> ptr \<Rightarrow> path_v \<Rightarrow> ptr \<Rightarrow> (int \<times> rename_event_t) bpf" where
  "fill_rename_event_t k rename_event old_dir old_dentry new_dir new_dentry = do {
     src1 \<leftarrow> fill_file_t_numeric_values k (rn_source_file rename_event) old_dentry None;
     dst1 \<leftarrow> fill_file_t_numeric_values k (rn_destination_file rename_event) new_dentry None;
     (_, src2) \<leftarrow> get_file_strings_from_path_and_dentry k src1 old_dir old_dentry;
     (_, dst2) \<leftarrow> get_file_strings_from_path_and_dentry k dst1 new_dir new_dentry;
     State_Monad.return (SUCCESS, rename_event\<lparr>rn_source_file := src2, rn_destination_file := dst2\<rparr>) }"

section \<open>Network connections\<close>

text \<open>
  The parts of a socket and of a connection request that are read. The addresses of both
  families are separate fields; those of IPv6 are four cells. Ports from the wire and address
  words are in network byte order, which is the opposite of the byte order of the supported
  machines.
\<close>

record sock_common_v =
  skc_family :: u16
  skc_daddr :: u32
  skc_rcv_saddr :: u32
  skc_v6_daddr :: "u32 list"
  skc_v6_rcv_saddr :: "u32 list"
  skc_num :: u16
  skc_dport :: u16

record sock_v =
  sk_common :: sock_common_v
  sk_protocol :: u16

record sockaddr_v =
  sa_family :: u16
  sa_port :: u16
  sin_addr :: u32
  sin6_addr :: "u32 list"

abbreviation IPPROTO_TCP :: u8 where "IPPROTO_TCP \<equiv> 6"

abbreviation IPPROTO_UDP :: u8 where "IPPROTO_UDP \<equiv> 17"

definition bpf_ntohs :: "u16 \<Rightarrow> u16" where
  "bpf_ntohs w = push_bit 8 w OR drop_bit 8 w"

abbreviation V4_MAPPED_WORD :: u32 where "V4_MAPPED_WORD \<equiv> 0xffff0000"

text \<open>
  The address cells are written in place: a write through one member of the union is visible
  through the other.
\<close>

definition set_ipv4_source :: "u32 \<Rightarrow> network_event_t \<Rightarrow> network_event_t" where
  "set_ipv4_source a n = n\<lparr>n_addresses := (n_addresses n)[0 := a]\<rparr>"

definition set_ipv4_destination :: "u32 \<Rightarrow> network_event_t \<Rightarrow> network_event_t" where
  "set_ipv4_destination a n = n\<lparr>n_addresses := (n_addresses n)[1 := a]\<rparr>"

definition set_ipv6_source :: "u32 list \<Rightarrow> network_event_t \<Rightarrow> network_event_t" where
  "set_ipv6_source a n = n\<lparr>n_addresses := write_at (n_addresses n) 0 a\<rparr>"

definition set_ipv6_destination :: "u32 list \<Rightarrow> network_event_t \<Rightarrow> network_event_t" where
  "set_ipv6_destination a n = n\<lparr>n_addresses := write_at (n_addresses n) 4 a\<rparr>"

text \<open>
  \<^verbatim>\<open>fill_missing_network_event_members_using_sk_buffer\<close> is unused; its packet is the bytes from the
  head of the buffer.
\<close>

record sk_buff_v =
  skb_network_header :: u16
  skb_head :: "nat \<Rightarrow> u8"

definition read_u16 :: "(nat \<Rightarrow> u8) \<Rightarrow> nat \<Rightarrow> u16" where
  "read_u16 mem a = ucast (mem a) OR push_bit 8 (ucast (mem (a + 1)))"

definition read_u32 :: "(nat \<Rightarrow> u8) \<Rightarrow> nat \<Rightarrow> u32" where
  "read_u32 mem a = ucast (mem a) OR push_bit 8 (ucast (mem (a + 1)))
     OR push_bit 16 (ucast (mem (a + 2))) OR push_bit 24 (ucast (mem (a + 3)))"

definition get_ip_type_number :: "(nat \<Rightarrow> u8) \<Rightarrow> nat \<Rightarrow> u8" where
  "get_ip_type_number mem hdr = drop_bit 4 (mem hdr) AND 0x0f"

definition get_inhl :: "(nat \<Rightarrow> u8) \<Rightarrow> nat \<Rightarrow> u8" where
  "get_inhl mem hdr = mem hdr AND 0x0f"

definition fill_missing_network_event_members_using_sk_buffer ::
  "network_event_t \<Rightarrow> sk_buff_v \<Rightarrow> (int \<times> network_event_t) bpf" where
  "fill_missing_network_event_members_using_sk_buffer n skb = do {
     let iph = unat (skb_network_header skb);
     let mem = skb_head skb;
     let ip_type_number = get_ip_type_number mem iph;
     if ip_type_number = 6 then State_Monad.return (SUCCESS, n\<lparr>n_ip_type := AF_INET6\<rparr>)
     else if ip_type_number \<noteq> 4 then State_Monad.return (NOT_SUPPORTED, n)
     else do {
       let n1 = n\<lparr>n_ip_type := AF_INET\<rparr>;
       let protocol = mem (iph + 9);
       if protocol \<noteq> IPPROTO_TCP \<and> protocol \<noteq> IPPROTO_UDP then State_Monad.return (NOT_SUPPORTED, n1)
       else do {
         let n2 = set_ipv4_source (read_u32 mem (iph + 16))
           (set_ipv4_destination (read_u32 mem (iph + 12)) (n1\<lparr>n_protocol := protocol\<rparr>));
         let transport_header = iph + unat (get_inhl mem iph) * 4;
         ok \<leftarrow> helper_ok;
         if \<not> ok then do {
           REPORT_ERROR GENERIC_ERROR ''fill_missing_network_event_members_using_sk_buffer'';
           State_Monad.return (GENERIC_ERROR, n2) }
         else State_Monad.return (SUCCESS,
           n2\<lparr>n_destination_port := bpf_ntohs (read_u16 mem transport_header),
              n_source_port := bpf_ntohs (read_u16 mem (transport_header + 2))\<rparr>) } } }"

text \<open>
  The connection of a request. An IPv6 source that is an IPv4-mapped address is turned into an
  IPv4 connection.
\<close>

definition is_v4_mapped :: "network_event_t \<Rightarrow> bool" where
  "is_v4_mapped n \<longleftrightarrow> ipv6_source_ip n 0 = 0 \<and> ipv6_source_ip n 1 = 0 \<and> ipv6_source_ip n 2 = V4_MAPPED_WORD"

definition fill_incomming_connection_network_event_t ::
  "network_event_t \<Rightarrow> sock_v \<Rightarrow> sock_common_v \<Rightarrow> int \<times> network_event_t" where
  "fill_incomming_connection_network_event_t network_event sk req =
     (let n = network_event\<lparr>n_direction := INCOMING\<rparr>;
          protocol = ucast (sk_protocol sk) :: u8
      in if protocol \<noteq> IPPROTO_TCP \<and> protocol \<noteq> IPPROTO_UDP then (NOT_SUPPORTED, n)
         else
           let n = n\<lparr>n_protocol := protocol\<rparr>;
               family = skc_family req;
               (family, n) =
                 (if family = ucast AF_INET6 then
                    let n = set_ipv6_source (skc_v6_daddr req) n
                    in if is_v4_mapped n
                       then (ucast AF_INET, n\<lparr>n_addresses := (n_addresses n)[2 := 0, 3 := 0]\<rparr>)
                       else (family, n)
                  else (family, n))
           in if family = ucast AF_INET then
                let n = set_ipv4_source (skc_daddr req) (set_ipv4_destination (skc_rcv_saddr req) n)
                in (SUCCESS, n\<lparr>n_ip_type := ucast family, n_destination_port := skc_num req,
                     n_source_port := bpf_ntohs (skc_dport req)\<rparr>)
              else if family = ucast AF_INET6 then
                let n = set_ipv6_destination (skc_v6_rcv_saddr req) n
                in (SUCCESS, n\<lparr>n_ip_type := ucast family, n_destination_port := skc_num req,
                     n_source_port := bpf_ntohs (skc_dport req)\<rparr>)
              else (NOT_SUPPORTED, n))"

definition fill_outgoing_connection_network_event_t_second_part ::
  "network_event_t \<Rightarrow> sock_v \<Rightarrow> int \<times> network_event_t" where
  "fill_outgoing_connection_network_event_t_second_part n sk =
     (if n_ip_type n = AF_INET then
        (SUCCESS, (set_ipv4_source (skc_rcv_saddr (sk_common sk)) n)\<lparr>n_source_port := skc_num (sk_common sk)\<rparr>)
      else if n_ip_type n = AF_INET6 then
        (SUCCESS, (set_ipv6_source (skc_v6_rcv_saddr (sk_common sk)) n)\<lparr>n_source_port := skc_num (sk_common sk)\<rparr>)
      else (NOT_SUPPORTED, n))"

definition fill_outgoing_connection_network_event_t_first_part ::
  "network_event_t \<Rightarrow> sock_v \<Rightarrow> sockaddr_v \<Rightarrow> int \<times> network_event_t" where
  "fill_outgoing_connection_network_event_t_first_part n sk address =
     (let n = n\<lparr>n_direction := OUTGOING, n_protocol := ucast (sk_protocol sk)\<rparr>;
          family = sa_family address
      in if family = ucast AF_INET then
           (SUCCESS, (set_ipv4_destination (sin_addr address) n)\<lparr>
             n_destination_port := bpf_ntohs (sa_port address), n_ip_type := ucast family\<rparr>)
         else if family = ucast AF_INET6 then
           (SUCCESS, (set_ipv6_destination (sin6_addr address) n)\<lparr>
             n_destination_port := bpf_ntohs (sa_port address), n_ip_type := ucast family\<rparr>)
         else (NOT_SUPPORTED, n))"

section \<open>Frames\<close>

definition fill_free :: "(bpf_state \<Rightarrow> 'b) \<Rightarrow> bool" where
  "fill_free f \<longleftrightarrow> proc_free f \<and> (\<forall>s g. f (heap_string_buffer_map_update g s) = f s) \<and>
     (\<forall>s g. f (heap_string_buffer_map_counter_update g s) = f s) \<and>
     (\<forall>s g. f (alive_process_cache_map_update g s) = f s)"

lemma fill_freeI [frame_intros]:
  "proc_free f \<Longrightarrow> (\<And>s g. f (heap_string_buffer_map_update g s) = f s) \<Longrightarrow>
   (\<And>s g. f (heap_string_buffer_map_counter_update g s) = f s) \<Longrightarrow>
   (\<And>s g. f (alive_process_cache_map_update g s) = f s) \<Longrightarrow> fill_free f"
  by (simp add: fill_free_def)

lemmas fill_free_simps = fill_free_def proc_free_def report_free_def

lemma keeps_report_fill: "fill_free f \<Longrightarrow> keeps f (REPORT_ERROR c l)"
  by (intro frame_intros) (simp_all add: fill_free_simps)

lemma keeps_fill_file_numeric [frame_intros]:
  "fill_free f \<Longrightarrow> keeps f (fill_file_t_numeric_values k file d m)"
  unfolding fill_file_t_numeric_values_def get_last_modified_from_dentry_def
  by (cases "inode_layout k"; simp only: mtime_layout.case; intro frame_intros) (simp_all add: fill_free_simps)

lemma keeps_filename [frame_intros]: "fill_free f \<Longrightarrow> keeps f (get_filename_from_dentry out d)"
  unfolding get_filename_from_dentry_def by (intro frame_intros) (simp_all add: fill_free_simps)

lemma keeps_get_path_fill: "fill_free f \<Longrightarrow> keeps f (get_path_from_path k out p)"
  by (intro frame_intros) (simp_all add: fill_free_simps)

lemma keeps_file_strings [frame_intros]:
  "fill_free f \<Longrightarrow> keeps f (get_file_strings_from_path_and_dentry k out p d)"
  unfolding get_file_strings_from_path_and_dentry_def
  by (intro keeps_bind keeps_case_prod keeps_Let keeps_if keeps_return keeps_get_path_fill keeps_filename
      keeps_report_fill)

lemma keeps_fill_file_t [frame_intros]: "fill_free f \<Longrightarrow> keeps f (fill_file_t k file p)"
  unfolding fill_file_t_def
  by (intro keeps_bind keeps_case_prod keeps_return keeps_get_path_fill keeps_filename keeps_fill_file_numeric)

lemma keeps_stdio: "fill_free f \<Longrightarrow>
   keeps f (get_stdio_file_descriptors_at_process_creation_from_task t io)"
proof -
  assume f: "fill_free f"
  have "keeps f (READ_FD_TYPE slot old)" for slot old
    unfolding READ_FD_TYPE_def by (cases slot) (simp_all add: keeps_return keeps_bind keeps_report_fill [OF f])
  then show ?thesis
    unfolding get_stdio_file_descriptors_at_process_creation_from_task_def
    by (cases "t_fd_table t") (simp_all add: keeps_return keeps_bind keeps_report_fill [OF f])
qed

lemma keeps_get_cmd: "fill_free f \<Longrightarrow> keeps f (get_cmd_from_task t out)"
  unfolding get_cmd_from_task_def by (intro frame_intros) (simp_all add: fill_free_simps)

lemma keeps_fill_process_t [frame_intros]: "fill_free f \<Longrightarrow> keeps f (fill_process_t k p t)"
  unfolding fill_process_t_def fill_process_t_numeric_values_def
  by (intro keeps_bind keeps_case_prod keeps_case_option keeps_return keeps_Let keeps_fill_file_t keeps_get_cmd
      keeps_stdio keeps_report_fill)

lemma fill_free_proc: "fill_free f \<Longrightarrow> proc_free f"
  by (simp add: fill_free_def)

lemma keeps_update_alive_fill: "fill_free f \<Longrightarrow> keeps f (update_process_in_alive_process_cache pid p)"
  by (intro keeps_update_alive) (simp_all add: fill_free_def)

lemma keeps_alloc_fill: "fill_free f \<Longrightarrow> keeps f allocate_process_t"
  by (intro frame_intros) (simp_all add: fill_free_simps)

lemma keeps_helper_ok_fill: "fill_free f \<Longrightarrow> keeps f helper_ok"
  by (intro frame_intros) (simp_all add: fill_free_simps)

lemmas fill_frames = keeps_bind keeps_case_prod keeps_case_option keeps_return keeps_Let keeps_if
  keeps_fill_process_t keeps_update_alive_fill keeps_report_fill keeps_alloc_fill keeps_helper_ok_fill
  keeps_load_process keeps_store_process keeps_get_process_from_cache keeps_get_process_from_caches fill_free_proc

lemma keeps_fill_event_process_for_task [frame_intros]:
  "fill_free f \<Longrightarrow> keeps f (fill_event_process_from_cache_for_task k p t)"
  unfolding fill_event_process_from_cache_for_task_def get_process_from_alive_process_cache_def
  by (intro fill_frames)

lemma keeps_fill_event_process [frame_intros]: "fill_free f \<Longrightarrow> keeps f (fill_event_process_from_cache k p)"
  unfolding fill_event_process_from_cache_def by (rule keeps_fill_event_process_for_task)

lemma keeps_fill_event_parent [frame_intros]:
  "fill_free f \<Longrightarrow> keeps f (fill_event_parent_process_from_cache k c p)"
  unfolding fill_event_parent_process_from_cache_def get_or_update_parent_process_in_caches_def
  by (intro fill_frames)

lemma keeps_fill_chown [frame_intros]: "fill_free f \<Longrightarrow> keeps f (fill_chown_event_t k e p)"
  unfolding fill_chown_event_t_def by (intro fill_frames keeps_fill_file_t)

lemma keeps_fill_chmod [frame_intros]: "fill_free f \<Longrightarrow> keeps f (fill_chmod_event_t k e p m)"
  unfolding fill_chmod_event_t_def by (intro fill_frames keeps_fill_file_t)

lemma keeps_fill_write [frame_intros]: "fill_free f \<Longrightarrow> keeps f (fill_write_event_t k w p h)"
  unfolding fill_write_event_t_def by (intro fill_frames keeps_fill_file_t)

lemma keeps_fill_read [frame_intros]: "fill_free f \<Longrightarrow> keeps f (fill_read_event_t k w p h)"
  unfolding fill_read_event_t_def by (intro fill_frames keeps_fill_file_t)

lemma keeps_fill_file_create [frame_intros]: "fill_free f \<Longrightarrow> keeps f (fill_file_create_event_t k e p d m)"
  unfolding fill_file_create_event_t_def by (intro fill_frames keeps_fill_file_numeric keeps_file_strings)

lemma keeps_fill_unlink [frame_intros]: "fill_free f \<Longrightarrow> keeps f (fill_unlink_event_t k e p d)"
  unfolding fill_unlink_event_t_def by (intro fill_frames keeps_fill_file_numeric keeps_file_strings)

lemma keeps_fill_rename [frame_intros]: "fill_free f \<Longrightarrow> keeps f (fill_rename_event_t k e p d p' d')"
  unfolding fill_rename_event_t_def by (intro fill_frames keeps_fill_file_numeric keeps_file_strings)

section \<open>What is filled in\<close>

text \<open>The state a hook needs to fill an event: helpers succeed and the scratch memory is there.\<close>

definition fill_ready :: "bpf_state \<Rightarrow> bool" where
  "fill_ready s \<longleftrightarrow> helpers_succeed s \<and> heap_ok s \<and> buffers_ready s"

lemma fill_ready_keeps:
  assumes "keeps helper_outcome m" "keeps heap_process_t_map m" "keeps heap_process_t_map_counter m"
    "keeps heap_string_buffer_map m" "keeps heap_string_buffer_map_counter m"
  shows "preserves fill_ready m"
  using assms by (simp add: preserves_def hoare_def keeps_def fill_ready_def helpers_succeed_def heap_ok_def
      buffers_ready_def)

lemma fill_ready_report: "preserves fill_ready (REPORT_ERROR c l)"
  by (rule fill_ready_keeps) (intro frame_intros; simp)+

lemma fill_ready_helper_ok: "preserves fill_ready helper_ok"
  by (rule fill_ready_keeps) (intro frame_intros; simp)+

lemma fill_ready_alloc_string: "preserves fill_ready allocate_string_buffer"
  unfolding preserves_def hoare_def
proof (intro allI impI)
  fix s assume s: "fill_ready s"
  obtain r s' where r: "run_state allocate_string_buffer s = (r, s')" by fastforce
  obtain i where i: "heap_string_buffer_map_counter s 0 = Some i"
    using s by (auto simp: fill_ready_def buffers_ready_def)
  have "helper_outcome s' = helper_outcome s" "heap_process_t_map s' = heap_process_t_map s"
    "heap_process_t_map_counter s' = heap_process_t_map_counter s"
    by (rule keepsD [OF _ r], intro frame_intros, simp_all)+
  moreover have "buffers_ready s'"
    using s sb.alloc_counter [OF i r] sb.alloc_cleared [of s _ s'] sb.alloc_failed [of s s'] r
    by (cases r) (auto simp: fill_ready_def buffers_ready_def)
  ultimately show "fill_ready (snd (run_state allocate_string_buffer s))"
    using s r by (simp add: fill_ready_def helpers_succeed_def heap_ok_def)
qed

lemma fill_ready_alloc_process: "preserves fill_ready allocate_process_t"
  unfolding preserves_def hoare_def
proof (intro allI impI)
  fix s assume s: "fill_ready s"
  obtain r s' where r: "run_state allocate_process_t s = (r, s')" by fastforce
  obtain i where i: "heap_process_t_map_counter s 0 = Some i"
    using s by (auto simp: fill_ready_def heap_ok_def)
  have "helper_outcome s' = helper_outcome s" "heap_string_buffer_map s' = heap_string_buffer_map s"
    "heap_string_buffer_map_counter s' = heap_string_buffer_map_counter s"
    by (rule keepsD [OF _ r], intro frame_intros, simp_all)+
  moreover have "heap_ok s'"
    using s pa.alloc_counter [OF i r] pa.alloc_cleared [of s _ s'] pa.alloc_failed [of s s'] r
    by (cases r) (auto simp: fill_ready_def heap_ok_def)
  ultimately show "fill_ready (snd (run_state allocate_process_t s))"
    using s r by (simp add: fill_ready_def helpers_succeed_def buffers_ready_def)
qed

lemma fill_ready_store: "preserves fill_ready (store_process i p)"
  by (simp add: preserves_def hoare_def fill_ready_def helpers_succeed_def heap_ok_def buffers_ready_def)

lemma fill_ready_put: "preserves fill_ready (map_update_elem alive_process_cache_map_update pid p)"
  by (rule fill_ready_keeps) (intro frame_intros; simp)+

lemma fill_ready_load: "preserves fill_ready (load_process i)"
  unfolding load_process_def by (rule preserves_reads)

lemmas fill_ready_steps = preserves_bind preserves_case_prod preserves_case_option preserves_return
  preserves_Let preserves_if preserves_reads fill_ready_report fill_ready_helper_ok fill_ready_alloc_string
  fill_ready_alloc_process fill_ready_store fill_ready_put fill_ready_load

lemma fill_ready_file_numeric: "preserves fill_ready (fill_file_t_numeric_values k file d m)"
  unfolding fill_file_t_numeric_values_def get_last_modified_from_dentry_def
  by (cases "inode_layout k"; simp only: mtime_layout.case; intro fill_ready_steps)

lemma fill_ready_path: "preserves fill_ready (get_path_from_path k out p)"
  unfolding get_path_from_path_def by (intro fill_ready_steps)

lemma fill_ready_filename: "preserves fill_ready (get_filename_from_dentry out d)"
  unfolding get_filename_from_dentry_def by (intro fill_ready_steps)

lemma fill_ready_file_strings: "preserves fill_ready (get_file_strings_from_path_and_dentry k out p d)"
  unfolding get_file_strings_from_path_and_dentry_def
  by (intro fill_ready_steps fill_ready_path fill_ready_filename)

lemma fill_ready_file: "preserves fill_ready (fill_file_t k file p)"
  unfolding fill_file_t_def
  by (intro fill_ready_steps fill_ready_path fill_ready_filename fill_ready_file_numeric)

lemma fill_ready_process: "preserves fill_ready (fill_process_t k p t)"
proof -
  have "preserves fill_ready (READ_FD_TYPE slot old)" for slot old
    unfolding READ_FD_TYPE_def
    by (cases slot) (simp_all add: preserves_bind preserves_return fill_ready_report)
  then have "preserves fill_ready (get_stdio_file_descriptors_at_process_creation_from_task t' io)" for t' io
    unfolding get_stdio_file_descriptors_at_process_creation_from_task_def
    by (cases "t_fd_table t'") (simp_all add: preserves_bind preserves_return fill_ready_report)
  moreover have "preserves fill_ready (get_cmd_from_task t' out)" for t' out
    unfolding get_cmd_from_task_def by (intro fill_ready_steps)
  ultimately show ?thesis
    unfolding fill_process_t_def fill_process_t_numeric_values_def
    by (intro fill_ready_steps fill_ready_file)
qed

lemma fill_ready_update_alive: "preserves fill_ready (update_process_in_alive_process_cache pid p)"
  unfolding update_process_in_alive_process_cache_def update_process_in_cache_def
  by (intro fill_ready_steps)

lemma fill_ready_caches:
  "preserves fill_ready (get_process_from_alive_process_cache pid)"
  "preserves fill_ready (get_process_from_caches pid u)"
  unfolding get_process_from_caches_def get_process_from_alive_process_cache_def
    get_process_from_dead_proccesses_lru_def get_process_from_cache_def
  by (intro fill_ready_steps)+

lemma fill_ready_event_process: "preserves fill_ready (fill_event_process_from_cache_for_task k p t)"
  unfolding fill_event_process_from_cache_for_task_def
  by (intro fill_ready_steps fill_ready_process fill_ready_update_alive fill_ready_caches)

lemma fill_ready_event_parent: "preserves fill_ready (fill_event_parent_process_from_cache k c p)"
  unfolding fill_event_parent_process_from_cache_def get_or_update_parent_process_in_caches_def
  by (intro fill_ready_steps fill_ready_process fill_ready_update_alive fill_ready_caches)

text \<open>A cached process is copied into the event as it is.\<close>

lemma keeps_get_process_from_alive [frame_intros]:
  "proc_free f \<Longrightarrow> keeps f (get_process_from_alive_process_cache pid)"
  unfolding get_process_from_alive_process_cache_def by (rule keeps_get_process_from_cache)

lemma buffers_ready_cong:
  "heap_string_buffer_map s' = heap_string_buffer_map s \<Longrightarrow>
   heap_string_buffer_map_counter s' = heap_string_buffer_map_counter s \<Longrightarrow> buffers_ready s \<Longrightarrow> buffers_ready s'"
  by (simp add: buffers_ready_def)

lemma lookup_alive:
  assumes "fill_ready s" and "alive_process_cache_map s pid = Some p"
  shows "\<exists>i s'. run_state (get_process_from_alive_process_cache pid) s = (Some i, s')
    \<and> heap_process_t_map s' i = Some p \<and> fill_ready s' \<and> alive_process_cache_map s' = alive_process_cache_map s"
proof -
  have ready: "helpers_succeed s" "heap_ok s" "buffers_ready s" using assms(1) by (auto simp: fill_ready_def)
  obtain i s' where r: "run_state (get_process_from_alive_process_cache pid) s = (Some i, s')"
      "heap_process_t_map s' i = Some p" "alive_process_cache_map s' = alive_process_cache_map s"
      "helpers_succeed s'" "heap_ok s'"
    using alive.lookup_copies [OF ready(1,2) assms(2)]
    unfolding get_process_from_alive_process_cache_def by blast
  have "heap_string_buffer_map s' = heap_string_buffer_map s"
    "heap_string_buffer_map_counter s' = heap_string_buffer_map_counter s"
    by (rule keepsD [OF _ r(1)], intro frame_intros, simp_all add: report_free_def)+
  with r ready(3) show ?thesis by (auto simp: fill_ready_def intro: buffers_ready_cong)
qed

lemma fill_ready_helper: "fill_ready s \<Longrightarrow> fill_ready (s\<lparr>helper_calls := n\<rparr>)"
  by (simp add: fill_ready_def helpers_succeed_def heap_ok_def buffers_ready_def)

lemma fill_process_cached:
  assumes "fill_ready s" and "alive_process_cache_map s (t_tgid (tasks k t)) = Some p"
  shows "\<exists>s'. run_state (fill_event_process_from_cache_for_task k q t) s = ((SUCCESS, p), s')
    \<and> fill_ready s' \<and> alive_process_cache_map s' = alive_process_cache_map s"
proof -
  obtain i s1 where s1: "run_state (get_process_from_alive_process_cache (t_tgid (tasks k t))) s = (Some i, s1)"
    "heap_process_t_map s1 i = Some p" "fill_ready s1" "alive_process_cache_map s1 = alive_process_cache_map s"
    using lookup_alive [OF assms] by blast
  have "run_state (fill_event_process_from_cache_for_task k q t) s =
      ((SUCCESS, p), s1\<lparr>helper_calls := Suc (helper_calls s1)\<rparr>)"
    using s1 by (simp add: fill_event_process_from_cache_for_task_def load_process_def fill_ready_def
        helpers_succeed_def Let_def)
  then show ?thesis using s1 fill_ready_helper by auto
qed

lemma fill_parent_cached:
  assumes "fill_ready s" and "alive_process_cache_map s (p_ppid c) = Some p"
  shows "\<exists>s'. run_state (fill_event_parent_process_from_cache k c q) s = ((SUCCESS, p), s')
    \<and> fill_ready s' \<and> alive_process_cache_map s' = alive_process_cache_map s"
proof -
  obtain i s1 where s1: "run_state (get_process_from_alive_process_cache (p_ppid c)) s = (Some i, s1)"
    "heap_process_t_map s1 i = Some p" "fill_ready s1" "alive_process_cache_map s1 = alive_process_cache_map s"
    using lookup_alive [OF assms] by blast
  have "run_state (fill_event_parent_process_from_cache k c q) s =
      ((SUCCESS, p), s1\<lparr>helper_calls := Suc (helper_calls s1)\<rparr>)"
    using s1 by (simp add: fill_event_parent_process_from_cache_def get_or_update_parent_process_in_caches_def
        get_process_from_caches_def load_process_def fill_ready_def helpers_succeed_def)
  then show ?thesis using s1 fill_ready_helper by auto
qed

text \<open>
  A parent without an executable file, such as a kernel thread, is not recorded under its own
  pid: an empty process is stored under pid 0 and becomes the parent of the event.
\<close>

lemma run_store_load: "heap_process_t_map s i = Some p \<Longrightarrow> run_state (load_process i) s = (p, s)"
  by (simp add: load_process_def)

lemma fill_process_no_exe:
  "exe_file_of (tasks k t) = None \<Longrightarrow> fst (run_state (fill_process_t k p t) s) = (GENERIC_ERROR, p)"
  by (simp add: fill_process_t_def case_prod_beta)

lemma keeps_alive_report: "keeps alive_process_cache_map (REPORT_ERROR c l)"
  by (intro frame_intros) simp_all

lemma parent_without_exe:
  assumes ready: "fill_ready s" and exe: "exe_file_of (tasks k (t_real_parent (running k))) = None"
    and miss: "alive_process_cache_map s (p_ppid c) = None"
      "dead_process_cache_lru_map s (p_unique_ppid_id c) = None"
  shows "alive_process_cache_map (snd (run_state (get_or_update_parent_process_in_caches k c) s)) 0 =
    Some empty_process_t"
proof -
  let ?t = "t_real_parent (running k)"
  have lookup: "run_state (get_process_from_caches (p_ppid c) (p_unique_ppid_id c)) s = (None, s)"
    using miss by (simp add: get_process_from_caches_def get_process_from_alive_process_cache_def
        get_process_from_dead_proccesses_lru_def get_process_from_cache_def)
  obtain i s1 where s1: "run_state allocate_process_t s = (Some i, s1)"
    using run_allocate_process [of s] ready by (auto simp: fill_ready_def)
  have load: "run_state (load_process i) s1 = (empty_process_t, s1)"
    by (simp add: load_process_def pa.alloc_cleared [OF s1])
  obtain s2 where s2: "run_state (fill_process_t k empty_process_t ?t) s1 = ((GENERIC_ERROR, empty_process_t), s2)"
    using fill_process_no_exe [OF exe] by (metis prod.collapse)
  let ?s3 = "s2\<lparr>heap_process_t_map := (heap_process_t_map s2)(i \<mapsto> empty_process_t)\<rparr>"
  have "fill_ready s1" using preservesD [OF fill_ready_alloc_process ready] s1 by simp
  then have "fill_ready s2" using preservesD [OF fill_ready_process, of s1 k empty_process_t ?t] s2 by simp
  then have "fill_ready ?s3" using preservesD [OF fill_ready_store, of s2 i empty_process_t] by simp
  then obtain s4 where s4: "run_state (update_process_in_alive_process_cache 0 empty_process_t) ?s3 = (SUCCESS, s4)"
    "alive_process_cache_map s4 0 = Some empty_process_t"
    using alive.update_then_lookup [of ?s3 0 empty_process_t]
    unfolding update_process_in_alive_process_cache_def fill_ready_def by blast
  have "p_pid empty_process_t = 0" by (simp add: empty_process_t_def)
  then show ?thesis
    using lookup s1 load s2 s4
    by (simp add: get_or_update_parent_process_in_caches_def)
qed

text \<open>The strings of a file that is given by its path.\<close>

definition path_record :: "bytes \<Rightarrow> path_t \<Rightarrow> path_t" where
  "path_record str out = \<lparr>pt_length = word_of_nat (length str), pt_value = str @ 0 # drop (length str + 1) (pt_value out)\<rparr>"

definition filename_record :: "bytes \<Rightarrow> filename_t \<Rightarrow> filename_t" where
  "filename_record str out = \<lparr>fn_length = word_of_nat (length str), fn_value = str @ 0 # drop (length str + 1) (fn_value out)\<rparr>"

definition numeric_file :: "kernel \<Rightarrow> ptr \<Rightarrow> u16 option \<Rightarrow> file_t \<Rightarrow> file_t" where
  "numeric_file k d mode file = (let m = (case mode of Some m \<Rightarrow> m | None \<Rightarrow> i_mode (d_inode (dentries k d))) in
     file\<lparr>f_inode := i_ino (d_inode (dentries k d)), f_dev := i_dev (d_inode (dentries k d)),
       f_unique_inode_id := get_unique_inode_id_from_dentry (dentries k d),
       f_owner := \<lparr>o_uid = i_uid (d_inode (dentries k d)), o_gid = i_gid (d_inode (dentries k d))\<rparr>,
       f_type := get_file_type_from_mode m,
       f_suid := (if bit m 11 then 1 else 0), f_sgid := (if bit m 10 then 1 else 0),
       f_mode := take_bit 9 m,
       f_last_modified_seconds := (if inode_layout k = Mtime_unknown then 0 else i_mtime_sec (d_inode (dentries k d))),
       f_nlink := i_nlink (d_inode (dentries k d))\<rparr>)"

lemma and_single_bit: "(m :: u16) AND 0x800 \<noteq> 0 \<longleftrightarrow> bit m 11" "m AND 0x400 \<noteq> 0 \<longleftrightarrow> bit m 10"
proof -
  have "(0x800 :: u16) = push_bit 11 1" "(0x400 :: u16) = push_bit 10 1" by (simp_all add: push_bit_eq_mult)
  then show "m AND 0x800 \<noteq> 0 \<longleftrightarrow> bit m 11" "m AND 0x400 \<noteq> 0 \<longleftrightarrow> bit m 10"
    by (simp_all only: bit_iff_and_push_bit_not_eq_0)
qed

lemma fill_file_numeric_result:
  "fst (run_state (fill_file_t_numeric_values k file d mode) s) = numeric_file k d mode file"
proof -
  have "m AND (0x1FF :: u16) = take_bit 9 m" for m by (simp add: take_bit_eq_mask mask_eq_exp_minus_1)
  then show ?thesis
    by (cases "inode_layout k"; cases mode)
      (simp_all add: fill_file_t_numeric_values_def get_last_modified_from_dentry_def numeric_file_def Let_def
        get_mode_from_dentry_def get_inode_from_dentry_def get_dev_from_dentry_def get_owner_uid_from_dentry_def
        get_owner_gid_from_dentry_def get_nlink_from_dentry_def and_single_bit [simplified] case_prod_beta)
qed

definition path_ok :: "kernel \<Rightarrow> path_v \<Rightarrow> bytes list \<Rightarrow> bool" where
  "path_ok k p ns \<longleftrightarrow> ok_names k \<and> path_names k MAX_PATH_COMPONENTS (fst p) (snd p) = Some ns \<and> ns \<noteq> [] \<and>
     list_all ok_name ns \<and> length (full_path ns) + 1 < PATH_MAX"

lemma path_text:
  assumes "path_ok k p ns" "fill_ready s"
  shows "fst (run_state (get_path_from_path k out p) s) = (int (length (full_path ns)),
    \<lparr>pt_length = word_of_nat (length (full_path ns)),
     pt_value = full_path ns @ [0] @ drop (length (full_path ns) + 1) (pt_value out)\<rparr>)"
proof -
  obtain i where i: "heap_string_buffer_map_counter s 0 = Some i" "heap_string_buffer_map s (norm_slot i) \<noteq> None"
    using assms(2) by (auto simp: fill_ready_def buffers_ready_def norm_slot_def)
  with assms show ?thesis by (intro get_path_result [of k p ns s i]) (simp_all add: path_ok_def fill_ready_def)
qed

lemma fill_file_result:
  assumes path: "path_ok k p ns" and name: "ok_name (d_name (dentries k (fst p)))"
    and ready: "fill_ready s" and wf: "wf_file file"
  shows "\<exists>s'. run_state (fill_file_t k file p) s = ((SUCCESS,
      (numeric_file k (fst p) None file)\<lparr>f_path := path_record (full_path ns) (f_path file),
        f_filename := filename_record (d_name (dentries k (fst p))) (f_filename file)\<rparr>), s') \<and> fill_ready s'"
proof -
  let ?f = "numeric_file k (fst p) None file"
  have same: "f_path ?f = f_path file" "f_filename ?f = f_filename file" by (simp_all add: numeric_file_def Let_def)
  obtain s1 where s1: "run_state (fill_file_t_numeric_values k file (fst p) None) s = (?f, s1)"
    using fill_file_numeric_result by (metis prod.collapse)
  then have r1: "fill_ready s1" using preservesD [OF fill_ready_file_numeric ready] by (metis snd_conv)
  obtain i where i: "heap_string_buffer_map_counter s1 0 = Some i"
    using r1 by (auto simp: fill_ready_def buffers_ready_def)
  obtain s2 where s2: "run_state (get_path_from_path k (f_path file) p) s1 =
      ((int (length (full_path ns)), path_record (full_path ns) (f_path file)), s2)"
    using get_path_result [of k p ns s1 i "f_path file"] path r1 i buffers_slot [of s1 i]
    by (auto simp: path_ok_def fill_ready_def path_record_def) (metis prod.collapse)
  then have r2: "fill_ready s2" using preservesD [OF fill_ready_path r1] by (metis snd_conv)
  obtain s3 where s3: "run_state (get_filename_from_dentry (f_filename file) (dentries k (fst p))) s2 =
      ((SUCCESS, filename_record (d_name (dentries k (fst p))) (f_filename file)), s3)"
    using filename_result [of s2 "dentries k (fst p)" "f_filename file"] r2 name wf path
    by (auto simp: fill_ready_def wf_file_def path_ok_def ok_names_def filename_record_def) (metis prod.collapse)
  then have r3: "fill_ready s3" using preservesD [OF fill_ready_filename r2] by (metis snd_conv)
  from s1 s2 s3 r3 show ?thesis by (simp add: fill_file_t_def same)
qed

text \<open>The address cells as a list of eight.\<close>

lemma replicate_cells: "replicate 8 x = [x, x, x, x, x, x, x, x]" "replicate 6 x = [x, x, x, x, x, x]"
  by (simp_all add: numeral_eq_Suc)

lemma update_cells:
  "(a # b # xs)[1 := v] = a # v # xs" "(a # b # c # xs)[2 := v] = a # b # v # xs"
  "(a # b # c # d # xs)[3 := v] = a # b # c # v # xs"
  by (simp_all add: numeral_eq_Suc)

lemmas cell_simps = replicate_cells update_cells

text \<open>The two halves of an outgoing connection.\<close>

lemma outgoing_ipv4:
  assumes "sa_family a = 2" and "n_addresses n = replicate 8 0"
  shows "fill_outgoing_connection_network_event_t_second_part
    (snd (fill_outgoing_connection_network_event_t_first_part n sk a)) sk = (SUCCESS,
    \<lparr>n_direction = OUTGOING, n_protocol = ucast (sk_protocol sk), n_ip_type = AF_INET,
     n_source_port = skc_num (sk_common sk), n_destination_port = bpf_ntohs (sa_port a),
     n_addresses = [skc_rcv_saddr (sk_common sk), sin_addr a] @ replicate 6 0\<rparr>)"
  using assms
  by (simp add: fill_outgoing_connection_network_event_t_first_part_def Let_def
      fill_outgoing_connection_network_event_t_second_part_def set_ipv4_source_def set_ipv4_destination_def
      cell_simps)

text \<open>
  An incoming request whose source is an IPv4-mapped IPv6 address is recorded as the IPv4
  connection; nothing of the mapped address stays in the address cells.
\<close>

definition v4_mapped :: "u32 list \<Rightarrow> bool" where
  "v4_mapped a \<longleftrightarrow> length a = 4 \<and> a ! 0 = 0 \<and> a ! 1 = 0 \<and> a ! 2 = V4_MAPPED_WORD"

lemma length_four: "length a = 4 \<Longrightarrow> \<exists>w x y z. a = [w, x, y, z]"
  by (auto simp: eval_nat_numeral length_Suc_conv)

lemma incoming_ipv4:
  assumes "skc_family req = 2 \<or> skc_family req = 10 \<and> v4_mapped (skc_v6_daddr req)"
    and "sk_protocol sk = 6" and "n_addresses n = replicate 8 0"
  shows "fill_incomming_connection_network_event_t n sk req = (SUCCESS,
    \<lparr>n_direction = INCOMING, n_protocol = IPPROTO_TCP, n_ip_type = AF_INET,
     n_source_port = bpf_ntohs (skc_dport req), n_destination_port = skc_num req,
     n_addresses = [skc_daddr req, skc_rcv_saddr req] @ replicate 6 0\<rparr>)"
  using assms(1)
proof
  assume "skc_family req = 2"
  with assms(2,3) show ?thesis
    by (simp add: fill_incomming_connection_network_event_t_def Let_def set_ipv4_source_def
        set_ipv4_destination_def cell_simps)
next
  assume a: "skc_family req = 10 \<and> v4_mapped (skc_v6_daddr req)"
  then obtain z where "skc_v6_daddr req = [0, 0, V4_MAPPED_WORD, z]"
    using length_four [of "skc_v6_daddr req"] by (auto simp: v4_mapped_def)
  with a assms(2,3) show ?thesis
    by (simp add: fill_incomming_connection_network_event_t_def Let_def set_ipv4_source_def
        set_ipv4_destination_def set_ipv6_source_def write_at_def is_v4_mapped_def ipv6_source_ip_def
        cell_simps)
qed

lemma incoming_ipv6:
  assumes "skc_family req = 10" and "length (skc_v6_daddr req) = 4" and "\<not> v4_mapped (skc_v6_daddr req)"
    and "length (skc_v6_rcv_saddr req) = 4" and "sk_protocol sk = 6" and "n_addresses n = replicate 8 0"
  shows "fill_incomming_connection_network_event_t n sk req = (SUCCESS,
    \<lparr>n_direction = INCOMING, n_protocol = IPPROTO_TCP, n_ip_type = AF_INET6,
     n_source_port = bpf_ntohs (skc_dport req), n_destination_port = skc_num req,
     n_addresses = skc_v6_daddr req @ skc_v6_rcv_saddr req\<rparr>)"
proof -
  obtain w x y z where d: "skc_v6_daddr req = [w, x, y, z]" using length_four [OF assms(2)] by blast
  obtain w' x' y' z' where r: "skc_v6_rcv_saddr req = [w', x', y', z']" using length_four [OF assms(4)] by blast
  have "\<not> (w = 0 \<and> x = 0 \<and> y = V4_MAPPED_WORD)" using assms(3) d by (simp add: v4_mapped_def)
  with d r assms(1,5,6) show ?thesis
    by (auto simp: fill_incomming_connection_network_event_t_def Let_def
        set_ipv6_destination_def set_ipv6_source_def write_at_def is_v4_mapped_def ipv6_source_ip_def
        cell_simps)
qed

text \<open>The two conversions of the status a process exits with.\<close>

lemma exit_status:
  "uint (exit_signal (fill_exit_event_t code)) = uint code mod 128"
  "uint (exit_exit_code (fill_exit_event_t code)) = (uint code mod 2 ^ 32) div 256"
proof -
  have "uint (((ucast code :: u32) AND 0xFF) AND 0x7F) = uint (take_bit 7 (ucast code :: u32))"
    by (simp add: and.assoc take_bit_eq_mask mask_eq_exp_minus_1)
  then show "uint (exit_signal (fill_exit_event_t code)) = uint code mod 128"
    by (simp add: fill_exit_event_t_def unsigned_take_bit_eq unsigned_ucast_eq) (simp add: take_bit_eq_mod)
next
  show "uint (exit_exit_code (fill_exit_event_t code)) = (uint code mod 2 ^ 32) div 256"
    by (simp add: fill_exit_event_t_def unsigned_drop_bit_eq unsigned_ucast_eq) (simp add: drop_bit_eq_div take_bit_eq_mod)
qed

end
