(* ===== verification/Hook_Contract.thy ===== *)
theory Hook_Contract
  imports Fill_Events Tail_Calls
begin

text \<open>
  What the hooks have in common: the statements that hand an event to the matching program, the
  accounting of ring-buffer reservations, and the contract of a hook that fills an event and
  asks for a verdict, stated as locales that the hooks of the file operations interpret.
\<close>

section \<open>Handing over an event\<close>

text \<open>
  The statements that end every file hook, from \<^verbatim>\<open>fill_event_process_from_cache\<close> to
  \<^verbatim>\<open>do_tail_call\<close>: complete the event, hand it over, release the ring-buffer record and tail-call
  the matching program.
\<close>

definition match_event :: "ro_env \<Rightarrow> kernel \<Rightarrow> event_t \<Rightarrow> int bpf \<Rightarrow> int bpf" where
  "match_event ro k event program = do {
     (_, process) \<leftarrow> fill_event_process_from_cache k (ev_process event);
     (_, parent) \<leftarrow> fill_event_parent_process_from_cache k process (ev_parent_process event);
     _ \<leftarrow> store_currently_handled_event ro (event\<lparr>ev_process := process, ev_parent_process := parent\<rparr>);
     ringbuf_discard;
     reset_tail_counter;
     tailed \<leftarrow> do_tail_call;
     if tailed then program else State_Monad.return ALLOW }"

section \<open>Reservations\<close>

text \<open>
  \<open>releases m\<close>: \<open>m\<close> gives one ring-buffer record back, by submitting or discarding it. A program
  that reserves a record and then releases it on every path is balanced.
\<close>

definition releases :: "'a bpf \<Rightarrow> bool" where
  "releases m \<longleftrightarrow> (\<forall>s. rb_reserved (snd (run_state m s)) = rb_reserved s - 1)"

lemma releases_after: "keeps rb_reserved m \<Longrightarrow> (\<And>x. releases (f x)) \<Longrightarrow> releases (State_Monad.bind m f)"
  by (simp add: releases_def keeps_def split: prod.splits) (metis snd_conv)

lemma releases_before: "releases m \<Longrightarrow> (\<And>x. keeps rb_reserved (f x)) \<Longrightarrow> releases (State_Monad.bind m f)"
  by (simp add: releases_def keeps_def split: prod.splits) (metis snd_conv)

lemma releases_discard: "releases ringbuf_discard"
  by (simp add: releases_def)

lemma releases_submit: "releases (ringbuf_submit e)"
  by (simp add: releases_def)

lemma releases_if: "(b \<Longrightarrow> releases m) \<Longrightarrow> (\<not> b \<Longrightarrow> releases n) \<Longrightarrow> releases (if b then m else n)"
  by simp

lemma releases_option: "releases m \<Longrightarrow> (\<And>x. releases (f x)) \<Longrightarrow> releases (case v of None \<Rightarrow> m | Some x \<Rightarrow> f x)"
  by (cases v) simp_all

lemma releases_prod: "(\<And>x y. releases (f x y)) \<Longrightarrow> releases (case p of (x, y) \<Rightarrow> f x y)"
  by (cases p) simp

lemma releases_Let: "(\<And>x. releases (f x)) \<Longrightarrow> releases (Let v f)"
  by simp

lemma balanced_event:
  assumes "keeps rb_reserved m" and "\<And>e. releases (f e)"
  shows "keeps rb_reserved (State_Monad.bind (allocate_event_with_basic_stats now)
    (\<lambda>r. case r of None \<Rightarrow> m | Some e \<Rightarrow> f e))"
  unfolding keeps_def
proof
  fix s
  obtain r s' where r: "run_state (allocate_event_with_basic_stats now) s = (r, s')" by fastforce
  from allocate_event_result [OF this] assms r
  show "rb_reserved (snd (run_state (State_Monad.bind (allocate_event_with_basic_stats now)
      (\<lambda>r. case r of None \<Rightarrow> m | Some e \<Rightarrow> f e)) s)) = rb_reserved s"
    by (cases r) (simp_all add: keeps_def releases_def)
qed

lemma balanced_empty_event:
  assumes "keeps rb_reserved m" and "\<And>e. releases (f e)"
  shows "keeps rb_reserved (State_Monad.bind allocate_empty_event (\<lambda>r. case r of None \<Rightarrow> m | Some e \<Rightarrow> f e))"
  unfolding keeps_def
proof
  fix s
  obtain r s' where r: "run_state allocate_empty_event s = (r, s')" by fastforce
  from run_allocate_empty_event [OF this] assms r
  show "rb_reserved (snd (run_state (State_Monad.bind allocate_empty_event
      (\<lambda>r. case r of None \<Rightarrow> m | Some e \<Rightarrow> f e)) s)) = rb_reserved s"
    by (cases r) (simp_all add: keeps_def releases_def)
qed

lemma keeps_reserved_report: "keeps rb_reserved (REPORT_ERROR c l)"
  by (intro frame_intros) simp_all

lemma balanced_submit: "keeps rb_reserved (submit_event e)"
  unfolding submit_event_def submit_event_to_userspace_def
  by (intro keeps_if keeps_return balanced_empty_event keeps_reserved_report releases_after [of helper_ok]
      keeps_helper_ok releases_if releases_after [OF keeps_reserved_report] releases_discard releases_submit)
    simp_all

lemma keeps_current: "keeps f get_currently_handled_event"
  unfolding get_currently_handled_event_def by (rule keeps_reads)

lemma reserved_free: "matcher_free rb_reserved" "proc_free rb_reserved" "fill_free rb_reserved"
  by (intro frame_intros; simp add: report_free_def)+

lemma balanced_generic_tail_call: "keeps rb_reserved (generic_tail_call ro pid ty)"
  unfolding generic_tail_call_def
  by (intro keeps_bind keeps_current keeps_case_option keeps_return keeps_if keeps_reserved_report
      keeps_for_each_rule balanced_submit keeps_kill_proccesses reserved_free)
    simp_all

text \<open>What matching does not touch.\<close>

lemma keeps_generic_tail_call:
  assumes "matcher_free f" "proc_free f" "\<And>s g. f (rb_update g s) = f s" "\<And>s g. f (rb_reserved_update g s) = f s"
    "\<And>s g. f (sent_signals_update g s) = f s" "\<And>s g. f (parent_processes_to_kill_update g s) = f s"
  shows "keeps f (generic_tail_call ro pid ty)"
proof -
  have r: "\<And>g s. f (helper_calls_update g s) = f s" "\<And>g s. f (errors_update g s) = f s"
    "\<And>g s. f (temp_error_report_t_update g s) = f s" using assms(2) by (simp_all add: proc_free_def report_free_def)
  have "keeps f (submit_event e)" for e
    unfolding submit_event_def submit_event_to_userspace_def
    by (intro frame_intros r assms(3,4))
  then show ?thesis
    unfolding generic_tail_call_def
    by (intro keeps_bind keeps_current keeps_case_option keeps_return keeps_if keeps_REPORT_ERROR
        keeps_for_each_rule keeps_kill_proccesses r assms)
qed

lemma keeps_store_handled:
  "report_free f \<Longrightarrow> (\<And>s g. f (currently_handled_event_update g s) = f s) \<Longrightarrow>
   keeps f (store_currently_handled_event ro e)"
  unfolding store_currently_handled_event_def by (intro frame_intros) (simp_all add: report_free_def)

lemma keeps_reset:
  "report_free f \<Longrightarrow> (\<And>s g. f (tail_call_counter_update g s) = f s) \<Longrightarrow> keeps f reset_tail_counter"
  unfolding reset_tail_counter_def by (intro frame_intros) (simp_all add: report_free_def)

lemma keeps_do_tail_call:
  "report_free f \<Longrightarrow> (\<And>s g. f (tail_call_counter_update g s) = f s) \<Longrightarrow> keeps f do_tail_call"
  unfolding do_tail_call_def get_current_and_increment_tail_counter_def
  by (intro frame_intros) (simp_all add: report_free_def)

lemma report_free_reserved: "report_free rb_reserved"
  by (simp add: report_free_def)

lemma releases_match_event: "keeps rb_reserved program \<Longrightarrow> releases (match_event ro k e program)"
  unfolding match_event_def
  by (intro releases_after [OF keeps_fill_event_process] releases_after [OF keeps_fill_event_parent]
      releases_after [OF keeps_store_handled] releases_before [OF releases_discard] releases_prod
      keeps_bind keeps_reset keeps_do_tail_call keeps_if keeps_return reserved_free report_free_reserved)
    simp_all

text \<open>Every program starts by recording its name.\<close>

lemma name_fields:
  "rb (snd (run_state (set_hook_name n) s)) = rb s" "sent_signals (snd (run_state (set_hook_name n) s)) = sent_signals s"
  "protected_processes (snd (run_state (set_hook_name n) s)) = protected_processes s"
  "helper_outcome (snd (run_state (set_hook_name n) s)) = helper_outcome s"
  "alive_process_cache_map (snd (run_state (set_hook_name n) s)) = alive_process_cache_map s"
  "program_related_pids (snd (run_state (set_hook_name n) s)) = program_related_pids s"
  "active_shell_pids (snd (run_state (set_hook_name n) s)) = active_shell_pids s"
  by (rule keeps_snd [OF keeps_set_hook_name]; simp)+

lemma name_step:
  "run_state (do { set_hook_name n; m }) s = run_state m (snd (run_state (set_hook_name n) s))"
  by (simp add: case_prod_beta)

section \<open>The contract of an event hook\<close>

text \<open>\<open>erase\<close> forgets what filling an event may change.\<close>

definition erase :: "bpf_state \<Rightarrow> bpf_state" where
  "erase s = s\<lparr>helper_calls := 0, errors := [], temp_error_report_t := Map.empty,
     heap_process_t_map := Map.empty, heap_process_t_map_counter := Map.empty,
     heap_string_buffer_map := Map.empty, heap_string_buffer_map_counter := Map.empty,
     alive_process_cache_map := Map.empty\<rparr>"

lemma fill_free_erase: "fill_free erase"
  by (simp add: fill_free_simps erase_def)

lemma fill_free_factors: "fill_free f \<Longrightarrow> f (erase s) = f s"
  unfolding erase_def by (simp add: fill_free_simps)

lemma keeps_erase: "keeps erase m \<Longrightarrow> fill_free f \<Longrightarrow> keeps f m"
  unfolding keeps_def by (metis fill_free_factors)

definition event_body ::
  "ro_env \<Rightarrow> kernel \<Rightarrow> string \<Rightarrow> (event_t \<Rightarrow> (int \<times> event_t) bpf) \<Rightarrow> int bpf \<Rightarrow> int bpf" where
  "event_body ro k loc fill program = do {
     event \<leftarrow> allocate_event_with_basic_stats (ktime_ns k);
     case event of
       None \<Rightarrow> do { REPORT_ERROR GENERIC_ERROR loc; State_Monad.return ALLOW }
     | Some e \<Rightarrow> do {
         (ret, e') \<leftarrow> fill e;
         if ret \<noteq> SUCCESS then do {
           REPORT_ERROR GENERIC_ERROR loc; ringbuf_discard; State_Monad.return ALLOW }
         else match_event ro k e' program } }"

definition event_hook ::
  "ro_env \<Rightarrow> kernel \<Rightarrow> string \<Rightarrow> (event_t \<Rightarrow> (int \<times> event_t) bpf) \<Rightarrow> int bpf \<Rightarrow> int bpf" where
  "event_hook ro k loc fill program = do {
     set_hook_name (lit loc);
     user \<leftarrow> is_userspace_program k;
     if \<not> user then State_Monad.return ALLOW
     else do {
       related \<leftarrow> is_current_pid_related (current_pid k);
       if related then State_Monad.return ALLOW else event_body ro k loc fill program } }"

definition matching_program :: "ro_env \<Rightarrow> kernel \<Rightarrow> string \<Rightarrow> event_type \<Rightarrow> int bpf" where
  "matching_program ro k loc ty = do { set_hook_name (lit loc); generic_tail_call ro (current_pid k) ty }"

text \<open>Whether the running task is subject to the rules.\<close>

definition monitored :: "kernel \<Rightarrow> bpf_state \<Rightarrow> bool" where
  "monitored k s \<longleftrightarrow> is_task_with_mm k \<and> \<not> is_system_task k \<and>
     kthread_exec_pids s (t_pid (running k)) = None \<and> program_related_pids s (current_pid k) = None"

lemma run_is_userspace:
  "run_state (is_userspace_program k) s =
     (is_task_with_mm k \<and> \<not> is_system_task k \<and> kthread_exec_pids s (t_pid (running k)) = None, s)"
  by (simp add: is_userspace_program_def is_in_kthread_exec_pids_def)

lemma run_is_related: "run_state (is_current_pid_related pid) s = (program_related_pids s pid \<noteq> None, s)"
  by (simp add: is_current_pid_related_def)

lemma monitored_hook_name: "monitored k (snd (run_state (set_hook_name n) s)) = monitored k s"
proof -
  have "kthread_exec_pids (snd (run_state (set_hook_name n) s)) = kthread_exec_pids s"
    "program_related_pids (snd (run_state (set_hook_name n) s)) = program_related_pids s"
    by (rule keeps_snd, intro frame_intros, simp_all)+
  then show ?thesis by (simp add: monitored_def)
qed

lemma event_hook_guard:
  "run_state (event_hook ro k loc fill program) s =
     (let s1 = snd (run_state (set_hook_name (lit loc)) s) in
      if monitored k s then run_state (event_body ro k loc fill program) s1 else (ALLOW, s1))"
proof -
  obtain s1 where s1: "run_state (set_hook_name (lit loc)) s = ((), s1)" by (rule exE [OF unit_run])
  have "monitored k s1 = monitored k s" using monitored_hook_name [of k "lit loc" s] s1 by simp
  with s1 show ?thesis
    by (auto simp: event_hook_def run_is_userspace run_is_related monitored_def Let_def)
qed

section \<open>From a hook to its verdict\<close>

text \<open>What matching reads and nothing before it writes, and who is monitored.\<close>

definition mview :: "bpf_state \<Rightarrow> _" where
  "mview s = (heap_string_utils_ctx s, helper_stack s, predicates_results_cache s, rb s, sent_signals s,
     kthread_exec_pids s, program_related_pids s)"

text \<open>
  The state in which a hook that fires for a cached process gets to its verdict: the per-CPU
  maps are there and no predicate result is cached for the time of the event.
\<close>

definition hook_ready :: "kernel \<Rightarrow> bpf_state \<Rightarrow> bool" where
  "hook_ready k s \<longleftrightarrow> fill_ready s \<and> global_event_id_counter s \<noteq> 0 \<and> heap_string_utils_ctx s 0 \<noteq> None \<and>
     stack_ok s \<and> tail_call_counter s 0 \<noteq> None \<and> currently_handled_event s 0 \<noteq> None \<and> ktime_ns k \<noteq> 0 \<and>
     (\<forall>i r. predicates_results_cache s i = Some r \<longrightarrow> pres_time r \<noteq> ktime_ns k)"

definition fresh_event :: "kernel \<Rightarrow> bpf_state \<Rightarrow> event_t" where
  "fresh_event k s = empty_event_t\<lparr>ev_time := ktime_ns k, ev_id := global_event_id_counter s\<rparr>"

lemma run_allocate_event:
  assumes "helpers_succeed s" and "global_event_id_counter s \<noteq> 0"
  shows "run_state (allocate_event_with_basic_stats (ktime_ns k)) s =
    (Some (fresh_event k s), s\<lparr>helper_calls := Suc (Suc (helper_calls s)), rb_reserved := Suc (rb_reserved s),
       global_event_id_counter := global_event_id_counter s + 1\<rparr>)"
  using assms
  by (simp add: allocate_event_with_basic_stats_def allocate_empty_event_def run_ringbuf_reserve
      get_next_event_id_def helpers_succeed_def Let_def fresh_event_def)

lemma run_store_handled:
  assumes "helpers_succeed s" and "currently_handled_event s 0 \<noteq> None"
  shows "run_state (store_currently_handled_event ro e) s =
    (SUCCESS, s\<lparr>helper_calls := Suc (helper_calls s), currently_handled_event := (currently_handled_event s)(0 \<mapsto> e)\<rparr>)"
  using assms by (auto simp: store_currently_handled_event_def run_map_update_elem helpers_succeed_def Let_def)

lemma run_hand_over:
  assumes "helpers_succeed s" and "tail_call_counter s 0 \<noteq> None"
  shows "run_state (do { ringbuf_discard; reset_tail_counter; do_tail_call }) s =
    (True, s\<lparr>rb_reserved := rb_reserved s - 1, helper_calls := Suc (Suc (Suc (helper_calls s))),
       tail_call_counter := (tail_call_counter s)(0 \<mapsto> 1)\<rparr>)"
  using assms
  by (simp add: reset_tail_counter_def run_map_update_elem helpers_succeed_def Let_def do_tail_call_def
      get_current_and_increment_tail_counter_def)

lemma fill_free_views:
  "fill_free mview" "fill_free rb_reserved" "fill_free currently_handled_event" "fill_free tail_call_counter"
  "fill_free global_event_id_counter"
  by (simp_all add: fill_free_simps mview_def)

text \<open>
  The event a hook hands over for a cached process with a cached parent, and the state in which
  the matching program is entered.
\<close>

lemma match_event_result:
  fixes e :: event_t and p pp :: process_t
  assumes ready: "fill_ready s" and cur: "currently_handled_event s 0 \<noteq> None" "tail_call_counter s 0 \<noteq> None"
    and cached: "alive_process_cache_map s (current_pid k) = Some p" "alive_process_cache_map s (p_ppid p) = Some pp"
  defines "e' \<equiv> e\<lparr>ev_process := p, ev_parent_process := pp\<rparr>"
  shows "\<exists>s'. run_state (match_event ro k e program) s = run_state program s' \<and> helpers_succeed s' \<and>
    currently_handled_event s' 0 = Some e' \<and> mview s' = mview s \<and> rb_reserved s' = rb_reserved s - 1"
proof -
  obtain s1 where s1: "run_state (fill_event_process_from_cache k (ev_process e)) s = ((SUCCESS, p), s1)"
    "fill_ready s1" "alive_process_cache_map s1 = alive_process_cache_map s"
    using fill_process_cached [OF ready, of k "current_task k" p] cached(1)
    by (auto simp: fill_event_process_from_cache_def current_pid_def)
  obtain s2 where s2: "run_state (fill_event_parent_process_from_cache k p (ev_parent_process e)) s1 = ((SUCCESS, pp), s2)"
    "fill_ready s2"
    using fill_parent_cached [OF s1(2), of p pp] cached(2) s1(3) by auto
  have v: "mview s2 = mview s" "rb_reserved s2 = rb_reserved s" "currently_handled_event s2 = currently_handled_event s"
    "tail_call_counter s2 = tail_call_counter s"
    using keepsD [OF keeps_fill_event_process s1(1)] keepsD [OF keeps_fill_event_parent s2(1)] fill_free_views
    by metis+
  have h2: "helpers_succeed s2" using s2(2) by (simp add: fill_ready_def)
  let ?s3 = "s2\<lparr>helper_calls := Suc (helper_calls s2), currently_handled_event := (currently_handled_event s2)(0 \<mapsto> e')\<rparr>"
  have s3: "run_state (store_currently_handled_event ro e') s2 = (SUCCESS, ?s3)"
    using run_store_handled [OF h2] cur(1) v(3) by simp
  have h3: "helpers_succeed ?s3" "tail_call_counter ?s3 0 \<noteq> None"
    using h2 cur(2) v(4) by (simp_all add: helpers_succeed_def)
  let ?s4 = "?s3\<lparr>rb_reserved := rb_reserved ?s3 - 1, helper_calls := Suc (Suc (Suc (helper_calls ?s3))),
       tail_call_counter := (tail_call_counter ?s3)(0 \<mapsto> 1)\<rparr>"
  have s4: "run_state (do { ringbuf_discard; reset_tail_counter; do_tail_call }) ?s3 = (True, ?s4)"
    by (rule run_hand_over [OF h3])
  have "match_event ro k e program = do {
      (_, process) \<leftarrow> fill_event_process_from_cache k (ev_process e);
      (_, parent) \<leftarrow> fill_event_parent_process_from_cache k process (ev_parent_process e);
      _ \<leftarrow> store_currently_handled_event ro (e\<lparr>ev_process := process, ev_parent_process := parent\<rparr>);
      tailed \<leftarrow> do { ringbuf_discard; reset_tail_counter; do_tail_call };
      if tailed then program else State_Monad.return ALLOW }"
    by (simp add: match_event_def)
  then have "run_state (match_event ro k e program) s = run_state program ?s4"
    using s1(1) s2(1) s3 s4 by (simp only: run_state_bind prod.case e'_def if_True)
  moreover have "mview ?s4 = mview s" using v(1) by (simp add: mview_def)
  moreover have "rb_reserved ?s4 = rb_reserved s - 1" using v(2) by simp
  moreover have "helpers_succeed ?s4" using h2 by (simp add: helpers_succeed_def)
  ultimately show ?thesis by (intro exI [of _ ?s4]) simp
qed

text \<open>A hook's verdict and effects, given the event it builds.\<close>

definition enforced :: "ro_env \<Rightarrow> kernel \<Rightarrow> event_t \<Rightarrow> int \<Rightarrow> bpf_state \<Rightarrow> bpf_state \<Rightarrow> bool" where
  "enforced ro k d v s s' \<longleftrightarrow> v = (if blocks (ev_action d) then DENY else ALLOW) \<and>
     rb s' = (if ev_action d \<noteq> EXCLUDE_EVENT then d # rb s else rb s) \<and>
     rb_reserved s' = rb_reserved s \<and>
     sent_signals s' = (if kills_process (ev_action d) then (current_pid k, SIGKILL) # sent_signals s
                        else sent_signals s)"

locale event_body_contract =
  fixes ro :: ro_env and k :: kernel and loc :: string
    and fill :: "event_t \<Rightarrow> (int \<times> event_t) bpf" and program :: "int bpf"
  assumes fill_keeps: "keeps erase (fill e)"
    and fill_alive: "keeps alive_process_cache_map (fill e)"
    and fill_fill_ready: "preserves fill_ready (fill e)"
    and program_balanced: "keeps rb_reserved program"
begin

lemma fill_frame: "fill_free f \<Longrightarrow> keeps f (fill e)"
  by (rule keeps_erase [OF fill_keeps])

lemma body_balanced: "keeps rb_reserved (event_body ro k loc fill program)"
  unfolding event_body_def
  by (intro balanced_event keeps_bind keeps_return keeps_reserved_report
      releases_after [OF fill_frame] releases_prod releases_if
      releases_after [OF keeps_reserved_report] releases_before [OF releases_discard]
      releases_match_event program_balanced reserved_free)

text \<open>When filling the event fails, the operation is allowed and no rule is consulted.\<close>

lemma body_fill_error:
  assumes "\<And>s e. fill_ready s \<Longrightarrow> fst (fst (run_state (fill e) s)) \<noteq> SUCCESS"
    and "fill_ready s" and "global_event_id_counter s \<noteq> 0"
  shows "\<exists>s'. run_state (event_body ro k loc fill program) s = (ALLOW, s') \<and> rb s' = rb s \<and>
    currently_handled_event s' = currently_handled_event s"
proof -
  let ?s1 = "s\<lparr>helper_calls := Suc (Suc (helper_calls s)), rb_reserved := Suc (rb_reserved s),
       global_event_id_counter := global_event_id_counter s + 1\<rparr>"
  have a: "run_state (allocate_event_with_basic_stats (ktime_ns k)) s = (Some (fresh_event k s), ?s1)"
    using assms(2,3) by (intro run_allocate_event) (simp_all add: fill_ready_def)
  have "fill_ready ?s1" using assms(2) by (simp add: fill_ready_def helpers_succeed_def heap_ok_def buffers_ready_def)
  then obtain ret e' s2 where f: "run_state (fill (fresh_event k s)) ?s1 = ((ret, e'), s2)" "ret \<noteq> SUCCESS"
    using assms(1) [of ?s1 "fresh_event k s"] by (metis prod.collapse)
  have "rb s2 = rb s" "currently_handled_event s2 = currently_handled_event s"
    using keepsD [OF fill_frame f(1), of mview] keepsD [OF fill_frame f(1), of currently_handled_event] fill_free_views
    by (simp_all add: mview_def)
  with a f show ?thesis by (simp add: event_body_def case_prod_beta)
qed

text \<open>Otherwise the matching program runs on the completed event.\<close>

lemma body_enters:
  assumes fill: "\<And>s e. fill_ready s \<Longrightarrow> fst (run_state (fill e) s) = (SUCCESS, g e)"
    and ready: "hook_ready k s"
    and cached: "alive_process_cache_map s (current_pid k) = Some p" "alive_process_cache_map s (p_ppid p) = Some pp"
  shows "\<exists>s'. run_state (event_body ro k loc fill program) s = run_state program s' \<and> helpers_succeed s' \<and>
    currently_handled_event s' 0 = Some ((g (fresh_event k s))\<lparr>ev_process := p, ev_parent_process := pp\<rparr>) \<and>
    mview s' = mview s \<and> rb_reserved s' = rb_reserved s"
proof -
  let ?e = "fresh_event k s"
  let ?s1 = "s\<lparr>helper_calls := Suc (Suc (helper_calls s)), rb_reserved := Suc (rb_reserved s),
       global_event_id_counter := global_event_id_counter s + 1\<rparr>"
  have a: "run_state (allocate_event_with_basic_stats (ktime_ns k)) s = (Some ?e, ?s1)"
    using ready by (intro run_allocate_event) (simp_all add: hook_ready_def fill_ready_def)
  have r1: "fill_ready ?s1"
    using ready by (simp add: hook_ready_def fill_ready_def helpers_succeed_def heap_ok_def buffers_ready_def)
  obtain s2 where f: "run_state (fill ?e) ?s1 = ((SUCCESS, g ?e), s2)"
    using fill [OF r1, of ?e] by (metis prod.collapse)
  have r2: "fill_ready s2" using preservesD [OF fill_fill_ready r1] f by (metis snd_conv)
  have v: "mview s2 = mview ?s1" "rb_reserved s2 = rb_reserved ?s1"
    "currently_handled_event s2 = currently_handled_event ?s1" "tail_call_counter s2 = tail_call_counter ?s1"
    by (rule keepsD [OF fill_frame f], rule fill_free_views)+
  have al: "alive_process_cache_map s2 = alive_process_cache_map s" using keepsD [OF fill_alive f] by simp
  obtain s3 where s3: "run_state (match_event ro k (g ?e) program) s2 = run_state program s3" "helpers_succeed s3"
    "currently_handled_event s3 0 = Some ((g ?e)\<lparr>ev_process := p, ev_parent_process := pp\<rparr>)"
    "mview s3 = mview s2" "rb_reserved s3 = rb_reserved s2 - 1"
    using match_event_result [OF r2, of k p pp ro "g ?e" program] cached ready v(3,4)
    unfolding al by (auto simp: hook_ready_def)
  have "run_state (event_body ro k loc fill program) s = run_state program s3"
    using a f s3(1) by (simp add: event_body_def)
  moreover have "mview s3 = mview s" using s3(4) v(1) by (simp add: mview_def)
  ultimately show ?thesis using s3 v(2) by auto
qed

end

text \<open>The invariant of the matcher, from the view.\<close>

lemma matcher_inv_view:
  assumes "hook_ready k s" and "mview s' = mview s" and "helpers_succeed s'"
    and "currently_handled_event s' 0 = Some e" and "ev_time e = ktime_ns k"
    and "wf_rules_db ro" and "wf_event_strings ro e"
  shows "matcher_inv ro e s'"
  using assms
  by (auto simp: matcher_inv_def matcher_ready_def hook_ready_def mview_def stack_ok_def cache_coherent_def)

lemma matching_program_result:
  assumes "hook_ready k s" and "mview s' = mview s" and "helpers_succeed s'"
    and "currently_handled_event s' 0 = Some e" and "ev_time e = ktime_ns k" and "ev_id e \<noteq> 0"
    and "wf_rules_db ro" and "wf_event_strings ro e" and "rules_encode (event_rules ro ty) ex"
  shows "\<exists>v s''. run_state (matching_program ro k loc ty) s' = (v, s'') \<and>
    enforced ro k (decision ro ex ty e) v s' s''"
proof -
  obtain s1 where s1: "run_state (set_hook_name (lit loc)) s' = ((), s1)" by (rule exE [OF unit_run])
  have k: "mview s1 = mview s'" "rb_reserved s1 = rb_reserved s'" "currently_handled_event s1 = currently_handled_event s'"
    "helper_outcome s1 = helper_outcome s'"
    by (rule keepsD [OF keeps_set_hook_name s1]; simp add: mview_def)+
  have "matcher_inv ro e s1"
    using assms k by (intro matcher_inv_view [of k s]) (auto simp: helpers_succeed_def)
  note r = generic_tail_call_result [OF this assms(9), of "current_pid k"]
  have id: "ev_id (decision ro ex ty e) = ev_id e"
    by (simp add: decision_def decided_event_def split: option.split)
  have "rb s1 = rb s'" "sent_signals s1 = sent_signals s'" using k(1) by (simp_all add: mview_def)
  with r s1 k(2) id assms(6) show ?thesis
    by (auto simp: matching_program_def enforced_def word_gt_0)
qed

lemma fill_ready_hook_name: "preserves fill_ready (set_hook_name n)"
  by (rule fill_ready_keeps) (intro frame_intros; simp)+

lemma hook_ready_name: "hook_ready k s \<Longrightarrow> hook_ready k (snd (run_state (set_hook_name n) s))"
proof -
  let ?s1 = "snd (run_state (set_hook_name n) s)"
  note fill_ready_hook_name [of n]
  moreover have "global_event_id_counter ?s1 = global_event_id_counter s" "mview ?s1 = mview s"
    "tail_call_counter ?s1 = tail_call_counter s" "currently_handled_event ?s1 = currently_handled_event s"
    by (rule keeps_snd [OF keeps_set_hook_name]; simp add: mview_def)+
  ultimately show "hook_ready k s \<Longrightarrow> hook_ready k ?s1"
    by (auto simp: hook_ready_def mview_def stack_ok_def dest: preservesD)
qed

locale event_hook_contract = event_body_contract +
  fixes hook :: "int bpf" and ty :: event_type and loc2 :: string
  assumes hook_is: "hook = event_hook ro k loc fill program"
    and program_is: "program = matching_program ro k loc2 ty"
begin

text \<open>A task that is not monitored is always allowed, and nothing is reported about it.\<close>

lemma hook_ignores:
  assumes "\<not> monitored k s"
  shows "\<exists>s'. run_state hook s = (ALLOW, s') \<and> rb s' = rb s \<and> sent_signals s' = sent_signals s"
proof -
  let ?s1 = "snd (run_state (set_hook_name (lit loc)) s)"
  have "rb ?s1 = rb s" "sent_signals ?s1 = sent_signals s"
    by (rule keeps_snd, intro frame_intros, simp_all)+
  with assms show ?thesis by (simp add: hook_is event_hook_guard Let_def)
qed

lemma hook_balanced: "keeps rb_reserved hook"
proof -
  have "rb_reserved (snd (run_state (set_hook_name (lit loc)) s)) = rb_reserved s" for s
    by (rule keeps_snd, intro frame_intros) simp_all
  then show ?thesis
    using keeps_snd [OF body_balanced] by (simp add: keeps_def hook_is event_hook_guard Let_def)
qed

text \<open>When its event cannot be filled, a hook allows the operation and no rule is consulted.\<close>

lemma hook_fill_error:
  assumes fails: "\<And>s e. fill_ready s \<Longrightarrow> fst (fst (run_state (fill e) s)) \<noteq> SUCCESS"
    and ready: "fill_ready s" "global_event_id_counter s \<noteq> 0"
  shows "\<exists>s'. run_state hook s = (ALLOW, s') \<and> rb s' = rb s \<and> currently_handled_event s' = currently_handled_event s"
proof -
  let ?s1 = "snd (run_state (set_hook_name (lit loc)) s)"
  have k1: "rb ?s1 = rb s" "currently_handled_event ?s1 = currently_handled_event s"
    "global_event_id_counter ?s1 = global_event_id_counter s"
    by (rule keeps_snd [OF keeps_set_hook_name]; simp)+
  have r1: "fill_ready ?s1" by (rule preservesD [OF fill_ready_hook_name ready(1)])
  from body_fill_error [OF fails r1] ready(2) k1 show ?thesis
    by (cases "monitored k s") (auto simp: hook_is event_hook_guard Let_def)
qed

text \<open>
  A monitored task with its parent in the cache: the rules decide on the event the hook fills.
\<close>

lemma hook_enforces:
  assumes fill: "\<And>s e. fill_ready s \<Longrightarrow> fst (run_state (fill e) s) = (SUCCESS, g e)"
    and g: "\<And>e. ev_time (g e) = ev_time e" "\<And>e. ev_id (g e) = ev_id e"
    and ready: "hook_ready k s" "monitored k s"
    and cached: "alive_process_cache_map s (current_pid k) = Some p" "alive_process_cache_map s (p_ppid p) = Some pp"
    and rules: "wf_rules_db ro" "rules_encode (event_rules ro ty) ex"
    and wf: "wf_event_strings ro ((g (fresh_event k s))\<lparr>ev_process := p, ev_parent_process := pp\<rparr>)"
  shows "\<exists>v s'. run_state hook s = (v, s') \<and>
    enforced ro k (decision ro ex ty ((g (fresh_event k s))\<lparr>ev_process := p, ev_parent_process := pp\<rparr>)) v s s'"
proof -
  let ?s1 = "snd (run_state (set_hook_name (lit loc)) s)"
  let ?e = "(g (fresh_event k s))\<lparr>ev_process := p, ev_parent_process := pp\<rparr>"
  have r1: "hook_ready k ?s1" by (rule hook_ready_name [OF ready(1)])
  have k1: "alive_process_cache_map ?s1 = alive_process_cache_map s" "mview ?s1 = mview s"
    "rb_reserved ?s1 = rb_reserved s" "global_event_id_counter ?s1 = global_event_id_counter s"
    by (rule keeps_snd [OF keeps_set_hook_name]; simp add: mview_def)+
  have f1: "fresh_event k ?s1 = fresh_event k s" using k1(4) by (simp add: fresh_event_def)
  obtain s2 where s2: "run_state (event_body ro k loc fill program) ?s1 = run_state program s2" "helpers_succeed s2"
    "currently_handled_event s2 0 = Some ?e" "mview s2 = mview ?s1" "rb_reserved s2 = rb_reserved ?s1"
    using body_enters [OF fill r1, of p pp] cached k1(1) f1 by auto
  have e: "ev_time ?e = ktime_ns k" "ev_id ?e \<noteq> 0"
    using ready(1) g by (simp_all add: fresh_event_def hook_ready_def)
  obtain v s3 where s3: "run_state (matching_program ro k loc2 ty) s2 = (v, s3)"
    "enforced ro k (decision ro ex ty ?e) v s2 s3"
    using matching_program_result [OF r1 s2(4,2,3) e rules(1) wf rules(2)] by blast
  have "run_state hook s = (v, s3)"
    using s2(1) s3(1) ready(2) by (simp add: hook_is event_hook_guard Let_def program_is)
  moreover have "enforced ro k (decision ro ex ty ?e) v s s3"
    using s3(2) s2(4,5) k1(2,3) by (simp add: enforced_def mview_def)
  ultimately show ?thesis by blast
qed

end

end
