(* ===== verification/Hooks_File.thy ===== *)
theory Hooks_File
  imports Hook_Contract
begin

text \<open>
  The hooks of the file operations (\<^verbatim>\<open>Programs/syscall_monitoring/on_chmod.bpf.c\<close> and its siblings for
  chown, mknod, unlink, rename, mkdir, rmdir, write and read). Each has two programs: the hook
  itself and the matching program it tail-calls, named with the suffix \<open>_2\<close>. The hooks share
  one contract, the locale \<open>event_hook_contract\<close>.
\<close>

section \<open>Hooks\<close>

definition chmod_hook_2 :: "ro_env \<Rightarrow> kernel \<Rightarrow> int bpf" where
  "chmod_hook_2 ro k = do {
     set_hook_name (lit ''chmod_hook_2'');
     generic_tail_call ro (current_pid k) CHMOD }"

definition chmod_hook :: "ro_env \<Rightarrow> kernel \<Rightarrow> path_v \<Rightarrow> u16 \<Rightarrow> int bpf" where
  "chmod_hook ro k path mode = do {
     set_hook_name (lit ''chmod_hook'');
     user \<leftarrow> is_userspace_program k;
     if \<not> user then State_Monad.return ALLOW
     else do {
       related \<leftarrow> is_current_pid_related (current_pid k);
       if related then State_Monad.return ALLOW
       else do {
         event \<leftarrow> allocate_event_with_basic_stats (ktime_ns k);
         case event of
           None \<Rightarrow> do { REPORT_ERROR GENERIC_ERROR ''chmod_hook''; State_Monad.return ALLOW }
         | Some e \<Rightarrow> do {
             (ret, d) \<leftarrow> fill_chmod_event_t k empty_chmod_event_t path mode;
             if ret \<noteq> SUCCESS then do {
               REPORT_ERROR GENERIC_ERROR ''chmod_hook'';
               ringbuf_discard;
               State_Monad.return ALLOW }
             else match_event ro k (e\<lparr>ev_type := CHMOD, ev_data := Data_chmod d\<rparr>) (chmod_hook_2 ro k) } } } }"

definition chown_hook_2 :: "ro_env \<Rightarrow> kernel \<Rightarrow> int bpf" where
  "chown_hook_2 ro k = do {
     set_hook_name (lit ''chown_hook_2'');
     generic_tail_call ro (current_pid k) CHOWN }"

definition chown_hook :: "ro_env \<Rightarrow> kernel \<Rightarrow> path_v \<Rightarrow> int bpf" where
  "chown_hook ro k path = do {
     set_hook_name (lit ''chown_hook'');
     user \<leftarrow> is_userspace_program k;
     if \<not> user then State_Monad.return ALLOW
     else do {
       related \<leftarrow> is_current_pid_related (current_pid k);
       if related then State_Monad.return ALLOW
       else do {
         event \<leftarrow> allocate_event_with_basic_stats (ktime_ns k);
         case event of
           None \<Rightarrow> do { REPORT_ERROR GENERIC_ERROR ''chown_hook''; State_Monad.return ALLOW }
         | Some e \<Rightarrow> do {
             (ret, d) \<leftarrow> fill_chown_event_t k empty_chown_event_t path;
             if ret \<noteq> SUCCESS then do {
               REPORT_ERROR GENERIC_ERROR ''chown_hook'';
               ringbuf_discard;
               State_Monad.return ALLOW }
             else match_event ro k (e\<lparr>ev_type := CHOWN, ev_data := Data_chown d\<rparr>) (chown_hook_2 ro k) } } } }"

definition fc_hook_2 :: "ro_env \<Rightarrow> kernel \<Rightarrow> int bpf" where
  "fc_hook_2 ro k = do {
     set_hook_name (lit ''fc_hook_2'');
     generic_tail_call ro (current_pid k) FILE_CREATE }"

definition fc_hook :: "ro_env \<Rightarrow> kernel \<Rightarrow> path_v \<Rightarrow> ptr \<Rightarrow> u16 \<Rightarrow> int bpf" where
  "fc_hook ro k dir dentry mode = do {
     set_hook_name (lit ''fc_hook'');
     user \<leftarrow> is_userspace_program k;
     if \<not> user then State_Monad.return ALLOW
     else do {
       related \<leftarrow> is_current_pid_related (current_pid k);
       if related then State_Monad.return ALLOW
       else do {
         event \<leftarrow> allocate_event_with_basic_stats (ktime_ns k);
         case event of
           None \<Rightarrow> do { REPORT_ERROR GENERIC_ERROR ''fc_hook''; State_Monad.return ALLOW }
         | Some e \<Rightarrow> do {
             (ret, d) \<leftarrow> fill_file_create_event_t k empty_file_create_event_t dir dentry mode;
             if ret \<noteq> SUCCESS then do {
               REPORT_ERROR GENERIC_ERROR ''fc_hook'';
               ringbuf_discard;
               State_Monad.return ALLOW }
             else match_event ro k (e\<lparr>ev_type := FILE_CREATE, ev_data := Data_file_create d\<rparr>) (fc_hook_2 ro k) } } } }"

definition unlink_hook_2 :: "ro_env \<Rightarrow> kernel \<Rightarrow> int bpf" where
  "unlink_hook_2 ro k = do {
     set_hook_name (lit ''unlink_hook_2'');
     generic_tail_call ro (current_pid k) UNLINK }"

definition unlink_hook :: "ro_env \<Rightarrow> kernel \<Rightarrow> path_v \<Rightarrow> ptr \<Rightarrow> int bpf" where
  "unlink_hook ro k dir dentry = do {
     set_hook_name (lit ''unlink_hook'');
     user \<leftarrow> is_userspace_program k;
     if \<not> user then State_Monad.return ALLOW
     else do {
       related \<leftarrow> is_current_pid_related (current_pid k);
       if related then State_Monad.return ALLOW
       else do {
         event \<leftarrow> allocate_event_with_basic_stats (ktime_ns k);
         case event of
           None \<Rightarrow> do { REPORT_ERROR GENERIC_ERROR ''unlink_hook''; State_Monad.return ALLOW }
         | Some e \<Rightarrow> do {
             (ret, d) \<leftarrow> fill_unlink_event_t k empty_file_create_event_t dir dentry;
             if ret \<noteq> SUCCESS then do {
               REPORT_ERROR GENERIC_ERROR ''unlink_hook'';
               ringbuf_discard;
               State_Monad.return ALLOW }
             else match_event ro k (e\<lparr>ev_type := UNLINK, ev_data := Data_file_create d\<rparr>) (unlink_hook_2 ro k) } } } }"

text \<open>\<^verbatim>\<open>path_mkdir\<close> receives the mode without the directory bit.\<close>

abbreviation S_IFDIR :: u16 where "S_IFDIR \<equiv> 0x4000"

definition mkdir_hook_2 :: "ro_env \<Rightarrow> kernel \<Rightarrow> int bpf" where
  "mkdir_hook_2 ro k = do {
     set_hook_name (lit ''mkdir_hook_2'');
     generic_tail_call ro (current_pid k) MKDIR }"

definition mkdir_hook :: "ro_env \<Rightarrow> kernel \<Rightarrow> path_v \<Rightarrow> ptr \<Rightarrow> u16 \<Rightarrow> int bpf" where
  "mkdir_hook ro k dir dentry mode = do {
     set_hook_name (lit ''mkdir_hook'');
     user \<leftarrow> is_userspace_program k;
     if \<not> user then State_Monad.return ALLOW
     else do {
       related \<leftarrow> is_current_pid_related (current_pid k);
       if related then State_Monad.return ALLOW
       else do {
         event \<leftarrow> allocate_event_with_basic_stats (ktime_ns k);
         case event of
           None \<Rightarrow> do { REPORT_ERROR GENERIC_ERROR ''mkdir_hook''; State_Monad.return ALLOW }
         | Some e \<Rightarrow> do {
             (ret, d) \<leftarrow> fill_file_create_event_t k empty_file_create_event_t dir dentry (mode OR S_IFDIR);
             if ret \<noteq> SUCCESS then do {
               REPORT_ERROR GENERIC_ERROR ''mkdir_hook'';
               ringbuf_discard;
               State_Monad.return ALLOW }
             else match_event ro k (e\<lparr>ev_type := MKDIR, ev_data := Data_file_create d\<rparr>) (mkdir_hook_2 ro k) } } } }"

definition rmdir_hook_2 :: "ro_env \<Rightarrow> kernel \<Rightarrow> int bpf" where
  "rmdir_hook_2 ro k = do {
     set_hook_name (lit ''rmdir_hook_2'');
     generic_tail_call ro (current_pid k) RMDIR }"

definition rmdir_hook :: "ro_env \<Rightarrow> kernel \<Rightarrow> path_v \<Rightarrow> ptr \<Rightarrow> int bpf" where
  "rmdir_hook ro k dir dentry = do {
     set_hook_name (lit ''rmdir_hook'');
     user \<leftarrow> is_userspace_program k;
     if \<not> user then State_Monad.return ALLOW
     else do {
       related \<leftarrow> is_current_pid_related (current_pid k);
       if related then State_Monad.return ALLOW
       else do {
         event \<leftarrow> allocate_event_with_basic_stats (ktime_ns k);
         case event of
           None \<Rightarrow> do { REPORT_ERROR GENERIC_ERROR ''rmdir_hook''; State_Monad.return ALLOW }
         | Some e \<Rightarrow> do {
             (ret, d) \<leftarrow> fill_unlink_event_t k empty_file_create_event_t dir dentry;
             if ret \<noteq> SUCCESS then do {
               REPORT_ERROR GENERIC_ERROR ''rmdir_hook'';
               ringbuf_discard;
               State_Monad.return ALLOW }
             else match_event ro k (e\<lparr>ev_type := RMDIR, ev_data := Data_file_create d\<rparr>) (rmdir_hook_2 ro k) } } } }"

definition rename_hook_2 :: "ro_env \<Rightarrow> kernel \<Rightarrow> int bpf" where
  "rename_hook_2 ro k = do {
     set_hook_name (lit ''rename_hook_2'');
     generic_tail_call ro (current_pid k) RENAME }"

definition rename_hook :: "ro_env \<Rightarrow> kernel \<Rightarrow> path_v \<Rightarrow> ptr \<Rightarrow> path_v \<Rightarrow> ptr \<Rightarrow> u32 \<Rightarrow> int bpf" where
  "rename_hook ro k old_dir old_dentry new_dir new_dentry flags = do {
     set_hook_name (lit ''rename_hook'');
     user \<leftarrow> is_userspace_program k;
     if \<not> user then State_Monad.return ALLOW
     else do {
       related \<leftarrow> is_current_pid_related (current_pid k);
       if related then State_Monad.return ALLOW
       else do {
         event \<leftarrow> allocate_event_with_basic_stats (ktime_ns k);
         case event of
           None \<Rightarrow> do { REPORT_ERROR GENERIC_ERROR ''rename_hook''; State_Monad.return ALLOW }
         | Some e \<Rightarrow> do {
             (ret, d) \<leftarrow> fill_rename_event_t k empty_rename_event_t old_dir old_dentry new_dir new_dentry;
             if ret \<noteq> SUCCESS then do {
               REPORT_ERROR GENERIC_ERROR ''rename_hook'';
               ringbuf_discard;
               State_Monad.return ALLOW }
             else match_event ro k (e\<lparr>ev_type := RENAME, ev_data := Data_rename (d\<lparr>rn_flags := flags\<rparr>)\<rparr>) (rename_hook_2 ro k) } } } }"

text \<open>
  The verdicts of reads and writes are cached. \<^verbatim>\<open>data.read\<close> and \<^verbatim>\<open>data.write\<close> of the handled event hold
  the hash.
\<close>

abbreviation MAY_WRITE :: u32 where "MAY_WRITE \<equiv> 0x2"

abbreviation MAY_READ :: u32 where "MAY_READ \<equiv> 0x4"

abbreviation MAY_APPEND :: u32 where "MAY_APPEND \<equiv> 0x8"

abbreviation S_IFLNK :: u16 where "S_IFLNK \<equiv> 0xA000"

abbreviation S_IFREG :: u16 where "S_IFREG \<equiv> 0x8000"

definition write_hook_2 :: "ro_env \<Rightarrow> kernel \<Rightarrow> int bpf" where
  "write_hook_2 ro k = do {
     set_hook_name (lit ''write_hook_2'');
     verdict \<leftarrow> generic_tail_call ro (current_pid k) WRITE;
     current_event \<leftarrow> get_currently_handled_event;
     (case current_event of
        None \<Rightarrow> State_Monad.return ()
      | Some e \<Rightarrow> update_write_event_verdict_to_cache (w_event_hash (data_write ro e)) verdict);
     State_Monad.return (if verdict = ALLOW then ALLOW else DENY) }"

definition write_hook :: "ro_env \<Rightarrow> kernel \<Rightarrow> path_v \<Rightarrow> u32 \<Rightarrow> int bpf" where
  "write_hook ro k file perm = do {
     set_hook_name (lit ''write_hook'');
     user \<leftarrow> is_userspace_program k;
     if \<not> user then State_Monad.return ALLOW
     else if perm AND (MAY_WRITE OR MAY_APPEND) = 0 then State_Monad.return ALLOW
     else do {
       let mode = i_mode (d_inode (dentries k (fst file)));
       if mode AND S_IFMT \<noteq> S_IFLNK \<and> mode AND S_IFMT \<noteq> S_IFREG then State_Monad.return ALLOW
       else do {
         related \<leftarrow> is_current_pid_related (current_pid k);
         if related then State_Monad.return ALLOW
         else do {
           let event_hash = calculate_event_hash k file;
           verdict \<leftarrow> get_write_event_verdict_from_cache event_hash;
           if verdict \<noteq> NOT_IN_CACHE then State_Monad.return (if verdict = ALLOW then ALLOW else DENY)
           else do {
             event \<leftarrow> allocate_event_with_basic_stats (ktime_ns k);
             case event of
               None \<Rightarrow> do { REPORT_ERROR GENERIC_ERROR ''write_hook''; State_Monad.return ALLOW }
             | Some e \<Rightarrow> do {
                 (ret, d) \<leftarrow> fill_write_event_t k empty_write_event_t file event_hash;
                 if ret \<noteq> SUCCESS then do {
                   REPORT_ERROR GENERIC_ERROR ''write_hook'';
                   ringbuf_discard;
                   State_Monad.return ALLOW }
                 else match_event ro k (e\<lparr>ev_type := WRITE, ev_data := Data_write d\<rparr>) (write_hook_2 ro k) } } } } } }"

definition read_hook_2 :: "ro_env \<Rightarrow> kernel \<Rightarrow> int bpf" where
  "read_hook_2 ro k = do {
     set_hook_name (lit ''read_hook_2'');
     verdict \<leftarrow> generic_tail_call ro (current_pid k) READ;
     current_event \<leftarrow> get_currently_handled_event;
     (case current_event of
        None \<Rightarrow> State_Monad.return ()
      | Some e \<Rightarrow> update_read_event_verdict_to_cache (w_event_hash (data_write ro e)) verdict);
     State_Monad.return (if verdict = ALLOW then ALLOW else DENY) }"

definition read_hook :: "ro_env \<Rightarrow> kernel \<Rightarrow> path_v \<Rightarrow> u32 \<Rightarrow> int bpf" where
  "read_hook ro k file perm = do {
     set_hook_name (lit ''read_hook'');
     user \<leftarrow> is_userspace_program k;
     if \<not> user then State_Monad.return ALLOW
     else if perm AND MAY_READ = 0 then State_Monad.return ALLOW
     else do {
       let mode = i_mode (d_inode (dentries k (fst file)));
       if mode AND S_IFMT \<noteq> S_IFLNK \<and> mode AND S_IFMT \<noteq> S_IFREG then State_Monad.return ALLOW
       else do {
         related \<leftarrow> is_current_pid_related (current_pid k);
         if related then State_Monad.return ALLOW
         else do {
           let event_hash = calculate_event_hash k file;
           verdict \<leftarrow> get_read_event_verdict_from_cache event_hash;
           if verdict \<noteq> NOT_IN_CACHE then State_Monad.return (if verdict = ALLOW then ALLOW else DENY)
           else do {
             event \<leftarrow> allocate_event_with_basic_stats (ktime_ns k);
             case event of
               None \<Rightarrow> do { REPORT_ERROR GENERIC_ERROR ''read_hook''; State_Monad.return ALLOW }
             | Some e \<Rightarrow> do {
                 (ret, d) \<leftarrow> fill_read_event_t k empty_write_event_t file event_hash;
                 if ret \<noteq> SUCCESS then do {
                   REPORT_ERROR GENERIC_ERROR ''read_hook'';
                   ringbuf_discard;
                   State_Monad.return ALLOW }
                 else match_event ro k (e\<lparr>ev_type := READ, ev_data := Data_write d\<rparr>) (read_hook_2 ro k) } } } } } }"

section \<open>The contract\<close>

text \<open>Filling one member of a fresh event.\<close>

definition into :: "event_type \<Rightarrow> ('d \<Rightarrow> event_data) \<Rightarrow> (int \<times> 'd) bpf \<Rightarrow> event_t \<Rightarrow> (int \<times> event_t) bpf" where
  "into ty con m e = do { (ret, d) \<leftarrow> m; State_Monad.return (ret, e\<lparr>ev_type := ty, ev_data := con d\<rparr>) }"

lemma keeps_into: "keeps f m \<Longrightarrow> keeps f (into ty con m e)"
  unfolding into_def by (intro keeps_bind keeps_case_prod keeps_return)

lemma preserves_into: "preserves P m \<Longrightarrow> preserves P (into ty con m e)"
  unfolding into_def by (intro preserves_bind preserves_case_prod preserves_return)

lemma run_into:
  "fst (run_state (into ty con m e) s) =
     (fst (fst (run_state m s)), e\<lparr>ev_type := ty, ev_data := con (snd (fst (run_state m s)))\<rparr>)"
  by (simp add: into_def case_prod_beta)

lemma bind_into:
  "State_Monad.bind (into ty con m e) (\<lambda>(ret, e'). f ret e') =
   State_Monad.bind m (\<lambda>(ret, d). f ret (e\<lparr>ev_type := ty, ev_data := con d\<rparr>))"
  by (simp add: into_def case_prod_beta')

lemma hook_into:
  "event_body ro k loc (into ty con m) program = do {
     event \<leftarrow> allocate_event_with_basic_stats (ktime_ns k);
     case event of
       None \<Rightarrow> do { REPORT_ERROR GENERIC_ERROR loc; State_Monad.return ALLOW }
     | Some e \<Rightarrow> do {
         (ret, d) \<leftarrow> m;
         if ret \<noteq> SUCCESS then do {
           REPORT_ERROR GENERIC_ERROR loc; ringbuf_discard; State_Monad.return ALLOW }
         else match_event ro k (e\<lparr>ev_type := ty, ev_data := con d\<rparr>) program } }"
  unfolding event_body_def bind_into by (rule refl)

lemma balanced_matching: "keeps rb_reserved (matching_program ro k loc ty)"
  unfolding matching_program_def
  by (intro keeps_bind balanced_generic_tail_call keeps_set_hook_name) simp_all

lemma alive_fill_file: "keeps alive_process_cache_map (fill_file_t k file p)"
  unfolding fill_file_t_def fill_file_t_numeric_values_def get_last_modified_from_dentry_def
    get_filename_from_dentry_def
  by (cases "inode_layout k"; simp only: mtime_layout.case; intro frame_intros) simp_all

lemma alive_numeric: "keeps alive_process_cache_map (fill_file_t_numeric_values k file d m)"
  unfolding fill_file_t_numeric_values_def get_last_modified_from_dentry_def
  by (cases "inode_layout k"; simp only: mtime_layout.case; intro frame_intros) simp_all

lemma alive_strings: "keeps alive_process_cache_map (get_file_strings_from_path_and_dentry k out p d)"
  unfolding get_file_strings_from_path_and_dentry_def get_filename_from_dentry_def
  by (intro frame_intros) simp_all

lemmas fill_parts = keeps_into preserves_into keeps_bind keeps_case_prod keeps_return keeps_Let
  preserves_bind preserves_case_prod preserves_return preserves_Let
  keeps_fill_file_t [OF fill_free_erase] keeps_file_strings [OF fill_free_erase] keeps_fill_file_numeric [OF fill_free_erase]
  alive_fill_file alive_numeric alive_strings fill_ready_file fill_ready_file_numeric fill_ready_file_strings

lemma hook_parts:
  assumes "program = matching_program ro k loc2 ty"
    and "keeps erase m" "keeps alive_process_cache_map m" "preserves fill_ready m"
    and "hook = event_hook ro k loc (into ty con m) program"
  shows "event_hook_contract ro k loc (into ty con m) program hook ty loc2"
  using assms by unfold_locales (simp_all add: keeps_into preserves_into balanced_matching)

interpretation chmod: event_hook_contract ro k "''chmod_hook''"
  "into CHMOD Data_chmod (fill_chmod_event_t k empty_chmod_event_t path mode)" "chmod_hook_2 ro k"
  "chmod_hook ro k path mode" CHMOD "''chmod_hook_2''" for ro k path mode
  by (rule hook_parts, unfold chmod_hook_2_def matching_program_def, rule refl,
      unfold fill_chmod_event_t_def, (intro fill_parts)+, unfold chmod_hook_def chmod_hook_2_def event_hook_def hook_into
      fill_chmod_event_t_def, rule refl)

interpretation chown: event_hook_contract ro k "''chown_hook''"
  "into CHOWN Data_chown (fill_chown_event_t k empty_chown_event_t path)" "chown_hook_2 ro k"
  "chown_hook ro k path" CHOWN "''chown_hook_2''" for ro k path
  by (rule hook_parts, unfold chown_hook_2_def matching_program_def, rule refl,
      unfold fill_chown_event_t_def, (intro fill_parts)+, unfold chown_hook_def chown_hook_2_def event_hook_def hook_into
      fill_chown_event_t_def, rule refl)

interpretation fc: event_hook_contract ro k "''fc_hook''"
  "into FILE_CREATE Data_file_create (fill_file_create_event_t k empty_file_create_event_t dir dentry mode)" "fc_hook_2 ro k"
  "fc_hook ro k dir dentry mode" FILE_CREATE "''fc_hook_2''" for ro k dir dentry mode
  by (rule hook_parts, unfold fc_hook_2_def matching_program_def, rule refl,
      unfold fill_file_create_event_t_def, (intro fill_parts)+, unfold fc_hook_def fc_hook_2_def event_hook_def hook_into
      fill_file_create_event_t_def, rule refl)

interpretation unlink: event_hook_contract ro k "''unlink_hook''"
  "into UNLINK Data_file_create (fill_unlink_event_t k empty_file_create_event_t dir dentry)" "unlink_hook_2 ro k"
  "unlink_hook ro k dir dentry" UNLINK "''unlink_hook_2''" for ro k dir dentry
  by (rule hook_parts, unfold unlink_hook_2_def matching_program_def, rule refl,
      unfold fill_unlink_event_t_def, (intro fill_parts)+, unfold unlink_hook_def unlink_hook_2_def event_hook_def hook_into
      fill_unlink_event_t_def, rule refl)

interpretation mkdir: event_hook_contract ro k "''mkdir_hook''"
  "into MKDIR Data_file_create (fill_file_create_event_t k empty_file_create_event_t dir dentry (mode OR S_IFDIR))" "mkdir_hook_2 ro k"
  "mkdir_hook ro k dir dentry mode" MKDIR "''mkdir_hook_2''" for ro k dir dentry mode
  by (rule hook_parts, unfold mkdir_hook_2_def matching_program_def, rule refl,
      unfold fill_file_create_event_t_def, (intro fill_parts)+, unfold mkdir_hook_def mkdir_hook_2_def event_hook_def hook_into
      fill_file_create_event_t_def, rule refl)

interpretation rmdir: event_hook_contract ro k "''rmdir_hook''"
  "into RMDIR Data_file_create (fill_unlink_event_t k empty_file_create_event_t dir dentry)" "rmdir_hook_2 ro k"
  "rmdir_hook ro k dir dentry" RMDIR "''rmdir_hook_2''" for ro k dir dentry
  by (rule hook_parts, unfold rmdir_hook_2_def matching_program_def, rule refl,
      unfold fill_unlink_event_t_def, (intro fill_parts)+, unfold rmdir_hook_def rmdir_hook_2_def event_hook_def hook_into
      fill_unlink_event_t_def, rule refl)

interpretation rename: event_hook_contract ro k "''rename_hook''"
  "into RENAME (\<lambda>d. Data_rename (d\<lparr>rn_flags := flags\<rparr>)) (fill_rename_event_t k empty_rename_event_t old_dir old_dentry new_dir new_dentry)" "rename_hook_2 ro k"
  "rename_hook ro k old_dir old_dentry new_dir new_dentry flags" RENAME "''rename_hook_2''" for ro k old_dir old_dentry new_dir new_dentry flags
  by (rule hook_parts, unfold rename_hook_2_def matching_program_def, rule refl,
      unfold fill_rename_event_t_def, (intro fill_parts)+, unfold rename_hook_def rename_hook_2_def event_hook_def hook_into
      fill_rename_event_t_def, rule refl)

interpretation wr: event_body_contract ro k "''write_hook''"
  "into WRITE Data_write (fill_write_event_t k empty_write_event_t fl (calculate_event_hash k fl))" "write_hook_2 ro k"
  for ro k fl
proof
  have "keeps rb_reserved (update_write_event_verdict_to_cache h v)" for h v
    unfolding update_write_event_verdict_to_cache_def update_event_verdict_to_cache_def
    by (intro frame_intros) simp_all
  then show "keeps rb_reserved (write_hook_2 ro k)"
    unfolding write_hook_2_def
    by (intro keeps_bind balanced_generic_tail_call keeps_set_hook_name keeps_current keeps_case_option keeps_return)
      simp_all
qed (unfold fill_write_event_t_def, (intro fill_parts)+)

interpretation rd: event_body_contract ro k "''read_hook''"
  "into READ Data_write (fill_read_event_t k empty_write_event_t fl (calculate_event_hash k fl))" "read_hook_2 ro k"
  for ro k fl
proof
  have "keeps rb_reserved (update_read_event_verdict_to_cache h v)" for h v
    unfolding update_read_event_verdict_to_cache_def update_event_verdict_to_cache_def
    by (intro frame_intros) simp_all
  then show "keeps rb_reserved (read_hook_2 ro k)"
    unfolding read_hook_2_def
    by (intro keeps_bind balanced_generic_tail_call keeps_set_hook_name keeps_current keeps_case_option keeps_return)
      simp_all
qed (unfold fill_read_event_t_def, (intro fill_parts)+)

end
