(* ===== verification/File_Enforcement.thy ===== *)
theory File_Enforcement
  imports Hooks_File
begin

text \<open>
  The end-to-end behaviour of the file hooks: the event that a hook builds from the kernel's
  objects, the rules' verdict on it, and the cached verdicts of reads and writes.
\<close>

section \<open>The recorded files\<close>

text \<open>A file given by its own path, and an entry of a directory.\<close>

definition path_file :: "kernel \<Rightarrow> path_v \<Rightarrow> bytes list \<Rightarrow> file_t" where
  "path_file k p ns = (numeric_file k (fst p) None empty_file_t)\<lparr>
     f_path := path_record (full_path ns) (f_path empty_file_t),
     f_filename := filename_record (d_name (dentries k (fst p))) (f_filename empty_file_t)\<rparr>"

definition entry_file :: "kernel \<Rightarrow> bytes list \<Rightarrow> ptr \<Rightarrow> u16 option \<Rightarrow> file_t" where
  "entry_file k ns d mode = (numeric_file k d mode empty_file_t)\<lparr>
     f_path := path_record (full_path (d_name (dentries k d) # ns)) (f_path empty_file_t),
     f_filename := filename_record (d_name (dentries k d)) (f_filename empty_file_t)\<rparr>"

definition entry_ok :: "kernel \<Rightarrow> path_v \<Rightarrow> bytes list \<Rightarrow> ptr \<Rightarrow> bool" where
  "entry_ok k dir ns d \<longleftrightarrow> ok_names k \<and> path_names k MAX_PATH_COMPONENTS (fst dir) (snd dir) = Some ns \<and> ns \<noteq> [] \<and>
     list_all ok_name ns \<and> ok_name (d_name (dentries k d)) \<and>
     length (full_path (d_name (dentries k d) # ns)) < PATH_MAX"

lemma wf_numeric_file: "wf_file file \<Longrightarrow> wf_file (numeric_file k d mode file)"
  by (simp add: wf_file_def numeric_file_def Let_def)

lemma numeric_file_strings [simp]:
  "f_path (numeric_file k d mode file) = f_path file" "f_filename (numeric_file k d mode file) = f_filename file"
  by (simp_all add: numeric_file_def Let_def)

lemma wf_path_record:
  "length str < PATH_MAX \<Longrightarrow> length (pt_value out) = PATH_MAX \<Longrightarrow>
   length (pt_value (path_record str out)) = PATH_MAX"
  by (simp add: path_record_def)

lemma wf_filename_record:
  "length str < FILENAME_MAX_LENGTH \<Longrightarrow> length (fn_value out) = FILENAME_MAX_LENGTH \<Longrightarrow>
   length (fn_value (filename_record str out)) = FILENAME_MAX_LENGTH"
  by (simp add: filename_record_def)

lemma wf_path_file: "path_ok k p ns \<Longrightarrow> ok_name (d_name (dentries k (fst p))) \<Longrightarrow> wf_file (path_file k p ns)"
  using wf_empty_file
  by (simp add: path_file_def wf_file_def path_ok_def ok_name_def
      wf_path_record [simplified] wf_filename_record [simplified])

lemma wf_entry_file: "entry_ok k dir ns d \<Longrightarrow> wf_file (entry_file k ns d mode)"
  using wf_empty_file
  by (simp add: entry_file_def wf_file_def entry_ok_def ok_name_def
      wf_path_record [simplified] wf_filename_record [simplified])

lemma fill_path_file:
  "path_ok k p ns \<Longrightarrow> ok_name (d_name (dentries k (fst p))) \<Longrightarrow> fill_ready s \<Longrightarrow>
   \<exists>s'. run_state (fill_file_t k empty_file_t p) s = ((SUCCESS, path_file k p ns), s')"
  using fill_file_result [of k p ns s empty_file_t] by (auto simp: path_file_def)

lemma entry_strings:
  assumes "entry_ok k dir ns d" and "fill_ready s"
  shows "\<exists>s'. run_state (get_file_strings_from_path_and_dentry k (numeric_file k d mode empty_file_t) dir d) s =
      ((SUCCESS, entry_file k ns d mode), s') \<and> fill_ready s'"
proof -
  let ?f = "numeric_file k d mode empty_file_t"
  have "fst (run_state (get_file_strings_from_path_and_dentry k ?f dir d) s) = (SUCCESS, entry_file k ns d mode)"
    using file_strings_result [of k dir ns d s ?f] assms
    by (simp add: entry_ok_def fill_ready_def wf_numeric_file entry_file_def path_record_def filename_record_def)
  moreover have "fill_ready (snd (run_state (get_file_strings_from_path_and_dentry k ?f dir d) s))"
    by (rule preservesD [OF fill_ready_file_strings assms(2)])
  ultimately show ?thesis by (metis prod.collapse)
qed

lemma fill_entry_file:
  assumes "entry_ok k dir ns d" and "fill_ready s"
  shows "\<exists>s1 s'. run_state (fill_file_t_numeric_values k empty_file_t d mode) s = (numeric_file k d mode empty_file_t, s1) \<and>
    run_state (get_file_strings_from_path_and_dentry k (numeric_file k d mode empty_file_t) dir d) s1 =
      ((SUCCESS, entry_file k ns d mode), s') \<and> fill_ready s'"
proof -
  let ?f = "numeric_file k d mode empty_file_t"
  obtain s1 where s1: "run_state (fill_file_t_numeric_values k empty_file_t d mode) s = (?f, s1)"
    using fill_file_numeric_result by (metis prod.collapse)
  have "fill_ready s1" using preservesD [OF fill_ready_file_numeric assms(2)] s1 by (metis snd_conv)
  from entry_strings [OF assms(1) this] s1 show ?thesis by blast
qed

section \<open>Strings of the built events\<close>

text \<open>The rename member of an event that is no rename is a view of its bytes, with buffers of the right sizes.\<close>

lemma wf_event:
  assumes "wf_process (ev_process e)" "wf_process (ev_parent_process e)" "ev_type e \<noteq> EXEC"
    and "\<And>f. target_file ro e = Some f \<Longrightarrow> wf_file f"
    and "\<And>d. ev_data e = Data_rename d \<Longrightarrow> wf_file (rn_source_file d) \<and> wf_file (rn_destination_file d)"
  shows "wf_event_strings ro e"
  unfolding wf_event_strings_def
proof (intro conjI allI impI)
  fix subj p
  assume "subject_process ro e subj = Some p"
  then show "wf_process p"
    using assms(1-3) by (cases subj) (auto simp: subject_process_def)
next
  fix subj f
  assume "subject_file ro e subj = Some f"
  then show "wf_file f"
    using assms(1-4) wf_rename_view [OF assms(5), where ro = ro]
    by (cases subj) (auto simp: subject_file_def subject_process_def wf_process_def)
qed

section \<open>Enforcement\<close>

text \<open>What the hooks ask of the cached processes and of the rules.\<close>

definition subjects_cached :: "kernel \<Rightarrow> bpf_state \<Rightarrow> process_t \<Rightarrow> process_t \<Rightarrow> bool" where
  "subjects_cached k s p pp \<longleftrightarrow> alive_process_cache_map s (current_pid k) = Some p \<and>
     alive_process_cache_map s (p_ppid p) = Some pp \<and> wf_process p \<and> wf_process pp"

definition rules_ok :: "ro_env \<Rightarrow> event_type \<Rightarrow> (rule_t \<Rightarrow> expr) \<Rightarrow> bool" where
  "rules_ok ro ty ex \<longleftrightarrow> wf_rules_db ro \<and> rules_encode (event_rules ro ty) ex"

text \<open>The event a hook hands to the rules.\<close>

definition built :: "kernel \<Rightarrow> bpf_state \<Rightarrow> event_type \<Rightarrow> event_data \<Rightarrow> process_t \<Rightarrow> process_t \<Rightarrow> event_t" where
  "built k s ty d p pp =
     (fresh_event k s)\<lparr>ev_type := ty, ev_data := d, ev_process := p, ev_parent_process := pp\<rparr>"

lemma built_simps [simp]:
  "ev_type (built k s ty d p pp) = ty" "ev_data (built k s ty d p pp) = d"
  "ev_process (built k s ty d p pp) = p" "ev_parent_process (built k s ty d p pp) = pp"
  by (simp_all add: built_def)

lemma enforces_into:
  assumes c: "event_hook_contract ro k loc (into ty con m) program hook ty loc2"
    and fill: "\<And>s. fill_ready s \<Longrightarrow> fst (run_state m s) = (SUCCESS, d)"
    and ready: "hook_ready k s" "monitored k s" and cached: "subjects_cached k s p pp"
    and rules: "rules_ok ro ty ex" and wf: "wf_event_strings ro (built k s ty (con d) p pp)"
  shows "\<exists>v s'. run_state hook s = (v, s') \<and> enforced ro k (decision ro ex ty (built k s ty (con d) p pp)) v s s'"
  using event_hook_contract.hook_enforces [OF c, of "\<lambda>e. e\<lparr>ev_type := ty, ev_data := con d\<rparr>" s p pp ex] assms(2-)
  by (simp add: run_into subjects_cached_def rules_ok_def built_def)

text \<open>For the event types with one target file.\<close>

lemma enforces_file:
  assumes c: "event_hook_contract ro k loc (into ty con m) program hook ty loc2"
    and fill: "\<And>s. fill_ready s \<Longrightarrow> fst (run_state m s) = (SUCCESS, d)"
    and ready: "hook_ready k s" "monitored k s" and cached: "subjects_cached k s p pp" and rules: "rules_ok ro ty ex"
    and ty: "ty \<noteq> EXEC" and target: "target_file ro (built k s ty (con d) p pp) = Some f" "wf_file f"
    and view: "\<And>x. con d \<noteq> Data_rename x"
  shows "\<exists>v s'. run_state hook s = (v, s') \<and> enforced ro k (decision ro ex ty (built k s ty (con d) p pp)) v s s'"
proof (rule enforces_into [OF c fill ready cached rules])
  show "wf_event_strings ro (built k s ty (con d) p pp)"
    using cached ty target view by (intro wf_event) (auto simp: subjects_cached_def)
qed

lemmas target_simps = target_file_def data_chmod_def data_chown_def data_file_create_def data_write_def data_rename_def

lemma chmod_enforced:
  assumes "path_ok k path ns" "ok_name (d_name (dentries k (fst path)))"
    and "hook_ready k s" "monitored k s" "subjects_cached k s p pp" "rules_ok ro CHMOD ex"
  shows "\<exists>v s'. run_state (chmod_hook ro k path mode) s = (v, s') \<and>
    enforced ro k (decision ro ex CHMOD (built k s CHMOD
      (Data_chmod \<lparr>chmod_file = path_file k path ns, chmod_requested_mode = mode\<rparr>) p pp)) v s s'"
proof (rule enforces_file [OF chmod.event_hook_contract_axioms])
  show "fst (run_state (fill_chmod_event_t k empty_chmod_event_t path mode) s) =
      (SUCCESS, \<lparr>chmod_file = path_file k path ns, chmod_requested_mode = mode\<rparr>)" if "fill_ready s" for s
    using fill_path_file [OF assms(1,2) that] by (auto simp: fill_chmod_event_t_def empty_chmod_event_t_def)
qed (use assms wf_path_file [OF assms(1,2)] in \<open>auto simp: target_simps\<close>)

lemma chown_enforced:
  assumes "path_ok k path ns" "ok_name (d_name (dentries k (fst path)))"
    and "hook_ready k s" "monitored k s" "subjects_cached k s p pp" "rules_ok ro CHOWN ex"
  shows "\<exists>v s'. run_state (chown_hook ro k path) s = (v, s') \<and>
    enforced ro k (decision ro ex CHOWN (built k s CHOWN
      (Data_chown (empty_chown_event_t\<lparr>chown_file := path_file k path ns\<rparr>)) p pp)) v s s'"
proof (rule enforces_file [OF chown.event_hook_contract_axioms])
  show "fst (run_state (fill_chown_event_t k empty_chown_event_t path) s) =
      (SUCCESS, empty_chown_event_t\<lparr>chown_file := path_file k path ns\<rparr>)" if "fill_ready s" for s
    using fill_path_file [OF assms(1,2) that] by (auto simp: fill_chown_event_t_def empty_chown_event_t_def)
qed (use assms wf_path_file [OF assms(1,2)] in \<open>auto simp: target_simps\<close>)

text \<open>The operations on a directory entry.\<close>

lemma fill_create_entry:
  "entry_ok k dir ns d \<Longrightarrow> fill_ready s \<Longrightarrow>
   fst (run_state (fill_file_create_event_t k empty_file_create_event_t dir d mode) s) =
     (SUCCESS, \<lparr>fc_file = entry_file k ns d (Some mode)\<rparr>)"
  using fill_entry_file [of k dir ns d s "Some mode"]
  by (auto simp: fill_file_create_event_t_def empty_file_create_event_t_def)

lemma fill_unlink_entry:
  "entry_ok k dir ns d \<Longrightarrow> fill_ready s \<Longrightarrow>
   fst (run_state (fill_unlink_event_t k empty_file_create_event_t dir d) s) =
     (SUCCESS, \<lparr>fc_file = entry_file k ns d None\<rparr>)"
  using fill_entry_file [of k dir ns d s None]
  by (auto simp: fill_unlink_event_t_def empty_file_create_event_t_def)

lemma fc_enforced:
  assumes "entry_ok k dir ns d" "hook_ready k s" "monitored k s" "subjects_cached k s p pp"
    and "rules_ok ro FILE_CREATE ex"
  shows "\<exists>v s'. run_state (fc_hook ro k dir d mode) s = (v, s') \<and>
    enforced ro k (decision ro ex FILE_CREATE (built k s FILE_CREATE
      (Data_file_create \<lparr>fc_file = entry_file k ns d (Some mode)\<rparr>) p pp)) v s s'"
  by (rule enforces_file [OF fc.event_hook_contract_axioms fill_create_entry])
    (use assms wf_entry_file [OF assms(1)] in \<open>auto simp: target_simps\<close>)

lemma mkdir_enforced:
  assumes "entry_ok k dir ns d" "hook_ready k s" "monitored k s" "subjects_cached k s p pp" "rules_ok ro MKDIR ex"
  shows "\<exists>v s'. run_state (mkdir_hook ro k dir d mode) s = (v, s') \<and>
    enforced ro k (decision ro ex MKDIR (built k s MKDIR
      (Data_file_create \<lparr>fc_file = entry_file k ns d (Some (mode OR S_IFDIR))\<rparr>) p pp)) v s s'"
  by (rule enforces_file [OF mkdir.event_hook_contract_axioms fill_create_entry])
    (use assms wf_entry_file [OF assms(1)] in \<open>auto simp: target_simps\<close>)

lemma unlink_enforced:
  assumes "entry_ok k dir ns d" "hook_ready k s" "monitored k s" "subjects_cached k s p pp"
    and "rules_ok ro UNLINK ex"
  shows "\<exists>v s'. run_state (unlink_hook ro k dir d) s = (v, s') \<and>
    enforced ro k (decision ro ex UNLINK (built k s UNLINK
      (Data_file_create \<lparr>fc_file = entry_file k ns d None\<rparr>) p pp)) v s s'"
  by (rule enforces_file [OF unlink.event_hook_contract_axioms fill_unlink_entry])
    (use assms wf_entry_file [OF assms(1)] in \<open>auto simp: target_simps\<close>)

lemma rmdir_enforced:
  assumes "entry_ok k dir ns d" "hook_ready k s" "monitored k s" "subjects_cached k s p pp"
    and "rules_ok ro RMDIR ex"
  shows "\<exists>v s'. run_state (rmdir_hook ro k dir d) s = (v, s') \<and>
    enforced ro k (decision ro ex RMDIR (built k s RMDIR
      (Data_file_create \<lparr>fc_file = entry_file k ns d None\<rparr>) p pp)) v s s'"
  by (rule enforces_file [OF rmdir.event_hook_contract_axioms fill_unlink_entry])
    (use assms wf_entry_file [OF assms(1)] in \<open>auto simp: target_simps\<close>)

lemma fill_rename_entries:
  assumes "entry_ok k old_dir ns d" "entry_ok k new_dir ns' d'" "fill_ready s"
  shows "fst (run_state (fill_rename_event_t k empty_rename_event_t old_dir d new_dir d') s) =
     (SUCCESS, \<lparr>rn_flags = 0, rn_source_file = entry_file k ns d None, rn_destination_file = entry_file k ns' d' None\<rparr>)"
proof -
  obtain s1 where s1: "run_state (fill_file_t_numeric_values k empty_file_t d None) s = (numeric_file k d None empty_file_t, s1)"
    using fill_file_numeric_result by (metis prod.collapse)
  have r1: "fill_ready s1" using preservesD [OF fill_ready_file_numeric assms(3)] s1 by (metis snd_conv)
  obtain s2 where s2: "run_state (fill_file_t_numeric_values k empty_file_t d' None) s1 = (numeric_file k d' None empty_file_t, s2)"
    using fill_file_numeric_result by (metis prod.collapse)
  have r2: "fill_ready s2" using preservesD [OF fill_ready_file_numeric r1] s2 by (metis snd_conv)
  obtain s3 where s3: "run_state (get_file_strings_from_path_and_dentry k (numeric_file k d None empty_file_t) old_dir d) s2 =
      ((SUCCESS, entry_file k ns d None), s3)" "fill_ready s3"
    using entry_strings [OF assms(1) r2] by blast
  obtain s4 where s4: "run_state (get_file_strings_from_path_and_dentry k (numeric_file k d' None empty_file_t) new_dir d') s3 =
      ((SUCCESS, entry_file k ns' d' None), s4)"
    using entry_strings [OF assms(2) s3(2)] by blast
  from s1 s2 s3 s4 show ?thesis by (simp add: fill_rename_event_t_def empty_rename_event_t_def)
qed

lemma rename_enforced:
  assumes "entry_ok k old_dir ns d" "entry_ok k new_dir ns' d'"
    and "hook_ready k s" "monitored k s" "subjects_cached k s p pp" "rules_ok ro RENAME ex"
  shows "\<exists>v s'. run_state (rename_hook ro k old_dir d new_dir d' flags) s = (v, s') \<and>
    enforced ro k (decision ro ex RENAME (built k s RENAME (Data_rename \<lparr>rn_flags = flags,
      rn_source_file = entry_file k ns d None, rn_destination_file = entry_file k ns' d' None\<rparr>) p pp)) v s s'"
proof -
  let ?d = "\<lparr>rn_flags = 0, rn_source_file = entry_file k ns d None, rn_destination_file = entry_file k ns' d' None\<rparr>"
  have "wf_event_strings ro (built k s RENAME (Data_rename (?d\<lparr>rn_flags := flags\<rparr>)) p pp)"
    using assms wf_entry_file [OF assms(1)] wf_entry_file [OF assms(2)]
    by (intro wf_event) (auto simp: subjects_cached_def target_simps)
  from enforces_into [OF rename.event_hook_contract_axioms fill_rename_entries [OF assms(1,2)] assms(3-6) this]
  show ?thesis by simp
qed

section \<open>Entries of the root directory\<close>

text \<open>
  The path builder yields no path for the root directory, so that the events of its entries
  cannot be filled: operations on them are allowed, whatever the rules say.
\<close>

lemma fill_root_entry:
  assumes "path_names k MAX_PATH_COMPONENTS (fst dir) (snd dir) = Some []" "ok_names k" "fill_ready s"
  shows "fst (fst (run_state (fill_unlink_event_t k w dir d) s)) \<noteq> SUCCESS"
    and "fst (fst (run_state (fill_file_create_event_t k w dir d mode) s)) \<noteq> SUCCESS"
proof -
  have e: "fst (fst (run_state (get_file_strings_from_path_and_dentry k fl dir d) s1)) = GENERIC_ERROR" if "fill_ready s1" for fl s1
    using root_entry_fails [OF assms(1,2)] that by (simp add: fill_ready_def)
  have r: "fill_ready (snd (run_state (fill_file_t_numeric_values k fl d m) s))" for fl m
    by (rule preservesD [OF fill_ready_file_numeric assms(3)])
  show "fst (fst (run_state (fill_unlink_event_t k w dir d) s)) \<noteq> SUCCESS"
    "fst (fst (run_state (fill_file_create_event_t k w dir d mode) s)) \<noteq> SUCCESS"
    by (simp_all add: fill_unlink_event_t_def fill_file_create_event_t_def case_prod_beta e [OF r])
qed

lemma root_entry_allowed:
  assumes "path_names k MAX_PATH_COMPONENTS (fst dir) (snd dir) = Some []" "ok_names k"
    and "fill_ready s" "global_event_id_counter s \<noteq> 0"
  shows "\<exists>s'. run_state (unlink_hook ro k dir d) s = (ALLOW, s') \<and> rb s' = rb s"
    and "\<exists>s'. run_state (fc_hook ro k dir d mode) s = (ALLOW, s') \<and> rb s' = rb s"
    and "\<exists>s'. run_state (mkdir_hook ro k dir d mode) s = (ALLOW, s') \<and> rb s' = rb s"
    and "\<exists>s'. run_state (rmdir_hook ro k dir d) s = (ALLOW, s') \<and> rb s' = rb s"
proof -
  note f = fill_root_entry [OF assms(1,2)]
  have i: "fst (fst (run_state (into ty con m e) s)) = fst (fst (run_state m s))" for ty con m e s
    by (simp add: run_into case_prod_beta)
  show "\<exists>s'. run_state (unlink_hook ro k dir d) s = (ALLOW, s') \<and> rb s' = rb s"
    using unlink.hook_fill_error [OF _ assms(3,4)] f(1) unfolding i by blast
  show "\<exists>s'. run_state (fc_hook ro k dir d mode) s = (ALLOW, s') \<and> rb s' = rb s"
    using fc.hook_fill_error [OF _ assms(3,4)] f(2) unfolding i by blast
  show "\<exists>s'. run_state (mkdir_hook ro k dir d mode) s = (ALLOW, s') \<and> rb s' = rb s"
    using mkdir.hook_fill_error [OF _ assms(3,4)] f(2) unfolding i by blast
  show "\<exists>s'. run_state (rmdir_hook ro k dir d) s = (ALLOW, s') \<and> rb s' = rb s"
    using rmdir.hook_fill_error [OF _ assms(3,4)] f(1) unfolding i by blast
qed

end
