(* ===== verification/Verdict_Hooks.thy ===== *)
theory Verdict_Hooks
  imports File_Enforcement
begin

text \<open>
  The read and write hooks, which ask the verdict cache before they build an event. Both are
  instances of the locale \<open>cached_hook_contract\<close>, which joins the contract of the verdict cache
  with that of an event hook.
\<close>

section \<open>The common form\<close>

definition cached_hook ::
  "kernel \<Rightarrow> string \<Rightarrow> bool \<Rightarrow> path_v \<Rightarrow> (u64 \<Rightarrow> int bpf) \<Rightarrow> int bpf \<Rightarrow> int bpf" where
  "cached_hook k loc wanted fl get_verdict body = do {
     set_hook_name (lit loc);
     user \<leftarrow> is_userspace_program k;
     if \<not> user then State_Monad.return ALLOW
     else if \<not> wanted then State_Monad.return ALLOW
     else do {
       let mode = i_mode (d_inode (dentries k (fst fl)));
       if mode AND S_IFMT \<noteq> S_IFLNK \<and> mode AND S_IFMT \<noteq> S_IFREG then State_Monad.return ALLOW
       else do {
         related \<leftarrow> is_current_pid_related (current_pid k);
         if related then State_Monad.return ALLOW
         else do {
           let event_hash = calculate_event_hash k fl;
           verdict \<leftarrow> get_verdict event_hash;
           if verdict \<noteq> NOT_IN_CACHE then State_Monad.return (if verdict = ALLOW then ALLOW else DENY)
           else body } } } }"

definition file_kind_ok :: "kernel \<Rightarrow> path_v \<Rightarrow> bool" where
  "file_kind_ok k fl \<longleftrightarrow> get_file_type_from_mode (i_mode (d_inode (dentries k (fst fl)))) \<in> {SYMLINK, REGULAR_FILE}"

lemma file_kind_iff:
  "file_kind_ok k fl \<longleftrightarrow> (let mode = i_mode (d_inode (dentries k (fst fl)))
     in mode AND S_IFMT = S_IFLNK \<or> mode AND S_IFMT = S_IFREG)"
  by (auto simp: file_kind_ok_def get_file_type_from_mode_def Let_def)

lemma cached_hook_guard:
  assumes "monitored k s" "wanted" "file_kind_ok k fl"
  shows "run_state (cached_hook k loc wanted fl get_verdict body) s =
    (let s1 = snd (run_state (set_hook_name (lit loc)) s);
         (v, s2) = run_state (get_verdict (calculate_event_hash k fl)) s1
     in if v \<noteq> NOT_IN_CACHE then (as_verdict v, s2) else run_state body s2)"
proof -
  obtain s1 where s1: "run_state (set_hook_name (lit loc)) s = ((), s1)" by (rule exE [OF unit_run])
  have "monitored k s1" using monitored_hook_name [of k "lit loc" s] s1 assms(1) by simp
  then have m: "is_task_with_mm k" "\<not> is_system_task k" "kthread_exec_pids s1 (t_pid (running k)) = None"
    "program_related_pids s1 (current_pid k) = None" by (auto simp: monitored_def)
  have k: "\<not> (i_mode (d_inode (dentries k (fst fl))) AND S_IFMT \<noteq> S_IFLNK
      \<and> i_mode (d_inode (dentries k (fst fl))) AND S_IFMT \<noteq> S_IFREG)"
    using assms(3) by (auto simp: file_kind_iff Let_def)
  obtain v s2 where v: "run_state (get_verdict (calculate_event_hash k fl)) s1 = (v, s2)" by fastforce
  show ?thesis
    unfolding cached_hook_def Let_def
    using s1 m k v assms(2)
    by (auto simp: run_is_userspace run_is_related as_verdict_def)
qed

text \<open>What a read or write hook leaves alone: who is monitored.\<close>

definition monitor_view :: "bpf_state \<Rightarrow> _" where
  "monitor_view s = (kthread_exec_pids s, program_related_pids s)"

lemma monitor_view_helper [simp]: "monitor_view (helper_calls_update g s) = monitor_view s"
  by (simp add: monitor_view_def)

lemma monitored_view: "monitor_view s' = monitor_view s \<Longrightarrow> monitored k s' = monitored k s"
  by (simp add: monitor_view_def monitored_def)

lemma keeps_monitor_tail_call: "keeps monitor_view (generic_tail_call ro pid ty)"
  by (intro keeps_generic_tail_call matcher_freeI proc_freeI report_freeI) (simp_all add: monitor_view_def)

section \<open>The contract\<close>

locale cached_hook_contract =
  verdict_cache priv priv_update glob glob_update +
  event_body_contract ro k loc "into ty Data_write m" program
  for priv priv_update glob glob_update ro k loc ty m program +
  fixes hook :: "int bpf" and wanted :: bool and fl :: path_v and loc2 :: string
  assumes hook_is: "hook = cached_hook k loc wanted fl (get_event_verdict_from_cache priv priv_update glob)
      (event_body ro k loc (into ty Data_write m) program)"
    and program_is: "program = do {
       set_hook_name (lit loc2);
       verdict \<leftarrow> generic_tail_call ro (current_pid k) ty;
       current_event \<leftarrow> get_currently_handled_event;
       (case current_event of
          None \<Rightarrow> State_Monad.return ()
        | Some e \<Rightarrow> update_event_verdict_to_cache priv_update glob_update (w_event_hash (data_write ro e)) (word_of_int verdict));
       State_Monad.return (if verdict = ALLOW then ALLOW else DENY) }"
    and view_frame: "monitor_view (priv_update f s) = monitor_view s" "monitor_view (glob_update f s) = monitor_view s"
      "rb (priv_update f s) = rb s" "rb (glob_update f s) = rb s"
      "rb_reserved (priv_update f s) = rb_reserved s" "rb_reserved (glob_update f s) = rb_reserved s"
      "sent_signals (priv_update f s) = sent_signals s" "sent_signals (glob_update f s) = sent_signals s"
    and name_frame: "keeps priv (set_hook_name n)" "keeps glob (set_hook_name n)"
begin

text \<open>A cached verdict is returned, and nothing is sent.\<close>

lemma hook_hit:
  assumes "monitored k s" "wanted" "file_kind_ok k fl"
    and "priv s (calculate_event_hash k fl) = Some v"
  shows "\<exists>s'. run_state hook s = (as_verdict (int (unat v)), s') \<and> rb s' = rb s \<and> sent_signals s' = sent_signals s"
proof -
  let ?s1 = "snd (run_state (set_hook_name (lit loc)) s)"
  have p: "priv ?s1 (calculate_event_hash k fl) = Some v" using keeps_snd [OF name_frame(1)] assms(4) by metis
  have "rb ?s1 = rb s" "sent_signals ?s1 = sent_signals s"
    by (rule keeps_snd [OF keeps_set_hook_name]; simp)+
  moreover have "int (unat v) \<noteq> NOT_IN_CACHE" by linarith
  ultimately show ?thesis
    unfolding hook_is cached_hook_guard [OF assms(1-3)]
    by (simp add: get_event_verdict_from_cache_def p Let_def del: of_nat_unat)
qed

text \<open>The matching program stores the verdict it returns.\<close>

lemma program_caches:
  assumes "matcher_inv ro e s" and "rules_encode (event_rules ro ty) ex" and "ev_id e \<noteq> 0"
    and "ev_data e = Data_write w"
  shows "\<exists>v s'. run_state program s = (v, s') \<and> enforced ro k (decision ro ex ty e) v s s' \<and>
    priv s' (w_event_hash w) = Some (word_of_int v) \<and> monitor_view s' = monitor_view s"
proof -
  obtain s1 where s1: "run_state (set_hook_name (lit loc2)) s = ((), s1)" by (rule exE [OF unit_run])
  have k1: "mview s1 = mview s" "rb_reserved s1 = rb_reserved s" "currently_handled_event s1 = currently_handled_event s"
    "helper_outcome s1 = helper_outcome s" "monitor_view s1 = monitor_view s"
    by (rule keepsD [OF keeps_set_hook_name s1]; simp add: mview_def monitor_view_def)+
  have inv: "matcher_inv ro e s1"
    using assms(1) k1 by (auto simp: matcher_inv_def matcher_ready_def helpers_succeed_def mview_def stack_ok_def cache_coherent_def)
  let ?d = "decision ro ex ty e"
  let ?v = "if blocks (ev_action ?d) then DENY else ALLOW"
  obtain s2 where s2: "run_state (generic_tail_call ro (current_pid k) ty) s1 = (?v, s2)"
    "rb s2 = (if ev_id ?d > 0 \<and> ev_action ?d \<noteq> EXCLUDE_EVENT then ?d # rb s1 else rb s1)"
    "rb_reserved s2 = rb_reserved s1"
    "sent_signals s2 = (if kills_process (ev_action ?d) then (current_pid k, SIGKILL) # sent_signals s1 else sent_signals s1)"
    "currently_handled_event s2 0 = Some ?d" "helpers_succeed s2"
    using generic_tail_call_result [OF inv assms(2), of "current_pid k"] by blast
  have d: "ev_id ?d = ev_id e" "data_write ro ?d = w"
    using assms(4) by (simp_all add: decision_def decided_event_def data_write_def split: option.split)
  let ?u = "update_event_verdict_to_cache priv_update glob_update (w_event_hash w) (word_of_int ?v)"
  obtain s3 where s3: "run_state ?u s2 = ((), s3)" by (rule exE [OF unit_run])
  have "keeps rb ?u" "keeps rb_reserved ?u" "keeps sent_signals ?u" "keeps monitor_view ?u"
    unfolding update_event_verdict_to_cache_def
    by (intro frame_intros; simp add: view_frame)+
  note k3 = this [THEN keepsD, OF s3]
  have "monitor_view s2 = monitor_view s1" by (rule keepsD [OF keeps_monitor_tail_call s2(1)])
  moreover have "priv s3 (w_event_hash w) = Some (word_of_int ?v)"
    using update_get(1) [OF s2(6), of "w_event_hash w" "word_of_int ?v"] s3 by simp
  moreover have "run_state program s = (?v, s3)"
    unfolding program_is using s1 s2(1,5) d(2) s3
    by (simp add: get_currently_handled_event_def)
  moreover have "rb s1 = rb s" "sent_signals s1 = sent_signals s" using k1(1) by (simp_all add: mview_def)
  ultimately show ?thesis
    using s2 k3 k1 d(1) assms(3) by (auto simp: enforced_def word_gt_0)
qed

text \<open>
  A first access is decided by the rules and its verdict is cached; asking again gives the same
  verdict, and nothing more is sent.
\<close>

lemma hook_then_hit:
  assumes ready: "hook_ready k s" "monitored k s" "wanted" "file_kind_ok k fl"
    and miss: "priv s (calculate_event_hash k fl) = None" "glob s (calculate_event_hash k fl) = None"
    and fill: "\<And>s. fill_ready s \<Longrightarrow> fst (run_state m s) = (SUCCESS, w)" "w_event_hash w = calculate_event_hash k fl"
    and cached: "subjects_cached k s p pp" and rules: "rules_ok ro ty ex"
    and wf: "wf_event_strings ro (built k s ty (Data_write w) p pp)"
  shows "\<exists>v s1 s2. run_state hook s = (v, s1) \<and>
    enforced ro k (decision ro ex ty (built k s ty (Data_write w) p pp)) v s s1 \<and>
    run_state hook s1 = (v, s2) \<and> rb s2 = rb s1 \<and> sent_signals s2 = sent_signals s1"
proof -
  let ?s1 = "snd (run_state (set_hook_name (lit loc)) s)" and ?e = "built k s ty (Data_write w) p pp"
  have k1: "alive_process_cache_map ?s1 = alive_process_cache_map s" "mview ?s1 = mview s"
    "rb_reserved ?s1 = rb_reserved s" "global_event_id_counter ?s1 = global_event_id_counter s"
    by (rule keeps_snd [OF keeps_set_hook_name]; simp add: mview_def)+
  have r1: "hook_ready k ?s1" by (rule hook_ready_name [OF ready(1)])
  have f1: "fresh_event k ?s1 = fresh_event k s" using k1(4) by (simp add: fresh_event_def)
  have get: "run_state (get_event_verdict_from_cache priv priv_update glob (calculate_event_hash k fl)) ?s1 = (NOT_IN_CACHE, ?s1)"
    using miss keeps_snd [OF name_frame(1)] keeps_snd [OF name_frame(2)]
    by (simp add: get_event_verdict_from_cache_def)
  have enter: "run_state hook s = run_state (event_body ro k loc (into ty Data_write m) program) ?s1"
    unfolding hook_is cached_hook_guard [OF ready(2,3,4)] by (simp add: get Let_def)
  obtain s2 where s2: "run_state (event_body ro k loc (into ty Data_write m) program) ?s1 = run_state program s2"
    "helpers_succeed s2" "currently_handled_event s2 0 = Some ?e" "mview s2 = mview ?s1" "rb_reserved s2 = rb_reserved ?s1"
    using body_enters [OF _ r1, of "\<lambda>e. e\<lparr>ev_type := ty, ev_data := Data_write w\<rparr>" p pp] cached k1(1) f1 fill(1)
    by (auto simp: run_into subjects_cached_def built_def)
  have t: "ev_time ?e = ktime_ns k" "ev_id ?e \<noteq> 0" using ready(1) by (simp_all add: built_def fresh_event_def hook_ready_def)
  have inv: "matcher_inv ro ?e s2"
    using matcher_inv_view [OF r1 s2(4,2,3) t(1)] rules wf by (simp add: rules_ok_def)
  have enc: "rules_encode (event_rules ro ty) ex" and data: "ev_data ?e = Data_write w"
    using rules by (simp_all add: rules_ok_def)
  obtain v s3 where s3: "run_state program s2 = (v, s3)" "enforced ro k (decision ro ex ty ?e) v s2 s3"
    "priv s3 (calculate_event_hash k fl) = Some (word_of_int v)" "monitor_view s3 = monitor_view s2"
    using program_caches [OF inv enc t(2) data] unfolding fill(2) by blast
  have "monitor_view s3 = monitor_view s" using s3(4) s2(4) k1(2) by (simp add: mview_def monitor_view_def)
  from monitored_view [OF this] have "monitored k s3" using ready(2) by blast
  from hook_hit [OF this ready(3,4) s3(3)] obtain s4 where
    s4: "run_state hook s3 = (as_verdict (int (unat (word_of_int v :: u8))), s4)" "rb s4 = rb s3" "sent_signals s4 = sent_signals s3"
    by blast
  have "v = ALLOW \<or> v = DENY" using s3(2) by (auto simp: enforced_def)
  moreover have "unat (word_of_int DENY :: u8) = 255" by (simp add: unsigned_minus_1_eq_mask mask_eq_exp_minus_1)
  ultimately have "as_verdict (int (unat (word_of_int v :: u8))) = v"
    by (auto simp: as_verdict_def simp del: of_nat_unat)
  moreover have "enforced ro k (decision ro ex ty ?e) v s s3"
    using s3(2) s2(4,5) k1(2,3) by (simp add: enforced_def mview_def)
  ultimately show ?thesis using enter s2(1) s3(1) s4 by auto
qed

end

section \<open>Reads and writes\<close>

lemma write_hook_form:
  "write_hook ro k fl perm = cached_hook k ''write_hook'' (perm AND (MAY_WRITE OR MAY_APPEND) \<noteq> 0) fl
     get_write_event_verdict_from_cache (event_body ro k ''write_hook''
       (into WRITE Data_write (fill_write_event_t k empty_write_event_t fl (calculate_event_hash k fl))) (write_hook_2 ro k))"
  unfolding write_hook_def cached_hook_def hook_into Let_def by (simp only: not_not)

lemma read_hook_form:
  "read_hook ro k fl perm = cached_hook k ''read_hook'' (perm AND MAY_READ \<noteq> 0) fl
     get_read_event_verdict_from_cache (event_body ro k ''read_hook''
       (into READ Data_write (fill_read_event_t k empty_write_event_t fl (calculate_event_hash k fl))) (read_hook_2 ro k))"
  unfolding read_hook_def cached_hook_def hook_into Let_def by (simp only: not_not)

interpretation cw: cached_hook_contract private_write_event_cache_lru_map private_write_event_cache_lru_map_update
  global_write_event_cache_lru_map global_write_event_cache_lru_map_update ro k "''write_hook''" WRITE
  "fill_write_event_t k empty_write_event_t fl (calculate_event_hash k fl)" "write_hook_2 ro k"
  "write_hook ro k fl perm" "perm AND (MAY_WRITE OR MAY_APPEND) \<noteq> 0" fl "''write_hook_2''" for ro k fl perm
proof
  show "write_hook ro k fl perm = cached_hook k ''write_hook'' (perm AND (MAY_WRITE OR MAY_APPEND) \<noteq> 0) fl
     (get_event_verdict_from_cache private_write_event_cache_lru_map private_write_event_cache_lru_map_update
       global_write_event_cache_lru_map) (event_body ro k ''write_hook''
       (into WRITE Data_write (fill_write_event_t k empty_write_event_t fl (calculate_event_hash k fl))) (write_hook_2 ro k))"
    unfolding write_hook_form get_write_event_verdict_from_cache_def [abs_def] by (rule refl)
  show "write_hook_2 ro k = do {
       set_hook_name (lit ''write_hook_2'');
       verdict \<leftarrow> generic_tail_call ro (current_pid k) WRITE;
       current_event \<leftarrow> get_currently_handled_event;
       (case current_event of
          None \<Rightarrow> State_Monad.return ()
        | Some e \<Rightarrow> update_event_verdict_to_cache private_write_event_cache_lru_map_update
            global_write_event_cache_lru_map_update (w_event_hash (data_write ro e)) (word_of_int verdict));
       State_Monad.return (if verdict = ALLOW then ALLOW else DENY) }"
    unfolding write_hook_2_def update_write_event_verdict_to_cache_def by (rule refl)
qed (simp_all add: monitor_view_def keeps_set_hook_name)

interpretation cr: cached_hook_contract private_read_event_cache_lru_map private_read_event_cache_lru_map_update
  global_read_event_cache_lru_map global_read_event_cache_lru_map_update ro k "''read_hook''" READ
  "fill_read_event_t k empty_write_event_t fl (calculate_event_hash k fl)" "read_hook_2 ro k"
  "read_hook ro k fl perm" "perm AND MAY_READ \<noteq> 0" fl "''read_hook_2''" for ro k fl perm
proof
  show "read_hook ro k fl perm = cached_hook k ''read_hook'' (perm AND MAY_READ \<noteq> 0) fl
     (get_event_verdict_from_cache private_read_event_cache_lru_map private_read_event_cache_lru_map_update
       global_read_event_cache_lru_map) (event_body ro k ''read_hook''
       (into READ Data_write (fill_read_event_t k empty_write_event_t fl (calculate_event_hash k fl))) (read_hook_2 ro k))"
    unfolding read_hook_form get_read_event_verdict_from_cache_def [abs_def] by (rule refl)
  show "read_hook_2 ro k = do {
       set_hook_name (lit ''read_hook_2'');
       verdict \<leftarrow> generic_tail_call ro (current_pid k) READ;
       current_event \<leftarrow> get_currently_handled_event;
       (case current_event of
          None \<Rightarrow> State_Monad.return ()
        | Some e \<Rightarrow> update_event_verdict_to_cache private_read_event_cache_lru_map_update
            global_read_event_cache_lru_map_update (w_event_hash (data_write ro e)) (word_of_int verdict));
       State_Monad.return (if verdict = ALLOW then ALLOW else DENY) }"
    unfolding read_hook_2_def update_read_event_verdict_to_cache_def by (rule refl)
qed (simp_all add: monitor_view_def keeps_set_hook_name)

text \<open>The file of a read or a write, as the rules see it.\<close>

definition access_data :: "kernel \<Rightarrow> path_v \<Rightarrow> bytes list \<Rightarrow> write_event_t" where
  "access_data k fl ns = \<lparr>w_event_hash = calculate_event_hash k fl, w_file = path_file k fl ns\<rparr>"

lemma fill_access:
  assumes "path_ok k fl ns" "ok_name (d_name (dentries k (fst fl)))" "fill_ready s"
  shows "fst (run_state (fill_write_event_t k empty_write_event_t fl (calculate_event_hash k fl)) s) = (SUCCESS, access_data k fl ns)"
    and "fst (run_state (fill_read_event_t k empty_write_event_t fl (calculate_event_hash k fl)) s) = (SUCCESS, access_data k fl ns)"
  using fill_path_file [OF assms]
  by (auto simp: fill_write_event_t_def fill_read_event_t_def empty_write_event_t_def access_data_def)

lemma wf_access:
  assumes "path_ok k fl ns" "ok_name (d_name (dentries k (fst fl)))" "subjects_cached k s p pp"
    and "ty = WRITE \<or> ty = READ"
  shows "wf_event_strings ro (built k s ty (Data_write (access_data k fl ns)) p pp)"
  using assms wf_path_file [OF assms(1,2)]
  by (intro wf_event) (auto simp: subjects_cached_def target_simps access_data_def)

lemma write_then_hit:
  assumes "hook_ready k s" "monitored k s" "perm AND (MAY_WRITE OR MAY_APPEND) \<noteq> 0" "file_kind_ok k fl"
    and "private_write_event_cache_lru_map s (calculate_event_hash k fl) = None"
      "global_write_event_cache_lru_map s (calculate_event_hash k fl) = None"
    and "path_ok k fl ns" "ok_name (d_name (dentries k (fst fl)))"
    and "subjects_cached k s p pp" "rules_ok ro WRITE ex"
  shows "\<exists>v s1 s2. run_state (write_hook ro k fl perm) s = (v, s1) \<and>
    enforced ro k (decision ro ex WRITE (built k s WRITE (Data_write (access_data k fl ns)) p pp)) v s s1 \<and>
    run_state (write_hook ro k fl perm) s1 = (v, s2) \<and> rb s2 = rb s1 \<and> sent_signals s2 = sent_signals s1"
  by (rule cw.hook_then_hit [OF assms(1-6) fill_access(1) [OF assms(7,8)] _ assms(9,10)])
    (use wf_access [OF assms(7,8,9)] in \<open>auto simp: access_data_def\<close>)

lemma read_then_hit:
  assumes "hook_ready k s" "monitored k s" "perm AND MAY_READ \<noteq> 0" "file_kind_ok k fl"
    and "private_read_event_cache_lru_map s (calculate_event_hash k fl) = None"
      "global_read_event_cache_lru_map s (calculate_event_hash k fl) = None"
    and "path_ok k fl ns" "ok_name (d_name (dentries k (fst fl)))"
    and "subjects_cached k s p pp" "rules_ok ro READ ex"
  shows "\<exists>v s1 s2. run_state (read_hook ro k fl perm) s = (v, s1) \<and>
    enforced ro k (decision ro ex READ (built k s READ (Data_write (access_data k fl ns)) p pp)) v s s1 \<and>
    run_state (read_hook ro k fl perm) s1 = (v, s2) \<and> rb s2 = rb s1 \<and> sent_signals s2 = sent_signals s1"
  by (rule cr.hook_then_hit [OF assms(1-6) fill_access(2) [OF assms(7,8)] _ assms(9,10)])
    (use wf_access [OF assms(7,8,9)] in \<open>auto simp: access_data_def\<close>)

end
