(* ===== verification/Hooks_Process.thy ===== *)
theory Hooks_Process
  imports Hook_Contract
begin

text \<open>
  The hooks of the life of a process: \<^verbatim>\<open>on_exec.bpf.c\<close>, \<^verbatim>\<open>on_fork.bpf.c\<close>, \<^verbatim>\<open>on_exit.bpf.c\<close> and
  \<^verbatim>\<open>on_syscall.bpf.c\<close>. They keep the process caches, pass protection on to children and carry out
  the killing of marked parents.
\<close>

section \<open>Execution\<close>

text \<open>\<^verbatim>\<open>bpf_map_update_elem\<close> with \<^verbatim>\<open>BPF_NOEXIST\<close> fails when the key is present.\<close>

definition map_insert_elem ::
  "(bpf_state \<Rightarrow> ('k \<rightharpoonup> 'v)) \<Rightarrow> ((('k \<rightharpoonup> 'v) \<Rightarrow> ('k \<rightharpoonup> 'v)) \<Rightarrow> bpf_state \<Rightarrow> bpf_state) \<Rightarrow> 'k \<Rightarrow> 'v \<Rightarrow> bool bpf" where
  "map_insert_elem fs fu key v = do {
     m \<leftarrow> reads fs;
     if m key \<noteq> None then State_Monad.return False else map_update_elem fu key v }"

definition bprm_creds_for_exec :: "kernel \<Rightarrow> int bpf" where
  "bprm_creds_for_exec k = do {
     set_hook_name (lit ''bprm_creds_for_exec'');
     let pid = current_pid k;
     related \<leftarrow> is_current_pid_related pid;
     if related then State_Monad.return ALLOW
     else if is_system_task k then State_Monad.return ALLOW
     else if \<not> is_task_with_mm k then do {
       ok \<leftarrow> map_update_elem kthread_exec_pids_update pid pid;
       (if \<not> ok then REPORT_ERROR GENERIC_ERROR ''bprm_creds_for_exec'' else State_Monad.return ());
       State_Monad.return ALLOW }
     else do {
       cached \<leftarrow> is_process_in_alive_process_cache pid;
       if cached then State_Monad.return ALLOW
       else do {
         old_process \<leftarrow> allocate_process_t;
         case old_process of
           None \<Rightarrow> do { REPORT_ERROR GENERIC_ERROR ''bprm_creds_for_exec''; State_Monad.return ALLOW }
         | Some slot \<Rightarrow> do {
             p0 \<leftarrow> load_process slot;
             (ret, p) \<leftarrow> fill_current_process_t k p0;
             store_process slot p;
             if ret \<noteq> SUCCESS then do {
               REPORT_ERROR GENERIC_ERROR ''bprm_creds_for_exec''; State_Monad.return ALLOW }
             else do {
               ret2 \<leftarrow> update_process_in_alive_process_cache pid p;
               (if ret2 \<noteq> SUCCESS then REPORT_ERROR GENERIC_ERROR ''bprm_creds_for_exec''
                else State_Monad.return ());
               State_Monad.return ALLOW } } } } }"

definition bprm_committed_creds :: "kernel \<Rightarrow> int bpf" where
  "bprm_committed_creds k = do {
     set_hook_name (lit ''bprm_committed_creds'');
     user \<leftarrow> is_userspace_program k;
     if \<not> user then State_Monad.return ALLOW
     else do {
       related \<leftarrow> is_current_pid_related (current_pid k);
       if related then State_Monad.return ALLOW
       else do {
         ok \<leftarrow> map_insert_elem exec_pids exec_pids_update (current_pid k) 0;
         (if \<not> ok then REPORT_ERROR GENERIC_ERROR ''bprm_committed_creds'' else State_Monad.return ());
         State_Monad.return ALLOW } } }"

definition exec_hook_2 :: "ro_env \<Rightarrow> kernel \<Rightarrow> int bpf" where
  "exec_hook_2 ro k = do {
     set_hook_name (lit ''exec_hook_2'');
     generic_tail_call ro (current_pid k) EXEC }"

text \<open>The label \<^verbatim>\<open>allow_event\<close>, with the report before the jump.\<close>

definition give_up :: "string \<Rightarrow> int bpf" where
  "give_up loc = do { REPORT_ERROR GENERIC_ERROR loc; ringbuf_discard; State_Monad.return ALLOW }"

definition exec_hook :: "ro_env \<Rightarrow> kernel \<Rightarrow> int bpf" where
  "exec_hook ro k = do {
     set_hook_name (lit ''exec_hook'');
     let pid = current_pid k;
     executing \<leftarrow> reads (\<lambda>s. exec_pids s pid \<noteq> None);
     if \<not> executing then State_Monad.return ALLOW
     else do {
       event \<leftarrow> allocate_event_with_basic_stats (ktime_ns k);
       case event of
         None \<Rightarrow> do { REPORT_ERROR GENERIC_ERROR ''exec_hook''; State_Monad.return ALLOW }
       | Some e \<Rightarrow> do {
           old_process \<leftarrow> get_process_from_alive_process_cache pid;
           case old_process of
             None \<Rightarrow> give_up ''exec_hook''
           | Some slot \<Rightarrow> do {
               ok \<leftarrow> helper_ok;
               if \<not> ok then give_up ''exec_hook''
               else do {
                 old \<leftarrow> load_process slot;
                 (_, parent) \<leftarrow> fill_event_parent_process_from_cache k old (ev_parent_process e);
                 (ret, filled) \<leftarrow> fill_current_process_t k empty_process_t;
                 if ret \<noteq> SUCCESS then give_up ''exec_hook''
                 else do {
                   let new_process = filled\<lparr>p_ppid := p_ppid old, p_unique_ppid_id := p_unique_ppid_id old\<rparr>;
                   ret2 \<leftarrow> update_process_in_alive_process_cache pid new_process;
                   if ret2 \<noteq> SUCCESS then give_up ''exec_hook''
                   else do {
                     _ \<leftarrow> map_delete_elem exec_pids exec_pids_update pid;
                     _ \<leftarrow> store_currently_handled_event ro (e\<lparr>ev_type := EXEC, ev_process := old,
                       ev_parent_process := parent, ev_data := Data_exec \<lparr>exec_new_process = new_process\<rparr>\<rparr>);
                     ringbuf_discard;
                     reset_tail_counter;
                     tailed \<leftarrow> do_tail_call;
                     if tailed then exec_hook_2 ro k else State_Monad.return ALLOW } } } } } } }"

section \<open>Fork\<close>

text \<open>The part between the allocation of the event and the label \<^verbatim>\<open>handle_event\<close>.\<close>

definition cache_forking_process :: "kernel \<Rightarrow> unit bpf" where
  "cache_forking_process k = do {
     let ppid = current_pid k;
     cached \<leftarrow> is_process_in_alive_process_cache ppid;
     if cached then State_Monad.return ()
     else do {
       parent_process \<leftarrow> allocate_process_t;
       case parent_process of
         None \<Rightarrow> REPORT_ERROR GENERIC_ERROR ''fork_hook''
       | Some slot \<Rightarrow> do {
           p0 \<leftarrow> load_process slot;
           (_, p) \<leftarrow> fill_process_t k p0 (current_task k);
           store_process slot p;
           ret \<leftarrow> update_process_in_alive_process_cache ppid p;
           (if ret \<noteq> SUCCESS then REPORT_ERROR GENERIC_ERROR ''fork_hook'' else State_Monad.return ()) } } }"

text \<open>The part of the hook that records the new process, from the allocation of the event on.\<close>

definition record_fork :: "kernel \<Rightarrow> ptr \<Rightarrow> int bpf" where
  "record_fork k child_task = do {
     let pid = t_tgid (tasks k child_task);
     event \<leftarrow> allocate_event_with_basic_stats (ktime_ns k);
     case event of
       None \<Rightarrow> do { REPORT_ERROR GENERIC_ERROR ''fork_hook''; State_Monad.return ALLOW }
     | Some e \<Rightarrow> do {
         cache_forking_process k;
         (ret, p) \<leftarrow> fill_process_t k (ev_process e) child_task;
         if ret \<noteq> SUCCESS then give_up ''fork_hook''
         else do {
           (_, parent) \<leftarrow> fill_event_parent_process_from_cache k p (ev_parent_process e);
           ret2 \<leftarrow> update_process_in_alive_process_cache pid p;
           if ret2 \<noteq> SUCCESS then give_up ''fork_hook''
           else do {
             ringbuf_submit (e\<lparr>ev_type := FORK, ev_process := p, ev_parent_process := parent\<rparr>);
             State_Monad.return ALLOW } } } }"

definition fork_hook :: "kernel \<Rightarrow> ptr \<Rightarrow> int bpf" where
  "fork_hook k child_task = do {
     set_hook_name (lit ''fork_hook'');
     user \<leftarrow> is_userspace_program k;
     if \<not> user then State_Monad.return ALLOW
     else do {
       let ppid = current_pid k;
       let pid = t_tgid (tasks k child_task);
       if ppid = pid then State_Monad.return ALLOW
       else do {
         protected \<leftarrow> is_current_pid_protected ppid;
         (if protected then add_pid_to_protected_processes pid else State_Monad.return ());
         related \<leftarrow> is_current_pid_related ppid;
         if related then do { add_pid_to_related_pids pid; State_Monad.return ALLOW }
         else record_fork k child_task } } }"

section \<open>Exit\<close>

text \<open>The part of the hook that runs with an event.\<close>

definition record_exit :: "kernel \<Rightarrow> u64 \<Rightarrow> event_t \<Rightarrow> int bpf" where
  "record_exit k code e = do {
     (_, p) \<leftarrow> fill_event_process_from_cache k (ev_process e);
     (_, parent) \<leftarrow> fill_event_parent_process_from_cache k p (ev_parent_process e);
     _ \<leftarrow> add_process_to_dead_proccesses_lru p;
     delete_shell_command_from_dead_process (p_unique_process_id p);
     delete_process_from_alive_process_cache (current_pid k);
     delete_pid_from_active_shell_pids (current_pid k);
     ringbuf_submit (e\<lparr>ev_type := EXIT, ev_data := Data_exit (fill_exit_event_t code),
       ev_process := p, ev_parent_process := parent\<rparr>);
     State_Monad.return ALLOW }"

definition exit_hook :: "kernel \<Rightarrow> u64 \<Rightarrow> int bpf" where
  "exit_hook k code = do {
     set_hook_name (lit ''exit_hook'');
     let tgid = current_pid k;
     let pid = t_pid (running k);
     user \<leftarrow> is_userspace_program k;
     if \<not> user then do {
       _ \<leftarrow> map_delete_elem kthread_exec_pids kthread_exec_pids_update pid;
       State_Monad.return ALLOW }
     else if tgid \<noteq> pid then State_Monad.return ALLOW
     else do {
       protected \<leftarrow> is_current_pid_protected tgid;
       (if protected then remove_current_pid_from_protected_processes tgid else State_Monad.return ());
       related \<leftarrow> is_current_pid_related tgid;
       if related then do { remove_current_pid_from_related_pids tgid; State_Monad.return ALLOW }
       else do {
         event \<leftarrow> allocate_event_with_basic_stats (ktime_ns k);
         case event of
           None \<Rightarrow> do { REPORT_ERROR GENERIC_ERROR ''exit_hook''; State_Monad.return ALLOW }
         | Some e \<Rightarrow> record_exit k code e } } }"

section \<open>System calls\<close>

definition syscall_enter :: "kernel \<Rightarrow> int bpf" where
  "syscall_enter k = do {
     set_hook_name (lit ''syscall_enter'');
     let pid = current_pid k;
     marked \<leftarrow> reads (\<lambda>s. parent_processes_to_kill s pid \<noteq> None);
     (if marked then do {
        bpf_send_signal pid SIGKILL;
        _ \<leftarrow> map_delete_elem parent_processes_to_kill parent_processes_to_kill_update pid;
        State_Monad.return () }
      else State_Monad.return ());
     State_Monad.return 0 }"

section \<open>Reservations\<close>

lemma releases_give_up: "releases (give_up loc)"
  unfolding give_up_def
  by (intro releases_after [OF keeps_reserved_report] releases_before [OF releases_discard] keeps_return)

lemma reserved_name: "keeps rb_reserved (set_hook_name n)"
  by (rule keeps_set_hook_name) simp_all

lemma reserved_helper: "keeps rb_reserved helper_ok"
  by (rule keeps_helper_ok) simp

lemma keeps_userspace: "keeps f (is_userspace_program k)"
  unfolding is_userspace_program_def is_in_kthread_exec_pids_def by (intro frame_intros)

lemma reserved_pid_sets:
  "keeps rb_reserved (add_pid_to_protected_processes pid)" "keeps rb_reserved (add_pid_to_related_pids pid)"
  "keeps rb_reserved (remove_current_pid_from_protected_processes pid)"
  "keeps rb_reserved (remove_current_pid_from_related_pids pid)"
  "keeps rb_reserved (delete_pid_from_active_shell_pids pid)"
  "keeps rb_reserved (delete_process_from_alive_process_cache pid)"
  "keeps rb_reserved (delete_shell_command_from_dead_process u)"
  unfolding add_pid_to_protected_processes_def add_pid_to_related_pids_def
    remove_current_pid_from_protected_processes_def remove_current_pid_from_related_pids_def
    delete_pid_from_active_shell_pids_def delete_process_from_alive_process_cache_def
    delete_shell_command_from_dead_process_def delete_shell_command_from_process_def
  by (intro frame_intros; simp)+

lemmas reserved_frames = reserved_free report_free_reserved reserved_name reserved_helper reserved_pid_sets keeps_userspace
  keeps_fill_process_t [OF reserved_free(3)] keeps_fill_event_process [OF reserved_free(3)]
  keeps_fill_event_parent [OF reserved_free(3)] keeps_update_alive_fill [OF reserved_free(3)]
  keeps_alloc_fill [OF reserved_free(3)] keeps_store_process [OF reserved_free(2)] keeps_load_process
  keeps_get_process_from_alive [OF reserved_free(2)] keeps_reserved_report keeps_reads keeps_return

lemma balanced_exec_hook: "keeps rb_reserved (exec_hook ro k)"
proof -
  have two: "keeps rb_reserved (exec_hook_2 ro k)"
    unfolding exec_hook_2_def by (intro keeps_bind reserved_name balanced_generic_tail_call)
  have "keeps rb_reserved (fill_current_process_t k p)" for p
    unfolding fill_current_process_t_def by (rule reserved_frames)
  moreover have "keeps rb_reserved (map_delete_elem exec_pids exec_pids_update pid)" for pid
    by (intro frame_intros) simp
  moreover have "keeps rb_reserved (store_currently_handled_event ro e)" for e
    by (rule keeps_store_handled) (simp_all add: report_free_def)
  ultimately show ?thesis
    unfolding exec_hook_def
    by (intro keeps_bind keeps_Let keeps_if reserved_frames balanced_event releases_option releases_prod releases_if
        releases_Let releases_give_up releases_before [OF releases_discard] keeps_reset keeps_do_tail_call two
        releases_after [of "get_process_from_alive_process_cache _"] releases_after [of helper_ok]
        releases_after [of "load_process _"] releases_after [of "fill_event_parent_process_from_cache _ _ _"]
        releases_after [of "fill_current_process_t _ _"] releases_after [of "update_process_in_alive_process_cache _ _"]
        releases_after [of "map_delete_elem _ _ _"] releases_after [of "store_currently_handled_event _ _"]) simp_all
qed

lemma balanced_fork_hook: "keeps rb_reserved (fork_hook k c)"
proof -
  have "keeps rb_reserved (cache_forking_process k)"
    unfolding cache_forking_process_def is_process_in_alive_process_cache_def
    by (intro keeps_bind keeps_Let keeps_if keeps_case_option keeps_case_prod reserved_frames)
  then show ?thesis
    unfolding fork_hook_def record_fork_def is_current_pid_protected_def is_pid_protected_def is_current_pid_related_def
    by (intro keeps_bind keeps_Let keeps_if reserved_frames balanced_event releases_option releases_prod releases_if
        releases_give_up releases_before [OF releases_submit]
        releases_after [of "cache_forking_process _"] releases_after [of "fill_process_t _ _ _"]
        releases_after [of "fill_event_parent_process_from_cache _ _ _"]
        releases_after [of "update_process_in_alive_process_cache _ _"])
qed

lemma balanced_exit_hook: "keeps rb_reserved (exit_hook k code)"
proof -
  have "keeps rb_reserved (map_delete_elem kthread_exec_pids kthread_exec_pids_update pid)" for pid
    by (intro frame_intros) simp
  moreover have "keeps rb_reserved (add_process_to_dead_proccesses_lru p)" for p
    by (rule keeps_add_dead [OF reserved_free(2)]) simp
  ultimately show ?thesis
    unfolding exit_hook_def record_exit_def is_current_pid_protected_def is_pid_protected_def is_current_pid_related_def
    by (intro keeps_bind keeps_Let keeps_if reserved_frames balanced_event releases_prod
        releases_before [OF releases_submit]
        releases_after [of "fill_event_process_from_cache _ _"]
        releases_after [of "fill_event_parent_process_from_cache _ _ _"]
        releases_after [of "add_process_to_dead_proccesses_lru _"]
        releases_after [of "delete_shell_command_from_dead_process _"]
        releases_after [of "delete_process_from_alive_process_cache _"]
        releases_after [of "delete_pid_from_active_shell_pids _"])
qed

section \<open>Protection is inherited\<close>

lemma fill_free_pid_sets: "fill_free protected_processes" "fill_free program_related_pids"
  by (intro frame_intros; simp add: report_free_def)+

lemma keeps_record_fork:
  assumes "fill_free f" "\<And>s g. f (rb_update g s) = f s" "\<And>s g. f (rb_reserved_update g s) = f s"
    "\<And>s g. f (global_event_id_counter_update g s) = f s"
  shows "keeps f (record_fork k c)"
  unfolding record_fork_def give_up_def cache_forking_process_def is_process_in_alive_process_cache_def
  by (intro fill_frames keeps_fill_event_parent keeps_reads keeps_ringbuf_submit keeps_ringbuf_discard
      keeps_allocate_event assms) (use assms in \<open>simp_all add: fill_free_simps\<close>)

text \<open>
  A new process started by a protected process is protected, and one started by a process of
  the program is ignored like it. A fork takes no process out of either set.
\<close>

lemma run_add_pid:
  "helpers_succeed s \<Longrightarrow> protected_processes (snd (run_state (add_pid_to_protected_processes pid) s)) = (protected_processes s)(pid \<mapsto> 1)"
  "helpers_succeed s \<Longrightarrow> program_related_pids (snd (run_state (add_pid_to_related_pids pid) s)) = (program_related_pids s)(pid \<mapsto> 1)"
  by (simp_all add: add_pid_to_protected_processes_def add_pid_to_related_pids_def run_map_update_elem helpers_succeed_def Let_def)

lemma keeps_add_protected:
  "report_free f \<Longrightarrow> (\<And>s g. f (protected_processes_update g s) = f s) \<Longrightarrow> keeps f (add_pid_to_protected_processes pid)"
  unfolding add_pid_to_protected_processes_def by (intro frame_intros) (simp_all add: report_free_def)

lemma keeps_add_related:
  "report_free f \<Longrightarrow> (\<And>s g. f (program_related_pids_update g s) = f s) \<Longrightarrow> keeps f (add_pid_to_related_pids pid)"
  unfolding add_pid_to_related_pids_def by (intro frame_intros) (simp_all add: report_free_def)

lemma fork_sets:
  assumes h: "helpers_succeed s" and user: "is_task_with_mm k" "\<not> is_system_task k" "kthread_exec_pids s (t_pid (running k)) = None"
    and child: "t_tgid (tasks k c) \<noteq> current_pid k"
  shows "protected_processes (snd (run_state (fork_hook k c) s)) = (if protected_processes s (current_pid k) \<noteq> None
      then (protected_processes s)(t_tgid (tasks k c) \<mapsto> 1) else protected_processes s)" (is "_ = ?prot")
    and "program_related_pids (snd (run_state (fork_hook k c) s)) = (if program_related_pids s (current_pid k) \<noteq> None
      then (program_related_pids s)(t_tgid (tasks k c) \<mapsto> 1) else program_related_pids s)" (is "_ = ?rel")
proof -
  let ?pid = "t_tgid (tasks k c)"
  obtain s1 where s1: "run_state (set_hook_name (lit ''fork_hook'')) s = ((), s1)" by (rule exE [OF unit_run])
  have k1: "protected_processes s1 = protected_processes s" "program_related_pids s1 = program_related_pids s"
    "helper_outcome s1 = helper_outcome s" "kthread_exec_pids s1 = kthread_exec_pids s"
    by (rule keepsD [OF keeps_set_hook_name s1]; simp)+
  have h1: "helpers_succeed s1" using h k1(3) by (simp add: helpers_succeed_def)
  let ?add = "if protected_processes s (current_pid k) \<noteq> None then add_pid_to_protected_processes ?pid else State_Monad.return ()"
  obtain s2 where s2: "run_state ?add s1 = ((), s2)" by (rule exE [OF unit_run])
  have p2: "protected_processes s2 = ?prot"
    using s2 run_add_pid(1) [OF h1, of ?pid] k1(1) by (auto split: if_splits)
  have "keeps program_related_pids ?add" "keeps helper_outcome ?add"
    by (intro keeps_if keeps_return keeps_add_protected; simp add: report_free_def)+
  note r2 = this [THEN keepsD, OF s2]
  have h2: "helpers_succeed s2" using r2(2) h1 by (simp add: helpers_succeed_def)
  have run: "snd (run_state (fork_hook k c) s) =
      (if program_related_pids s (current_pid k) \<noteq> None then snd (run_state (add_pid_to_related_pids ?pid) s2)
       else snd (run_state (record_fork k c) s2))"
    using child s2 user by (simp add: fork_hook_def s1 run_is_userspace is_current_pid_protected_def is_pid_protected_def
        run_is_related Let_def k1 r2 case_prod_beta)
  have "keeps protected_processes (add_pid_to_related_pids ?pid)" "keeps protected_processes (record_fork k c)"
    "keeps program_related_pids (record_fork k c)"
    by (intro keeps_add_related keeps_record_fork fill_free_pid_sets; simp add: report_free_def)+
  with run p2 r2(1) k1(2) run_add_pid(2) [OF h2, of ?pid]
  show "protected_processes (snd (run_state (fork_hook k c) s)) = ?prot"
    and "program_related_pids (snd (run_state (fork_hook k c) s)) = ?rel"
    by (simp_all add: keeps_snd)
qed

section \<open>Marked parents\<close>

text \<open>A marked process is killed at its next system call, once.\<close>

lemma syscall_enter_result:
  assumes "helpers_succeed s"
  shows "sent_signals (snd (run_state (syscall_enter k) s)) =
      (if parent_processes_to_kill s (current_pid k) \<noteq> None then (current_pid k, SIGKILL) # sent_signals s else sent_signals s)"
    and "parent_processes_to_kill (snd (run_state (syscall_enter k) s)) = (parent_processes_to_kill s)(current_pid k := None)"
proof -
  obtain s1 where s1: "run_state (set_hook_name (lit ''syscall_enter'')) s = ((), s1)" by (rule exE [OF unit_run])
  have k1: "parent_processes_to_kill s1 = parent_processes_to_kill s" "sent_signals s1 = sent_signals s" "helper_outcome s1 = helper_outcome s"
    by (rule keepsD [OF keeps_set_hook_name s1]; simp)+
  then have h1: "helpers_succeed s1" using assms by (simp add: helpers_succeed_def)
  have run: "snd (run_state (syscall_enter k) s) = (if parent_processes_to_kill s (current_pid k) \<noteq> None
      then s1\<lparr>helper_calls := Suc (helper_calls s1), sent_signals := (current_pid k, SIGKILL) # sent_signals s1,
        parent_processes_to_kill := (parent_processes_to_kill s1)(current_pid k := None)\<rparr> else s1)"
    using k1(1) by (simp add: syscall_enter_def s1 run_send_signal [OF h1] run_map_delete_elem Let_def)
  show "sent_signals (snd (run_state (syscall_enter k) s)) =
      (if parent_processes_to_kill s (current_pid k) \<noteq> None then (current_pid k, SIGKILL) # sent_signals s else sent_signals s)"
    using run k1(2) by simp
  show "parent_processes_to_kill (snd (run_state (syscall_enter k) s)) = (parent_processes_to_kill s)(current_pid k := None)"
    using run k1(1) by (simp add: fun_upd_idem)
qed

section \<open>Exit\<close>

text \<open>
  An exiting process moves from the cache of running processes to the cache of dead ones, under
  its unique id and without its shell command, and is no longer protected.
\<close>

definition without_shell_command :: "process_t \<Rightarrow> process_t" where
  "without_shell_command p =
     (if c_length (p_shell_command p) > 0 then p\<lparr>p_shell_command := empty_command_line_t\<rparr> else p)"

lemma run_delete_shell_dead:
  assumes "helpers_succeed s" and "dead_process_cache_lru_map s u = Some p"
  shows "dead_process_cache_lru_map (snd (run_state (delete_shell_command_from_dead_process u) s)) u = Some (without_shell_command p)"
  using assms by (simp add: delete_shell_command_from_dead_process_def delete_shell_command_from_process_def helpers_succeed_def
      without_shell_command_def)

lemma keeps_delete_shell_dead:
  "report_free f \<Longrightarrow> (\<And>s g. f (dead_process_cache_lru_map_update g s) = f s) \<Longrightarrow> keeps f (delete_shell_command_from_dead_process u)"
  unfolding delete_shell_command_from_dead_process_def delete_shell_command_from_process_def
  by (intro frame_intros) (simp_all add: report_free_def)

lemma record_exit_result:
  assumes ready: "fill_ready s" and cached: "alive_process_cache_map s (current_pid k) = Some p"
  shows "\<exists>s'. run_state (record_exit k code e) s = (ALLOW, s') \<and>
    alive_process_cache_map s' (current_pid k) = None \<and>
    dead_process_cache_lru_map s' (p_unique_process_id p) = Some (without_shell_command p) \<and>
    active_shell_pids s' (current_pid k) = None \<and> protected_processes s' = protected_processes s \<and>
    (\<exists>parent. rb s' = e\<lparr>ev_type := EXIT, ev_data := Data_exit (fill_exit_event_t code),
       ev_process := p, ev_parent_process := parent\<rparr> # rb s)"
proof -
  let ?u = "p_unique_process_id p"
  obtain s1 where s1: "run_state (fill_event_process_from_cache k (ev_process e)) s = ((SUCCESS, p), s1)" "fill_ready s1"
    using fill_process_cached [OF ready, of k "current_task k" p] cached
    by (auto simp: fill_event_process_from_cache_def current_pid_def)
  obtain r parent s2 where s2: "run_state (fill_event_parent_process_from_cache k p (ev_parent_process e)) s1 = ((r, parent), s2)"
    by (metis prod.exhaust)
  have r2: "fill_ready s2" using preservesD [OF fill_ready_event_parent s1(2)] s2 by (metis snd_conv)
  obtain s3 where s3: "run_state (add_process_to_dead_proccesses_lru p) s2 = (SUCCESS, s3)"
    "dead_process_cache_lru_map s3 ?u = Some p" "helpers_succeed s3"
    using dead.update_then_lookup [of s2 ?u p] r2
    unfolding add_process_to_dead_proccesses_lru_def fill_ready_def by blast
  obtain s4 where s4: "run_state (delete_shell_command_from_dead_process ?u) s3 = ((), s4)" by (rule exE [OF unit_run])
  have d4: "dead_process_cache_lru_map s4 ?u = Some (without_shell_command p)"
    using run_delete_shell_dead [OF s3(3,2)] s4 by simp
  have fr: "f s4 = f s" if "fill_free f" "\<And>s g. f (dead_process_cache_lru_map_update g s) = f s" for f :: "bpf_state \<Rightarrow> (u32 \<rightharpoonup> u32) \<times> event_t list"
    using keepsD [OF keeps_fill_event_process [OF that(1)] s1(1)] keepsD [OF keeps_fill_event_parent [OF that(1)] s2]
      keepsD [OF keeps_add_dead [OF fill_free_proc [OF that(1)] that(2)] s3(1)]
      keepsD [OF keeps_delete_shell_dead [OF _ that(2)] s4] that(1) by (simp add: fill_free_simps)
  have "(\<lambda>s. (protected_processes s, rb s)) s4 = (\<lambda>s. (protected_processes s, rb s)) s"
    by (rule fr) (simp_all add: fill_free_simps)
  with s1 s2 s3 s4 d4 show ?thesis
    by (simp add: record_exit_def delete_process_from_alive_process_cache_def delete_pid_from_active_shell_pids_def
        run_map_delete_elem) blast
qed

lemma exit_result:
  assumes ready: "fill_ready s" "global_event_id_counter s \<noteq> 0" and mon: "monitored k s"
    and leader: "t_pid (running k) = current_pid k" and cached: "alive_process_cache_map s (current_pid k) = Some p"
  shows "\<exists>s'. run_state (exit_hook k code) s = (ALLOW, s') \<and>
    alive_process_cache_map s' (current_pid k) = None \<and>
    dead_process_cache_lru_map s' (p_unique_process_id p) = Some (without_shell_command p) \<and>
    protected_processes s' = (protected_processes s)(current_pid k := None) \<and>
    (\<exists>parent. rb s' = (fresh_event k s)\<lparr>ev_type := EXIT, ev_data := Data_exit (fill_exit_event_t code),
       ev_process := p, ev_parent_process := parent\<rparr> # rb s)"
proof -
  obtain s1 where s1: "run_state (set_hook_name (lit ''exit_hook'')) s = ((), s1)" by (rule exE [OF unit_run])
  have k1: "protected_processes s1 = protected_processes s" "alive_process_cache_map s1 = alive_process_cache_map s"
    "global_event_id_counter s1 = global_event_id_counter s" "rb s1 = rb s"
    by (rule keepsD [OF keeps_set_hook_name s1]; simp)+
  have mon1: "monitored k s1" using monitored_hook_name [of k "lit ''exit_hook''" s] s1 mon by simp
  have r1: "fill_ready s1"
    using preservesD [OF fill_ready_hook_name ready(1)] s1 by (metis snd_conv)
  let ?rem = "if protected_processes s (current_pid k) \<noteq> None then remove_current_pid_from_protected_processes (current_pid k)
     else State_Monad.return ()"
  let ?s2 = "s1\<lparr>protected_processes := (protected_processes s)(current_pid k := None)\<rparr>"
  have s2: "run_state ?rem s1 = ((), ?s2)"
    using k1(1) by (auto simp: remove_current_pid_from_protected_processes_def run_map_delete_elem fun_upd_idem)
  have r2: "fill_ready ?s2" using r1 by (simp add: fill_ready_def helpers_succeed_def heap_ok_def buffers_ready_def)
  let ?s3 = "?s2\<lparr>helper_calls := Suc (Suc (helper_calls ?s2)), rb_reserved := Suc (rb_reserved ?s2),
       global_event_id_counter := global_event_id_counter ?s2 + 1\<rparr>"
  have a: "run_state (allocate_event_with_basic_stats (ktime_ns k)) ?s2 = (Some (fresh_event k s), ?s3)"
    using run_allocate_event [of ?s2 k] r2 ready(2) k1(3) by (simp add: fill_ready_def fresh_event_def)
  have r3: "fill_ready ?s3" using r2 by (simp add: fill_ready_def helpers_succeed_def heap_ok_def buffers_ready_def)
  obtain s4 where s4: "run_state (record_exit k code (fresh_event k s)) ?s3 = (ALLOW, s4)"
    "alive_process_cache_map s4 (current_pid k) = None"
    "dead_process_cache_lru_map s4 (p_unique_process_id p) = Some (without_shell_command p)"
    "protected_processes s4 = protected_processes ?s3"
    "\<exists>parent. rb s4 = (fresh_event k s)\<lparr>ev_type := EXIT, ev_data := Data_exit (fill_exit_event_t code),
       ev_process := p, ev_parent_process := parent\<rparr> # rb ?s3"
    using record_exit_result [OF r3, of k p code "fresh_event k s"] cached k1(2) by auto
  have m: "is_task_with_mm k" "\<not> is_system_task k" "kthread_exec_pids s1 (t_pid (running k)) = None"
    "program_related_pids s1 (current_pid k) = None" using mon1 by (auto simp: monitored_def)
  have "run_state (exit_hook k code) s = (ALLOW, s4)"
    using s1 s2 a s4(1) m leader k1(1)
    by (simp add: exit_hook_def run_is_userspace is_current_pid_protected_def is_pid_protected_def run_is_related Let_def)
  with s4 k1(4) show ?thesis by simp
qed

section \<open>Execution keeps the original parent\<close>

text \<open>
  After an exec the cache holds the new image of the process, which keeps the parent the process
  was forked by, and the process is no longer waiting for its exec event.
\<close>

lemma fill_process_identity:
  assumes "exe_file_of (tasks k t) \<noteq> None"
  shows "\<exists>p' s'. run_state (fill_process_t k p t) s = ((SUCCESS, p'), s') \<and> p_pid p' = t_tgid (tasks k t) \<and>
    p_start_time p' = t_start_time (tasks k t) \<and>
    p_unique_process_id p' = build_process_unique_id (t_tgid (tasks k t)) (t_start_time (tasks k t))"
  using assms by (auto simp: fill_process_t_def fill_process_t_numeric_values_def Let_def case_prod_beta)

text \<open>The steps of the hook after the cache was updated.\<close>

lemma exec_tail_frame:
  "keeps alive_process_cache_map (do { _ \<leftarrow> store_currently_handled_event ro e; ringbuf_discard; reset_tail_counter;
     tailed \<leftarrow> do_tail_call; if tailed then exec_hook_2 ro k else State_Monad.return ALLOW })"
  "keeps exec_pids (do { _ \<leftarrow> store_currently_handled_event ro e; ringbuf_discard; reset_tail_counter;
     tailed \<leftarrow> do_tail_call; if tailed then exec_hook_2 ro k else State_Monad.return ALLOW })"
  unfolding exec_hook_2_def
  by (intro keeps_bind keeps_store_handled keeps_reset keeps_do_tail_call keeps_if keeps_return keeps_ringbuf_discard
      keeps_set_hook_name keeps_generic_tail_call matcher_freeI proc_freeI; simp add: report_free_def)+

lemma exec_result:
  assumes ready: "fill_ready s" "global_event_id_counter s \<noteq> 0" and executing: "exec_pids s (current_pid k) \<noteq> None"
    and old: "alive_process_cache_map s (current_pid k) = Some old" and exe: "exe_file_of (running k) \<noteq> None"
  shows "\<exists>new s'. snd (run_state (exec_hook ro k) s) = s' \<and> alive_process_cache_map s' (current_pid k) = Some new \<and>
    p_pid new = current_pid k \<and> p_ppid new = p_ppid old \<and> p_unique_ppid_id new = p_unique_ppid_id old \<and>
    p_start_time new = t_start_time (running k) \<and> exec_pids s' (current_pid k) = None"
proof -
  let ?pid = "current_pid k" and ?e = "fresh_event k s"
  obtain s1 where s1: "run_state (set_hook_name (lit ''exec_hook'')) s = ((), s1)" by (rule exE [OF unit_run])
  have k1: "exec_pids s1 = exec_pids s" "alive_process_cache_map s1 = alive_process_cache_map s"
    "global_event_id_counter s1 = global_event_id_counter s"
    by (rule keepsD [OF keeps_set_hook_name s1]; simp)+
  have r1: "fill_ready s1" using preservesD [OF fill_ready_hook_name ready(1)] s1 by (metis snd_conv)
  let ?s2 = "s1\<lparr>helper_calls := Suc (Suc (helper_calls s1)), rb_reserved := Suc (rb_reserved s1),
       global_event_id_counter := global_event_id_counter s1 + 1\<rparr>"
  have s2: "run_state (allocate_event_with_basic_stats (ktime_ns k)) s1 = (Some ?e, ?s2)"
    using run_allocate_event [of s1 k] r1 ready(2) k1(3) by (simp add: fill_ready_def fresh_event_def)
  have r2: "fill_ready ?s2" using r1 by (simp add: fill_ready_def helpers_succeed_def heap_ok_def buffers_ready_def)
  obtain i s3 where s3: "run_state (get_process_from_alive_process_cache ?pid) ?s2 = (Some i, s3)"
    "heap_process_t_map s3 i = Some old" "fill_ready s3"
    using lookup_alive [OF r2, of ?pid old] old k1(2) by auto
  let ?s4 = "s3\<lparr>helper_calls := Suc (helper_calls s3)\<rparr>"
  have ok: "run_state helper_ok s3 = (True, ?s4)" using s3(3) by (simp add: fill_ready_def helpers_succeed_def)
  have load: "run_state (load_process i) ?s4 = (old, ?s4)" using s3(2) by (simp add: load_process_def)
  have r4: "fill_ready ?s4" by (rule fill_ready_helper [OF s3(3)])
  obtain r parent s5 where s5: "run_state (fill_event_parent_process_from_cache k old (ev_parent_process ?e)) ?s4 = ((r, parent), s5)"
    by (metis prod.exhaust)
  have r5: "fill_ready s5" using preservesD [OF fill_ready_event_parent r4] s5 by (metis snd_conv)
  obtain p s6 where s6: "run_state (fill_current_process_t k empty_process_t) s5 = ((SUCCESS, p), s6)"
    "p_pid p = ?pid" "p_start_time p = t_start_time (running k)"
    using fill_process_identity [OF exe, of empty_process_t s5] by (auto simp: fill_current_process_t_def current_pid_def)
  have r6: "fill_ready s6"
    using preservesD [OF fill_ready_process r5] s6(1) unfolding fill_current_process_t_def by (metis snd_conv)
  let ?new = "p\<lparr>p_ppid := p_ppid old, p_unique_ppid_id := p_unique_ppid_id old\<rparr>"
  obtain s7 where s7: "run_state (update_process_in_alive_process_cache ?pid ?new) s6 = (SUCCESS, s7)"
    "alive_process_cache_map s7 ?pid = Some ?new"
    using alive.update_then_lookup [of s6 ?pid ?new] r6
    unfolding update_process_in_alive_process_cache_def fill_ready_def by blast
  let ?s8 = "exec_pids_update (\<lambda>m. m(?pid := None)) s7"
  obtain x where x: "exec_pids s ?pid = Some x" using executing by blast
  let ?ev = "?e\<lparr>ev_type := EXEC, ev_process := old, ev_parent_process := parent, ev_data := Data_exec \<lparr>exec_new_process = ?new\<rparr>\<rparr>"
  let ?tail = "do { _ \<leftarrow> store_currently_handled_event ro ?ev; ringbuf_discard; reset_tail_counter;
     tailed \<leftarrow> do_tail_call; if tailed then exec_hook_2 ro k else State_Monad.return ALLOW }"
  have "run_state (exec_hook ro k) s = run_state ?tail ?s8"
    by (simp add: exec_hook_def x s1 k1(1) s2 s3(1) ok load s5 s6(1) s7(1) Let_def run_map_delete_elem
        del: run_helper_ok)
  then show ?thesis
    using keeps_snd [OF exec_tail_frame(1), of ro ?ev k ?s8] keeps_snd [OF exec_tail_frame(2), of ro ?ev k ?s8] s7(2) s6(2,3)
    by simp
qed

end
