(* ===== verification/Hooks_Tamper.thy ===== *)
theory Hooks_Tamper
  imports Hooks_Process
begin

text \<open>
  Anti-tampering (\<^verbatim>\<open>on_signal.bpf.c\<close> and \<^verbatim>\<open>on_ptrace.bpf.c\<close>): a signal to, or an attachment of a tracer
  to, a protected process by a process that is not protected is met with the configured
  action. The two hooks share the contract \<open>guard_contract\<close>.
\<close>

section \<open>Hooks\<close>

text \<open>The last argument of \<^verbatim>\<open>task_kill\<close>: two constants, or a structure with a code.\<close>

datatype kernel_siginfo = SEND_SIG_NOINFO | SEND_SIG_PRIV | Siginfo int

definition empty_signal_event_t :: signal_event_t where
  "empty_signal_event_t = \<lparr>sg_process = empty_process_t, sg_signal = 0\<rparr>"

definition empty_ptrace_event_t :: ptrace_event_t where
  "empty_ptrace_event_t = \<lparr>pc_process = empty_process_t, pc_mode = 0\<rparr>"

text \<open>The statements of both hooks from the killing of processes to the verdict.\<close>

definition apply_tampering_action :: "ro_env \<Rightarrow> kernel \<Rightarrow> event_t \<Rightarrow> int bpf" where
  "apply_tampering_action ro k event = do {
     (if ev_action event = BLOCK_KILL_PROCESS \<or> ev_action event = BLOCK_KILL_PROCESS_KILL_PARENT
      then kill_proccesses ro (current_pid k) (ev_action event) event else State_Monad.return ());
     let verdict = (if ev_action event = BLOCK_EVENT \<or> ev_action event = BLOCK_KILL_PROCESS
         \<or> ev_action event = BLOCK_KILL_PROCESS_KILL_PARENT then DENY else ALLOW);
     (if ev_action event \<noteq> EXCLUDE_EVENT then ringbuf_submit event else ringbuf_discard);
     State_Monad.return verdict }"

definition signal_hook :: "ro_env \<Rightarrow> kernel \<Rightarrow> ptr \<Rightarrow> kernel_siginfo \<Rightarrow> u32 \<Rightarrow> int bpf" where
  "signal_hook ro k p info sig = do {
     set_hook_name (lit ''signal_hook'');
     case info of
       SEND_SIG_NOINFO \<Rightarrow> State_Monad.return ALLOW
     | SEND_SIG_PRIV \<Rightarrow> State_Monad.return ALLOW
     | Siginfo code \<Rightarrow> do {
         ok \<leftarrow> helper_ok;
         let si_code = (if ok then code else 0);
         if si_code > 0 then State_Monad.return ALLOW
         else if current_pid k \<le> 1 then State_Monad.return ALLOW
         else do {
           let receiver_pid = t_tgid (tasks k p);
           protected \<leftarrow> is_pid_protected receiver_pid;
           if \<not> protected then State_Monad.return ALLOW
           else do {
             self \<leftarrow> is_current_pid_protected (current_pid k);
             if self then State_Monad.return ALLOW
             else do {
               event \<leftarrow> allocate_event_with_basic_stats (ktime_ns k);
               case event of
                 None \<Rightarrow> do { REPORT_ERROR GENERIC_ERROR ''signal_hook''; State_Monad.return ALLOW }
               | Some e \<Rightarrow> do {
                   (ret, sender) \<leftarrow> fill_event_process_from_cache k (ev_process e);
                   if ret \<noteq> SUCCESS then give_up ''signal_hook''
                   else do {
                     (_, parent) \<leftarrow> fill_event_parent_process_from_cache k sender (ev_parent_process e);
                     (ret2, receiver) \<leftarrow> fill_event_process_from_cache_for_task k (sg_process empty_signal_event_t) p;
                     if ret2 \<noteq> SUCCESS then give_up ''signal_hook''
                     else apply_tampering_action ro k (e\<lparr>ev_type := SIGNAL, ev_action := anti_tampering_signals_action ro,
                       ev_process := sender, ev_parent_process := parent,
                       ev_data := Data_signal \<lparr>sg_process = receiver, sg_signal = sig\<rparr>\<rparr>) } } } } } } }"

abbreviation PTRACE_MODE_ATTACH :: u32 where "PTRACE_MODE_ATTACH \<equiv> 0x02"

definition ptrace_hook :: "ro_env \<Rightarrow> kernel \<Rightarrow> ptr \<Rightarrow> u32 \<Rightarrow> int bpf" where
  "ptrace_hook ro k child mode = do {
     set_hook_name (lit ''ptrace_hook'');
     if mode AND PTRACE_MODE_ATTACH = 0 then State_Monad.return ALLOW
     else if current_pid k \<le> 1 then State_Monad.return ALLOW
     else do {
       let receiver_pid = t_tgid (tasks k child);
       protected \<leftarrow> is_pid_protected receiver_pid;
       if \<not> protected then State_Monad.return ALLOW
       else do {
         self \<leftarrow> is_current_pid_protected (current_pid k);
         if self then State_Monad.return ALLOW
         else do {
           event \<leftarrow> allocate_event_with_basic_stats (ktime_ns k);
           case event of
             None \<Rightarrow> do { REPORT_ERROR GENERIC_ERROR ''ptrace_hook''; State_Monad.return ALLOW }
           | Some e \<Rightarrow> do {
               (ret, sender) \<leftarrow> fill_event_process_from_cache k (ev_process e);
               if ret \<noteq> SUCCESS then give_up ''ptrace_hook''
               else do {
                 (_, parent) \<leftarrow> fill_event_parent_process_from_cache k sender (ev_parent_process e);
                 (ret2, receiver) \<leftarrow> fill_event_process_from_cache_for_task k (pc_process empty_ptrace_event_t) child;
                 if ret2 \<noteq> SUCCESS then give_up ''ptrace_hook''
                 else apply_tampering_action ro k (e\<lparr>ev_type := PTRACE, ev_action := anti_tampering_ptrace_action ro,
                   ev_process := sender, ev_parent_process := parent,
                   ev_data := Data_ptrace \<lparr>pc_process = receiver, pc_mode = mode\<rparr>\<rparr>) } } } } } }"

section \<open>The common part\<close>

text \<open>What both hooks do once an event of tampering is to be reported.\<close>

definition report_tampering ::
  "ro_env \<Rightarrow> kernel \<Rightarrow> string \<Rightarrow> ptr \<Rightarrow> rule_action \<Rightarrow> event_type \<Rightarrow> (process_t \<Rightarrow> event_data) \<Rightarrow> int bpf" where
  "report_tampering ro k loc target action ty con = do {
     event \<leftarrow> allocate_event_with_basic_stats (ktime_ns k);
     case event of
       None \<Rightarrow> do { REPORT_ERROR GENERIC_ERROR loc; State_Monad.return ALLOW }
     | Some e \<Rightarrow> do {
         (ret, sender) \<leftarrow> fill_event_process_from_cache k (ev_process e);
         if ret \<noteq> SUCCESS then give_up loc
         else do {
           (_, parent) \<leftarrow> fill_event_parent_process_from_cache k sender (ev_parent_process e);
           (ret2, receiver) \<leftarrow> fill_event_process_from_cache_for_task k empty_process_t target;
           if ret2 \<noteq> SUCCESS then give_up loc
           else apply_tampering_action ro k (e\<lparr>ev_type := ty, ev_action := action,
             ev_process := sender, ev_parent_process := parent, ev_data := con receiver\<rparr>) } } }"

lemma releases_tampering_action: "releases (apply_tampering_action ro k e)"
  unfolding apply_tampering_action_def
  by (intro releases_after releases_Let releases_before releases_if releases_submit releases_discard keeps_if keeps_return
      keeps_kill_proccesses reserved_free) simp_all

lemma balanced_tampering: "keeps rb_reserved (report_tampering ro k loc t a ty con)"
  unfolding report_tampering_def
  by (intro balanced_event keeps_bind reserved_frames releases_prod releases_if releases_give_up releases_tampering_action
      releases_after [of "fill_event_process_from_cache _ _"] releases_after [of "fill_event_parent_process_from_cache _ _ _"]
      releases_after [of "fill_event_process_from_cache_for_task _ _ _"] keeps_fill_event_process_for_task)

text \<open>The event of an attempt by process \<open>p\<close> with parent \<open>pp\<close> on process \<open>q\<close>.\<close>

definition tampering_event ::
  "kernel \<Rightarrow> bpf_state \<Rightarrow> rule_action \<Rightarrow> event_type \<Rightarrow> event_data \<Rightarrow> process_t \<Rightarrow> process_t \<Rightarrow> event_t" where
  "tampering_event k s a ty d p pp =
     (fresh_event k s)\<lparr>ev_type := ty, ev_action := a, ev_process := p, ev_parent_process := pp, ev_data := d\<rparr>"

lemma tampering_action_result:
  assumes "helpers_succeed s"
  shows "\<exists>v s'. run_state (apply_tampering_action ro k e) s = (v, s') \<and> v = (if blocks (ev_action e) then DENY else ALLOW) \<and>
    rb s' = (if ev_action e \<noteq> EXCLUDE_EVENT then e # rb s else rb s) \<and>
    sent_signals s' = (if kills_process (ev_action e) then (current_pid k, SIGKILL) # sent_signals s else sent_signals s)"
proof -
  define kill where "kill = (if ev_action e = BLOCK_KILL_PROCESS \<or> ev_action e = BLOCK_KILL_PROCESS_KILL_PARENT
      then kill_proccesses ro (current_pid k) (ev_action e) e else State_Monad.return ())"
  obtain s1 where s1: "run_state kill s = ((), s1)" by (rule exE [OF unit_run])
  have "keeps rb kill" unfolding kill_def by (intro keeps_if keeps_return keeps_kill_proccesses frame_intros) simp_all
  from keepsD [OF this s1] have "rb s1 = rb s" .
  moreover have "sent_signals s1 = (if kills_process (ev_action e) then (current_pid k, SIGKILL) # sent_signals s else sent_signals s)"
    using kill_proccesses_signals [OF assms, of ro "current_pid k" "ev_action e" e] s1
    by (auto simp: kill_def kills_process_def split: if_splits)
  ultimately show ?thesis
    by (simp add: apply_tampering_action_def kill_def [symmetric] s1 blocks_def)
qed

lemma report_tampering_result:
  assumes ready: "fill_ready s" "global_event_id_counter s \<noteq> 0"
    and cached: "alive_process_cache_map s (current_pid k) = Some p" "alive_process_cache_map s (p_ppid p) = Some pp"
      "alive_process_cache_map s (t_tgid (tasks k target)) = Some q"
  shows "\<exists>v s'. run_state (report_tampering ro k loc target a ty con) s = (v, s') \<and>
    enforced ro k (tampering_event k s a ty (con q) p pp) v s s'"
proof -
  let ?e = "fresh_event k s" and ?ev = "tampering_event k s a ty (con q) p pp"
  let ?s1 = "s\<lparr>helper_calls := Suc (Suc (helper_calls s)), rb_reserved := Suc (rb_reserved s),
       global_event_id_counter := global_event_id_counter s + 1\<rparr>"
  have s1: "run_state (allocate_event_with_basic_stats (ktime_ns k)) s = (Some ?e, ?s1)"
    using ready by (intro run_allocate_event) (simp_all add: fill_ready_def)
  have r1: "fill_ready ?s1" using ready(1) by (simp add: fill_ready_def helpers_succeed_def heap_ok_def buffers_ready_def)
  obtain s2 where s2: "run_state (fill_event_process_from_cache k (ev_process ?e)) ?s1 = ((SUCCESS, p), s2)" "fill_ready s2"
    "alive_process_cache_map s2 = alive_process_cache_map s"
    using fill_process_cached [OF r1, of k "current_task k" p] cached(1)
    by (auto simp: fill_event_process_from_cache_def current_pid_def)
  obtain s3 where s3: "run_state (fill_event_parent_process_from_cache k p (ev_parent_process ?e)) s2 = ((SUCCESS, pp), s3)"
    "fill_ready s3" "alive_process_cache_map s3 = alive_process_cache_map s"
    using fill_parent_cached [OF s2(2), of p pp] cached(2) s2(3) by auto
  obtain s4 where s4: "run_state (fill_event_process_from_cache_for_task k empty_process_t target) s3 = ((SUCCESS, q), s4)" "fill_ready s4"
    using fill_process_cached [OF s3(2), of k target q] cached(3) s3(3) by auto
  have v: "mview s4 = mview ?s1"
    using keepsD [OF keeps_fill_event_process s2(1)] keepsD [OF keeps_fill_event_parent s3(1)]
      keepsD [OF keeps_fill_event_process_for_task s4(1)] fill_free_views(1) by metis
  obtain w s5 where s5: "run_state (apply_tampering_action ro k ?ev) s4 = (w, s5)" "w = (if blocks (ev_action ?ev) then DENY else ALLOW)"
    "rb s5 = (if ev_action ?ev \<noteq> EXCLUDE_EVENT then ?ev # rb s4 else rb s4)"
    "sent_signals s5 = (if kills_process (ev_action ?ev) then (current_pid k, SIGKILL) # sent_signals s4 else sent_signals s4)"
    using tampering_action_result [of s4 ro k ?ev] s4(2) by (auto simp: fill_ready_def)
  have run: "run_state (report_tampering ro k loc target a ty con) s = (w, s5)"
    using s5(1) by (simp add: report_tampering_def s1 s2(1) s3(1) s4(1) tampering_event_def)
  moreover have "rb_reserved s5 = rb_reserved s" by (rule keepsD [OF balanced_tampering run])
  ultimately show ?thesis using s5 v by (simp add: enforced_def mview_def)
qed

section \<open>The contract\<close>

locale guard_contract =
  fixes hook :: "int bpf" and ro :: ro_env and k :: kernel and loc :: string and target :: ptr
    and a :: rule_action and ty :: event_type and con :: "process_t \<Rightarrow> event_data" and relevant :: bool
  assumes hook_allows:
      "\<not> relevant \<or> current_pid k \<le> 1 \<or> protected_processes s (t_tgid (tasks k target)) = None \<or>
        protected_processes s (current_pid k) \<noteq> None \<Longrightarrow> helpers_succeed s \<Longrightarrow>
       \<exists>s'. run_state hook s = (ALLOW, s') \<and> rb s' = rb s \<and> sent_signals s' = sent_signals s"
    and hook_reports:
      "relevant \<Longrightarrow> 1 < current_pid k \<Longrightarrow> protected_processes s (t_tgid (tasks k target)) \<noteq> None \<Longrightarrow>
       protected_processes s (current_pid k) = None \<Longrightarrow> helpers_succeed s \<Longrightarrow>
       \<exists>n. run_state hook s = run_state (report_tampering ro k loc target a ty con)
         (helper_calls_update n (snd (run_state (set_hook_name (lit loc)) s)))"
    and hook_balanced: "keeps rb_reserved hook"
begin

text \<open>An attempt on a protected process meets the configured action.\<close>

lemma hook_guards:
  assumes ready: "fill_ready s" "global_event_id_counter s \<noteq> 0" "relevant" "1 < current_pid k"
    and prot: "protected_processes s (t_tgid (tasks k target)) \<noteq> None" "protected_processes s (current_pid k) = None"
    and cached: "alive_process_cache_map s (current_pid k) = Some p" "alive_process_cache_map s (p_ppid p) = Some pp"
      "alive_process_cache_map s (t_tgid (tasks k target)) = Some q"
  shows "\<exists>v s'. run_state hook s = (v, s') \<and> enforced ro k (tampering_event k s a ty (con q) p pp) v s s'"
proof -
  let ?s1 = "snd (run_state (set_hook_name (lit loc)) s)"
  have k1: "alive_process_cache_map ?s1 = alive_process_cache_map s" "mview ?s1 = mview s"
    "rb_reserved ?s1 = rb_reserved s" "global_event_id_counter ?s1 = global_event_id_counter s"
    by (rule keeps_snd [OF keeps_set_hook_name]; simp add: mview_def)+
  have r1: "fill_ready ?s1" by (rule preservesD [OF fill_ready_hook_name ready(1)])
  obtain n where n: "run_state hook s = run_state (report_tampering ro k loc target a ty con) (helper_calls_update n ?s1)"
    using hook_reports [OF ready(3,4) prot] ready(1) by (auto simp: fill_ready_def)
  let ?s2 = "helper_calls_update n ?s1"
  have r2: "fill_ready ?s2" using r1 by (simp add: fill_ready_def helpers_succeed_def heap_ok_def buffers_ready_def)
  obtain v s' where "run_state (report_tampering ro k loc target a ty con) ?s2 = (v, s')"
    "enforced ro k (tampering_event k ?s2 a ty (con q) p pp) v ?s2 s'"
    using report_tampering_result [OF r2, of k p pp target q ro loc a ty con] ready(2) cached k1 by auto
  moreover have "tampering_event k ?s2 a ty (con q) p pp = tampering_event k s a ty (con q) p pp"
    using k1(4) by (simp add: tampering_event_def fresh_event_def)
  ultimately show ?thesis using n k1(2,3) by (auto simp: enforced_def mview_def)
qed

end

lemma empty_targets: "sg_process empty_signal_event_t = empty_process_t" "pc_process empty_ptrace_event_t = empty_process_t"
  by (simp_all add: empty_signal_event_t_def empty_ptrace_event_t_def)

text \<open>The guards the hooks share.\<close>

definition guarded :: "kernel \<Rightarrow> ptr \<Rightarrow> int bpf \<Rightarrow> int bpf" where
  "guarded k target report =
     (if current_pid k \<le> 1 then State_Monad.return ALLOW
      else do {
        protected \<leftarrow> is_pid_protected (t_tgid (tasks k target));
        if \<not> protected then State_Monad.return ALLOW
        else do {
          self \<leftarrow> is_current_pid_protected (current_pid k);
          if self then State_Monad.return ALLOW else report } })"

lemma run_guarded:
  "run_state (guarded k target report) s =
     (if current_pid k \<le> 1 \<or> protected_processes s (t_tgid (tasks k target)) = None \<or>
        protected_processes s (current_pid k) \<noteq> None then (ALLOW, s) else run_state report s)"
  by (simp add: guarded_def is_pid_protected_def is_current_pid_protected_def)

lemma keeps_guarded: "keeps f report \<Longrightarrow> keeps f (guarded k target report)"
  unfolding guarded_def is_pid_protected_def is_current_pid_protected_def by (intro frame_intros)

lemma signal_hook_form:
  "signal_hook ro k p info sig = do {
     set_hook_name (lit ''signal_hook'');
     case info of
       SEND_SIG_NOINFO \<Rightarrow> State_Monad.return ALLOW
     | SEND_SIG_PRIV \<Rightarrow> State_Monad.return ALLOW
     | Siginfo code \<Rightarrow> do {
         ok \<leftarrow> helper_ok;
         if (if ok then code else 0) > 0 then State_Monad.return ALLOW
         else guarded k p (report_tampering ro k ''signal_hook'' p (anti_tampering_signals_action ro) SIGNAL
           (\<lambda>q. Data_signal \<lparr>sg_process = q, sg_signal = sig\<rparr>)) } }"
  unfolding signal_hook_def guarded_def report_tampering_def empty_targets Let_def by (rule refl)

lemma ptrace_hook_form:
  "ptrace_hook ro k child mode = do {
     set_hook_name (lit ''ptrace_hook'');
     if mode AND PTRACE_MODE_ATTACH = 0 then State_Monad.return ALLOW
     else guarded k child (report_tampering ro k ''ptrace_hook'' child (anti_tampering_ptrace_action ro) PTRACE
       (\<lambda>q. Data_ptrace \<lparr>pc_process = q, pc_mode = mode\<rparr>)) }"
  unfolding ptrace_hook_def guarded_def report_tampering_def empty_targets Let_def by (rule refl)

definition sent_by_user :: "kernel_siginfo \<Rightarrow> bool" where
  "sent_by_user info = (case info of Siginfo code \<Rightarrow> code \<le> 0 | _ \<Rightarrow> False)"

interpretation sig: guard_contract "signal_hook ro k p info sig" ro k "''signal_hook''" p "anti_tampering_signals_action ro" SIGNAL
  "\<lambda>q. Data_signal \<lparr>sg_process = q, sg_signal = sig\<rparr>" "sent_by_user info" for ro k p info sig
proof
  let ?h = "signal_hook ro k p info sig"
  show "keeps rb_reserved ?h"
    unfolding signal_hook_form
    by (cases info) (auto intro!: keeps_bind keeps_if reserved_frames keeps_guarded balanced_tampering simp: Let_def)
  fix s assume h: "helpers_succeed s"
  let ?s1 = "snd (run_state (set_hook_name (lit ''signal_hook'')) s)"
  have h1: "helper_outcome s = (\<lambda>_. True)" using h by (simp add: helpers_succeed_def)
  show "\<exists>s'. run_state ?h s = (ALLOW, s') \<and> rb s' = rb s \<and> sent_signals s' = sent_signals s"
    if "\<not> sent_by_user info \<or> current_pid k \<le> 1 \<or> protected_processes s (t_tgid (tasks k p)) = None \<or>
        protected_processes s (current_pid k) \<noteq> None"
    using that unfolding signal_hook_form name_step
    by (cases info) (auto simp: h1 name_fields run_guarded sent_by_user_def)
  show "\<exists>n. run_state ?h s = run_state (report_tampering ro k ''signal_hook'' p (anti_tampering_signals_action ro) SIGNAL
       (\<lambda>q. Data_signal \<lparr>sg_process = q, sg_signal = sig\<rparr>)) (helper_calls_update n ?s1)"
    if "sent_by_user info" "1 < current_pid k" "protected_processes s (t_tgid (tasks k p)) \<noteq> None"
      "protected_processes s (current_pid k) = None"
    unfolding signal_hook_form name_step
    by (rule exI [of _ "\<lambda>_. Suc (helper_calls ?s1)"], cases info)
      (use that in \<open>auto simp: h1 name_fields run_guarded sent_by_user_def\<close>)
qed

interpretation ptr: guard_contract "ptrace_hook ro k child mode" ro k "''ptrace_hook''" child "anti_tampering_ptrace_action ro" PTRACE
  "\<lambda>q. Data_ptrace \<lparr>pc_process = q, pc_mode = mode\<rparr>" "mode AND PTRACE_MODE_ATTACH \<noteq> 0" for ro k child mode
proof
  let ?h = "ptrace_hook ro k child mode"
  show "keeps rb_reserved ?h"
    unfolding ptrace_hook_form by (intro keeps_bind keeps_if reserved_frames keeps_guarded balanced_tampering)
  fix s assume h: "helpers_succeed s"
  let ?s1 = "snd (run_state (set_hook_name (lit ''ptrace_hook'')) s)"
  show "\<exists>s'. run_state ?h s = (ALLOW, s') \<and> rb s' = rb s \<and> sent_signals s' = sent_signals s"
    if "\<not> mode AND PTRACE_MODE_ATTACH \<noteq> 0 \<or> current_pid k \<le> 1 \<or> protected_processes s (t_tgid (tasks k child)) = None \<or>
        protected_processes s (current_pid k) \<noteq> None"
    using that unfolding ptrace_hook_form name_step by (auto simp: name_fields run_guarded)
  show "\<exists>n. run_state ?h s = run_state (report_tampering ro k ''ptrace_hook'' child (anti_tampering_ptrace_action ro) PTRACE
       (\<lambda>q. Data_ptrace \<lparr>pc_process = q, pc_mode = mode\<rparr>)) (helper_calls_update n ?s1)"
    if "mode AND PTRACE_MODE_ATTACH \<noteq> 0" "1 < current_pid k" "protected_processes s (t_tgid (tasks k child)) \<noteq> None"
      "protected_processes s (current_pid k) = None"
    unfolding ptrace_hook_form name_step
    by (rule exI [of _ "\<lambda>_. helper_calls ?s1"]) (use that in \<open>auto simp: name_fields run_guarded\<close>)
qed

end
