(* ===== verification/Hooks_Network.thy ===== *)
theory Hooks_Network
  imports Hook_Contract
begin

text \<open>
  TCP connections (\<^verbatim>\<open>on_tcp_incomming.bpf.c\<close>, \<^verbatim>\<open>on_tcp_outgoing.bpf.c\<close>). An incoming connection is seen by
  two hooks in either order; the one that comes second has the rules decide. An outgoing
  connection is decided when it is requested and reported when it is established. What is known
  of a connection is kept in the storage of its socket, which is a map by socket; \<open>socks\<close> gives the
  fields of a socket.
\<close>

section \<open>Socket storage\<close>

text \<open>\<^verbatim>\<open>bpf_sk_storage_get\<close> with \<^verbatim>\<open>BPF_SK_STORAGE_GET_F_CREATE\<close> creates a zeroed entry when there is none.\<close>

definition sk_storage_get_create ::
  "(bpf_state \<Rightarrow> (u64 \<rightharpoonup> 'v)) \<Rightarrow> (((u64 \<rightharpoonup> 'v) \<Rightarrow> (u64 \<rightharpoonup> 'v)) \<Rightarrow> bpf_state \<Rightarrow> bpf_state) \<Rightarrow> 'v \<Rightarrow> u64 \<Rightarrow> 'v option bpf" where
  "sk_storage_get_create fs fu zero sk = do {
     v \<leftarrow> reads (\<lambda>s. fs s sk);
     case v of
       Some x \<Rightarrow> State_Monad.return (Some x)
     | None \<Rightarrow> do {
         ok \<leftarrow> map_update_elem fu sk zero;
         State_Monad.return (if ok then Some zero else None) } }"

text \<open>Writing through the pointer to the entry.\<close>

definition sk_storage_put :: "(((u64 \<rightharpoonup> 'v) \<Rightarrow> (u64 \<rightharpoonup> 'v)) \<Rightarrow> bpf_state \<Rightarrow> bpf_state) \<Rightarrow> u64 \<Rightarrow> 'v \<Rightarrow> unit bpf" where
  "sk_storage_put fu sk v = State_Monad.update (fu (\<lambda>m. m(sk \<mapsto> v)))"

definition incoming_delete :: "u64 \<Rightarrow> bool bpf" where
  "incoming_delete sk = map_delete_elem sk_incoming_connections sk_incoming_connections_update sk"

definition outgoing_delete :: "u64 \<Rightarrow> bool bpf" where
  "outgoing_delete sk = map_delete_elem sk_outgoing_connections sk_outgoing_connections_update sk"

definition empty_tracker :: incoming_connection_tracker_t where
  "empty_tracker = \<lparr>ict_event = empty_event_t, ict_accept_hook = False, ict_inet_conn_request_hook = False\<rparr>"

text \<open>The network member of an event in socket storage, which is zero or was written as such.\<close>

definition network_member :: "event_t \<Rightarrow> network_event_t" where
  "network_member e = (case ev_data e of Data_network n \<Rightarrow> n | _ \<Rightarrow> empty_network_event_t)"

section \<open>Incoming connections\<close>

definition accept_hook_2 :: "ro_env \<Rightarrow> kernel \<Rightarrow> u64 option \<Rightarrow> int bpf" where
  "accept_hook_2 ro k sk = do {
     set_hook_name (lit ''accept_hook_2'');
     network_event_tcp_incoming_tail_call ro (current_pid k) (ktime_ns k) sk incoming_delete }"

definition accept_hook :: "ro_env \<Rightarrow> kernel \<Rightarrow> (u64 \<Rightarrow> sock_v) \<Rightarrow> u64 option \<Rightarrow> int bpf" where
  "accept_hook ro k socks sock_sk = do {
     set_hook_name (lit ''accept_hook'');
     related \<leftarrow> is_current_pid_related (current_pid k);
     if related then State_Monad.return ALLOW
     else case sock_sk of
       None \<Rightarrow> State_Monad.return ALLOW
     | Some sk \<Rightarrow>
         if sk_protocol (socks sk) \<noteq> ucast IPPROTO_TCP then State_Monad.return ALLOW
         else do {
           tracker \<leftarrow> sk_storage_get_create sk_incoming_connections sk_incoming_connections_update empty_tracker sk;
           case tracker of
             None \<Rightarrow> do { REPORT_ERROR GENERIC_ERROR ''accept_hook''; State_Monad.return ALLOW }
           | Some t \<Rightarrow> do {
               (_, process) \<leftarrow> fill_event_process_from_cache k (ev_process (ict_event t));
               (_, parent) \<leftarrow> fill_event_parent_process_from_cache k process (ev_parent_process (ict_event t));
               let event = (ict_event t)\<lparr>ev_process := process, ev_parent_process := parent\<rparr>;
               sk_storage_put sk_incoming_connections_update sk (t\<lparr>ict_accept_hook := True, ict_event := event\<rparr>);
               if ict_inet_conn_request_hook t then do {
                 _ \<leftarrow> store_currently_handled_event ro event;
                 reset_tail_counter;
                 tailed \<leftarrow> do_tail_call;
                 if tailed then accept_hook_2 ro k (Some sk) else State_Monad.return ALLOW }
               else State_Monad.return ALLOW } } }"

definition inet_conn_request_hook_2 :: "ro_env \<Rightarrow> kernel \<Rightarrow> u64 \<Rightarrow> int bpf" where
  "inet_conn_request_hook_2 ro k sk = do {
     set_hook_name (lit ''inet_conn_request_hook_2'');
     network_event_tcp_incoming_tail_call ro (current_pid k) (ktime_ns k) (Some sk) incoming_delete }"

definition inet_conn_request_hook ::
  "ro_env \<Rightarrow> kernel \<Rightarrow> (u64 \<Rightarrow> sock_v) \<Rightarrow> u64 \<Rightarrow> sock_common_v \<Rightarrow> int bpf" where
  "inet_conn_request_hook ro k socks sk req = do {
     set_hook_name (lit ''inet_conn_request_hook'');
     related \<leftarrow> is_current_pid_related (current_pid k);
     if related then State_Monad.return ALLOW
     else do {
       tracker \<leftarrow> sk_storage_get_create sk_incoming_connections sk_incoming_connections_update empty_tracker sk;
       case tracker of
         None \<Rightarrow> do { REPORT_ERROR GENERIC_ERROR ''inet_conn_request_hook''; State_Monad.return ALLOW }
       | Some t \<Rightarrow> do {
           let (result, n) = fill_incomming_connection_network_event_t (network_member (ict_event t)) (socks sk) req;
           let event = (ict_event t)\<lparr>ev_type := NETWORK, ev_data := Data_network n\<rparr>;
           sk_storage_put sk_incoming_connections_update sk (t\<lparr>ict_inet_conn_request_hook := True, ict_event := event\<rparr>);
           if result \<noteq> SUCCESS \<and> result \<noteq> NOT_SUPPORTED then do {
             REPORT_ERROR GENERIC_ERROR ''inet_conn_request_hook'';
             _ \<leftarrow> incoming_delete sk;
             State_Monad.return ALLOW }
           else if result = NOT_SUPPORTED then do { _ \<leftarrow> incoming_delete sk; State_Monad.return ALLOW }
           else if ict_accept_hook t then do {
             _ \<leftarrow> store_currently_handled_event ro event;
             reset_tail_counter;
             tailed \<leftarrow> do_tail_call;
             if tailed then inet_conn_request_hook_2 ro k sk else State_Monad.return ALLOW }
           else State_Monad.return ALLOW } } }"

section \<open>Outgoing connections\<close>

definition connect_hook_2 :: "ro_env \<Rightarrow> kernel \<Rightarrow> u64 option \<Rightarrow> int bpf" where
  "connect_hook_2 ro k sk = do {
     set_hook_name (lit ''connect_hook_2'');
     network_event_tcp_outgoing_tail_call ro (current_pid k) (ktime_ns k) sk outgoing_delete }"

definition connect_hook :: "ro_env \<Rightarrow> kernel \<Rightarrow> (u64 \<Rightarrow> sock_v) \<Rightarrow> u64 option \<Rightarrow> sockaddr_v \<Rightarrow> int bpf" where
  "connect_hook ro k socks sock_sk address = do {
     set_hook_name (lit ''connect_hook'');
     related \<leftarrow> is_current_pid_related (current_pid k);
     if related then State_Monad.return ALLOW
     else case sock_sk of
       None \<Rightarrow> State_Monad.return ALLOW
     | Some sk \<Rightarrow>
         if sk_protocol (socks sk) \<noteq> ucast IPPROTO_TCP then State_Monad.return ALLOW
         else do {
           stored \<leftarrow> sk_storage_get_create sk_outgoing_connections sk_outgoing_connections_update empty_event_t sk;
           case stored of
             None \<Rightarrow> do { REPORT_ERROR GENERIC_ERROR ''connect_hook''; State_Monad.return ALLOW }
           | Some e \<Rightarrow> do {
               let (result, n) = fill_outgoing_connection_network_event_t_first_part (network_member e) (socks sk) address;
               let event = e\<lparr>ev_type := NETWORK, ev_data := Data_network n\<rparr>;
               if result \<noteq> SUCCESS \<and> result \<noteq> NOT_SUPPORTED then do {
                 REPORT_ERROR GENERIC_ERROR ''connect_hook'';
                 _ \<leftarrow> outgoing_delete sk;
                 State_Monad.return ALLOW }
               else if result = NOT_SUPPORTED then do { _ \<leftarrow> outgoing_delete sk; State_Monad.return ALLOW }
               else do {
                 (_, process) \<leftarrow> fill_event_process_from_cache k (ev_process event);
                 (_, parent) \<leftarrow> fill_event_parent_process_from_cache k process (ev_parent_process event);
                 let event2 = event\<lparr>ev_process := process, ev_parent_process := parent\<rparr>;
                 sk_storage_put sk_outgoing_connections_update sk event2;
                 _ \<leftarrow> store_currently_handled_event ro event2;
                 reset_tail_counter;
                 tailed \<leftarrow> do_tail_call;
                 if tailed then connect_hook_2 ro k (Some sk) else State_Monad.return ALLOW } } } }"

definition inet_conn_established :: "kernel \<Rightarrow> (u64 \<Rightarrow> sock_v) \<Rightarrow> u64 \<Rightarrow> int bpf" where
  "inet_conn_established k socks sk = do {
     set_hook_name (lit ''inet_conn_established'');
     stored \<leftarrow> reads (\<lambda>s. sk_outgoing_connections s sk);
     case stored of
       None \<Rightarrow> State_Monad.return ALLOW
     | Some e \<Rightarrow> do {
         i \<leftarrow> get_next_event_id;
         let (result, n) = fill_outgoing_connection_network_event_t_second_part (network_member e) (socks sk);
         let event = e\<lparr>ev_id := i, ev_time := ktime_ns k, ev_data := Data_network n\<rparr>;
         sk_storage_put sk_outgoing_connections_update sk event;
         (if result \<noteq> SUCCESS then State_Monad.return () else submit_event event);
         _ \<leftarrow> outgoing_delete sk;
         State_Monad.return ALLOW } }"

section \<open>What a network hook leaves alone\<close>

definition nview :: "bpf_state \<Rightarrow> _" where
  "nview s = (mview s, rb_reserved s, global_event_id_counter s, tail_call_counter s, currently_handled_event s)"

lemma fill_free_nview: "fill_free nview"
  by (simp add: fill_free_simps nview_def mview_def)

lemma nview_storage [simp]:
  "nview (sk_incoming_connections_update f s) = nview s" "nview (sk_outgoing_connections_update g s) = nview s"
  "nview (helper_calls_update h s) = nview s"
  by (simp_all add: nview_def mview_def)

lemma fill_ready_storage [simp]:
  "fill_ready (sk_incoming_connections_update f s) = fill_ready s" "fill_ready (sk_outgoing_connections_update g s) = fill_ready s"
  "fill_ready (helper_calls_update h s) = fill_ready s"
  by (simp_all add: fill_ready_def helpers_succeed_def heap_ok_def buffers_ready_def)

lemma hook_ready_nview: "hook_ready k s \<Longrightarrow> nview s' = nview s \<Longrightarrow> fill_ready s' \<Longrightarrow> hook_ready k s'"
  by (auto simp: hook_ready_def nview_def mview_def stack_ok_def)

lemma run_sk_get:
  assumes "helpers_succeed s"
  shows "run_state (sk_storage_get_create fs fu zero sk) s = (case fs s sk of
      Some x \<Rightarrow> (Some x, s)
    | None \<Rightarrow> (Some zero, fu (\<lambda>m. m(sk \<mapsto> zero)) (s\<lparr>helper_calls := Suc (helper_calls s)\<rparr>)))"
  using assms by (simp add: sk_storage_get_create_def run_map_update_elem helpers_succeed_def Let_def split: option.split)

text \<open>The tracker a hook finds or creates.\<close>

definition tracker_of :: "bpf_state \<Rightarrow> u64 \<Rightarrow> incoming_connection_tracker_t" where
  "tracker_of s sk = (case sk_incoming_connections s sk of Some t \<Rightarrow> t | None \<Rightarrow> empty_tracker)"

lemma get_tracker:
  assumes "fill_ready s"
  shows "\<exists>s'. run_state (sk_storage_get_create sk_incoming_connections sk_incoming_connections_update empty_tracker sk) s =
      (Some (tracker_of s sk), s') \<and> nview s' = nview s \<and> fill_ready s' \<and>
      alive_process_cache_map s' = alive_process_cache_map s \<and>
      (\<forall>t. (sk_incoming_connections s')(sk \<mapsto> t) = (sk_incoming_connections s)(sk \<mapsto> t))"
proof -
  have "helpers_succeed s" using assms by (simp add: fill_ready_def)
  note run_sk_get [OF this, of sk_incoming_connections sk_incoming_connections_update empty_tracker sk]
  then show ?thesis using assms by (cases "sk_incoming_connections s sk") (auto simp: tracker_of_def)
qed

text \<open>The two halves of the event of a connection.\<close>

definition add_processes :: "process_t \<Rightarrow> process_t \<Rightarrow> event_t \<Rightarrow> event_t" where
  "add_processes p pp e = e\<lparr>ev_process := p, ev_parent_process := pp\<rparr>"

definition add_network :: "network_event_t \<Rightarrow> event_t \<Rightarrow> event_t" where
  "add_network n e = e\<lparr>ev_type := NETWORK, ev_data := Data_network n\<rparr>"

definition decide :: "ro_env \<Rightarrow> event_t \<Rightarrow> int bpf \<Rightarrow> int bpf" where
  "decide ro event program = do {
     _ \<leftarrow> store_currently_handled_event ro event;
     reset_tail_counter;
     tailed \<leftarrow> do_tail_call;
     if tailed then program else State_Monad.return ALLOW }"

lemma decide_enters:
  assumes "hook_ready k s"
  shows "\<exists>s'. run_state (decide ro e program) s = run_state program s' \<and> helpers_succeed s' \<and>
    currently_handled_event s' 0 = Some e \<and> mview s' = mview s \<and> rb_reserved s' = rb_reserved s \<and>
    global_event_id_counter s' = global_event_id_counter s \<and> sk_incoming_connections s' = sk_incoming_connections s \<and>
    sk_outgoing_connections s' = sk_outgoing_connections s"
proof -
  have h: "helpers_succeed s" "currently_handled_event s 0 \<noteq> None" "tail_call_counter s 0 \<noteq> None"
    using assms by (auto simp: hook_ready_def fill_ready_def)
  let ?s1 = "s\<lparr>helper_calls := Suc (helper_calls s), currently_handled_event := (currently_handled_event s)(0 \<mapsto> e)\<rparr>"
  let ?s2 = "?s1\<lparr>helper_calls := Suc (Suc (Suc (helper_calls ?s1))), tail_call_counter := (tail_call_counter s)(0 \<mapsto> 1)\<rparr>"
  have "run_state (do { reset_tail_counter; do_tail_call }) ?s1 = (True, ?s2)"
    using h by (simp add: reset_tail_counter_def run_map_update_elem helpers_succeed_def Let_def do_tail_call_def
        get_current_and_increment_tail_counter_def)
  moreover have "decide ro e program = do { _ \<leftarrow> store_currently_handled_event ro e;
      tailed \<leftarrow> do { reset_tail_counter; do_tail_call }; if tailed then program else State_Monad.return ALLOW }"
    by (simp add: decide_def)
  ultimately have "run_state (decide ro e program) s = run_state program ?s2"
    by (simp only: run_state_bind run_store_handled [OF h(1,2)] prod.case if_True)
  then show ?thesis using h(1) by (intro exI [of _ ?s2]) (simp add: helpers_succeed_def mview_def)
qed

section \<open>The two hooks of an incoming connection\<close>

lemma accept_result:
  assumes ready: "hook_ready k s" "program_related_pids s (current_pid k) = None" and tcp: "sk_protocol (socks sk) = 6"
    and cached: "alive_process_cache_map s (current_pid k) = Some p" "alive_process_cache_map s (p_ppid p) = Some pp"
  shows "\<exists>s'. run_state (accept_hook ro k socks (Some sk)) s =
      (if ict_inet_conn_request_hook (tracker_of s sk)
       then run_state (decide ro (add_processes p pp (ict_event (tracker_of s sk))) (accept_hook_2 ro k (Some sk))) s'
       else (ALLOW, s')) \<and> nview s' = nview s \<and> fill_ready s' \<and>
    sk_incoming_connections s' = (sk_incoming_connections s)(sk \<mapsto>
      (tracker_of s sk)\<lparr>ict_accept_hook := True, ict_event := add_processes p pp (ict_event (tracker_of s sk))\<rparr>)"
proof -
  let ?t = "tracker_of s sk"
  obtain s1 where s1: "run_state (set_hook_name (lit ''accept_hook'')) s = ((), s1)" by (rule exE [OF unit_run])
  have k1: "nview s1 = nview s" "sk_incoming_connections s1 = sk_incoming_connections s" "program_related_pids s1 = program_related_pids s"
    "alive_process_cache_map s1 = alive_process_cache_map s"
    by (rule keepsD [OF keeps_set_hook_name s1]; simp add: nview_def mview_def)+
  have r1: "fill_ready s1" using preservesD [OF fill_ready_hook_name, of s "lit ''accept_hook''"] ready(1) s1
    by (simp add: hook_ready_def)
  have t1: "tracker_of s1 sk = ?t" using k1(2) by (simp add: tracker_of_def)
  obtain s2 where s2: "run_state (sk_storage_get_create sk_incoming_connections sk_incoming_connections_update empty_tracker sk) s1 = (Some ?t, s2)"
    "nview s2 = nview s1" "fill_ready s2" "alive_process_cache_map s2 = alive_process_cache_map s"
    "\<And>t. (sk_incoming_connections s2)(sk \<mapsto> t) = (sk_incoming_connections s)(sk \<mapsto> t)"
    using get_tracker [OF r1, of sk] k1(2,4) t1 by auto
  obtain s3 where s3: "run_state (fill_event_process_from_cache k (ev_process (ict_event ?t))) s2 = ((SUCCESS, p), s3)" "fill_ready s3"
    "alive_process_cache_map s3 = alive_process_cache_map s"
    using fill_process_cached [OF s2(3), of k "current_task k" p] cached(1) s2(4)
    by (auto simp: fill_event_process_from_cache_def current_pid_def)
  obtain s4 where s4: "run_state (fill_event_parent_process_from_cache k p (ev_parent_process (ict_event ?t))) s3 = ((SUCCESS, pp), s4)"
    "fill_ready s4"
    using fill_parent_cached [OF s3(2), of p pp] cached(2) s3(3) by auto
  have n4: "nview s4 = nview s2"
    using keepsD [OF keeps_fill_event_process [OF fill_free_nview] s3(1)] keepsD [OF keeps_fill_event_parent [OF fill_free_nview] s4(1)] by simp
  have ff: "fill_free sk_incoming_connections" by (simp add: fill_free_simps)
  have i4: "sk_incoming_connections s4 = sk_incoming_connections s2"
    using keepsD [OF keeps_fill_event_process [OF ff] s3(1)] keepsD [OF keeps_fill_event_parent [OF ff] s4(1)] by simp
  let ?e = "add_processes p pp (ict_event ?t)"
  let ?s5 = "sk_incoming_connections_update (\<lambda>m. m(sk \<mapsto> ?t\<lparr>ict_accept_hook := True, ict_event := ?e\<rparr>)) s4"
  have "run_state (accept_hook ro k socks (Some sk)) s =
      (if ict_inet_conn_request_hook ?t then run_state (decide ro ?e (accept_hook_2 ro k (Some sk))) ?s5 else (ALLOW, ?s5))"
    using ready(2) tcp
    by (simp add: accept_hook_def s1 run_is_related k1(3) s2(1) s3(1) s4(1) Let_def sk_storage_put_def add_processes_def decide_def)
  then show ?thesis using n4 s2(2,5) k1(1) s4(2) i4 by (intro exI [of _ ?s5]) simp
qed

lemma request_result:
  assumes ready: "hook_ready k s" "program_related_pids s (current_pid k) = None"
    and n: "fill_incomming_connection_network_event_t (network_member (ict_event (tracker_of s sk))) (socks sk) req = (SUCCESS, n)"
  shows "\<exists>s'. run_state (inet_conn_request_hook ro k socks sk req) s =
      (if ict_accept_hook (tracker_of s sk)
       then run_state (decide ro (add_network n (ict_event (tracker_of s sk))) (inet_conn_request_hook_2 ro k sk)) s'
       else (ALLOW, s')) \<and> nview s' = nview s \<and> fill_ready s' \<and> alive_process_cache_map s' = alive_process_cache_map s \<and>
    sk_incoming_connections s' = (sk_incoming_connections s)(sk \<mapsto>
      (tracker_of s sk)\<lparr>ict_inet_conn_request_hook := True, ict_event := add_network n (ict_event (tracker_of s sk))\<rparr>)"
proof -
  let ?t = "tracker_of s sk"
  obtain s1 where s1: "run_state (set_hook_name (lit ''inet_conn_request_hook'')) s = ((), s1)" by (rule exE [OF unit_run])
  have k1: "nview s1 = nview s" "sk_incoming_connections s1 = sk_incoming_connections s" "program_related_pids s1 = program_related_pids s"
    "alive_process_cache_map s1 = alive_process_cache_map s"
    by (rule keepsD [OF keeps_set_hook_name s1]; simp add: nview_def mview_def)+
  have r1: "fill_ready s1" using preservesD [OF fill_ready_hook_name, of s "lit ''inet_conn_request_hook''"] ready(1) s1
    by (simp add: hook_ready_def)
  have t1: "tracker_of s1 sk = ?t" using k1(2) by (simp add: tracker_of_def)
  obtain s2 where s2: "run_state (sk_storage_get_create sk_incoming_connections sk_incoming_connections_update empty_tracker sk) s1 = (Some ?t, s2)"
    "nview s2 = nview s1" "fill_ready s2" "alive_process_cache_map s2 = alive_process_cache_map s"
    "\<And>t. (sk_incoming_connections s2)(sk \<mapsto> t) = (sk_incoming_connections s)(sk \<mapsto> t)"
    using get_tracker [OF r1, of sk] k1(2,4) t1 by auto
  let ?e = "add_network n (ict_event ?t)"
  let ?s3 = "sk_incoming_connections_update (\<lambda>m. m(sk \<mapsto> ?t\<lparr>ict_inet_conn_request_hook := True, ict_event := ?e\<rparr>)) s2"
  have "run_state (inet_conn_request_hook ro k socks sk req) s =
      (if ict_accept_hook ?t then run_state (decide ro ?e (inet_conn_request_hook_2 ro k sk)) ?s3 else (ALLOW, ?s3))"
    using ready(2)
    by (simp add: inet_conn_request_hook_def s1 run_is_related k1(3) s2(1) n Let_def sk_storage_put_def add_network_def decide_def)
  then show ?thesis using s2 k1(1) by (intro exI [of _ ?s3]) simp
qed

text \<open>The second hook numbers and dates the event, has the rules decide and ends the tracking.\<close>

definition stamped :: "kernel \<Rightarrow> bpf_state \<Rightarrow> event_t \<Rightarrow> event_t" where
  "stamped k s e = e\<lparr>ev_id := global_event_id_counter s, ev_time := ktime_ns k\<rparr>"

lemma incoming_program_result:
  assumes ready: "hook_ready k s0" "mview s = mview s0" "helpers_succeed s" "global_event_id_counter s \<noteq> 0"
    and cur: "currently_handled_event s 0 = Some e" "ev_id e = 0" and tracked: "sk_incoming_connections s sk \<noteq> None"
    and rules: "wf_rules_db ro" "rules_encode (event_rules ro NETWORK) ex" and wf: "wf_event_strings ro (stamped k s e)"
  shows "\<exists>v s'. run_state (do { set_hook_name (lit nm);
      network_event_tcp_incoming_tail_call ro (current_pid k) (ktime_ns k) (Some sk) incoming_delete }) s = (v, s') \<and>
    enforced ro k (decision ro ex NETWORK (stamped k s e)) v s s' \<and> sk_incoming_connections s' sk = None"
proof -
  let ?e = "stamped k s e"
  obtain s1 where s1: "run_state (set_hook_name (lit nm)) s = ((), s1)" by (rule exE [OF unit_run])
  have k1: "nview s1 = nview s" "helper_outcome s1 = helper_outcome s" "sk_incoming_connections s1 = sk_incoming_connections s"
    by (rule keepsD [OF keeps_set_hook_name s1]; simp add: nview_def mview_def)+
  have v1: "mview s1 = mview s" "rb_reserved s1 = rb_reserved s" "currently_handled_event s1 = currently_handled_event s"
    "global_event_id_counter s1 = global_event_id_counter s" using k1(1) by (simp_all add: nview_def)
  let ?s2 = "global_event_id_counter_update (\<lambda>n. n + 1) s1"
  let ?s3 = "currently_handled_event_update (\<lambda>m. m(0 \<mapsto> ?e)) ?s2"
  have "matcher_inv ro ?e ?s3"
    by (rule matcher_inv_view [OF ready(1)])
      (use ready v1 k1 rules wf in \<open>auto simp: mview_def helpers_succeed_def stamped_def\<close>)
  note gen = generic_tail_call_result [OF this rules(2), of "current_pid k"]
  let ?d = "decision ro ex NETWORK ?e"
  let ?v = "if blocks (ev_action ?d) then DENY else ALLOW"
  obtain s4 where s4: "run_state (generic_tail_call ro (current_pid k) NETWORK) ?s3 = (?v, s4)"
    "rb s4 = (if ev_id ?d > 0 \<and> ev_action ?d \<noteq> EXCLUDE_EVENT then ?d # rb ?s3 else rb ?s3)"
    "rb_reserved s4 = rb_reserved ?s3"
    "sent_signals s4 = (if kills_process (ev_action ?d) then (current_pid k, SIGKILL) # sent_signals ?s3 else sent_signals ?s3)"
    using gen by blast
  have "keeps sk_incoming_connections (generic_tail_call ro (current_pid k) NETWORK)"
    by (intro keeps_generic_tail_call matcher_freeI proc_freeI report_freeI) simp_all
  from keepsD [OF this s4(1)] have i4: "sk_incoming_connections s4 sk \<noteq> None" using tracked k1(3) by simp
  let ?s5 = "sk_incoming_connections_update (\<lambda>m. m(sk := None)) s4"
  have "run_state (do { set_hook_name (lit nm);
      network_event_tcp_incoming_tail_call ro (current_pid k) (ktime_ns k) (Some sk) incoming_delete }) s = (?v, ?s5)"
    using s4(1) i4 cur v1
    by (auto simp: s1 network_event_tcp_incoming_tail_call_def get_currently_handled_event_def set_event_id_when_id_is_zero_def
        get_next_event_id_def store_event_def discard_sk_from_sk_storage_def incoming_delete_def run_map_delete_elem stamped_def)
  moreover have "ev_id ?d \<noteq> 0"
    using ready(4) by (simp add: decision_def decided_event_def stamped_def split: option.split)
  moreover have "rb s1 = rb s" "sent_signals s1 = sent_signals s" using v1(1) by (simp_all add: mview_def)
  ultimately show ?thesis using s4 v1(2) by (auto simp: enforced_def word_gt_0)
qed

text \<open>
  The event of an incoming connection does not depend on which hook came first.
\<close>

definition incoming_event :: "process_t \<Rightarrow> process_t \<Rightarrow> network_event_t \<Rightarrow> event_t" where
  "incoming_event p pp n = add_network n (add_processes p pp empty_event_t)"

lemma incoming_event_swap: "add_processes p pp (add_network n empty_event_t) = incoming_event p pp n"
  by (simp add: incoming_event_def add_network_def add_processes_def)

lemma accept_then_request:
  assumes ready: "hook_ready ka s" "hook_ready kr s" "program_related_pids s (current_pid ka) = None"
      "program_related_pids s (current_pid kr) = None"
    and new: "sk_incoming_connections s sk = None" and tcp: "sk_protocol (socks sk) = 6"
    and cached: "alive_process_cache_map s (current_pid ka) = Some p" "alive_process_cache_map s (p_ppid p) = Some pp"
    and n: "fill_incomming_connection_network_event_t empty_network_event_t (socks sk) req = (SUCCESS, n)"
    and rules: "wf_rules_db ro" "rules_encode (event_rules ro NETWORK) ex"
    and wf: "wf_event_strings ro (stamped kr s (incoming_event p pp n))"
  shows "\<exists>v s'. run_state (do { _ \<leftarrow> accept_hook ro ka socks (Some sk); inet_conn_request_hook ro kr socks sk req }) s = (v, s') \<and>
    enforced ro kr (decision ro ex NETWORK (stamped kr s (incoming_event p pp n))) v s s' \<and> sk_incoming_connections s' sk = None"
proof -
  let ?e1 = "add_processes p pp empty_event_t" and ?e = "incoming_event p pp n"
  have t: "tracker_of s sk = empty_tracker" using new by (simp add: tracker_of_def)
  obtain s1 where s1: "run_state (accept_hook ro ka socks (Some sk)) s = (ALLOW, s1)" "nview s1 = nview s" "fill_ready s1"
    "sk_incoming_connections s1 sk = Some \<lparr>ict_event = ?e1, ict_accept_hook = True, ict_inet_conn_request_hook = False\<rparr>"
    using accept_result [where socks = socks and sk = sk and ro = ro, OF ready(1,3) tcp cached] unfolding t by (auto simp: empty_tracker_def)
  have t1: "tracker_of s1 sk = \<lparr>ict_event = ?e1, ict_accept_hook = True, ict_inet_conn_request_hook = False\<rparr>"
    using s1(4) by (simp add: tracker_of_def)
  have r1: "hook_ready kr s1" by (rule hook_ready_nview [OF ready(2) s1(2,3)])
  have "program_related_pids s1 = program_related_pids s" using s1(2) by (simp add: nview_def mview_def)
  then have rel: "program_related_pids s1 (current_pid kr) = None" using ready(4) by simp
  have nm: "network_member (ict_event (tracker_of s1 sk)) = empty_network_event_t"
    by (simp add: t1 add_processes_def network_member_def empty_event_t_def)
  obtain s2 where s2: "run_state (inet_conn_request_hook ro kr socks sk req) s1 =
      run_state (decide ro ?e (inet_conn_request_hook_2 ro kr sk)) s2" "nview s2 = nview s1" "fill_ready s2"
    "sk_incoming_connections s2 sk \<noteq> None"
    using request_result [OF r1 rel, where n = n and ro = ro and socks = socks and req = req and sk = sk] n unfolding nm unfolding t1
    by (auto simp: incoming_event_def)
  have r2: "hook_ready kr s2" by (rule hook_ready_nview [OF r1 s2(2,3)])
  obtain s3 where s3: "run_state (decide ro ?e (inet_conn_request_hook_2 ro kr sk)) s2 = run_state (inet_conn_request_hook_2 ro kr sk) s3"
    "helpers_succeed s3" "currently_handled_event s3 0 = Some ?e" "mview s3 = mview s2" "rb_reserved s3 = rb_reserved s2"
    "global_event_id_counter s3 = global_event_id_counter s2" "sk_incoming_connections s3 = sk_incoming_connections s2"
    using decide_enters [OF r2, of ro ?e "inet_conn_request_hook_2 ro kr sk"] by blast
  have g: "global_event_id_counter s3 = global_event_id_counter s" "mview s3 = mview s" "rb_reserved s3 = rb_reserved s"
    using s3(4-6) s2(2) s1(2) by (simp_all add: nview_def)
  have st: "stamped kr s3 ?e = stamped kr s ?e" using g(1) by (simp add: stamped_def)
  have "ev_id ?e = 0" by (simp add: incoming_event_def add_network_def add_processes_def empty_event_t_def)
  then obtain v s4 where s4: "run_state (inet_conn_request_hook_2 ro kr sk) s3 = (v, s4)"
    "enforced ro kr (decision ro ex NETWORK (stamped kr s ?e)) v s3 s4" "sk_incoming_connections s4 sk = None"
    using incoming_program_result [OF r2 s3(4,2) _ s3(3) _ _ rules, of sk "''inet_conn_request_hook_2''"] g(1) ready(2) s2(4) s3(7) wf
    unfolding inet_conn_request_hook_2_def st by (auto simp: hook_ready_def)
  then show ?thesis
    using s1(1) s2(1) s3(1) g(2,3) by (auto simp: enforced_def mview_def)
qed

lemma request_then_accept:
  assumes ready: "hook_ready ka s" "hook_ready kr s" "program_related_pids s (current_pid ka) = None"
      "program_related_pids s (current_pid kr) = None"
    and new: "sk_incoming_connections s sk = None" and tcp: "sk_protocol (socks sk) = 6"
    and cached: "alive_process_cache_map s (current_pid ka) = Some p" "alive_process_cache_map s (p_ppid p) = Some pp"
    and n: "fill_incomming_connection_network_event_t empty_network_event_t (socks sk) req = (SUCCESS, n)"
    and rules: "wf_rules_db ro" "rules_encode (event_rules ro NETWORK) ex"
    and wf: "wf_event_strings ro (stamped ka s (incoming_event p pp n))"
  shows "\<exists>v s'. run_state (do { _ \<leftarrow> inet_conn_request_hook ro kr socks sk req; accept_hook ro ka socks (Some sk) }) s = (v, s') \<and>
    enforced ro ka (decision ro ex NETWORK (stamped ka s (incoming_event p pp n))) v s s' \<and> sk_incoming_connections s' sk = None"
proof -
  let ?e1 = "add_network n empty_event_t" and ?e = "incoming_event p pp n"
  have t: "tracker_of s sk = empty_tracker" using new by (simp add: tracker_of_def)
  have nm: "network_member (ict_event (tracker_of s sk)) = empty_network_event_t"
    by (simp add: t empty_tracker_def network_member_def empty_event_t_def)
  obtain s1 where s1: "run_state (inet_conn_request_hook ro kr socks sk req) s = (ALLOW, s1)" "nview s1 = nview s" "fill_ready s1"
    "sk_incoming_connections s1 sk = Some \<lparr>ict_event = ?e1, ict_accept_hook = False, ict_inet_conn_request_hook = True\<rparr>"
    "alive_process_cache_map s1 = alive_process_cache_map s"
    using request_result [OF ready(2,4), where n = n and ro = ro and socks = socks and req = req and sk = sk] n unfolding nm unfolding t
    by (auto simp: empty_tracker_def)
  have t1: "tracker_of s1 sk = \<lparr>ict_event = ?e1, ict_accept_hook = False, ict_inet_conn_request_hook = True\<rparr>"
    using s1(4) by (simp add: tracker_of_def)
  have r1: "hook_ready ka s1" by (rule hook_ready_nview [OF ready(1) s1(2,3)])
  have "program_related_pids s1 = program_related_pids s" using s1(2) by (simp add: nview_def mview_def)
  then have rel: "program_related_pids s1 (current_pid ka) = None" using ready(3) by simp
  have c1: "alive_process_cache_map s1 (current_pid ka) = Some p" "alive_process_cache_map s1 (p_ppid p) = Some pp"
    using cached s1(5) by simp_all
  obtain s2 where s2: "run_state (accept_hook ro ka socks (Some sk)) s1 =
      run_state (decide ro ?e (accept_hook_2 ro ka (Some sk))) s2" "nview s2 = nview s1" "fill_ready s2"
    "sk_incoming_connections s2 sk \<noteq> None"
    using accept_result [where socks = socks and sk = sk and ro = ro, OF r1 rel tcp c1] unfolding t1 by (auto simp: incoming_event_swap)
  have r2: "hook_ready ka s2" by (rule hook_ready_nview [OF r1 s2(2,3)])
  obtain s3 where s3: "run_state (decide ro ?e (accept_hook_2 ro ka (Some sk))) s2 = run_state (accept_hook_2 ro ka (Some sk)) s3"
    "helpers_succeed s3" "currently_handled_event s3 0 = Some ?e" "mview s3 = mview s2" "rb_reserved s3 = rb_reserved s2"
    "global_event_id_counter s3 = global_event_id_counter s2" "sk_incoming_connections s3 = sk_incoming_connections s2"
    using decide_enters [OF r2, of ro ?e "accept_hook_2 ro ka (Some sk)"] by blast
  have g: "global_event_id_counter s3 = global_event_id_counter s" "mview s3 = mview s" "rb_reserved s3 = rb_reserved s"
    using s3(4-6) s2(2) s1(2) by (simp_all add: nview_def)
  have st: "stamped ka s3 ?e = stamped ka s ?e" using g(1) by (simp add: stamped_def)
  have "ev_id ?e = 0" by (simp add: incoming_event_def add_network_def add_processes_def empty_event_t_def)
  then obtain v s4 where s4: "run_state (accept_hook_2 ro ka (Some sk)) s3 = (v, s4)"
    "enforced ro ka (decision ro ex NETWORK (stamped ka s ?e)) v s3 s4" "sk_incoming_connections s4 sk = None"
    using incoming_program_result [OF r2 s3(4,2) _ s3(3) _ _ rules, of sk "''accept_hook_2''"] g(1) ready(1) s2(4) s3(7) wf
    unfolding accept_hook_2_def st by (auto simp: hook_ready_def)
  then show ?thesis
    using s1(1) s2(1) s3(1) g(2,3) by (auto simp: enforced_def mview_def)
qed

section \<open>Outgoing connections\<close>

text \<open>
  The request: a blocking rule denies it, reports the event under a new number and forgets the
  connection; otherwise nothing is reported yet.
\<close>

definition dated :: "kernel \<Rightarrow> event_t \<Rightarrow> event_t" where
  "dated k e = e\<lparr>ev_time := ktime_ns k\<rparr>"

lemma outgoing_program_result:
  assumes ready: "hook_ready k s0" "mview s = mview s0" "helpers_succeed s"
    and cur: "currently_handled_event s 0 = Some e" "ev_id e = 0" and tracked: "sk_outgoing_connections s sk \<noteq> None"
    and rules: "wf_rules_db ro" "rules_encode (event_rules ro NETWORK) ex" and wf: "wf_event_strings ro (dated k e)"
  defines "d \<equiv> decision ro ex NETWORK (dated k e)"
  shows "\<exists>s'. run_state (connect_hook_2 ro k (Some sk)) s = (if blocks (ev_action d) then DENY else ALLOW, s') \<and>
    (if blocks (ev_action d) then rb s' = d\<lparr>ev_id := global_event_id_counter s\<rparr> # rb s \<and> sk_outgoing_connections s' sk = None
     else rb s' = rb s \<and> sk_outgoing_connections s' = sk_outgoing_connections s \<and> helpers_succeed s' \<and>
       global_event_id_counter s' = global_event_id_counter s)"
proof -
  let ?e = "dated k e" and ?pid = "current_pid k"
  obtain s1 where s1: "run_state (set_hook_name (lit ''connect_hook_2'')) s = ((), s1)" by (rule exE [OF unit_run])
  have k1: "nview s1 = nview s" "helper_outcome s1 = helper_outcome s" "sk_outgoing_connections s1 = sk_outgoing_connections s"
    by (rule keepsD [OF keeps_set_hook_name s1]; simp add: nview_def mview_def)+
  have v1: "mview s1 = mview s" "currently_handled_event s1 = currently_handled_event s"
    "global_event_id_counter s1 = global_event_id_counter s" using k1(1) by (simp_all add: nview_def)
  let ?s2 = "currently_handled_event_update (\<lambda>m. m(0 \<mapsto> ?e)) s1"
  have inv: "matcher_inv ro ?e ?s2"
    by (rule matcher_inv_view [OF ready(1)])
      (use ready v1 k1 rules wf in \<open>auto simp: mview_def helpers_succeed_def dated_def\<close>)
  have id: "ev_id d = 0" using cur(2) by (simp add: d_def decision_def decided_event_def dated_def split: option.split)
  obtain s3 where s3: "run_state (generic_tail_call ro ?pid NETWORK) ?s2 = (if blocks (ev_action d) then DENY else ALLOW, s3)"
    "rb s3 = rb ?s2" "currently_handled_event s3 0 = Some d" "helpers_succeed s3"
    using generic_tail_call_result [OF inv rules(2), of ?pid] id unfolding d_def by auto
  have "keeps sk_outgoing_connections (generic_tail_call ro ?pid NETWORK)" "keeps global_event_id_counter (generic_tail_call ro ?pid NETWORK)"
    by (intro keeps_generic_tail_call matcher_freeI proc_freeI report_freeI; simp)+
  note k3 = this [THEN keepsD, OF s3(1)]
  have rb1: "rb s1 = rb s" using v1(1) by (simp add: mview_def)
  show ?thesis
  proof (cases "blocks (ev_action d)")
    case False
    then have "run_state (connect_hook_2 ro k (Some sk)) s = (ALLOW, s3)"
      using s3(1) cur v1(2) by (simp add: connect_hook_2_def s1 network_event_tcp_outgoing_tail_call_def get_currently_handled_event_def
          store_event_def dated_def)
    then show ?thesis using False s3 k3 k1 v1 rb1 by simp
  next
    case True
    let ?d = "d\<lparr>ev_id := global_event_id_counter s\<rparr>"
    let ?s4 = "currently_handled_event_update (\<lambda>m. m(0 \<mapsto> ?d)) (global_event_id_counter_update (\<lambda>n. n + 1) s3)"
    have h4: "helpers_succeed ?s4" using s3(4) by (simp add: helpers_succeed_def)
    have act: "ev_action ?d \<noteq> EXCLUDE_EVENT" using True by (auto simp: blocks_def)
    obtain s5 where s5: "run_state (submit_event ?d) ?s4 = ((), s5)" "rb s5 = ?d # rb s3"
      using submit_result [OF h4, of ?d] act by auto
    have "keeps sk_outgoing_connections (submit_event ?d)"
      unfolding submit_event_def submit_event_to_userspace_def by (intro frame_intros) simp_all
    from keepsD [OF this s5(1)] obtain x where x: "sk_outgoing_connections s5 sk = Some x"
      using k3(1) k1(3) tracked by auto
    have g: "global_event_id_counter s3 = global_event_id_counter s" using k3(2) v1(3) by simp
    have "run_state (connect_hook_2 ro k (Some sk)) s = (DENY, sk_outgoing_connections_update (\<lambda>m. m(sk := None)) s5)"
      using True s3(1,3) cur v1(2) id s5(1) x
      by (simp add: connect_hook_2_def s1 network_event_tcp_outgoing_tail_call_def get_currently_handled_event_def
          store_event_def dated_def set_event_id_when_id_is_zero_def get_next_event_id_def discard_sk_from_sk_storage_def
          outgoing_delete_def run_map_delete_elem g)
    then show ?thesis using True s5(2) s3(2) rb1 by simp
  qed
qed

definition outgoing_event :: "process_t \<Rightarrow> process_t \<Rightarrow> network_event_t \<Rightarrow> event_t" where
  "outgoing_event p pp n = add_processes p pp (add_network n empty_event_t)"

lemma connect_result:
  assumes ready: "hook_ready k s" "program_related_pids s (current_pid k) = None"
    and new: "sk_outgoing_connections s sk = None" and tcp: "sk_protocol (socks sk) = 6"
    and cached: "alive_process_cache_map s (current_pid k) = Some p" "alive_process_cache_map s (p_ppid p) = Some pp"
    and n: "fill_outgoing_connection_network_event_t_first_part empty_network_event_t (socks sk) address = (SUCCESS, n)"
    and rules: "wf_rules_db ro" "rules_encode (event_rules ro NETWORK) ex"
    and wf: "wf_event_strings ro (dated k (outgoing_event p pp n))"
  defines "d \<equiv> decision ro ex NETWORK (dated k (outgoing_event p pp n))"
  shows "\<exists>s'. run_state (connect_hook ro k socks (Some sk) address) s = (if blocks (ev_action d) then DENY else ALLOW, s') \<and>
    (if blocks (ev_action d) then rb s' = d\<lparr>ev_id := global_event_id_counter s\<rparr> # rb s \<and> sk_outgoing_connections s' sk = None
     else rb s' = rb s \<and> sk_outgoing_connections s' sk = Some (outgoing_event p pp n) \<and> helpers_succeed s' \<and>
       global_event_id_counter s' = global_event_id_counter s)"
proof -
  let ?e = "outgoing_event p pp n" and ?e1 = "add_network n empty_event_t"
  obtain s1 where s1: "run_state (set_hook_name (lit ''connect_hook'')) s = ((), s1)" by (rule exE [OF unit_run])
  have k1: "nview s1 = nview s" "sk_outgoing_connections s1 = sk_outgoing_connections s" "program_related_pids s1 = program_related_pids s"
    "alive_process_cache_map s1 = alive_process_cache_map s"
    by (rule keepsD [OF keeps_set_hook_name s1]; simp add: nview_def mview_def)+
  have r1: "fill_ready s1" using preservesD [OF fill_ready_hook_name, of s "lit ''connect_hook''"] ready(1) s1
    by (simp add: hook_ready_def)
  let ?s2 = "sk_outgoing_connections_update (\<lambda>m. m(sk \<mapsto> empty_event_t)) (s1\<lparr>helper_calls := Suc (helper_calls s1)\<rparr>)"
  have s2: "run_state (sk_storage_get_create sk_outgoing_connections sk_outgoing_connections_update empty_event_t sk) s1 = (Some empty_event_t, ?s2)"
    using run_sk_get [of s1 sk_outgoing_connections sk_outgoing_connections_update empty_event_t sk] r1 new k1(2) by (simp add: fill_ready_def)
  have r2: "fill_ready ?s2" "nview ?s2 = nview s" using r1 k1(1) by simp_all
  obtain s3 where s3: "run_state (fill_event_process_from_cache k (ev_process ?e1)) ?s2 = ((SUCCESS, p), s3)" "fill_ready s3"
    "alive_process_cache_map s3 = alive_process_cache_map s"
    using fill_process_cached [OF r2(1), of k "current_task k" p] cached(1) k1(4)
    by (auto simp: fill_event_process_from_cache_def current_pid_def)
  obtain s4 where s4: "run_state (fill_event_parent_process_from_cache k p (ev_parent_process ?e1)) s3 = ((SUCCESS, pp), s4)" "fill_ready s4"
    using fill_parent_cached [OF s3(2), of p pp] cached(2) s3(3) by auto
  have n4: "nview s4 = nview s"
    using keepsD [OF keeps_fill_event_process [OF fill_free_nview] s3(1)] keepsD [OF keeps_fill_event_parent [OF fill_free_nview] s4(1)] r2(2) by simp
  let ?s5 = "sk_outgoing_connections_update (\<lambda>m. m(sk \<mapsto> ?e)) s4"
  have r5: "hook_ready k ?s5" by (rule hook_ready_nview [OF ready(1)]) (simp_all add: n4 s4(2))
  have nm: "network_member empty_event_t = empty_network_event_t" by (simp add: network_member_def empty_event_t_def)
  have run: "run_state (connect_hook ro k socks (Some sk) address) s = run_state (decide ro ?e (connect_hook_2 ro k (Some sk))) ?s5"
    using ready(2) tcp s3(1) s4(1)
    by (simp add: connect_hook_def s1 run_is_related k1(3) s2 nm n Let_def sk_storage_put_def outgoing_event_def add_processes_def
        add_network_def decide_def)
  obtain s6 where s6: "run_state (decide ro ?e (connect_hook_2 ro k (Some sk))) ?s5 = run_state (connect_hook_2 ro k (Some sk)) s6"
    "helpers_succeed s6" "currently_handled_event s6 0 = Some ?e" "mview s6 = mview ?s5" "rb_reserved s6 = rb_reserved ?s5"
    "global_event_id_counter s6 = global_event_id_counter ?s5" "sk_outgoing_connections s6 = sk_outgoing_connections ?s5"
    using decide_enters [OF r5, of ro ?e "connect_hook_2 ro k (Some sk)"] by blast
  have g: "global_event_id_counter s6 = global_event_id_counter s" "rb s6 = rb s"
    using s6(4,6) n4 by (simp_all add: nview_def mview_def)
  have "ev_id ?e = 0" by (simp add: outgoing_event_def add_network_def add_processes_def empty_event_t_def)
  from outgoing_program_result [OF r5 s6(4,2,3) this _ rules wf, of sk] s6(7) g run s6(1)
  show ?thesis unfolding d_def by auto
qed

text \<open>
  The connection is established: the event kept in the socket storage is reported. It carries
  neither the action nor the rule that matched at the request.
\<close>

lemma established_result:
  assumes h: "helpers_succeed s" and stored: "sk_outgoing_connections s sk = Some e" and act: "ev_action e \<noteq> EXCLUDE_EVENT"
    and n: "fill_outgoing_connection_network_event_t_second_part (network_member e) (socks sk) = (SUCCESS, n)"
  shows "\<exists>s'. run_state (inet_conn_established k socks sk) s = (ALLOW, s') \<and>
    rb s' = e\<lparr>ev_id := global_event_id_counter s, ev_time := ktime_ns k, ev_data := Data_network n\<rparr> # rb s \<and>
    sk_outgoing_connections s' sk = None"
proof -
  obtain s1 where s1: "run_state (set_hook_name (lit ''inet_conn_established'')) s = ((), s1)" by (rule exE [OF unit_run])
  have k1: "nview s1 = nview s" "sk_outgoing_connections s1 = sk_outgoing_connections s" "helper_outcome s1 = helper_outcome s"
    by (rule keepsD [OF keeps_set_hook_name s1]; simp add: nview_def mview_def)+
  let ?e = "e\<lparr>ev_id := global_event_id_counter s, ev_time := ktime_ns k, ev_data := Data_network n\<rparr>"
  let ?s2 = "sk_outgoing_connections_update (\<lambda>m. m(sk \<mapsto> ?e)) (global_event_id_counter_update (\<lambda>n. n + 1) s1)"
  have h2: "helpers_succeed ?s2" using h k1(3) by (simp add: helpers_succeed_def)
  obtain s3 where s3: "run_state (submit_event ?e) ?s2 = ((), s3)" "rb s3 = ?e # rb s1"
    using submit_result [OF h2, of ?e] act by auto
  have g: "global_event_id_counter s1 = global_event_id_counter s" "rb s1 = rb s" using k1(1) by (simp_all add: nview_def mview_def)
  have "run_state (inet_conn_established k socks sk) s = (ALLOW, sk_outgoing_connections_update (\<lambda>m. m(sk := None)) s3)"
    using s3(1) stored
    by (simp add: inet_conn_established_def s1 k1(2) get_next_event_id_def n Let_def sk_storage_put_def outgoing_delete_def
        run_map_delete_elem g(1))
  then show ?thesis using s3(2) g(2) by simp
qed

end
