(* ===== verification/Shell_Commands.thy ===== *)
theory Shell_Commands
  imports Hooks_Process
begin

text \<open>
  The commands typed into interactive shells: \<^verbatim>\<open>bash_shell_command.bpf.c\<close> and
  \<^verbatim>\<open>zsh_shell_command.bpf.c\<close>. A probe at the return of the line reader stores the line in the cached
  process of the shell, where rules on the shell command find it; a probe at the next prompt
  clears it. The line that a reader returns is an argument, \<open>None\<close> for a null pointer.
\<close>

section \<open>Storing a command\<close>

abbreviation NEWLINE :: u8 where "NEWLINE \<equiv> 10"

text \<open>
  The copy of the line, without a final newline. The index is masked; for an empty line, which
  the test excludes, it is 255.
\<close>

definition read_command :: "bytes \<Rightarrow> command_line_t \<Rightarrow> command_line_t" where
  "read_command text cmd =
     (let value = read_kernel_str (c_value cmd) CMD_MAX text;
          len = read_kernel_str_ret CMD_MAX text - 1;
          read_len_minus_1 = LIMIT_PATH_SIZE (len + PATH_MAX - 1)
      in if len > 0 \<and> value ! read_len_minus_1 = NEWLINE
         then \<lparr>c_length = word_of_nat read_len_minus_1, c_value = value[read_len_minus_1 := 0]\<rparr>
         else \<lparr>c_length = word_of_nat len, c_value = value\<rparr>)"

text \<open>
  What the return probes share: complete a scratch process from the cache, set its command by a
  read that may fail, and copy the command to the cached process.
\<close>

definition store_command :: "kernel \<Rightarrow> string \<Rightarrow> (command_line_t \<Rightarrow> command_line_t) \<Rightarrow> int bpf" where
  "store_command k loc read = do {
     process \<leftarrow> allocate_process_t;
     case process of
       None \<Rightarrow> do { REPORT_ERROR GENERIC_ERROR loc; State_Monad.return 0 }
     | Some slot \<Rightarrow> do {
         p0 \<leftarrow> load_process slot;
         (ret, p) \<leftarrow> fill_event_process_from_cache k p0;
         store_process slot p;
         if ret \<noteq> SUCCESS then do { REPORT_ERROR GENERIC_ERROR loc; State_Monad.return 0 }
         else do {
           ok \<leftarrow> helper_ok;
           if \<not> ok then do { REPORT_ERROR GENERIC_ERROR loc; State_Monad.return 0 }
           else do {
             let cmd = read (p_shell_command p);
             store_process slot (p\<lparr>p_shell_command := cmd\<rparr>);
             update_shell_command_in_process (p_pid p) cmd;
             State_Monad.return 0 } } } }"

section \<open>Bash\<close>

definition enter_readline :: "kernel \<Rightarrow> int bpf" where
  "enter_readline k = do {
     set_hook_name (lit ''enter_readline'');
     related \<leftarrow> is_current_pid_related (current_pid k);
     if related then State_Monad.return 0
     else do {
       delete_shell_command_from_alive_process (current_pid k);
       State_Monad.return 0 } }"

definition exit_readline :: "kernel \<Rightarrow> bytes option \<Rightarrow> int bpf" where
  "exit_readline k line = do {
     set_hook_name (lit ''exit_readline'');
     related \<leftarrow> is_current_pid_related (current_pid k);
     if related then State_Monad.return 0
     else case line of
       None \<Rightarrow> State_Monad.return 0
     | Some text \<Rightarrow> store_command k ''exit_readline'' (read_command text) }"

section \<open>Zsh\<close>

text \<open>
  Zsh reads a command by two functions that call each other in either order; the command of the
  shell is cleared once both have been entered.
\<close>

abbreviation HOOK_ZLEENTRY_ENTERED :: u8 where "HOOK_ZLEENTRY_ENTERED \<equiv> 0x01"

abbreviation HOOK_PARSE_EVENT_ENTERED :: u8 where "HOOK_PARSE_EVENT_ENTERED \<equiv> 0x02"

definition HOOK_BOTH_ENTERED :: u8 where
  "HOOK_BOTH_ENTERED = HOOK_ZLEENTRY_ENTERED OR HOOK_PARSE_EVENT_ENTERED"

definition check_and_clear_if_both_hooks_entered :: "u32 \<Rightarrow> u8 \<Rightarrow> unit bpf" where
  "check_and_clear_if_both_hooks_entered pid current_hook_bit = do {
     existing_bits \<leftarrow> reads (\<lambda>s. active_shell_pids s pid);
     let new_bits = (case existing_bits of Some b \<Rightarrow> b OR current_hook_bit | None \<Rightarrow> current_hook_bit);
     if new_bits = HOOK_BOTH_ENTERED then do {
       delete_shell_command_from_alive_process pid;
       delete_pid_from_active_shell_pids pid }
     else do {
       _ \<leftarrow> map_update_elem active_shell_pids_update pid new_bits;
       State_Monad.return () } }"

definition enter_zleentry :: "kernel \<Rightarrow> int bpf" where
  "enter_zleentry k = do {
     set_hook_name (lit ''enter_zleentry'');
     related \<leftarrow> is_current_pid_related (current_pid k);
     if related then State_Monad.return 0
     else do {
       check_and_clear_if_both_hooks_entered (current_pid k) HOOK_ZLEENTRY_ENTERED;
       State_Monad.return 0 } }"

definition enter_parse_event :: "kernel \<Rightarrow> int bpf" where
  "enter_parse_event k = do {
     set_hook_name (lit ''enter_parse_event'');
     related \<leftarrow> is_current_pid_related (current_pid k);
     if related then State_Monad.return 0
     else do {
       check_and_clear_if_both_hooks_entered (current_pid k) HOOK_PARSE_EVENT_ENTERED;
       State_Monad.return 0 } }"

definition exit_zleentry :: "kernel \<Rightarrow> bytes option \<Rightarrow> int bpf" where
  "exit_zleentry k line = do {
     set_hook_name (lit ''exit_zleentry'');
     related \<leftarrow> is_current_pid_related (current_pid k);
     if related then State_Monad.return 0
     else case line of
       None \<Rightarrow> State_Monad.return 0
     | Some text \<Rightarrow> store_command k ''exit_zleentry'' (read_command text) }"

section \<open>The stored text\<close>

text \<open>The typed line, cut to the size of the buffer, without its newline.\<close>

definition typed :: "bytes \<Rightarrow> bytes" where
  "typed text = (let line = take (CMD_MAX - 1) (c_string text)
     in if line \<noteq> [] \<and> last line = NEWLINE then butlast line else line)"

definition command_text :: "command_line_t \<Rightarrow> bytes" where
  "command_text cmd = take (unat (c_length cmd)) (c_value cmd)"

lemma read_command_text:
  assumes "length (c_value cmd) = CMD_MAX"
  shows "command_text (read_command text cmd) = typed text"
    and "length (c_value (read_command text cmd)) = CMD_MAX"
    and "c_value (read_command text cmd) ! length (typed text) = 0"
proof -
  define line where "line = take 255 (c_string text)"
  let ?n = "length line"
  have n: "?n \<le> 255" by (simp add: line_def)
  define buf where "buf = line @ 0 # drop (Suc ?n) (c_value cmd)"
  have v: "read_kernel_str (c_value cmd) CMD_MAX text = buf"
    by (simp add: read_kernel_str_def write_at_def Let_def buf_def line_def)
  have len: "length buf = 256" using assms n by (simp add: buf_def)
  have r: "read_kernel_str_ret CMD_MAX text - 1 = ?n" by (simp add: read_kernel_str_ret_def line_def)
  have i: "0 < ?n \<Longrightarrow> LIMIT_PATH_SIZE (?n + PATH_MAX - 1) = ?n - 1"
    using n by (simp only: LIMIT_PATH_SIZE_mod) (simp add: mod_if)
  have l: "0 < ?n \<Longrightarrow> buf ! (?n - 1) = last line"
    by (simp add: buf_def nth_append last_conv_nth)
  have cmd: "read_command text cmd = (if 0 < ?n \<and> last line = NEWLINE
      then \<lparr>c_length = word_of_nat (?n - 1), c_value = buf[?n - 1 := 0]\<rparr>
      else \<lparr>c_length = word_of_nat ?n, c_value = buf\<rparr>)"
    unfolding read_command_def v r Let_def using i l by auto
  have u: "unat (word_of_nat (?n - 1) :: u16) = ?n - 1" "unat (word_of_nat ?n :: u16) = ?n"
    using n by (simp_all add: unat_of_nat)
  have ty: "typed text = (if line \<noteq> [] \<and> last line = NEWLINE then butlast line else line)"
    by (simp add: typed_def line_def Let_def)
  have b: "butlast line = take (?n - 1) line" by (rule butlast_conv_take)
  show "command_text (read_command text cmd) = typed text"
    unfolding cmd command_text_def ty
    using u by (auto simp: b Let_def buf_def)
  show "length (c_value (read_command text cmd)) = CMD_MAX"
    unfolding cmd using len by simp
  show "c_value (read_command text cmd) ! length (typed text) = 0"
    unfolding cmd ty
    using n len by (auto simp: Let_def buf_def nth_append)
qed

lemma run_update_shell:
  "helpers_succeed s \<Longrightarrow> alive_process_cache_map s pid = Some p \<Longrightarrow>
   run_state (update_shell_command_in_process pid cmd) s =
     ((), s\<lparr>helper_calls := Suc (helper_calls s),
       alive_process_cache_map := (alive_process_cache_map s)(pid \<mapsto> p\<lparr>p_shell_command := cmd\<rparr>)\<rparr>)"
  by (simp add: update_shell_command_in_process_def helpers_succeed_def)

lemma store_command_result:
  assumes ready: "fill_ready s" and cached: "alive_process_cache_map s (current_pid k) = Some p" "p_pid p = current_pid k"
  shows "\<exists>s'. run_state (store_command k loc read) s = (0, s') \<and> fill_ready s' \<and>
    alive_process_cache_map s' = (alive_process_cache_map s)
      (current_pid k \<mapsto> p\<lparr>p_shell_command := read (p_shell_command p)\<rparr>)"
proof -
  obtain i s1 where s1: "run_state allocate_process_t s = (Some i, s1)"
    "alive_process_cache_map s1 = alive_process_cache_map s"
    using run_allocate_process [of s] ready by (auto simp: fill_ready_def)
  have r1: "fill_ready s1" using preservesD [OF fill_ready_alloc_process ready] s1(1) by (metis snd_conv)
  obtain p0 where l: "run_state (load_process i) s1 = (p0, s1)" by (simp add: load_process_def)
  obtain s2 where s2: "run_state (fill_event_process_from_cache k p0) s1 = ((SUCCESS, p), s2)" "fill_ready s2"
    "alive_process_cache_map s2 = alive_process_cache_map s"
    using fill_process_cached [OF r1, of k "current_task k" p] cached(1) s1(2)
    by (auto simp: fill_event_process_from_cache_def current_pid_def)
  let ?s3 = "s2\<lparr>heap_process_t_map := (heap_process_t_map s2)(i \<mapsto> p)\<rparr>"
  let ?cmd = "read (p_shell_command p)"
  let ?s4 = "?s3\<lparr>helper_calls := Suc (helper_calls ?s3), heap_process_t_map := (heap_process_t_map ?s3)(i \<mapsto> p\<lparr>p_shell_command := ?cmd\<rparr>)\<rparr>"
  have h4: "helpers_succeed ?s4" using s2(2) by (simp add: fill_ready_def helpers_succeed_def)
  let ?s5 = "?s4\<lparr>helper_calls := Suc (helper_calls ?s4),
       alive_process_cache_map := (alive_process_cache_map ?s4)(current_pid k \<mapsto> p\<lparr>p_shell_command := ?cmd\<rparr>)\<rparr>"
  have s5: "run_state (update_shell_command_in_process (p_pid p) ?cmd) ?s4 = ((), ?s5)"
    unfolding cached(2) by (rule run_update_shell [OF h4]) (simp add: s2(3) cached(1))
  have ok: "helper_outcome s2 = (\<lambda>_. True)" using s2(2) by (simp add: fill_ready_def helpers_succeed_def)
  have "run_state (store_command k loc read) s = (0, ?s5)"
    using s1(1) l s2(1) s5 by (simp add: store_command_def ok Let_def)
  moreover have "fill_ready ?s5"
    using s2(2) by (simp add: fill_ready_def helpers_succeed_def heap_ok_def buffers_ready_def)
  moreover have "alive_process_cache_map ?s5 = (alive_process_cache_map s)(current_pid k \<mapsto> p\<lparr>p_shell_command := ?cmd\<rparr>)"
    using s2(3) by simp
  ultimately show ?thesis by blast
qed

section \<open>Line readers\<close>

text \<open>The probes at the return of the two line readers keep one contract.\<close>

locale line_reader =
  fixes probe :: "kernel \<Rightarrow> bytes option \<Rightarrow> int bpf" and loc :: string
  assumes probe_is: "probe k line = do {
     set_hook_name (lit loc);
     related \<leftarrow> is_current_pid_related (current_pid k);
     if related then State_Monad.return 0
     else case line of
       None \<Rightarrow> State_Monad.return 0
     | Some text \<Rightarrow> store_command k loc (read_command text) }"
begin

lemma probe_ignores:
  assumes "program_related_pids s (current_pid k) \<noteq> None \<or> line = None"
  shows "alive_process_cache_map (snd (run_state (probe k line) s)) = alive_process_cache_map s"
  using assms unfolding probe_is name_step
  by (auto simp: run_is_related name_fields)

lemma probe_stores:
  assumes ready: "fill_ready s" "program_related_pids s (current_pid k) = None"
    and cached: "alive_process_cache_map s (current_pid k) = Some p" "p_pid p = current_pid k" "wf_process p"
  shows "\<exists>p' s'. run_state (probe k (Some text)) s = (0, s') \<and>
    alive_process_cache_map s' = (alive_process_cache_map s)(current_pid k \<mapsto> p') \<and>
    command_text (p_shell_command p') = typed text \<and> p'\<lparr>p_shell_command := p_shell_command p\<rparr> = p \<and> wf_process p'"
proof -
  let ?s1 = "snd (run_state (set_hook_name (lit loc)) s)"
  have r1: "fill_ready ?s1" by (rule preservesD [OF fill_ready_hook_name ready(1)])
  have c1: "alive_process_cache_map ?s1 (current_pid k) = Some p" using cached(1) by (simp add: name_fields)
  obtain s' where s': "run_state (store_command k loc (read_command text)) ?s1 = (0, s')"
    "alive_process_cache_map s' = (alive_process_cache_map s)
      (current_pid k \<mapsto> p\<lparr>p_shell_command := read_command text (p_shell_command p)\<rparr>)"
    using store_command_result [OF r1 c1 cached(2), of loc "read_command text"] by (auto simp: name_fields)
  have "length (c_value (p_shell_command p)) = CMD_MAX" using cached(3) by (simp add: wf_process_def)
  from read_command_text [OF this, of "text"] s' ready(2) cached(3) show ?thesis
    unfolding probe_is name_step by (auto simp: run_is_related name_fields wf_process_def)
qed

end

interpretation bash: line_reader exit_readline "''exit_readline''"
  by unfold_locales (simp add: exit_readline_def)

interpretation zsh: line_reader exit_zleentry "''exit_zleentry''"
  by unfold_locales (simp add: exit_zleentry_def)

section \<open>Prompts\<close>

lemma run_delete_shell_alive:
  "helpers_succeed s \<Longrightarrow> alive_process_cache_map s pid = Some p \<Longrightarrow>
   \<exists>n. run_state (delete_shell_command_from_alive_process pid) s =
     ((), alive_process_cache_map_update (\<lambda>m. m(pid \<mapsto> without_shell_command p)) (s\<lparr>helper_calls := n\<rparr>))"
  by (auto simp: delete_shell_command_from_alive_process_def delete_shell_command_from_process_def helpers_succeed_def
      without_shell_command_def fun_upd_idem intro: exI [of _ "helper_calls s"])

lemma enter_readline_clears:
  assumes "helpers_succeed s" "program_related_pids s (current_pid k) = None" "alive_process_cache_map s (current_pid k) = Some p"
  shows "alive_process_cache_map (snd (run_state (enter_readline k) s)) =
    (alive_process_cache_map s)(current_pid k \<mapsto> without_shell_command p)"
proof -
  let ?s1 = "snd (run_state (set_hook_name (lit ''enter_readline'')) s)"
  have "helpers_succeed ?s1" "alive_process_cache_map ?s1 (current_pid k) = Some p"
    using assms(1,3) by (simp_all add: helpers_succeed_def name_fields)
  from run_delete_shell_alive [OF this] assms(2) show ?thesis
    unfolding enter_readline_def name_step by (auto simp: run_is_related name_fields)
qed

text \<open>The bits of the functions that a shell has entered since its command was cleared.\<close>

definition entered :: "bpf_state \<Rightarrow> u32 \<Rightarrow> u8" where
  "entered s pid = (case active_shell_pids s pid of None \<Rightarrow> 0 | Some b \<Rightarrow> b)"

lemma check_and_clear_result:
  assumes "helpers_succeed s" "alive_process_cache_map s pid = Some p"
  shows "\<exists>s'. run_state (check_and_clear_if_both_hooks_entered pid b) s = ((), s') \<and> helpers_succeed s' \<and>
    program_related_pids s' = program_related_pids s \<and>
    (if entered s pid OR b = HOOK_BOTH_ENTERED
     then active_shell_pids s' pid = None \<and> alive_process_cache_map s' = (alive_process_cache_map s)(pid \<mapsto> without_shell_command p)
     else active_shell_pids s' pid = Some (entered s pid OR b) \<and> alive_process_cache_map s' = alive_process_cache_map s)"
proof -
  have n: "(case active_shell_pids s pid of Some b' \<Rightarrow> b' OR b | None \<Rightarrow> b) = entered s pid OR b"
    by (simp add: entered_def split: option.split)
  obtain m where "run_state (delete_shell_command_from_alive_process pid) s =
     ((), alive_process_cache_map_update (\<lambda>m. m(pid \<mapsto> without_shell_command p)) (s\<lparr>helper_calls := m\<rparr>))"
    using run_delete_shell_alive [OF assms] by blast
  with assms(1) show ?thesis
    by (simp add: check_and_clear_if_both_hooks_entered_def n Let_def delete_pid_from_active_shell_pids_def
        run_map_delete_elem run_map_update_elem helpers_succeed_def)
qed

text \<open>Both probes of zsh are this one, with their bit.\<close>

locale prompt_probe =
  fixes probe :: "kernel \<Rightarrow> int bpf" and loc :: string and b :: u8
  assumes probe_is: "probe k = do {
     set_hook_name (lit loc);
     related \<leftarrow> is_current_pid_related (current_pid k);
     if related then State_Monad.return 0
     else do { check_and_clear_if_both_hooks_entered (current_pid k) b; State_Monad.return 0 } }"
begin

lemma probe_result:
  assumes "helpers_succeed s" "program_related_pids s (current_pid k) = None"
    and "alive_process_cache_map s (current_pid k) = Some p"
  shows "\<exists>s'. run_state (probe k) s = (0, s') \<and> helpers_succeed s' \<and> program_related_pids s' = program_related_pids s \<and>
    (if entered s (current_pid k) OR b = HOOK_BOTH_ENTERED
     then active_shell_pids s' (current_pid k) = None \<and>
       alive_process_cache_map s' = (alive_process_cache_map s)(current_pid k \<mapsto> without_shell_command p)
     else active_shell_pids s' (current_pid k) = Some (entered s (current_pid k) OR b) \<and>
       alive_process_cache_map s' = alive_process_cache_map s)"
proof -
  let ?s1 = "snd (run_state (set_hook_name (lit loc)) s)"
  have "helpers_succeed ?s1" "alive_process_cache_map ?s1 (current_pid k) = Some p"
    using assms(1,3) by (simp_all add: helpers_succeed_def name_fields)
  from check_and_clear_result [OF this, of b] assms(2) show ?thesis
    unfolding probe_is name_step by (auto simp: run_is_related name_fields entered_def)
qed

end

interpretation zle: prompt_probe enter_zleentry "''enter_zleentry''" HOOK_ZLEENTRY_ENTERED
  by unfold_locales (simp add: enter_zleentry_def)

interpretation pe: prompt_probe enter_parse_event "''enter_parse_event''" HOOK_PARSE_EVENT_ENTERED
  by unfold_locales (simp add: enter_parse_event_def)

lemma zsh_prompt:
  assumes "helpers_succeed s" "program_related_pids s (current_pid k) = None" "active_shell_pids s (current_pid k) = None"
    and "alive_process_cache_map s (current_pid k) = Some p"
    and "(first, second) = (enter_zleentry k, enter_parse_event k) \<or> (first, second) = (enter_parse_event k, enter_zleentry k)"
  shows "\<exists>s1 s2. run_state first s = (0, s1) \<and> alive_process_cache_map s1 = alive_process_cache_map s \<and>
    run_state second s1 = (0, s2) \<and> active_shell_pids s2 (current_pid k) = None \<and>
    alive_process_cache_map s2 = (alive_process_cache_map s)(current_pid k \<mapsto> without_shell_command p)"
proof -
  have e: "entered s (current_pid k) = 0" using assms(3) by (simp add: entered_def)
  have b: "(1 :: u8) OR 2 = HOOK_BOTH_ENTERED" "(2 :: u8) OR 1 = HOOK_BOTH_ENTERED" "HOOK_BOTH_ENTERED \<noteq> 1" "HOOK_BOTH_ENTERED \<noteq> 2"
    by (simp_all add: HOOK_BOTH_ENTERED_def)
  note z = zle.probe_result and p = pe.probe_result
  from assms(5) show ?thesis
  proof
    assume "(first, second) = (enter_zleentry k, enter_parse_event k)"
    moreover obtain s1 where "run_state (enter_zleentry k) s = (0, s1)" "helpers_succeed s1" "program_related_pids s1 = program_related_pids s"
      "active_shell_pids s1 (current_pid k) = Some 1" "alive_process_cache_map s1 = alive_process_cache_map s"
      using z [OF assms(1,2,4)] b e by auto
    moreover from this p [of s1 k p] obtain s2 where "run_state (enter_parse_event k) s1 = (0, s2)" "active_shell_pids s2 (current_pid k) = None"
      "alive_process_cache_map s2 = (alive_process_cache_map s)(current_pid k \<mapsto> without_shell_command p)"
      using assms(2,4) b by (auto simp: entered_def)
    ultimately show ?thesis by auto
  next
    assume "(first, second) = (enter_parse_event k, enter_zleentry k)"
    moreover obtain s1 where "run_state (enter_parse_event k) s = (0, s1)" "helpers_succeed s1" "program_related_pids s1 = program_related_pids s"
      "active_shell_pids s1 (current_pid k) = Some 2" "alive_process_cache_map s1 = alive_process_cache_map s"
      using p [OF assms(1,2,4)] b e by auto
    moreover from this z [of s1 k p] obtain s2 where "run_state (enter_zleentry k) s1 = (0, s2)" "active_shell_pids s2 (current_pid k) = None"
      "alive_process_cache_map s2 = (alive_process_cache_map s)(current_pid k \<mapsto> without_shell_command p)"
      using assms(2,4) b by (auto simp: entered_def)
    ultimately show ?thesis by auto
  qed
qed

end
