(* ===== verification/Dash_Command.thy ===== *)
theory Dash_Command
  imports Shell_Commands
begin

text \<open>
  Dash has no line reader to probe. \<^verbatim>\<open>dash_shell_command.bpf.c\<close> probes the return of its parser and
  prints the parse tree back into a command: a depth-first walk with an explicit stack visits
  the simple commands of \<^verbatim>\<open>;\<close>, \<^verbatim>\<open>&&\<close> and \<^verbatim>\<open>||\<close> lists, wrappers (negation, redirection, background,
  subshell) are peeled off, pipelines are followed, and the control bytes dash keeps in its words
  are translated. The memory of the shell is the record \<open>dash_mem\<close>: for each node structure of
  \<^verbatim>\<open>dash_nodes.h\<close> what a read at an address yields, \<open>None\<close> where the read fails.
\<close>

section \<open>Nodes\<close>

abbreviation DASH_NCMD :: int where "DASH_NCMD \<equiv> 0"
abbreviation DASH_NPIPE :: int where "DASH_NPIPE \<equiv> 1"
abbreviation DASH_NREDIR :: int where "DASH_NREDIR \<equiv> 2"
abbreviation DASH_NBACKGND :: int where "DASH_NBACKGND \<equiv> 3"
abbreviation DASH_NSUBSHELL :: int where "DASH_NSUBSHELL \<equiv> 4"
abbreviation DASH_NAND :: int where "DASH_NAND \<equiv> 5"
abbreviation DASH_NOR :: int where "DASH_NOR \<equiv> 6"
abbreviation DASH_NSEMI :: int where "DASH_NSEMI \<equiv> 7"
abbreviation DASH_NARG :: int where "DASH_NARG \<equiv> 15"
abbreviation DASH_NTO :: int where "DASH_NTO \<equiv> 16"
abbreviation DASH_NCLOBBER :: int where "DASH_NCLOBBER \<equiv> 17"
abbreviation DASH_NFROM :: int where "DASH_NFROM \<equiv> 18"
abbreviation DASH_NFROMTO :: int where "DASH_NFROMTO \<equiv> 19"
abbreviation DASH_NAPPEND :: int where "DASH_NAPPEND \<equiv> 20"
abbreviation DASH_NNOT :: int where "DASH_NNOT \<equiv> 25"

abbreviation DASH_CTLESC :: u8 where "DASH_CTLESC \<equiv> 0x81"
abbreviation DASH_CTLQUOTEMARK :: u8 where "DASH_CTLQUOTEMARK \<equiv> 0x88"

record dash_ncmd =
  nc_type :: int
  nc_linno :: int
  nc_assign :: u64
  nc_args :: u64
  nc_redirect :: u64

record dash_npipe =
  np_type :: int
  np_backgnd :: int
  np_cmdlist :: u64

record dash_nredir =
  nr_type :: int
  nr_linno :: int
  nr_n :: u64
  nr_redirect :: u64

record dash_nbinary =
  nb_type :: int
  nb_ch1 :: u64
  nb_ch2 :: u64

record dash_narg =
  na_type :: int
  na_next :: u64
  na_text :: u64
  na_backquote :: u64

record dash_nnot =
  nn_type :: int
  nn_com :: u64

record dash_nodelist =
  nl_next :: u64
  nl_n :: u64

record dash_nfile =
  nf_type :: int
  nf_next :: u64
  nf_fd :: int
  nf_fname :: u64
  nf_expfname :: u64

record dash_mem =
  um_type :: "u64 \<rightharpoonup> int"
  um_ncmd :: "u64 \<rightharpoonup> dash_ncmd"
  um_npipe :: "u64 \<rightharpoonup> dash_npipe"
  um_nredir :: "u64 \<rightharpoonup> dash_nredir"
  um_nbinary :: "u64 \<rightharpoonup> dash_nbinary"
  um_narg :: "u64 \<rightharpoonup> dash_narg"
  um_nnot :: "u64 \<rightharpoonup> dash_nnot"
  um_nodelist :: "u64 \<rightharpoonup> dash_nodelist"
  um_nfile :: "u64 \<rightharpoonup> dash_nfile"
  um_str :: "u64 \<rightharpoonup> bytes"

section \<open>Appending to the command\<close>

definition boundedCmdIdx :: "nat \<Rightarrow> nat" where
  "boundedCmdIdx i = i AND (CMD_MAX - 1)"

text \<open>
  \<^verbatim>\<open>BPF_SNPRINTF\<close> into the command: the helper copies its arguments before it writes, so that the
  command may be one of them; the result counts the terminator and is that of the text that was
  asked for.
\<close>

definition print_into :: "CmdStr \<Rightarrow> bytes \<Rightarrow> CmdStr" where
  "print_into out full =
     (let n = length full + 1;
          arr = write_at (cs_arr out) 0 (take (CMD_MAX - 1) full @ [0])
      in if n > 1
         then out\<lparr>cs_arr := arr, cs_length := (if n - 1 < CMD_MAX then word_of_nat (n - 1) else word_of_nat (CMD_MAX - 1))\<rparr>
         else out\<lparr>cs_arr := arr\<rparr>)"

definition appendStr :: "CmdStr \<Rightarrow> bytes \<Rightarrow> CmdStr" where
  "appendStr out str =
     (if unat (cs_length out) \<ge> CMD_MAX - 1 then out
      else if cs_length out = 0 then print_into out str
      else print_into out (c_string (cs_arr out) @ [SPACE] @ str))"

definition appendStrNoLeadingSpace :: "CmdStr \<Rightarrow> bytes \<Rightarrow> CmdStr" where
  "appendStrNoLeadingSpace out str =
     (if unat (cs_length out) \<ge> CMD_MAX - 1 then out
      else if cs_length out = 0 then print_into out str
      else print_into out (c_string (cs_arr out) @ str))"

definition appendSeparator :: "CmdStr \<Rightarrow> int \<Rightarrow> CmdStr" where
  "appendSeparator out type =
     (if type = DASH_NSEMI then
        if cs_length out > 0 \<and> cs_arr out ! boundedCmdIdx (unat (cs_length out) - 1) = 38 then out
        else appendStrNoLeadingSpace out (lit '';'')
      else if type = DASH_NAND then appendStr out (lit ''&&'')
      else if type = DASH_NOR then appendStr out (lit ''||'')
      else out)"

section \<open>Control bytes\<close>

text \<open>
  One character. The result is \<open>None\<close> at the end of the text; the positions of reader and writer,
  which the source packs into one integer, are at most 256.
\<close>

definition sanitizeOneChar :: "CmdStr \<Rightarrow> nat \<Rightarrow> nat \<Rightarrow> (nat \<times> nat) option \<times> CmdStr" where
  "sanitizeOneChar cmd r w =
     (if r \<ge> CMD_MAX \<or> w \<ge> CMD_MAX then (None, cmd)
      else
        let c = cs_arr cmd ! boundedCmdIdx r
        in if c = 0 then (None, cmd)
           else if c = DASH_CTLQUOTEMARK
           then (Some (r + 1, w + 1), cmd\<lparr>cs_arr := (cs_arr cmd)[boundedCmdIdx w := 39]\<rparr>)
           else if c = DASH_CTLESC then
             let next_r = r + 1
             in if next_r \<ge> CMD_MAX then (None, cmd)
                else if cs_arr cmd ! boundedCmdIdx next_r \<noteq> 0
                then (Some (next_r + 1, w + 1), cmd\<lparr>cs_arr := (cs_arr cmd)[boundedCmdIdx w := cs_arr cmd ! boundedCmdIdx next_r]\<rparr>)
                else (Some (next_r, w), cmd)
           else if c \<ge> 0x82 \<and> c \<le> 0x87 then (Some (r + 1, w), cmd)
           else (Some (r + 1, w + 1), cmd\<lparr>cs_arr := (cs_arr cmd)[boundedCmdIdx w := c]\<rparr>))"

definition sanitizeNullTerminate :: "CmdStr \<Rightarrow> nat \<Rightarrow> CmdStr" where
  "sanitizeNullTerminate cmd w =
     (if w \<ge> CMD_MAX then cmd else cmd\<lparr>cs_arr := (cs_arr cmd)[boundedCmdIdx w := 0]\<rparr>)"

fun sanitize_loop :: "nat \<Rightarrow> CmdStr \<Rightarrow> nat \<Rightarrow> nat \<Rightarrow> CmdStr \<times> nat" where
  "sanitize_loop 0 cmd r w = (cmd, w)"
| "sanitize_loop (Suc n) cmd r w = (case sanitizeOneChar cmd r w of
     (None, cmd') \<Rightarrow> (cmd', w)
   | (Some (r', w'), cmd') \<Rightarrow> sanitize_loop n cmd' r' w')"

definition sanitizeDashText :: "CmdStr \<Rightarrow> CmdStr" where
  "sanitizeDashText cmd =
     (let (cmd1, w) = sanitize_loop CMD_MAX cmd 0 0
      in (sanitizeNullTerminate cmd1 w)\<lparr>cs_length := word_of_nat w\<rparr>)"

section \<open>Words and redirections\<close>

text \<open>The decimal numeral of \<^verbatim>\<open>%d\<close>.\<close>

fun digits :: "nat \<Rightarrow> bytes" where
  "digits n = (if n < 10 then [word_of_nat (48 + n)] else digits (n div 10) @ [word_of_nat (48 + n mod 10)])"

declare digits.simps [simp del]

definition decimal :: "int \<Rightarrow> bytes" where
  "decimal i = (if i < 0 then 45 # digits (nat (- i)) else digits (nat i))"

definition redir_sym :: "dash_nfile \<Rightarrow> bytes" where
  "redir_sym nf =
     (let numbered = (\<lambda>fd sym. if nf_fd nf \<noteq> fd then take 7 (decimal (nf_fd nf) @ sym) else sym)
      in if nf_type nf = DASH_NTO \<or> nf_type nf = DASH_NCLOBBER then numbered 1 (lit ''>'')
         else if nf_type nf = DASH_NFROM then numbered 0 (lit ''<'')
         else if nf_type nf = DASH_NAPPEND then numbered 1 (lit ''>>'')
         else if nf_type nf = DASH_NFROMTO then numbered 0 (lit ''<>'')
         else [])"

text \<open>
  The text behind a pointer, as \<^verbatim>\<open>bpf_probe_read_user_str\<close> leaves it in the cleared buffer; an
  unreadable one leaves the buffer empty.
\<close>

definition text_at :: "dash_mem \<Rightarrow> u64 \<Rightarrow> bytes" where
  "text_at mem a = (case um_str mem a of None \<Rightarrow> [] | Some str \<Rightarrow> take (CMD_MAX - 1) (c_string str))"

fun printRedirects :: "dash_mem \<Rightarrow> nat \<Rightarrow> u64 \<Rightarrow> CmdStr \<Rightarrow> CmdStr" where
  "printRedirects mem 0 cur out = out"
| "printRedirects mem (Suc n) cur out =
     (if cur = 0 then out
      else case um_nfile mem cur of
        None \<Rightarrow> out
      | Some nf \<Rightarrow>
          let out' =
            (if nf_type nf \<ge> DASH_NTO \<and> nf_type nf \<le> DASH_NAPPEND \<and> nf_fname nf \<noteq> 0 then
               case um_narg mem (nf_fname nf) of
                 None \<Rightarrow> out
               | Some arg \<Rightarrow>
                   if na_type arg = DASH_NARG \<and> na_text arg \<noteq> 0
                   then appendStr (appendStr out (redir_sym nf)) (text_at mem (na_text arg))
                   else out
             else out)
          in printRedirects mem n (nf_next nf) out')"

abbreviation MAX_REDIRECTS :: nat where "MAX_REDIRECTS \<equiv> 4"

fun print_args :: "dash_mem \<Rightarrow> nat \<Rightarrow> u64 \<Rightarrow> CmdStr \<Rightarrow> CmdStr" where
  "print_args mem 0 next_arg out = out"
| "print_args mem (Suc n) next_arg out =
     (if next_arg = 0 then out
      else case um_narg mem next_arg of
        None \<Rightarrow> out
      | Some arg \<Rightarrow>
          if na_type arg \<noteq> DASH_NARG \<or> na_text arg = 0 then out
          else print_args mem n (na_next arg) (appendStr out (text_at mem (na_text arg))))"

text \<open>\<open>scratch\<close> is whether the buffers of \<^verbatim>\<open>print_scratch\<close> are there.\<close>

definition printNcmdWithRedir :: "dash_mem \<Rightarrow> bool \<Rightarrow> u64 \<Rightarrow> u64 \<Rightarrow> CmdStr \<Rightarrow> CmdStr" where
  "printNcmdWithRedir mem scratch node extra_redir out =
     (if node = 0 \<or> \<not> scratch then out
      else case um_ncmd mem node of
        None \<Rightarrow> out
      | Some cmd \<Rightarrow>
          if nc_args cmd = 0 then out
          else case um_narg mem (nc_args cmd) of
            None \<Rightarrow> out
          | Some arg \<Rightarrow>
              if na_type arg \<noteq> DASH_NARG \<or> na_text arg = 0 \<or> um_str mem (na_text arg) = None then out
              else
                let out1 = appendStr out (text_at mem (na_text arg));
                    out2 = print_args mem 16 (na_next arg) out1;
                    out3 = (if nc_redirect cmd \<noteq> 0 then printRedirects mem MAX_REDIRECTS (nc_redirect cmd) out2 else out2)
                in if extra_redir \<noteq> 0 then printRedirects mem MAX_REDIRECTS extra_redir out3 else out3)"

section \<open>Wrappers\<close>

definition unwrapRedir :: "dash_mem \<Rightarrow> u64 \<Rightarrow> u64 \<times> u64" where
  "unwrapRedir mem node = (case um_nredir mem node of None \<Rightarrow> (0, 0) | Some r \<Rightarrow> (nr_n r, nr_redirect r))"

definition getBinaryChildren :: "dash_mem \<Rightarrow> u64 \<Rightarrow> u64 \<times> u64" where
  "getBinaryChildren mem node = (case um_nbinary mem node of None \<Rightarrow> (0, 0) | Some b \<Rightarrow> (nb_ch1 b, nb_ch2 b))"

text \<open>What unwrapping has found so far.\<close>

record unwrapped =
  uw_node :: u64
  uw_type :: int
  uw_redir :: u64
  uw_subshell_depth :: nat
  uw_background :: bool
  uw_out :: CmdStr

fun unwrap_loop :: "dash_mem \<Rightarrow> nat \<Rightarrow> unwrapped \<Rightarrow> (int \<times> unwrapped) bpf" where
  "unwrap_loop mem 0 u = State_Monad.return (0, u)"
| "unwrap_loop mem (Suc n) u =
     (if uw_type u = DASH_NNOT then
        (case um_nnot mem (uw_node u) of
           None \<Rightarrow> do { REPORT_ERROR GENERIC_ERROR ''unwrapToCommand''; State_Monad.return (-1, u) }
         | Some nnot \<Rightarrow>
             let u' = u\<lparr>uw_out := appendStr (uw_out u) (lit ''!''), uw_node := nn_com nnot\<rparr>
             in if nn_com nnot = 0 then State_Monad.return (-1, u')
                else (case um_type mem (nn_com nnot) of
                   None \<Rightarrow> do { REPORT_ERROR GENERIC_ERROR ''unwrapToCommand''; State_Monad.return (-1, u') }
                 | Some type \<Rightarrow> unwrap_loop mem n (u'\<lparr>uw_type := type\<rparr>)))
      else if uw_type u = DASH_NREDIR \<or> uw_type u = DASH_NBACKGND \<or> uw_type u = DASH_NSUBSHELL then
        (let (inner, redir) = unwrapRedir mem (uw_node u);
             u' = u\<lparr>uw_background := (uw_background u \<or> uw_type u = DASH_NBACKGND),
                    uw_subshell_depth := (if uw_type u = DASH_NSUBSHELL then Suc (uw_subshell_depth u) else uw_subshell_depth u),
                    uw_redir := redir\<rparr>
         in if inner \<noteq> 0 then
              (case um_type mem inner of
                 None \<Rightarrow> do { REPORT_ERROR GENERIC_ERROR ''unwrapToCommand''; State_Monad.return (-1, u') }
               | Some type \<Rightarrow> unwrap_loop mem n (u'\<lparr>uw_type := type, uw_node := inner\<rparr>))
            else State_Monad.return (0, u'))
      else State_Monad.return (0, u))"

definition unwrapToCommand :: "dash_mem \<Rightarrow> u64 \<Rightarrow> CmdStr \<Rightarrow> (int \<times> unwrapped) bpf" where
  "unwrapToCommand mem node out =
     (let u = \<lparr>uw_node = node, uw_type = 0, uw_redir = 0, uw_subshell_depth = 0, uw_background = False, uw_out = out\<rparr>
      in case um_type mem node of
           None \<Rightarrow> do { REPORT_ERROR GENERIC_ERROR ''unwrapToCommand''; State_Monad.return (-1, u) }
         | Some type \<Rightarrow> unwrap_loop mem 8 (u\<lparr>uw_type := type\<rparr>))"

text \<open>The loops that print the parentheses of subshells.\<close>

definition append_times :: "nat \<Rightarrow> bytes \<Rightarrow> CmdStr \<Rightarrow> CmdStr" where
  "append_times depth str out = ((\<lambda>c. appendStr c str) ^^ min depth 8) out"

definition processPipeStage :: "dash_mem \<Rightarrow> u64 \<Rightarrow> CmdStr \<Rightarrow> CmdStr bpf" where
  "processPipeStage mem node out =
     (if node = 0 then State_Monad.return out
      else do {
        (ret, u) \<leftarrow> unwrapToCommand mem node out;
        scratch \<leftarrow> reads (\<lambda>s. print_scratch s 0 \<noteq> None);
        State_Monad.return
          (if ret = 0 \<and> uw_type u = DASH_NCMD
           then append_times (uw_subshell_depth u) (lit '')'')
             (printNcmdWithRedir mem scratch (uw_node u) (uw_redir u)
               (append_times (uw_subshell_depth u) (lit ''('') (uw_out u)))
           else uw_out u) })"

section \<open>Walking lists of commands\<close>

abbreviation MAX_CHAIN_CMDS :: nat where "MAX_CHAIN_CMDS \<equiv> 16"

abbreviation MAX_SUBSHELL_CMDS :: nat where "MAX_SUBSHELL_CMDS \<equiv> 8"

definition is_list_operator :: "int \<Rightarrow> bool" where
  "is_list_operator type \<longleftrightarrow> type = DASH_NSEMI \<or> type = DASH_NAND \<or> type = DASH_NOR"

text \<open>
  The stack of a walk, an array of addresses and one of separators, and the two pushes of an
  operator node: the right operand with the operator, then the left operand with the separator
  of the operator.
\<close>

type_synonym walk_stack = "u64 list \<times> int list \<times> nat"

definition push_node :: "nat \<Rightarrow> u64 \<Rightarrow> int \<Rightarrow> walk_stack \<Rightarrow> walk_stack" where
  "push_node cap addr sep st = (case st of (addrs, seps, tp) \<Rightarrow>
     if tp < cap then (addrs[tp mod cap := addr], seps[tp mod cap := sep], tp + 1) else st)"

definition pop_node :: "nat \<Rightarrow> walk_stack \<Rightarrow> u64 \<times> int \<times> walk_stack" where
  "pop_node cap st = (case st of (addrs, seps, tp) \<Rightarrow>
     (addrs ! ((tp - 1) mod cap), seps ! ((tp - 1) mod cap), (addrs, seps, tp - 1)))"

definition push_children :: "dash_mem \<Rightarrow> nat \<Rightarrow> u64 \<Rightarrow> int \<Rightarrow> int \<Rightarrow> walk_stack \<Rightarrow> walk_stack" where
  "push_children mem cap node type sep st =
     (let (ch1, ch2) = getBinaryChildren mem node
      in push_node cap ch1 sep (push_node cap ch2 type st))"

text \<open>A leaf inside a subshell.\<close>

definition print_subshell_leaf :: "dash_mem \<Rightarrow> bool \<Rightarrow> u64 \<Rightarrow> int \<Rightarrow> CmdStr \<Rightarrow> CmdStr" where
  "print_subshell_leaf mem scratch na t out =
     (if t = DASH_NCMD then printNcmdWithRedir mem scratch na 0 out
      else if t = DASH_NREDIR \<or> t = DASH_NBACKGND then
        let out1 =
          (case um_nredir mem na of
             None \<Rightarrow> out
           | Some r \<Rightarrow>
               if nr_n r \<noteq> 0 \<and> um_type mem (nr_n r) = Some DASH_NCMD
               then printNcmdWithRedir mem scratch (nr_n r) (nr_redirect r) out else out)
        in if t = DASH_NBACKGND then appendStr out1 (lit ''&'') else out1
      else out)"

fun subshell_loop :: "dash_mem \<Rightarrow> bool \<Rightarrow> nat \<Rightarrow> walk_stack \<Rightarrow> CmdStr \<Rightarrow> walk_stack \<times> CmdStr" where
  "subshell_loop mem scratch 0 st out = (st, out)"
| "subshell_loop mem scratch (Suc n) st out =
     (if snd (snd st) = 0 then (st, out)
      else
        let (na, sep, st1) = pop_node MAX_SUBSHELL_CMDS st
        in if na = 0 then subshell_loop mem scratch n st1 out
           else case um_type mem na of
             None \<Rightarrow> subshell_loop mem scratch n st1 out
           | Some t \<Rightarrow>
               if is_list_operator t
               then subshell_loop mem scratch n (push_children mem MAX_SUBSHELL_CMDS na t sep st1) out
               else subshell_loop mem scratch n st1
                 (print_subshell_leaf mem scratch na t (if sep \<ge> 0 then appendSeparator out sep else out)))"

definition processSubshellBinary :: "dash_mem \<Rightarrow> u64 \<Rightarrow> CmdStr \<Rightarrow> CmdStr bpf" where
  "processSubshellBinary mem node out = do {
     ss \<leftarrow> reads (\<lambda>s. subshell_state s 0);
     scratch \<leftarrow> reads (\<lambda>s. print_scratch s 0 \<noteq> None);
     case ss of
       None \<Rightarrow> State_Monad.return out
     | Some ss \<Rightarrow> do {
         let ((addrs, seps, tp), out') = subshell_loop mem scratch (MAX_SUBSHELL_CMDS * 2)
           ((ss_node_addrs ss)[0 := node], (ss_separators ss)[0 := -1], 1) out;
         State_Monad.update (subshell_state_update (\<lambda>m. m(0 \<mapsto> \<lparr>ss_node_addrs = addrs, ss_separators = seps\<rparr>)));
         State_Monad.return out' } }"

text \<open>The stages of a pipeline, with bars between them.\<close>

fun pipe_loop :: "dash_mem \<Rightarrow> nat \<Rightarrow> bool \<Rightarrow> u64 \<Rightarrow> CmdStr \<Rightarrow> CmdStr bpf" where
  "pipe_loop mem 0 first cur_list out = State_Monad.return out"
| "pipe_loop mem (Suc n) first cur_list out =
     (if cur_list = 0 then State_Monad.return out
      else case um_nodelist mem cur_list of
        None \<Rightarrow> State_Monad.return out
      | Some entry \<Rightarrow> do {
          let out1 = (if first then out else appendStr out (lit ''|''));
          out2 \<leftarrow> (if nl_n entry \<noteq> 0 then processPipeStage mem (nl_n entry) out1 else State_Monad.return out1);
          pipe_loop mem n False (nl_next entry) out2 })"

definition processSingleNode :: "dash_mem \<Rightarrow> u64 \<Rightarrow> CmdStr \<Rightarrow> CmdStr bpf" where
  "processSingleNode mem node_addr out =
     (if node_addr = 0 then State_Monad.return out
      else do {
        (ret, u) \<leftarrow> unwrapToCommand mem node_addr out;
        if ret < 0 then State_Monad.return (uw_out u)
        else do {
          let depth = uw_subshell_depth u;
          let out1 = append_times depth (lit ''('') (uw_out u);
          scratch \<leftarrow> reads (\<lambda>s. print_scratch s 0 \<noteq> None);
          let finish = (\<lambda>c. let c1 = append_times depth (lit '')'') c
             in if uw_background u then appendStr c1 (lit ''&'') else c1);
          if uw_type u = DASH_NCMD
          then State_Monad.return (finish (printNcmdWithRedir mem scratch (uw_node u) (uw_redir u) out1))
          else if depth > 0 \<and> is_list_operator (uw_type u) then do {
            out2 \<leftarrow> processSubshellBinary mem (uw_node u) out1;
            State_Monad.return (finish out2) }
          else if uw_type u = DASH_NPIPE then
            (case um_npipe mem (uw_node u) of
               None \<Rightarrow> do { REPORT_ERROR GENERIC_ERROR ''processSingleNode''; State_Monad.return out1 }
             | Some pipe \<Rightarrow> do {
                 out2 \<leftarrow> pipe_loop mem 8 True (np_cmdlist pipe) out1;
                 State_Monad.return (finish (if uw_redir u \<noteq> 0 \<and> scratch
                   then printRedirects mem MAX_REDIRECTS (uw_redir u) out2 else out2)) })
          else State_Monad.return (finish out1) } })"

definition processDfsIteration :: "dash_mem \<Rightarrow> walk_stack \<Rightarrow> CmdStr \<Rightarrow> (walk_stack \<times> CmdStr) bpf" where
  "processDfsIteration mem st out =
     (let (node_addr, sep, st1) = pop_node MAX_CHAIN_CMDS st
      in if node_addr = 0 then State_Monad.return (st1, out)
         else case um_type mem node_addr of
           None \<Rightarrow> State_Monad.return (st1, out)
         | Some type \<Rightarrow>
             if is_list_operator type
             then State_Monad.return (push_children mem MAX_CHAIN_CMDS node_addr type sep st1, out)
             else do {
               out' \<leftarrow> processSingleNode mem node_addr (if sep \<ge> 0 then appendSeparator out sep else out);
               State_Monad.return (st1, out') })"

fun dfs_loop :: "dash_mem \<Rightarrow> nat \<Rightarrow> walk_stack \<Rightarrow> CmdStr \<Rightarrow> (walk_stack \<times> CmdStr) bpf" where
  "dfs_loop mem 0 st out = State_Monad.return (st, out)"
| "dfs_loop mem (Suc n) st out =
     (if snd (snd st) = 0 then State_Monad.return (st, out)
      else do {
        (st', out') \<leftarrow> processDfsIteration mem st out;
        dfs_loop mem n st' out' })"

section \<open>Probes\<close>

definition exitList_2 :: "kernel \<Rightarrow> int bpf" where
  "exitList_2 k = do {
     ws \<leftarrow> reads (\<lambda>s. walk_state s 0);
     case ws of
       None \<Rightarrow> do { REPORT_ERROR GENERIC_ERROR ''exitList_2''; State_Monad.return 0 }
     | Some ws \<Rightarrow> do {
         let cmd = sanitizeDashText (ws_cmd ws);
         State_Monad.update (walk_state_update (\<lambda>m. m(0 \<mapsto> ws\<lparr>ws_cmd := cmd\<rparr>)));
         store_command k ''exitList_2'' (\<lambda>_. \<lparr>c_length = cs_length cmd, c_value = cs_arr cmd\<rparr>) } }"

definition exitList :: "kernel \<Rightarrow> dash_mem \<Rightarrow> u64 \<Rightarrow> int bpf" where
  "exitList k mem root = do {
     set_hook_name (lit ''exit_list'');
     related \<leftarrow> is_current_pid_related (current_pid k);
     if related then State_Monad.return 0
     else do {
       active \<leftarrow> reads (\<lambda>s. active_shell_pids s (current_pid k) \<noteq> None);
       if \<not> active then State_Monad.return 0
       else if root = 0 then State_Monad.return 0
       else do {
         ws \<leftarrow> reads (\<lambda>s. walk_state s 0);
         case ws of
           None \<Rightarrow> do { REPORT_ERROR GENERIC_ERROR ''exitList''; State_Monad.return 0 }
         | Some ws \<Rightarrow> do {
             let cmd = (ws_cmd ws)\<lparr>cs_length := 0, cs_arr := (cs_arr (ws_cmd ws))[0 := 0]\<rparr>;
             ((addrs, seps, tp), cmd') \<leftarrow> dfs_loop mem (MAX_CHAIN_CMDS * 2)
               ((ws_node_addrs ws)[0 := root], (ws_separators ws)[0 := -1], 1) cmd;
             State_Monad.update (walk_state_update (\<lambda>m. m(0 \<mapsto>
               \<lparr>ws_node_addrs = addrs, ws_separators = seps, ws_cmd = cmd'\<rparr>)));
             if cs_length cmd' > 0 then do {
               reset_tail_counter;
               tailed \<leftarrow> do_tail_call;
               if tailed then exitList_2 k else State_Monad.return 0 }
             else State_Monad.return 0 } } } }"

definition enterSetprompt :: "kernel \<Rightarrow> int \<Rightarrow> int bpf" where
  "enterSetprompt k which = do {
     set_hook_name (lit ''enter_setprompt'');
     related \<leftarrow> is_current_pid_related (current_pid k);
     if related then State_Monad.return 0
     else if which \<noteq> 1 then State_Monad.return 0
     else do {
       _ \<leftarrow> map_update_elem active_shell_pids_update (current_pid k) 1;
       delete_shell_command_from_alive_process (current_pid k);
       State_Monad.return 0 } }"

end
