(* ===== verification/Dash_Rendering.thy ===== *)
theory Dash_Rendering
  imports Dash_Command
begin

text \<open>
  What the walk over a dash parse tree prints: the buffer operations are operations on texts up
  to the size of the buffer, the in-place translation of control bytes is a function of the
  text, and the depth-first walk with its stack of sixteen entries visits the simple commands of
  a tree with at most sixteen of them from left to right within its thirty-two rounds.
\<close>

section \<open>Texts\<close>

definition cmd_text :: "CmdStr \<Rightarrow> bytes" where
  "cmd_text c = take (unat (cs_length c)) (cs_arr c)"

definition wf_cmd :: "CmdStr \<Rightarrow> bool" where
  "wf_cmd c \<longleftrightarrow> length (cs_arr c) = CMD_MAX \<and> unat (cs_length c) < CMD_MAX \<and>
     0 \<notin> set (cmd_text c) \<and> cs_arr c ! unat (cs_length c) = 0"

lemma wf_cmd_c_string: "wf_cmd c \<Longrightarrow> c_string (cs_arr c) = cmd_text c"
proof -
  assume wf: "wf_cmd c"
  let ?n = "unat (cs_length c)"
  have eq: "cs_arr c = cmd_text c @ 0 # drop (Suc ?n) (cs_arr c)"
    using wf id_take_nth_drop [of ?n "cs_arr c"] by (simp add: wf_cmd_def cmd_text_def)
  have "c_string (cs_arr c) = takeWhile (\<lambda>x. x \<noteq> 0) (cmd_text c @ 0 # drop (Suc ?n) (cs_arr c))"
    unfolding c_string_def by (rule arg_cong [OF eq])
  also have "\<dots> = cmd_text c" using wf by (subst takeWhile_append2) (auto simp: wf_cmd_def)
  finally show ?thesis .
qed

lemma print_into_text:
  assumes "length (cs_arr c) = CMD_MAX" "0 \<notin> set full" "full \<noteq> []"
  shows "wf_cmd (print_into c full)" "cmd_text (print_into c full) = take (CMD_MAX - 1) full"
proof -
  let ?c = "print_into c full" and ?t = "take 255 full"
  have arr: "cs_arr ?c = ?t @ 0 # drop (Suc (length ?t)) (cs_arr c)"
    by (simp add: print_into_def Let_def write_at_def)
  have len: "unat (cs_length ?c) = length ?t"
    using assms(3) by (simp add: print_into_def Let_def unat_of_nat)
  show t: "cmd_text ?c = take (CMD_MAX - 1) full" by (simp add: cmd_text_def arr len) (auto simp: min_def)
  have "length (cs_arr ?c) = 256" using assms(1) arr by simp
  moreover have "cs_arr ?c ! length ?t = 0" unfolding arr by (simp add: nth_append)
  moreover have "0 \<notin> set (cmd_text ?c)" using assms(2) t by (auto dest: in_set_takeD)
  ultimately show "wf_cmd ?c" using len by (simp add: wf_cmd_def)
qed

text \<open>Words are joined by a space.\<close>

definition add_word :: "bytes \<Rightarrow> bytes \<Rightarrow> bytes" where
  "add_word t w = (if t = [] then w else t @ [SPACE] @ w)"

lemma cmd_text_Nil: "wf_cmd c \<Longrightarrow> cmd_text c = [] \<longleftrightarrow> cs_length c = 0"
  by (auto simp: wf_cmd_def cmd_text_def unat_eq_0)

lemma cmd_text_length: "wf_cmd c \<Longrightarrow> length (cmd_text c) = unat (cs_length c)"
  by (simp add: wf_cmd_def cmd_text_def)

lemma appendStr_text:
  assumes "wf_cmd c" "0 \<notin> set w"
  shows "wf_cmd (appendStr c w)" "cmd_text (appendStr c w) = take (CMD_MAX - 1) (add_word (cmd_text c) w)"
proof -
  note wf = assms(1) [unfolded wf_cmd_def] and len = cmd_text_length [OF assms(1)] and nil = cmd_text_Nil [OF assms(1)]
  have cs: "c_string (cs_arr c) = cmd_text c" by (rule wf_cmd_c_string [OF assms(1)])
  have "wf_cmd (appendStr c w) \<and> cmd_text (appendStr c w) = take 255 (add_word (cmd_text c) w)"
  proof (cases "unat (cs_length c) \<ge> 255")
    case True
    then have "length (cmd_text c) = 255" using wf len by simp
    then show ?thesis using assms(1) True by (auto simp: appendStr_def add_word_def)
  next
    case False
    have z: "cs_length c = 0 \<Longrightarrow> w = [] \<Longrightarrow> wf_cmd (print_into c []) \<and> cmd_text (print_into c []) = []"
      using wf by (simp add: print_into_def Let_def write_at_def wf_cmd_def cmd_text_def)
    show ?thesis
      using False wf nil cs z assms(2) print_into_text [of c w] print_into_text [of c "cmd_text c @ [SPACE] @ w"]
      by (cases "w = []") (auto simp: appendStr_def add_word_def)
  qed
  then show "wf_cmd (appendStr c w)" "cmd_text (appendStr c w) = take (CMD_MAX - 1) (add_word (cmd_text c) w)" by simp_all
qed

lemma appendNoSpace_text:
  assumes "wf_cmd c" "0 \<notin> set w" "w \<noteq> []"
  shows "wf_cmd (appendStrNoLeadingSpace c w)" "cmd_text (appendStrNoLeadingSpace c w) = take (CMD_MAX - 1) (cmd_text c @ w)"
proof -
  note wf = assms(1) [unfolded wf_cmd_def] and len = cmd_text_length [OF assms(1)] and nil = cmd_text_Nil [OF assms(1)]
  have cs: "c_string (cs_arr c) = cmd_text c" by (rule wf_cmd_c_string [OF assms(1)])
  have "wf_cmd (appendStrNoLeadingSpace c w) \<and> cmd_text (appendStrNoLeadingSpace c w) = take 255 (cmd_text c @ w)"
  proof (cases "unat (cs_length c) \<ge> 255")
    case True
    then have "length (cmd_text c) = 255" using wf len by simp
    then show ?thesis using assms(1) True by (simp add: appendStrNoLeadingSpace_def)
  next
    case False
    show ?thesis
      using False wf nil cs assms(2,3) print_into_text [of c w] print_into_text [of c "cmd_text c @ w"]
      by (auto simp: appendStrNoLeadingSpace_def)
  qed
  then show "wf_cmd (appendStrNoLeadingSpace c w)"
    "cmd_text (appendStrNoLeadingSpace c w) = take (CMD_MAX - 1) (cmd_text c @ w)" by simp_all
qed

text \<open>
  The separator of two commands, as a shell writes it, and as the code appends it: no semicolon
  follows a text that ends in an ampersand.
\<close>

definition add_separator :: "bytes \<Rightarrow> int \<Rightarrow> bytes" where
  "add_separator t op =
     (if op = DASH_NSEMI then t @ lit '';''
      else if op = DASH_NAND then add_word t (lit ''&&'')
      else if op = DASH_NOR then add_word t (lit ''||'')
      else t)"

definition ends_in_ampersand :: "bytes \<Rightarrow> bool" where
  "ends_in_ampersand t \<longleftrightarrow> t \<noteq> [] \<and> last t = 38"

definition appended_separator :: "bytes \<Rightarrow> int \<Rightarrow> bytes" where
  "appended_separator t op = (if op = DASH_NSEMI \<and> ends_in_ampersand t then t else add_separator t op)"

lemma lit_separators: "0 \<notin> set (lit '';'')" "0 \<notin> set (lit ''&&'')" "0 \<notin> set (lit ''||'')" "lit '';'' \<noteq> []"
  by (simp_all add: lit_def)

lemma appendSeparator_text:
  assumes "wf_cmd c"
  shows "wf_cmd (appendSeparator c op)" "cmd_text (appendSeparator c op) = take (CMD_MAX - 1) (appended_separator (cmd_text c) op)"
proof -
  note wf = assms [unfolded wf_cmd_def] and len = cmd_text_length [OF assms] and nil = cmd_text_Nil [OF assms]
  have short: "take 255 (cmd_text c) = cmd_text c" using wf len by simp
  have amp: "cs_length c > 0 \<and> cs_arr c ! boundedCmdIdx (unat (cs_length c) - 1) = 38 \<longleftrightarrow> cmd_text c \<noteq> [] \<and> last (cmd_text c) = 38"
  proof (cases "cs_length c = 0")
    case False
    then have "0 < unat (cs_length c)" by (simp add: unat_gt_0)
    moreover have "unat (cs_length c) - 1 < 256" using wf by linarith
    ultimately have "boundedCmdIdx (unat (cs_length c) - 1) = unat (cs_length c) - 1" by (simp add: boundedCmdIdx_def and_255_mod)
    moreover have "last (cmd_text c) = cs_arr c ! (unat (cs_length c) - 1)"
      using False nil len wf by (simp add: last_conv_nth) (simp add: cmd_text_def unat_gt_0)
    ultimately show ?thesis using False nil by (simp add: word_gt_0)
  qed (use nil in simp)
  have "wf_cmd (appendSeparator c op) \<and> cmd_text (appendSeparator c op) = take 255 (appended_separator (cmd_text c) op)"
    unfolding appendSeparator_def appended_separator_def add_separator_def ends_in_ampersand_def amp
    using appendStr_text [OF assms] appendNoSpace_text [OF assms] lit_separators assms short by auto
  then show "wf_cmd (appendSeparator c op)" "cmd_text (appendSeparator c op) = take (CMD_MAX - 1) (appended_separator (cmd_text c) op)"
    by simp_all
qed

section \<open>Control bytes\<close>

fun clean :: "bytes \<Rightarrow> bytes" where
  "clean [] = []"
| "clean (c # cs) =
     (if c = DASH_CTLQUOTEMARK then 39 # clean cs
      else if c = DASH_CTLESC then (case cs of [] \<Rightarrow> [] | d # ds \<Rightarrow> d # clean ds)
      else if 0x82 \<le> c \<and> c \<le> 0x87 then clean cs
      else c # clean cs)"

text \<open>
  One round: the writer is behind the reader, so that what is still to be read is untouched.
\<close>

lemma bounded_id: "i < 256 \<Longrightarrow> boundedCmdIdx i = i"
  by (simp add: boundedCmdIdx_def and_255_mod)

lemma sanitize_loop_text:
  assumes "length (cs_arr c) = 256" "w \<le> r" "drop r (cs_arr c) = str @ 0 # rest" "0 \<notin> set str" "length str < n"
  shows "\<exists>c'. sanitize_loop n c r w = (c', w + length (clean str)) \<and> length (cs_arr c') = 256 \<and>
    take (w + length (clean str)) (cs_arr c') = take w (cs_arr c) @ clean str \<and> w + length (clean str) < 256 \<and>
    cs_length c' = cs_length c"
  using assms
proof (induction str arbitrary: n c r w rule: clean.induct)
  case 1
  then obtain m where n: "n = Suc m" by (cases n) auto
  have r: "r < 256" using 1 by (metis append_Nil drop_eq_Nil2 list.distinct(1) not_le)
  then have "cs_arr c ! r = 0" using 1 by (metis append_Nil hd_drop_conv_nth list.sel(1))
  then show ?case using 1 r n by (simp add: sanitizeOneChar_def bounded_id)
next
  case (2 a cs)
  note prems = "2.prems"
  then obtain m where n: "n = Suc m" by (cases n) auto
  have r: "r < 256" using prems(1,3) by (cases "r < 256") simp_all
  have w: "w < 256" using r prems(2) by simp
  have a: "cs_arr c ! r = a" using prems(1,3) r by (metis append_Cons hd_drop_conv_nth list.sel(1))
  have d: "drop (Suc r) (cs_arr c) = cs @ 0 # rest" using prems(3) by (metis append_Cons drop_Suc list.sel(3) tl_drop)
  have upd: "w < r' \<Longrightarrow> drop r' ((cs_arr c)[w := x]) = drop r' (cs_arr c)" for r' x
    by (simp add: drop_update_cancel)
  have tk: "take (Suc w) ((cs_arr c)[w := x]) = take w (cs_arr c) @ [x]" for x
    using w prems(1) by (simp add: take_Suc_conv_app_nth)
  have ne: "a \<noteq> 0" "0 \<notin> set cs" "length cs < m" "w \<le> Suc r" using prems(2,4,5) n by auto
  let ?st = "\<lambda>x. c\<lparr>cs_arr := (cs_arr c)[w := x]\<rparr>"
  have st: "length (cs_arr (?st x)) = 256" "drop (Suc r) (cs_arr (?st x)) = cs @ 0 # rest"
    "take (Suc w) (cs_arr (?st x)) = take w (cs_arr c) @ [x]" for x
    using prems(1,2) d upd tk by simp_all
  consider (quote) "a = 0x88" | (esc) "a = 0x81" | (ctl) "a \<noteq> 0x88" "a \<noteq> 0x81" "0x82 \<le> a \<and> a \<le> 0x87"
    | (plain) "a \<noteq> 0x88" "a \<noteq> 0x81" "\<not> (0x82 \<le> a \<and> a \<le> 0x87)" by blast
  then show ?case
  proof cases
    case quote
    then have one: "sanitizeOneChar c r w = (Some (Suc r, Suc w), ?st 39)"
      using r w a by (simp add: sanitizeOneChar_def bounded_id Let_def)
    have cl: "clean (a # cs) = 39 # clean cs" using quote by simp
    from "2.IH"(1) [OF quote st(1) _ st(2) ne(2,3), of "Suc w" 39] prems(2) one show ?thesis
      unfolding cl n by (auto simp: tk)
  next
    case ctl
    then have one: "sanitizeOneChar c r w = (Some (Suc r, w), c)"
      using r w a ne(1) by (simp add: sanitizeOneChar_def bounded_id Let_def)
    have cl: "clean (a # cs) = clean cs" using ctl by simp
    from "2.IH"(3) [OF ctl prems(1) ne(4) d ne(2,3)] one show ?thesis unfolding cl n by simp
  next
    case plain
    then have one: "sanitizeOneChar c r w = (Some (Suc r, Suc w), ?st a)"
      using r w a ne(1) by (simp add: sanitizeOneChar_def bounded_id Let_def)
    have cl: "clean (a # cs) = a # clean cs" using plain by auto
    from "2.IH"(4) [OF plain st(1) _ st(2) ne(2,3), of "Suc w" a] prems(2) one show ?thesis
      unfolding cl n by (auto simp: tk)
  next
    case esc
    have q: "a \<noteq> 0x88" using esc by simp
    have r1: "Suc r < 256" using prems(1) d by (cases "Suc r < 256") simp_all
    show ?thesis
    proof (cases cs)
      case Nil
      then have z: "cs_arr c ! Suc r = 0" using d r1 prems(1) by (metis append_Nil hd_drop_conv_nth list.sel(1))
      obtain l where m: "m = Suc l" using ne(3) by (cases m) auto
      have "sanitizeOneChar c r w = (Some (Suc r, w), c)" "sanitizeOneChar c (Suc r) w = (None, c)"
        using r r1 w a esc z by (simp_all add: sanitizeOneChar_def bounded_id Let_def)
      then show ?thesis using n m Nil esc w prems(1) by simp
    next
      case (Cons b ds)
      have b: "cs_arr c ! Suc r = b" using d r1 prems(1) Cons by (metis append_Cons hd_drop_conv_nth list.sel(1))
      have dd: "drop (Suc (Suc r)) (cs_arr (?st b)) = ds @ 0 # rest"
        using d Cons upd [of "Suc (Suc r)" b] prems(2) by (simp add: drop_Suc) (metis append_Cons list.sel(3) tl_drop drop_Suc)
      have ds: "0 \<notin> set ds" "length ds < m" "b \<noteq> 0" using ne(2,3) Cons by auto
      have one: "sanitizeOneChar c r w = (Some (Suc (Suc r), Suc w), ?st b)"
        using r r1 w a b esc ds(3) by (simp add: sanitizeOneChar_def bounded_id Let_def)
      have cl: "clean (a # cs) = b # clean ds" using esc Cons by simp
      from "2.IH"(2) [OF q esc Cons st(1) _ dd ds(1,2), of "Suc w"] prems(2) one show ?thesis
        unfolding cl n by (auto simp: tk)
    qed
  qed
qed

lemma sanitize_text:
  assumes "wf_cmd c"
  shows "cmd_text (sanitizeDashText c) = clean (cmd_text c)" "length (cs_arr (sanitizeDashText c)) = CMD_MAX"
proof -
  let ?t = "cmd_text c" and ?n = "unat (cs_length c)"
  have "drop 0 (cs_arr c) = ?t @ 0 # drop (Suc ?n) (cs_arr c)"
    using assms id_take_nth_drop [of ?n "cs_arr c"] by (simp add: wf_cmd_def cmd_text_def)
  moreover have "length ?t < 256" using assms cmd_text_length [OF assms] by (simp add: wf_cmd_def)
  ultimately obtain c' where c': "sanitize_loop 256 c 0 0 = (c', length (clean ?t))" "length (cs_arr c') = 256"
    "take (length (clean ?t)) (cs_arr c') = clean ?t" "length (clean ?t) < 256"
    using sanitize_loop_text [of c 0 0 ?t "drop (Suc ?n) (cs_arr c)" 256] assms by (auto simp: wf_cmd_def)
  then show "cmd_text (sanitizeDashText c) = clean (cmd_text c)" "length (cs_arr (sanitizeDashText c)) = CMD_MAX"
    by (simp_all add: sanitizeDashText_def sanitizeNullTerminate_def cmd_text_def bounded_id unat_of_nat)
qed

section \<open>Depth-first walks\<close>

text \<open>The lists of commands as trees, whose leaves are at the given addresses.\<close>

datatype ctree = Leaf u64 | Branch int ctree ctree

fun represents :: "dash_mem \<Rightarrow> ctree \<Rightarrow> u64 \<Rightarrow> bool" where
  "represents mem (Leaf a) n \<longleftrightarrow> n = a \<and> n \<noteq> 0 \<and> (\<exists>t. um_type mem n = Some t \<and> \<not> is_list_operator t)"
| "represents mem (Branch op l r) n \<longleftrightarrow> n \<noteq> 0 \<and> um_type mem n = Some op \<and> is_list_operator op \<and>
     (\<exists>b. um_nbinary mem n = Some b \<and> represents mem l (nb_ch1 b) \<and> represents mem r (nb_ch2 b))"

fun leaves :: "ctree \<Rightarrow> nat" where
  "leaves (Leaf a) = 1"
| "leaves (Branch op l r) = leaves l + leaves r"

text \<open>The leaves from left to right, each with the separator that precedes it.\<close>

fun in_order :: "int \<Rightarrow> ctree \<Rightarrow> (u64 \<times> int) list" where
  "in_order sep (Leaf a) = [(a, sep)]"
| "in_order sep (Branch op l r) = in_order sep l @ in_order op r"

lemma leaves_pos: "0 < leaves t"
  by (induction t) auto

lemma leaves_length: "length ts \<le> sum_list (map leaves ts)"
proof (induction ts)
  case (Cons t ts)
  then show ?case using leaves_pos [of t] by simp
qed simp

definition entries :: "walk_stack \<Rightarrow> (u64 \<times> int) list" where
  "entries st = (case st of (addrs, seps, tp) \<Rightarrow> map (\<lambda>i. (addrs ! i, seps ! i)) (rev [0..<tp]))"

definition wf_stack :: "nat \<Rightarrow> walk_stack \<Rightarrow> bool" where
  "wf_stack cap st \<longleftrightarrow> (case st of (addrs, seps, tp) \<Rightarrow> length addrs = cap \<and> length seps = cap \<and> tp \<le> cap)"

lemma length_entries: "length (entries st) = snd (snd st)"
  by (simp add: entries_def split: prod.split)

lemma pop_entries:
  assumes "wf_stack cap st" "snd (snd st) \<noteq> 0"
  shows "\<exists>a sep st'. pop_node cap st = (a, sep, st') \<and> wf_stack cap st' \<and> entries st = (a, sep) # entries st'"
proof -
  obtain addrs seps tp where st: "st = (addrs, seps, tp)" by (cases st)
  then obtain m where "tp = Suc m" using assms(2) by (cases tp) auto
  with st assms(1) show ?thesis by (simp add: pop_node_def wf_stack_def entries_def)
qed

lemma push_entries:
  assumes "wf_stack cap st" "snd (snd st) < cap"
  shows "wf_stack cap (push_node cap a sep st) \<and> entries (push_node cap a sep st) = (a, sep) # entries st"
  using assms by (auto simp: push_node_def wf_stack_def entries_def split: prod.splits)

text \<open>
  A walk: a loop on a stack and a state, that replaces an operator node by its operands and
  visits any other node. The comment of the source, that the stack needs no more entries than the
  tree has leaves and the loop twice as many rounds, is proved for every such loop.
\<close>

locale tree_walk =
  fixes mem :: dash_mem and cap :: nat
    and loop :: "nat \<Rightarrow> walk_stack \<Rightarrow> 'o \<Rightarrow> walk_stack \<times> 'o"
    and visit :: "u64 \<times> int \<Rightarrow> 'o \<Rightarrow> 'o"
  assumes loop_done: "snd (snd st) = 0 \<Longrightarrow> loop n st x = (st, x)"
    and loop_branch: "snd (snd st) \<noteq> 0 \<Longrightarrow> pop_node cap st = (a, sep, st') \<Longrightarrow> a \<noteq> 0 \<Longrightarrow> um_type mem a = Some op \<Longrightarrow>
      is_list_operator op \<Longrightarrow> loop (Suc n) st x = loop n (push_children mem cap a op sep st') x"
    and loop_leaf: "snd (snd st) \<noteq> 0 \<Longrightarrow> pop_node cap st = (a, sep, st') \<Longrightarrow> a \<noteq> 0 \<Longrightarrow> um_type mem a = Some t \<Longrightarrow>
      \<not> is_list_operator t \<Longrightarrow> loop (Suc n) st x = loop n st' (visit (a, sep) x)"
begin

lemma walk_visits:
  assumes "wf_stack cap st" "entries st = es" "list_all2 (\<lambda>t e. represents mem t (fst e)) ts es"
    and "sum_list (map leaves ts) \<le> cap" "2 * sum_list (map leaves ts) \<le> n + length ts"
  shows "\<exists>st'. loop n st x = (st', fold visit (concat (map2 (\<lambda>t e. in_order (snd e) t) ts es)) x) \<and> snd (snd st') = 0"
  using assms
proof (induction n arbitrary: st es ts x)
  case 0
  from leaves_length [of ts] have "ts = []" using 0(5) by (cases ts) auto
  moreover have "es = []" using 0(3) calculation by simp
  ultimately show ?case using 0(2) length_entries [of st] loop_done [of st 0 x] by auto
next
  case (Suc n)
  show ?case
  proof (cases es)
    case Nil
    with Suc.prems length_entries [of st] loop_done [of st "Suc n" x] show ?thesis by auto
  next
    case (Cons e es')
    then have ne: "snd (snd st) \<noteq> 0" using Suc.prems(2) length_entries [of st] by auto
    from Cons Suc.prems(3) obtain t ts' where ts: "ts = t # ts'" "represents mem t (fst e)"
      "list_all2 (\<lambda>t e. represents mem t (fst e)) ts' es'" by (auto simp: list_all2_Cons2)
    from pop_entries [OF Suc.prems(1) ne] obtain st1 where st1: "pop_node cap st = (fst e, snd e, st1)"
      "wf_stack cap st1" "entries st1 = es'" using Suc.prems(2) Cons by auto
    show ?thesis
    proof (cases t)
      case (Leaf a)
      then obtain y where y: "fst e \<noteq> 0" "um_type mem (fst e) = Some y" "\<not> is_list_operator y" "fst e = a" using ts(2) by auto
      have "sum_list (map leaves ts') \<le> cap" "2 * sum_list (map leaves ts') \<le> n + length ts'"
        using Suc.prems(4,5) ts(1) Leaf by auto
      from Suc.IH [OF st1(2,3) ts(3) this, of "visit e x"] loop_leaf [OF ne st1(1) y(1,2,3), of n x]
      show ?thesis using Cons ts(1) Leaf y(4) by (cases e) auto
    next
      case (Branch op l r)
      then obtain b where b: "fst e \<noteq> 0" "um_type mem (fst e) = Some op" "is_list_operator op" "um_nbinary mem (fst e) = Some b"
        "represents mem l (nb_ch1 b)" "represents mem r (nb_ch2 b)" using ts(2) by auto
      have top: "snd (snd st1) + 1 < cap"
        using Suc.prems(4) ts(1,3) Branch leaves_pos [of l] leaves_pos [of r] leaves_length [of ts'] st1(3) length_entries [of st1]
        by (auto dest: list_all2_lengthD)
      let ?st2 = "push_node cap (nb_ch2 b) op st1"
      let ?st3 = "push_node cap (nb_ch1 b) (snd e) ?st2"
      have st2: "wf_stack cap ?st2" "entries ?st2 = (nb_ch2 b, op) # es'"
        using push_entries [OF st1(2), of "nb_ch2 b" op] top st1(3) by auto
      have st3: "wf_stack cap ?st3" "entries ?st3 = (nb_ch1 b, snd e) # (nb_ch2 b, op) # es'"
        using push_entries [OF st2(1), of "nb_ch1 b" "snd e"] top st2(2) length_entries [of ?st2] length_entries [of st1] st1(3) by auto
      have pc: "push_children mem cap (fst e) op (snd e) st1 = ?st3"
        by (simp add: push_children_def getBinaryChildren_def b(4))
      have rep: "list_all2 (\<lambda>t e. represents mem t (fst e)) (l # r # ts') ((nb_ch1 b, snd e) # (nb_ch2 b, op) # es')"
        using b ts(3) by simp
      have "sum_list (map leaves (l # r # ts')) \<le> cap" "2 * sum_list (map leaves (l # r # ts')) \<le> n + length (l # r # ts')"
        using Suc.prems(4,5) ts(1) Branch by auto
      from Suc.IH [OF st3 rep this, of x] loop_branch [OF ne st1(1) b(1,2,3), of n x]
      show ?thesis using Cons ts(1) Branch by (auto simp: pc)
    qed
  qed
qed

text \<open>From the root alone on the stack.\<close>

lemma walk_tree:
  assumes "represents mem t root" "leaves t \<le> cap" "length addrs = cap" "length seps = cap"
  shows "\<exists>st'. loop (cap * 2) (addrs[0 := root], seps[0 := sep], 1) x = (st', fold visit (in_order sep t) x) \<and> snd (snd st') = 0"
proof -
  have "0 < cap" using assms(2) leaves_pos [of t] by simp
  then have "wf_stack cap (addrs[0 := root], seps[0 := sep], 1)" "entries (addrs[0 := root], seps[0 := sep], 1) = [(root, sep)]"
    using assms(3,4) by (simp_all add: wf_stack_def entries_def)
  from walk_visits [OF this, of "[t]" "cap * 2" x] assms(1,2) show ?thesis by simp
qed

end

text \<open>The walk inside a subshell.\<close>

definition subshell_visit :: "dash_mem \<Rightarrow> bool \<Rightarrow> u64 \<times> int \<Rightarrow> CmdStr \<Rightarrow> CmdStr" where
  "subshell_visit mem scratch e out = (case e of (a, sep) \<Rightarrow>
     case um_type mem a of None \<Rightarrow> out
     | Some t \<Rightarrow> print_subshell_leaf mem scratch a t (if sep \<ge> 0 then appendSeparator out sep else out))"

interpretation sub: tree_walk mem MAX_SUBSHELL_CMDS "subshell_loop mem scratch" "subshell_visit mem scratch" for mem scratch
proof
  fix st :: walk_stack and n x
  show "snd (snd st) = 0 \<Longrightarrow> subshell_loop mem scratch n st x = (st, x)" by (cases n) simp_all
qed (simp_all add: subshell_visit_def)

text \<open>The walk of the command line, whose visits may report errors.\<close>

definition dfs_visit :: "dash_mem \<Rightarrow> u64 \<times> int \<Rightarrow> CmdStr \<times> bpf_state \<Rightarrow> CmdStr \<times> bpf_state" where
  "dfs_visit mem e x = (case e of (a, sep) \<Rightarrow>
     run_state (processSingleNode mem a (if sep \<ge> 0 then appendSeparator (fst x) sep else fst x)) (snd x))"

definition dfs_run :: "dash_mem \<Rightarrow> nat \<Rightarrow> walk_stack \<Rightarrow> CmdStr \<times> bpf_state \<Rightarrow> walk_stack \<times> CmdStr \<times> bpf_state" where
  "dfs_run mem n st x = (case run_state (dfs_loop mem n st (fst x)) (snd x) of ((st', out), s) \<Rightarrow> (st', out, s))"

interpretation dfs: tree_walk mem MAX_CHAIN_CMDS "dfs_run mem" "dfs_visit mem" for mem
proof
  fix st :: walk_stack and n x
  show "snd (snd st) = 0 \<Longrightarrow> dfs_run mem n st x = (st, x)" by (cases n) (simp_all add: dfs_run_def)
qed (simp_all add: dfs_run_def dfs_visit_def processDfsIteration_def case_prod_beta)

section \<open>Simple commands\<close>

text \<open>
  A chain of words that fit the buffer each, and a command without assignments and redirections and
  with at most sixteen arguments.
\<close>

fun words_at :: "dash_mem \<Rightarrow> u64 \<Rightarrow> bytes list \<Rightarrow> bool" where
  "words_at mem a [] \<longleftrightarrow> a = 0"
| "words_at mem a (w # ws) \<longleftrightarrow> a \<noteq> 0 \<and> (\<exists>arg str. um_narg mem a = Some arg \<and> na_type arg = DASH_NARG \<and> na_text arg \<noteq> 0 \<and>
     um_str mem (na_text arg) = Some str \<and> w = c_string str \<and> length w < CMD_MAX \<and> words_at mem (na_next arg) ws)"

definition simple_command :: "dash_mem \<Rightarrow> u64 \<Rightarrow> bytes list \<Rightarrow> bool" where
  "simple_command mem a ws \<longleftrightarrow> a \<noteq> 0 \<and> um_type mem a = Some DASH_NCMD \<and>
     (\<exists>cmd. um_ncmd mem a = Some cmd \<and> nc_assign cmd = 0 \<and> nc_redirect cmd = 0 \<and> words_at mem (nc_args cmd) ws) \<and> ws \<noteq> [] \<and> length ws \<le> 17"

lemma c_string_no_null: "0 \<notin> set (c_string str)"
  by (auto simp: c_string_def dest: set_takeWhileD)

lemma words_no_null: "words_at mem a ws \<Longrightarrow> w \<in> set ws \<Longrightarrow> 0 \<notin> set w"
  by (induction ws arbitrary: a) (auto simp: c_string_no_null)

lemma take_add_word: "take 255 (add_word (take 255 x) w) = take 255 (add_word x w)"
  by (cases "length x \<le> 255") (simp_all add: add_word_def)

lemma take_add_words: "take 255 (foldl add_word (take 255 x) ws) = take 255 (foldl add_word x ws)"
proof (induction ws rule: rev_induct)
  case (snoc w ws)
  then show ?case using take_add_word [of "foldl add_word (take 255 x) ws" w] take_add_word [of "foldl add_word x ws" w] by simp
qed simp

lemma print_args_text:
  assumes "wf_cmd c" "words_at mem a ws" "length ws \<le> n"
  shows "wf_cmd (print_args mem n a c) \<and> cmd_text (print_args mem n a c) = take 255 (foldl add_word (cmd_text c) ws)"
  using assms
proof (induction ws arbitrary: n a c)
  case Nil
  then have "length (cmd_text c) \<le> 255" using cmd_text_length [of c] by (auto simp: wf_cmd_def)
  with Nil show ?case by (cases n) simp_all
next
  case (Cons w ws)
  then obtain m where n: "n = Suc m" by (cases n) auto
  from Cons.prems(2) obtain arg str where arg: "a \<noteq> 0" "um_narg mem a = Some arg" "na_type arg = DASH_NARG" "na_text arg \<noteq> 0"
    "um_str mem (na_text arg) = Some str" "w = c_string str" "length w < 256" "words_at mem (na_next arg) ws" by auto
  have w: "text_at mem (na_text arg) = w" using arg by (simp add: text_at_def)
  have nz: "0 \<notin> set w" using arg(6) c_string_no_null by simp
  from Cons.IH [OF appendStr_text(1) [OF Cons.prems(1) nz] arg(8), of m] appendStr_text(2) [OF Cons.prems(1) nz]
  show ?case using Cons.prems(3) n arg w by (simp add: take_add_words)
qed

lemma simple_command_text:
  assumes "simple_command mem a ws" "wf_cmd c"
  shows "wf_cmd (printNcmdWithRedir mem True a 0 c)"
    and "cmd_text (printNcmdWithRedir mem True a 0 c) = take 255 (foldl add_word (cmd_text c) ws)"
proof -
  from assms(1) obtain cmd w ws' where cmd: "a \<noteq> 0" "um_ncmd mem a = Some cmd" "nc_redirect cmd = 0"
    "words_at mem (nc_args cmd) (w # ws')" "ws = w # ws'" "length ws' \<le> 16"
    by (cases ws) (auto simp: simple_command_def)
  from cmd(4) obtain arg str where arg: "nc_args cmd \<noteq> 0" "um_narg mem (nc_args cmd) = Some arg" "na_type arg = DASH_NARG"
    "na_text arg \<noteq> 0" "um_str mem (na_text arg) = Some str" "w = c_string str" "length w < 256" "words_at mem (na_next arg) ws'" by auto
  have w: "text_at mem (na_text arg) = w" "0 \<notin> set w" using arg c_string_no_null by (simp_all add: text_at_def)
  have "printNcmdWithRedir mem True a 0 c = print_args mem 16 (na_next arg) (appendStr c w)"
    using cmd arg w by (simp add: printNcmdWithRedir_def Let_def)
  with print_args_text [OF appendStr_text(1) [OF assms(2) w(2)] arg(8) cmd(6)] appendStr_text(2) [OF assms(2) w(2)] cmd(5)
  show "wf_cmd (printNcmdWithRedir mem True a 0 c)"
    "cmd_text (printNcmdWithRedir mem True a 0 c) = take 255 (foldl add_word (cmd_text c) ws)"
    by (simp_all add: take_add_words)
qed

section \<open>Command lines\<close>

text \<open>
  The text of the commands of a tree, each with its words and the separator before it:
  \<open>add_separator\<close> for the text of the command line, \<open>appended_separator\<close> for what the code makes.
\<close>

definition render_leaf :: "(bytes \<Rightarrow> int \<Rightarrow> bytes) \<Rightarrow> (u64 \<Rightarrow> bytes list) \<Rightarrow> bytes \<Rightarrow> u64 \<times> int \<Rightarrow> bytes" where
  "render_leaf separate wordsf t e = foldl add_word (if snd e \<ge> 0 then separate t (snd e) else t) (wordsf (fst e))"

definition render :: "(bytes \<Rightarrow> int \<Rightarrow> bytes) \<Rightarrow> (u64 \<Rightarrow> bytes list) \<Rightarrow> ctree \<Rightarrow> bytes" where
  "render separate wordsf t = foldl (render_leaf separate wordsf) [] (in_order (-1) t)"

text \<open>No command before a semicolon ends in an ampersand.\<close>

fun no_ampersand_before_semicolon :: "(u64 \<Rightarrow> bytes list) \<Rightarrow> (u64 \<times> int) list \<Rightarrow> bool" where
  "no_ampersand_before_semicolon wordsf (e # e' # es) \<longleftrightarrow>
     (snd e' = DASH_NSEMI \<longrightarrow> \<not> ends_in_ampersand (last (wordsf (fst e)))) \<and>
     no_ampersand_before_semicolon wordsf (e' # es)"
| "no_ampersand_before_semicolon wordsf es \<longleftrightarrow> True"

lemma add_words_end:
  "ws \<noteq> [] \<Longrightarrow> ends_in_ampersand (foldl add_word t ws) \<longleftrightarrow> ends_in_ampersand (last ws)"
  by (induction ws rule: rev_induct) (simp_all add: ends_in_ampersand_def add_word_def)

lemma render_without_ampersands:
  assumes "no_ampersand_before_semicolon wordsf es" "\<And>e. e \<in> set es \<Longrightarrow> wordsf (fst e) \<noteq> []"
    and "es \<noteq> [] \<Longrightarrow> snd (hd es) = DASH_NSEMI \<Longrightarrow> \<not> ends_in_ampersand t"
  shows "foldl (render_leaf appended_separator wordsf) t es = foldl (render_leaf add_separator wordsf) t es"
  using assms
proof (induction wordsf es arbitrary: t rule: no_ampersand_before_semicolon.induct)
  case (1 wordsf e e' es)
  have same: "render_leaf appended_separator wordsf t e = render_leaf add_separator wordsf t e"
    using "1.prems"(3) by (auto simp: render_leaf_def appended_separator_def)
  have "\<not> ends_in_ampersand (render_leaf add_separator wordsf t e)" if "snd e' = DASH_NSEMI"
    using "1.prems"(1,2) that by (simp add: render_leaf_def add_words_end)
  with "1.IH" [of "render_leaf add_separator wordsf t e"] "1.prems"(1,2) same show ?case by simp
qed (auto simp: render_leaf_def appended_separator_def)

lemma length_add_words: "length t \<le> length (foldl add_word t ws)"
proof (induction ws arbitrary: t)
  case (Cons w ws)
  have "length t \<le> length (add_word t w)" by (simp add: add_word_def)
  then show ?case using Cons [of "add_word t w"] by simp
qed simp

lemma length_add_separator: "length t \<le> length (appended_separator t op)"
  by (simp add: appended_separator_def add_separator_def add_word_def)

lemma length_render_leaf: "length t \<le> length (render_leaf appended_separator wordsf t e)"
  using length_add_separator [of t "snd e"] length_add_words [of "appended_separator t (snd e)" "wordsf (fst e)"]
    length_add_words [of t "wordsf (fst e)"]
  by (simp add: render_leaf_def)

lemma length_render: "length t \<le> length (foldl (render_leaf appended_separator wordsf) t es)"
proof (induction es arbitrary: t)
  case (Cons e es)
  have "length t \<le> length (foldl (render_leaf appended_separator wordsf) (render_leaf appended_separator wordsf t e) es)"
    by (rule order_trans [OF length_render_leaf Cons])
  then show ?case by simp
qed simp

lemma dfs_visit_text:
  assumes "simple_command mem a (wordsf a)" "wf_cmd c" "print_scratch s 0 \<noteq> None"
    and "length (render_leaf appended_separator wordsf (cmd_text c) (a, sep)) \<le> 255"
  shows "\<exists>c'. dfs_visit mem (a, sep) (c, s) = (c', s) \<and> wf_cmd c' \<and> cmd_text c' = render_leaf appended_separator wordsf (cmd_text c) (a, sep)"
proof -
  let ?c = "if sep \<ge> 0 then appendSeparator c sep else c"
  let ?t = "if sep \<ge> 0 then appended_separator (cmd_text c) sep else cmd_text c"
  have "length ?t \<le> 255" using assms(4) length_add_words [of ?t "wordsf a"] by (simp add: render_leaf_def split: if_splits)
  then have c: "wf_cmd ?c" "cmd_text ?c = ?t" using appendSeparator_text [OF assms(2), of sep] assms(2) by auto
  have ty: "a \<noteq> 0" "um_type mem a = Some DASH_NCMD" using assms(1) by (auto simp: simple_command_def)
  have plain: "uw_type u = DASH_NCMD \<Longrightarrow> unwrap_loop mem n u = State_Monad.return (0, u)" for u n by (cases n) simp_all
  have run: "run_state (processSingleNode mem a c') s = (printNcmdWithRedir mem True a 0 c', s)" for c'
    using ty assms(3)
    by (auto simp: processSingleNode_def unwrapToCommand_def plain append_times_def Let_def simp del: unwrap_loop.simps)
  have "dfs_visit mem (a, sep) (c, s) = (printNcmdWithRedir mem True a 0 ?c, s)"
    unfolding dfs_visit_def by (simp add: run)
  moreover have "cmd_text (printNcmdWithRedir mem True a 0 ?c) = render_leaf appended_separator wordsf (cmd_text c) (a, sep)"
    using simple_command_text(2) [OF assms(1) c(1)] assms(4) c(2) by (simp add: render_leaf_def split: if_splits)
  ultimately show ?thesis using simple_command_text(1) [OF assms(1) c(1)] by blast
qed

lemma dfs_fold_text:
  assumes "\<And>e. e \<in> set es \<Longrightarrow> simple_command mem (fst e) (wordsf (fst e))" "wf_cmd c" "print_scratch s 0 \<noteq> None"
    and "length (foldl (render_leaf appended_separator wordsf) (cmd_text c) es) \<le> 255"
  shows "\<exists>c'. fold (dfs_visit mem) es (c, s) = (c', s) \<and> wf_cmd c' \<and> cmd_text c' = foldl (render_leaf appended_separator wordsf) (cmd_text c) es"
  using assms
proof (induction es arbitrary: c)
  case (Cons e es)
  obtain a sep where e: "e = (a, sep)" by (cases e)
  have "length (render_leaf appended_separator wordsf (cmd_text c) (a, sep)) \<le> 255"
    using Cons.prems(4) length_render [of "render_leaf appended_separator wordsf (cmd_text c) e" wordsf es] e by simp
  moreover have "simple_command mem a (wordsf a)" using Cons.prems(1) [of e] e by simp
  ultimately obtain c1 where c1: "dfs_visit mem e (c, s) = (c1, s)" "wf_cmd c1" "cmd_text c1 = render_leaf appended_separator wordsf (cmd_text c) e"
    using dfs_visit_text [of mem a wordsf c s sep] Cons.prems(2,3) e by auto
  from Cons.IH [of c1] Cons.prems c1 show ?case by simp
qed simp

lemma exitList_2_result:
  assumes "fill_ready s" "alive_process_cache_map s (current_pid k) = Some p" "p_pid p = current_pid k"
    and "walk_state s 0 = Some ws" "wf_cmd (ws_cmd ws)"
  shows "\<exists>p' s'. run_state (exitList_2 k) s = (0, s') \<and>
    alive_process_cache_map s' = (alive_process_cache_map s)(current_pid k \<mapsto> p') \<and>
    command_text (p_shell_command p') = clean (cmd_text (ws_cmd ws)) \<and> p'\<lparr>p_shell_command := p_shell_command p\<rparr> = p"
proof -
  let ?cmd = "sanitizeDashText (ws_cmd ws)"
  let ?s1 = "walk_state_update (\<lambda>m. m(0 \<mapsto> ws\<lparr>ws_cmd := ?cmd\<rparr>)) s"
  have r1: "fill_ready ?s1" using assms(1) by (simp add: fill_ready_def helpers_succeed_def heap_ok_def buffers_ready_def)
  let ?line = "\<lparr>c_length = cs_length ?cmd, c_value = cs_arr ?cmd\<rparr>"
  obtain s' where s': "run_state (store_command k ''exitList_2'' (\<lambda>_. ?line)) ?s1 = (0, s')"
    "alive_process_cache_map s' = (alive_process_cache_map s)(current_pid k \<mapsto> p\<lparr>p_shell_command := ?line\<rparr>)"
    using store_command_result [OF r1, of k p "''exitList_2''" "\<lambda>_. ?line"] assms(2,3) by auto
  have "command_text ?line = clean (cmd_text (ws_cmd ws))"
    using sanitize_text(1) [OF assms(5)] by (simp add: command_text_def cmd_text_def)
  with s' assms(4) show ?thesis by (auto simp: exitList_2_def Let_def)
qed

text \<open>
  The whole probe, for a list of simple commands: the stored text is that of the tree, its
  commands from left to right with the operators between them.
\<close>

lemma exitList_result:
  assumes ready: "fill_ready s" "program_related_pids s (current_pid k) = None" "active_shell_pids s (current_pid k) \<noteq> None"
    and scratch: "walk_state s 0 = Some ws" "length (ws_node_addrs ws) = 16" "length (ws_separators ws) = 16"
      "length (cs_arr (ws_cmd ws)) = CMD_MAX" "print_scratch s 0 \<noteq> None" "tail_call_counter s 0 \<noteq> None"
    and cached: "alive_process_cache_map s (current_pid k) = Some p" "p_pid p = current_pid k"
    and tree: "represents mem t root" "leaves t \<le> 16"
      "\<And>e. e \<in> set (in_order (-1) t) \<Longrightarrow> simple_command mem (fst e) (wordsf (fst e))"
    and fits: "render appended_separator wordsf t \<noteq> []" "length (render appended_separator wordsf t) \<le> 255"
  shows "\<exists>p' s'. run_state (exitList k mem root) s = (0, s') \<and>
    alive_process_cache_map s' = (alive_process_cache_map s)(current_pid k \<mapsto> p') \<and>
    command_text (p_shell_command p') = clean (render appended_separator wordsf t) \<and> p'\<lparr>p_shell_command := p_shell_command p\<rparr> = p"
proof -
  let ?s1 = "snd (run_state (set_hook_name (lit ''exit_list'')) s)"
  have k1: "walk_state ?s1 = walk_state s" "print_scratch ?s1 = print_scratch s" "tail_call_counter ?s1 = tail_call_counter s"
    by (rule keeps_snd [OF keeps_set_hook_name]; simp)+
  have r1: "fill_ready ?s1" by (rule preservesD [OF fill_ready_hook_name ready(1)])
  let ?c = "(ws_cmd ws)\<lparr>cs_length := 0, cs_arr := (cs_arr (ws_cmd ws))[0 := 0]\<rparr>"
  have c: "wf_cmd ?c" "cmd_text ?c = []" using scratch(4) by (simp_all add: wf_cmd_def cmd_text_def)
  obtain c' where c': "fold (dfs_visit mem) (in_order (-1) t) (?c, ?s1) = (c', ?s1)" "wf_cmd c'" "cmd_text c' = render appended_separator wordsf t"
    using dfs_fold_text [where s = ?s1, OF tree(3) c(1)] scratch(5) k1(2) fits(2) unfolding c(2) render_def by auto
  obtain addrs seps tp where d: "dfs_run mem (16 * 2) ((ws_node_addrs ws)[0 := root], (ws_separators ws)[0 := -1], 1) (?c, ?s1)
      = ((addrs, seps, tp), c', ?s1)"
    using dfs.walk_tree [OF tree(1,2) scratch(2,3), of "-1" "(?c, ?s1)"] unfolding c'(1) by (metis prod.exhaust)
  then have run: "run_state (dfs_loop mem (16 * 2) ((ws_node_addrs ws)[0 := root], (ws_separators ws)[0 := -1], 1) ?c) ?s1
      = (((addrs, seps, tp), c'), ?s1)" by (simp add: dfs_run_def split: prod.splits)
  let ?ws = "\<lparr>ws_node_addrs = addrs, ws_separators = seps, ws_cmd = c'\<rparr>"
  let ?s2 = "walk_state_update (\<lambda>m. m(0 \<mapsto> ?ws)) ?s1"
  have h2: "helpers_succeed ?s2" "tail_call_counter ?s2 0 \<noteq> None"
    using r1 k1(3) scratch(6) by (simp_all add: fill_ready_def helpers_succeed_def)
  let ?s3 = "?s2\<lparr>helper_calls := Suc (Suc (Suc (helper_calls ?s2))), tail_call_counter := (tail_call_counter ?s2)(0 \<mapsto> 1)\<rparr>"
  have tail: "run_state (do { reset_tail_counter; do_tail_call }) ?s2 = (True, ?s3)"
    using h2 by (simp add: reset_tail_counter_def run_map_update_elem helpers_succeed_def Let_def do_tail_call_def
        get_current_and_increment_tail_counter_def)
  have r3: "fill_ready ?s3" using r1 by (simp add: fill_ready_def helpers_succeed_def heap_ok_def buffers_ready_def)
  have len: "cs_length c' > 0" using cmd_text_Nil [OF c'(2)] c'(3) fits(1) by (simp add: word_gt_0)
  have root: "root \<noteq> 0" using tree(1) by (cases t) auto
  have "run_state (exitList k mem root) s = run_state (do { tailed \<leftarrow> do { reset_tail_counter; do_tail_call };
      if tailed then exitList_2 k else State_Monad.return 0 }) ?s2"
    unfolding exitList_def name_step
    using ready(2,3) scratch(1) k1 run len root by (auto simp: run_is_related name_fields Let_def)
  also have "\<dots> = run_state (exitList_2 k) ?s3" using tail by (simp only: run_state_bind prod.case if_True)
  finally show ?thesis
    using exitList_2_result [OF r3, of k p ?ws] cached c'(2,3) by (auto simp: name_fields)
qed

text \<open>
  Where no command before a semicolon ends in an ampersand, that is the text of the command line.
  Otherwise the semicolon is lost: the commands on its two sides are told as one.
\<close>

lemma in_order_hd: "in_order sep t \<noteq> [] \<and> snd (hd (in_order sep t)) = sep"
  by (induction t arbitrary: sep) (auto simp: hd_append)

lemma told_render:
  assumes "no_ampersand_before_semicolon wordsf (in_order (-1) t)"
    and "\<And>e. e \<in> set (in_order (-1) t) \<Longrightarrow> simple_command mem (fst e) (wordsf (fst e))"
  shows "render appended_separator wordsf t = render add_separator wordsf t"
  unfolding render_def
proof (rule render_without_ampersands [OF assms(1)])
  show "wordsf (fst e) \<noteq> []" if "e \<in> set (in_order (-1) t)" for e using assms(2) [OF that] by (simp add: simple_command_def)
qed (simp add: ends_in_ampersand_def)

lemma semicolon_after_ampersand_is_lost:
  assumes "wordsf a \<noteq> []" "ends_in_ampersand (last (wordsf a))"
  shows "render appended_separator wordsf (Branch DASH_NSEMI (Leaf a) (Leaf b)) = foldl add_word [] (wordsf a @ wordsf b)"
  using assms by (simp add: render_def render_leaf_def appended_separator_def add_words_end)

text \<open>The prompt clears the command and marks the shell as interactive.\<close>

lemma enterSetprompt_result:
  assumes "helpers_succeed s" "program_related_pids s (current_pid k) = None" "alive_process_cache_map s (current_pid k) = Some p"
  shows "\<exists>s'. run_state (enterSetprompt k 1) s = (0, s') \<and> active_shell_pids s' (current_pid k) = Some 1 \<and>
    alive_process_cache_map s' = (alive_process_cache_map s)(current_pid k \<mapsto> without_shell_command p)"
proof -
  let ?s1 = "snd (run_state (set_hook_name (lit ''enter_setprompt'')) s)"
  let ?s2 = "active_shell_pids_update (\<lambda>m. m(current_pid k \<mapsto> 1)) (?s1\<lparr>helper_calls := Suc (helper_calls ?s1)\<rparr>)"
  have h: "helpers_succeed ?s1" "helpers_succeed ?s2" "alive_process_cache_map ?s2 (current_pid k) = Some p"
    using assms(1,3) by (simp_all add: helpers_succeed_def name_fields)
  obtain n where "run_state (delete_shell_command_from_alive_process (current_pid k)) ?s2 =
     ((), alive_process_cache_map_update (\<lambda>m. m(current_pid k \<mapsto> without_shell_command p)) (?s2\<lparr>helper_calls := n\<rparr>))"
    using run_delete_shell_alive [OF h(2,3)] by blast
  moreover have "run_state (map_update_elem active_shell_pids_update (current_pid k) 1) ?s1 = (True, ?s2)"
    using h(1) by (simp add: run_map_update_elem helpers_succeed_def)
  ultimately show ?thesis
    unfolding enterSetprompt_def name_step using assms(2) by (simp add: run_is_related name_fields)
qed

end
