(* ===== verification/Traces.thy ===== *)
theory Traces
  imports Verdict_Hooks Hooks_Tamper Hooks_Network Dash_Rendering
begin

text \<open>
  The programs as a system: a step is one program run to its end, by any task, in any kernel
  state, with any outcome of the helper calls; a trace is a sequence of steps. Ring-buffer
  records never leak along a trace, and the sets of protected and ignored processes change by
  forks and exits only, as the abstract machine \<open>pid_step\<close> allows.
\<close>

section \<open>Steps\<close>

datatype call =
  Chmod path_v u16 | Chown path_v | Create path_v ptr u16 | Mkdir path_v ptr u16 | Rmdir path_v ptr | Unlink path_v ptr
| Rename path_v ptr path_v ptr u32 | Write path_v u32 | Read path_v u32
| Creds_for_exec | Committed_creds | File_open | Wake_up_new_task ptr | Do_exit u64 | Sys_enter
| Task_kill ptr kernel_siginfo u32 | Ptrace_access ptr u32
| Accept "u64 \<Rightarrow> sock_v" "u64 option" | Conn_request "u64 \<Rightarrow> sock_v" u64 sock_common_v
| Connect "u64 \<Rightarrow> sock_v" "u64 option" sockaddr_v | Conn_established "u64 \<Rightarrow> sock_v" u64
| Readline_enter | Readline_exit "bytes option" | Zleentry_enter | Parse_event_enter | Zleentry_exit "bytes option"
| Setprompt int | Dash_list dash_mem u64

primrec program_of :: "ro_env \<Rightarrow> kernel \<Rightarrow> call \<Rightarrow> int bpf" where
  "program_of ro k (Chmod p m) = chmod_hook ro k p m"
| "program_of ro k (Chown p) = chown_hook ro k p"
| "program_of ro k (Create p d m) = fc_hook ro k p d m"
| "program_of ro k (Mkdir p d m) = mkdir_hook ro k p d m"
| "program_of ro k (Rmdir p d) = rmdir_hook ro k p d"
| "program_of ro k (Unlink p d) = unlink_hook ro k p d"
| "program_of ro k (Rename p d p' d' fl) = rename_hook ro k p d p' d' fl"
| "program_of ro k (Write f perm) = write_hook ro k f perm"
| "program_of ro k (Read f perm) = read_hook ro k f perm"
| "program_of ro k Creds_for_exec = bprm_creds_for_exec k"
| "program_of ro k Committed_creds = bprm_committed_creds k"
| "program_of ro k File_open = exec_hook ro k"
| "program_of ro k (Wake_up_new_task c) = fork_hook k c"
| "program_of ro k (Do_exit code) = exit_hook k code"
| "program_of ro k Sys_enter = syscall_enter k"
| "program_of ro k (Task_kill p info sig) = signal_hook ro k p info sig"
| "program_of ro k (Ptrace_access c mode) = ptrace_hook ro k c mode"
| "program_of ro k (Accept socks sk) = accept_hook ro k socks sk"
| "program_of ro k (Conn_request socks sk req) = inet_conn_request_hook ro k socks sk req"
| "program_of ro k (Connect socks sk a) = connect_hook ro k socks sk a"
| "program_of ro k (Conn_established socks sk) = inet_conn_established k socks sk"
| "program_of ro k Readline_enter = enter_readline k"
| "program_of ro k (Readline_exit l) = exit_readline k l"
| "program_of ro k Zleentry_enter = enter_zleentry k"
| "program_of ro k Parse_event_enter = enter_parse_event k"
| "program_of ro k (Zleentry_exit l) = exit_zleentry k l"
| "program_of ro k (Setprompt n) = enterSetprompt k n"
| "program_of ro k (Dash_list mem root) = exitList k mem root"

definition step :: "ro_env \<Rightarrow> kernel \<times> call \<Rightarrow> bpf_state \<Rightarrow> bpf_state" where
  "step ro e s = snd (run_state (program_of ro (fst e) (snd e)) s)"

inductive trace :: "ro_env \<Rightarrow> bpf_state \<Rightarrow> (kernel \<times> call) list \<Rightarrow> bpf_state \<Rightarrow> bool" for ro s where
  start: "trace ro s [] s"
| next_step: "trace ro s es s' \<Longrightarrow> trace ro s (es @ [e]) (step ro e s')"

section \<open>Frames of all programs\<close>

text \<open>The sets of processes.\<close>

definition psets :: "bpf_state \<Rightarrow> (u32 \<rightharpoonup> u32) \<times> (u32 \<rightharpoonup> u32)" where
  "psets s = (protected_processes s, program_related_pids s)"

text \<open>
  A projection that matching and reporting leave alone, and that no other map or counter belongs
  to. The ring-buffer accounting is one: programs that reserve no record of their own keep it.
\<close>

locale quiet =
  fixes f :: "bpf_state \<Rightarrow> 'b"
  assumes free: "fill_free f" "matcher_free f"
    and fields: "f (sent_signals_update g3 s) = f s"
      "f (parent_processes_to_kill_update g4 s) = f s" "f (global_event_id_counter_update g5 s) = f s"
      "f (currently_handled_event_update g6 s) = f s" "f (tail_call_counter_update g7 s) = f s" "f (hook_names_update g8 s) = f s"
      "f (exec_pids_update g9 s) = f s" "f (kthread_exec_pids_update g10 s) = f s" "f (active_shell_pids_update g11 s) = f s"
      "f (sk_incoming_connections_update g12 s) = f s" "f (sk_outgoing_connections_update g13 s) = f s"
      "f (private_write_event_cache_lru_map_update g14 s) = f s" "f (global_write_event_cache_lru_map_update g15 s) = f s"
      "f (private_read_event_cache_lru_map_update g16 s) = f s" "f (global_read_event_cache_lru_map_update g17 s) = f s"
      "f (walk_state_update g18 s) = f s" "f (subshell_state_update g19 s) = f s"
    and kp_match: "keeps f (generic_tail_call ro pid ty)"
    and kp_submit: "keeps f (submit_event e)"
begin

lemma fields2:
  "f (helper_calls_update g s) = f s" "f (errors_update h s) = f s" "f (temp_error_report_t_update t s) = f s"
  "f (alive_process_cache_map_update a s) = f s"
  using free(1) by (simp_all add: fill_free_simps)

lemma rf: "report_free f"
  using free(1) by (simp add: fill_free_simps)

lemma pf: "proc_free f"
  using free(1) by (simp add: fill_free_simps)

lemma kp_report: "keeps f (REPORT_ERROR c l)"
  by (rule report_frame [OF rf])

lemma kp_name: "keeps f (set_hook_name n)"
  by (intro keeps_set_hook_name fields fields2)

lemma kp_helper: "keeps f helper_ok"
  by (intro keeps_helper_ok fields2)

lemma kp_userspace: "keeps f (is_userspace_program k)" "keeps f (is_current_pid_related pid)"
  "keeps f (is_pid_protected pid)" "keeps f (is_current_pid_protected pid)"
  unfolding is_current_pid_related_def is_pid_protected_def is_current_pid_protected_def
  by (rule keeps_userspace keeps_reads)+

lemma kp_kill: "keeps f (kill_proccesses ro pid a e)"
  by (intro keeps_kill_proccesses pf fields)

lemma kp_tail: "keeps f (store_currently_handled_event ro e)" "keeps f reset_tail_counter" "keeps f do_tail_call"
  by (intro keeps_store_handled keeps_reset keeps_do_tail_call rf fields)+

lemma kp_event_process: "keeps f (fill_event_process_from_cache k p)" "keeps f (fill_event_parent_process_from_cache k c p)"
  "keeps f (fill_event_process_from_cache_for_task k p t)"
  by (intro keeps_fill_event_process keeps_fill_event_parent keeps_fill_event_process_for_task free)+

lemma kp_process: "keeps f (fill_current_process_t k p)" "keeps f (update_process_in_alive_process_cache pid p)"
  "keeps f allocate_process_t" "keeps f (load_process i)" "keeps f (store_process i p)"
  "keeps f (get_process_from_alive_process_cache pid)" "keeps f (is_process_in_alive_process_cache pid)"
  unfolding fill_current_process_t_def is_process_in_alive_process_cache_def
  by (intro keeps_fill_process_t keeps_update_alive_fill keeps_alloc_fill keeps_load_process keeps_store_process
      keeps_get_process_from_alive keeps_reads free pf)+

lemma kp_maps: "keeps f (map_delete_elem exec_pids exec_pids_update pid)"
  "keeps f (map_update_elem kthread_exec_pids_update pid v)" "keeps f (map_insert_elem exec_pids exec_pids_update pid w)"
  "keeps f (map_delete_elem kthread_exec_pids kthread_exec_pids_update pid)"
  "keeps f (map_delete_elem parent_processes_to_kill parent_processes_to_kill_update pid)"
  "keeps f (map_update_elem active_shell_pids_update pid b)"
  unfolding map_insert_elem_def
  by (intro keeps_bind keeps_reads keeps_if keeps_return keeps_map_delete_elem keeps_map_update_elem fields fields2)+

lemma kp_signal: "keeps f (bpf_send_signal pid sig)"
  by (intro keeps_send_signal rf fields)

lemmas kp = keeps_bind keeps_if keeps_case_option keeps_case_prod keeps_Let keeps_return keeps_reads kp_report kp_name
  kp_helper kp_userspace kp_kill kp_match kp_submit kp_tail kp_event_process kp_process kp_maps kp_signal

lemma kp_creds: "keeps f (bprm_creds_for_exec k)" "keeps f (bprm_committed_creds k)"
  unfolding bprm_creds_for_exec_def bprm_committed_creds_def by (intro kp)+

lemma kp_verdict_cache:
  "keeps f (get_write_event_verdict_from_cache h)" "keeps f (get_read_event_verdict_from_cache h)"
  "keeps f (update_write_event_verdict_to_cache h v)" "keeps f (update_read_event_verdict_to_cache h v)"
  unfolding get_write_event_verdict_from_cache_def get_read_event_verdict_from_cache_def
    update_write_event_verdict_to_cache_def update_read_event_verdict_to_cache_def
    get_event_verdict_from_cache_def update_event_verdict_to_cache_def
  by (intro kp keeps_lru_update_elem fields fields2)+

lemma kp_syscall: "keeps f (syscall_enter k)"
  unfolding syscall_enter_def by (intro kp)

lemma kp_storage:
  "keeps f (sk_storage_get_create sk_incoming_connections sk_incoming_connections_update z sk)"
  "keeps f (sk_storage_get_create sk_outgoing_connections sk_outgoing_connections_update e sk)"
  "keeps f (sk_storage_put sk_incoming_connections_update sk z)" "keeps f (sk_storage_put sk_outgoing_connections_update sk e)"
  "keeps f (incoming_delete sk)" "keeps f (outgoing_delete sk)" "keeps f (discard_sk_from_sk_storage x incoming_delete)"
  "keeps f (discard_sk_from_sk_storage x outgoing_delete)" "keeps f get_next_event_id" "keeps f (store_event e)"
  unfolding sk_storage_get_create_def sk_storage_put_def incoming_delete_def outgoing_delete_def discard_sk_from_sk_storage_def
    get_next_event_id_def store_event_def
  by (intro kp keeps_map_update_elem keeps_map_delete_elem keeps_update fields fields2)+

lemma kp_network_programs:
  "keeps f (network_event_tcp_incoming_tail_call ro pid t sk incoming_delete)"
  "keeps f (network_event_tcp_outgoing_tail_call ro pid t sk outgoing_delete)"
  unfolding network_event_tcp_incoming_tail_call_def network_event_tcp_outgoing_tail_call_def set_event_id_when_id_is_zero_def
  by (intro kp kp_storage keeps_current)+

lemma kp_network: "keeps f (accept_hook ro k socks x)" "keeps f (inet_conn_request_hook ro k socks sk req)"
  "keeps f (connect_hook ro k socks x a)" "keeps f (inet_conn_established k socks sk)"
  unfolding accept_hook_def accept_hook_2_def inet_conn_request_hook_def inet_conn_request_hook_2_def connect_hook_def
    connect_hook_2_def inet_conn_established_def
  by (intro kp kp_storage kp_network_programs)+

lemma kp_shell_command: "keeps f (delete_shell_command_from_alive_process pid)" "keeps f (update_shell_command_in_process pid c)"
  "keeps f (delete_pid_from_active_shell_pids pid)"
  unfolding delete_shell_command_from_alive_process_def delete_shell_command_from_process_def update_shell_command_in_process_def
    delete_pid_from_active_shell_pids_def
  by (intro kp keeps_map_delete_elem keeps_update fields fields2)+

lemma kp_store_command: "keeps f (store_command k loc read)"
  unfolding store_command_def by (intro kp kp_shell_command)

lemma kp_shells: "keeps f (enter_readline k)" "keeps f (exit_readline k l)" "keeps f (enter_zleentry k)"
  "keeps f (enter_parse_event k)" "keeps f (exit_zleentry k l)" "keeps f (enterSetprompt k n)"
  unfolding enter_readline_def exit_readline_def enter_zleentry_def enter_parse_event_def exit_zleentry_def enterSetprompt_def
    check_and_clear_if_both_hooks_entered_def
  by (intro kp kp_shell_command kp_store_command)+

lemma kp_unwrap: "keeps f (unwrap_loop mem n u)"
proof (induction n arbitrary: u)
  case (Suc n)
  show ?case unfolding unwrap_loop.simps by (intro kp Suc)
qed (simp add: keeps_return)

lemma kp_pipe: "keeps f (pipe_loop mem n b a c)"
proof (induction n arbitrary: b a c)
  case (Suc n)
  have "keeps f (processPipeStage mem x y)" for x y
    unfolding processPipeStage_def unwrapToCommand_def by (intro kp kp_unwrap)
  then show ?case unfolding pipe_loop.simps by (intro kp Suc)
qed (simp add: keeps_return)

lemma kp_triple: "(\<And>a b c. keeps f (g a b c z)) \<Longrightarrow> keeps f ((case p of (a, b, c) \<Rightarrow> g a b c) z)"
  by (cases p) simp

lemma kp_single_node: "keeps f (processSingleNode mem a c)"
  unfolding processSingleNode_def unwrapToCommand_def processSubshellBinary_def
  by (intro kp kp_unwrap kp_pipe kp_triple keeps_update fields)

lemma kp_dfs: "keeps f (dfs_loop mem n st c)"
proof (induction n arbitrary: st c)
  case (Suc n)
  have "keeps f (processDfsIteration mem st c)"
    unfolding processDfsIteration_def by (intro kp kp_single_node)
  then show ?case unfolding dfs_loop.simps by (intro kp Suc)
qed (simp add: keeps_return)

lemma kp_exit_list: "keeps f (exitList k mem root)"
  unfolding exitList_def exitList_2_def by (intro kp kp_dfs kp_store_command kp_triple keeps_update fields)

end

text \<open>A projection that has nothing to do with the ring buffer either.\<close>

locale untouched =
  fixes f :: "bpf_state \<Rightarrow> 'b"
  assumes all_free: "fill_free f" "matcher_free f"
    and all_fields: "f (sent_signals_update g3 s) = f s"
      "f (parent_processes_to_kill_update g4 s) = f s" "f (global_event_id_counter_update g5 s) = f s"
      "f (currently_handled_event_update g6 s) = f s" "f (tail_call_counter_update g7 s) = f s" "f (hook_names_update g8 s) = f s"
      "f (exec_pids_update g9 s) = f s" "f (kthread_exec_pids_update g10 s) = f s" "f (active_shell_pids_update g11 s) = f s"
      "f (sk_incoming_connections_update g12 s) = f s" "f (sk_outgoing_connections_update g13 s) = f s"
      "f (private_write_event_cache_lru_map_update g14 s) = f s" "f (global_write_event_cache_lru_map_update g15 s) = f s"
      "f (private_read_event_cache_lru_map_update g16 s) = f s" "f (global_read_event_cache_lru_map_update g17 s) = f s"
      "f (walk_state_update g18 s) = f s" "f (subshell_state_update g19 s) = f s"
    and ring: "f (rb_update g1 s) = f s" "f (rb_reserved_update g2 s) = f s"
begin

lemma report_free_f: "report_free f" and proc_free_f: "proc_free f"
  using all_free(1) by (simp_all add: fill_free_simps)

lemma ring_alloc: "keeps f (allocate_event_with_basic_stats t)" "keeps f allocate_empty_event"
  using report_free_f
  by (intro keeps_allocate_event keeps_allocate_empty_event all_fields ring; simp add: report_free_def)+

lemma ring_ops: "keeps f ringbuf_discard" "keeps f (ringbuf_submit e)"
  by (intro keeps_ringbuf_discard keeps_ringbuf_submit ring)+

lemma ring_submit: "keeps f (submit_event e)"
proof -
  have "keeps f helper_ok" using report_free_f by (intro keeps_helper_ok) (simp add: report_free_def)
  then show ?thesis
    unfolding submit_event_def submit_event_to_userspace_def
    by (intro keeps_bind keeps_if keeps_case_option keeps_return report_frame [OF report_free_f] ring_alloc ring_ops)
qed

end

sublocale untouched \<subseteq> quiet f
proof
  show "keeps f (generic_tail_call ro pid ty)" for ro pid ty
    by (intro keeps_generic_tail_call all_free proc_free_f all_fields ring)
qed (rule all_free all_fields ring_submit)+

context untouched
begin

lemma kp_match_event: "keeps f program \<Longrightarrow> keeps f (match_event ro k e program)"
  unfolding match_event_def by (intro kp ring_ops)

lemma kp_event_hook:
  assumes "event_hook_contract ro k loc fill program hook ty loc2"
  shows "keeps f hook"
proof -
  note hook = event_hook_contract.hook_is [OF assms] and prog = event_hook_contract.program_is [OF assms]
  have "keeps f (fill e)" for e
    using event_body_contract.fill_frame [OF event_hook_contract.axioms(1) [OF assms] free(1)] .
  moreover have "keeps f program" unfolding prog matching_program_def by (intro kp)
  ultimately show ?thesis
    unfolding hook event_hook_def event_body_def by (intro kp kp_match_event ring_alloc ring_ops)
qed

lemma kp_file_hooks:
  "keeps f (chmod_hook ro k p m)" "keeps f (chown_hook ro k p)" "keeps f (fc_hook ro k p d m)" "keeps f (mkdir_hook ro k p d m)"
  "keeps f (rmdir_hook ro k p d)" "keeps f (unlink_hook ro k p d)" "keeps f (rename_hook ro k p d p' d' fl)"
  by (rule kp_event_hook, rule chmod.event_hook_contract_axioms chown.event_hook_contract_axioms fc.event_hook_contract_axioms
      mkdir.event_hook_contract_axioms rmdir.event_hook_contract_axioms unlink.event_hook_contract_axioms
      rename.event_hook_contract_axioms)+

lemma kp_cached_hooks: "keeps f (write_hook ro k fl perm)" "keeps f (read_hook ro k fl perm)"
proof -
  have w: "keeps f (write_hook_2 ro k)" "keeps f (read_hook_2 ro k)"
    unfolding write_hook_2_def read_hook_2_def by (intro kp kp_verdict_cache keeps_current)+
  have fills: "keeps f (fill_write_event_t k e fl h)" "keeps f (fill_read_event_t k e fl h)" for e h
    by (intro keeps_fill_write keeps_fill_read free)+
  show "keeps f (write_hook ro k fl perm)" "keeps f (read_hook ro k fl perm)"
    unfolding write_hook_form read_hook_form cached_hook_def event_body_def
    by (intro kp kp_match_event keeps_into w fills kp_verdict_cache ring_alloc ring_ops)+
qed

lemma kp_exec: "keeps f (exec_hook ro k)"
  unfolding exec_hook_def exec_hook_2_def give_up_def by (intro kp ring_alloc ring_ops)

lemma kp_report_tampering: "keeps f (report_tampering ro k loc t a ty con)"
  unfolding report_tampering_def apply_tampering_action_def give_up_def by (intro kp ring_alloc ring_ops)

lemma kp_tamper: "keeps f (signal_hook ro k p info sig)" "keeps f (ptrace_hook ro k c mode)"
proof -
  show "keeps f (ptrace_hook ro k c mode)"
    unfolding ptrace_hook_form by (intro kp keeps_guarded kp_report_tampering)
  show "keeps f (signal_hook ro k p info sig)"
    unfolding signal_hook_form
    by (cases info; simp only: kernel_siginfo.case; intro kp keeps_guarded kp_report_tampering)
qed

lemma kp_program:
  assumes "\<And>c. e \<noteq> Wake_up_new_task c" "\<And>code. e \<noteq> Do_exit code"
  shows "keeps f (program_of ro k e)"
  using assms by (cases e) (auto intro: kp_file_hooks kp_cached_hooks kp_exec kp_creds kp_syscall kp_tamper kp_network kp_shells kp_exit_list)

end

interpretation ps: untouched psets
  by unfold_locales (auto simp: psets_def intro!: fill_freeI proc_freeI report_freeI matcher_freeI)

interpretation ho: untouched helper_outcome
  by unfold_locales (auto intro!: fill_freeI proc_freeI report_freeI matcher_freeI)

section \<open>Reservations along a trace\<close>

interpretation rs: quiet rb_reserved
  by unfold_locales (auto intro: balanced_generic_tail_call balanced_submit reserved_free)

lemma balanced_cached: "keeps rb_reserved (write_hook ro k fl perm)" "keeps rb_reserved (read_hook ro k fl perm)"
  unfolding write_hook_form read_hook_form cached_hook_def
  by (intro rs.kp rs.kp_verdict_cache wr.body_balanced rd.body_balanced)+

lemma balanced_program: "keeps rb_reserved (program_of ro k c)"
  by (cases c) (auto intro: chmod.hook_balanced chown.hook_balanced fc.hook_balanced mkdir.hook_balanced rmdir.hook_balanced
      unlink.hook_balanced rename.hook_balanced balanced_cached rs.kp_creds balanced_exec_hook balanced_fork_hook
      balanced_exit_hook rs.kp_syscall sig.hook_balanced ptr.hook_balanced rs.kp_network rs.kp_shells rs.kp_exit_list)

lemma trace_balanced: "trace ro s es s' \<Longrightarrow> rb_reserved s' = rb_reserved s"
  by (induction rule: trace.induct) (simp_all add: step_def keeps_snd [OF balanced_program])

section \<open>The sets of processes\<close>

text \<open>
  The abstract machine: the protected and the ignored processes. A fork may add the child of a
  member, an exit may remove the process whose last thread group leader leaves, and nothing else
  changes the sets.
\<close>

type_synonym pid_sets = "u32 set \<times> u32 set"

inductive pid_step :: "kernel \<times> call \<Rightarrow> pid_sets \<Rightarrow> pid_sets \<Rightarrow> bool" where
  other: "(\<And>c. a \<noteq> Wake_up_new_task c) \<Longrightarrow> (\<And>code. a \<noteq> Do_exit code) \<Longrightarrow> pid_step (k, a) S S"
| fork: "P' = P \<or> current_pid k \<in> P \<and> P' = insert (t_tgid (tasks k c)) P \<Longrightarrow>
    R' = R \<or> current_pid k \<in> R \<and> R' = insert (t_tgid (tasks k c)) R \<Longrightarrow> pid_step (k, Wake_up_new_task c) (P, R) (P', R')"
| exit: "P' = P \<or> t_pid (running k) = current_pid k \<and> P' = P - {current_pid k} \<Longrightarrow>
    R' = R \<or> t_pid (running k) = current_pid k \<and> R' = R - {current_pid k} \<Longrightarrow> pid_step (k, Do_exit code) (P, R) (P', R')"

inductive_cases pid_step_cases: "pid_step e S S'"

definition pids :: "bpf_state \<Rightarrow> pid_sets" where
  "pids s = (dom (protected_processes s), dom (program_related_pids s))"

lemma pids_psets: "pids s = (dom (fst (psets s)), dom (snd (psets s)))"
  by (simp add: pids_def psets_def)

lemma add_pid_any:
  "psets (snd (run_state (add_pid_to_protected_processes pid) s)) \<in>
     {psets s, ((protected_processes s)(pid \<mapsto> 1), program_related_pids s)}"
  "psets (snd (run_state (add_pid_to_related_pids pid) s)) \<in>
     {psets s, (protected_processes s, (program_related_pids s)(pid \<mapsto> 1))}"
  by (auto simp: add_pid_to_protected_processes_def add_pid_to_related_pids_def run_map_update_elem psets_def Let_def)

lemma remove_pid_any:
  "psets (snd (run_state (remove_current_pid_from_protected_processes pid) s)) =
     ((protected_processes s)(pid := None), program_related_pids s)"
  "psets (snd (run_state (remove_current_pid_from_related_pids pid) s)) =
     (protected_processes s, (program_related_pids s)(pid := None))"
  by (auto simp: remove_current_pid_from_protected_processes_def remove_current_pid_from_related_pids_def run_map_delete_elem
      psets_def fun_upd_idem)

lemma record_psets: "keeps psets (record_fork k c)" "keeps psets (record_exit k code e)"
proof -
  show "keeps psets (record_fork k c)" by (rule keeps_record_fork) (simp_all add: fill_free_simps psets_def)
  have "keeps psets (add_process_to_dead_proccesses_lru p)" for p
    by (rule keeps_add_dead [OF ps.pf]) (simp add: psets_def)
  moreover have "keeps psets (delete_shell_command_from_dead_process u)" for u
    by (rule keeps_delete_shell_dead [OF ps.rf]) (simp add: psets_def)
  moreover have "keeps psets (delete_process_from_alive_process_cache pid)" for pid
    unfolding delete_process_from_alive_process_cache_def by (intro frame_intros) (simp add: psets_def)
  ultimately show "keeps psets (record_exit k code e)"
    unfolding record_exit_def by (intro ps.kp ps.ring_ops ps.kp_shell_command)
qed

lemma fork_pids:
  "psets (snd (run_state (fork_hook k c) s)) \<in>
     {(P', R'). (P' = protected_processes s \<or>
          protected_processes s (current_pid k) \<noteq> None \<and> P' = (protected_processes s)(t_tgid (tasks k c) \<mapsto> 1)) \<and>
        (R' = program_related_pids s \<or>
          program_related_pids s (current_pid k) \<noteq> None \<and> R' = (program_related_pids s)(t_tgid (tasks k c) \<mapsto> 1))}"
proof -
  let ?pid = "t_tgid (tasks k c)"
  let ?s1 = "snd (run_state (set_hook_name (lit ''fork_hook'')) s)"
  have n: "psets ?s1 = psets s" by (rule keeps_snd [OF ps.kp_name])
  define add where "add = (if protected_processes ?s1 (current_pid k) \<noteq> None then add_pid_to_protected_processes ?pid else State_Monad.return ())"
  obtain s2 where s2: "run_state add ?s1 = ((), s2)" by (rule exE [OF unit_run])
  have p2: "psets s2 = psets s \<or> protected_processes s (current_pid k) \<noteq> None \<and>
      psets s2 = ((protected_processes s)(?pid \<mapsto> 1), program_related_pids s)"
    using add_pid_any(1) [of ?pid ?s1] s2 n by (auto simp: add_def psets_def split: if_splits)
  have run: "run_state (fork_hook k c) s = (if \<not> fst (run_state (is_userspace_program k) ?s1) \<or> current_pid k = ?pid then (ALLOW, ?s1)
      else if program_related_pids s2 (current_pid k) \<noteq> None
      then (ALLOW, snd (run_state (add_pid_to_related_pids ?pid) s2)) else run_state (record_fork k c) s2)"
    unfolding fork_hook_def name_step add_def
    using s2 by (simp add: add_def run_is_userspace run_is_related is_current_pid_protected_def is_pid_protected_def Let_def case_prod_beta)
  show ?thesis
    unfolding run using p2 n add_pid_any(2) [of ?pid s2] keeps_snd [OF record_psets(1), of k c s2]
    by (auto simp: psets_def)
qed

lemma exit_pids:
  "psets (snd (run_state (exit_hook k code) s)) \<in>
     {(P', R'). (P' = protected_processes s \<or>
          t_pid (running k) = current_pid k \<and> P' = (protected_processes s)(current_pid k := None)) \<and>
        (R' = program_related_pids s \<or>
          t_pid (running k) = current_pid k \<and> R' = (program_related_pids s)(current_pid k := None))}"
proof -
  let ?s1 = "snd (run_state (set_hook_name (lit ''exit_hook'')) s)"
  have n: "psets ?s1 = psets s" by (rule keeps_snd [OF ps.kp_name])
  define rem where "rem = (if protected_processes ?s1 (current_pid k) \<noteq> None
    then remove_current_pid_from_protected_processes (current_pid k) else State_Monad.return ())"
  obtain s2 where s2: "run_state rem ?s1 = ((), s2)" by (rule exE [OF unit_run])
  have p2: "psets s2 = ((protected_processes s)(current_pid k := None), program_related_pids s)"
    using remove_pid_any(1) [of "current_pid k" ?s1] s2 n by (auto simp: rem_def psets_def fun_upd_idem split: if_splits)
  let ?rest = "do { event \<leftarrow> allocate_event_with_basic_stats (ktime_ns k);
       case event of None \<Rightarrow> do { REPORT_ERROR GENERIC_ERROR ''exit_hook''; State_Monad.return ALLOW }
       | Some e \<Rightarrow> record_exit k code e }"
  have rest: "keeps psets ?rest" by (intro ps.kp ps.ring_alloc record_psets)
  have del: "psets (snd (run_state (map_delete_elem kthread_exec_pids kthread_exec_pids_update (t_pid (running k))) ?s1)) = psets s"
    using keeps_snd [OF ps.kp_maps(4)] n by simp
  let ?tail = "do {
       protected \<leftarrow> is_current_pid_protected (current_pid k);
       (if protected then remove_current_pid_from_protected_processes (current_pid k) else State_Monad.return ());
       related \<leftarrow> is_current_pid_related (current_pid k);
       if related then do { remove_current_pid_from_related_pids (current_pid k); State_Monad.return ALLOW } else ?rest }"
  have tail: "snd (run_state ?tail ?s1) = (if program_related_pids s2 (current_pid k) \<noteq> None
      then snd (run_state (remove_current_pid_from_related_pids (current_pid k)) s2) else snd (run_state ?rest s2))"
    using s2 unfolding rem_def is_current_pid_protected_def is_pid_protected_def
    by (simp only: run_state_bind run_reads prod.case run_is_related) (simp add: case_prod_beta)
  have "run_state (exit_hook k code) s = (if \<not> fst (run_state (is_userspace_program k) ?s1)
      then (ALLOW, snd (run_state (map_delete_elem kthread_exec_pids kthread_exec_pids_update (t_pid (running k))) ?s1))
      else if current_pid k \<noteq> t_pid (running k) then (ALLOW, ?s1) else run_state ?tail ?s1)"
    unfolding exit_hook_def name_step Let_def by (simp add: run_is_userspace run_map_delete_elem)
  then have run: "snd (run_state (exit_hook k code) s) = (if \<not> fst (run_state (is_userspace_program k) ?s1)
      then snd (run_state (map_delete_elem kthread_exec_pids kthread_exec_pids_update (t_pid (running k))) ?s1)
      else if current_pid k \<noteq> t_pid (running k) then ?s1
      else if program_related_pids s2 (current_pid k) \<noteq> None
      then snd (run_state (remove_current_pid_from_related_pids (current_pid k)) s2) else snd (run_state ?rest s2))"
    unfolding tail [symmetric] by (simp only: if_distrib [of snd] snd_conv)
  show ?thesis
    unfolding run using p2 n remove_pid_any(2) [of "current_pid k" s2] keeps_snd [OF rest, of s2] del
    by (auto simp: psets_def)
qed

text \<open>Every step of the programs is a step of the abstract machine.\<close>

lemma step_refines: "pid_step e (pids s) (pids (step ro e s))"
proof -
  obtain k a where e: "e = (k, a)" by (cases e)
  consider (fork) c where "a = Wake_up_new_task c" | (exit) code where "a = Do_exit code"
    | (other) "\<And>c. a \<noteq> Wake_up_new_task c" "\<And>code. a \<noteq> Do_exit code" by blast
  then show ?thesis
  proof cases
    case fork
    then show ?thesis
      using fork_pids [of k c s] unfolding e step_def pids_psets
      by (auto simp: psets_def domIff intro!: pid_step.fork)
  next
    case exit
    obtain P' R' where p: "psets (snd (run_state (exit_hook k code) s)) = (P', R')"
      "P' = protected_processes s \<or> t_pid (running k) = current_pid k \<and> P' = (protected_processes s)(current_pid k := None)"
      "R' = program_related_pids s \<or> t_pid (running k) = current_pid k \<and> R' = (program_related_pids s)(current_pid k := None)"
      using exit_pids [of k code s] by auto
    have "pid_step (k, Do_exit code) (dom (protected_processes s), dom (program_related_pids s)) (dom P', dom R')"
      by (rule pid_step.exit) (use p(2,3) in \<open>elim disjE conjE; simp\<close>)+
    with p(1) exit show ?thesis unfolding e step_def pids_psets by (simp add: psets_def)
  next
    case other
    then have "psets (step ro e s) = psets s" using keeps_snd [OF ps.kp_program] unfolding step_def e by auto
    with other show ?thesis unfolding e pids_psets by (auto intro: pid_step.other)
  qed
qed

text \<open>A protected process stays so until it exits, and protection has no other source than a fork.\<close>

lemma protected_until_exit:
  assumes "trace ro s es s'" "q \<in> fst (pids s)"
    and "\<And>k code. (k, Do_exit code) \<in> set es \<Longrightarrow> current_pid k \<noteq> q"
  shows "q \<in> fst (pids s')"
  using assms
proof (induction rule: trace.induct)
  case (next_step es s' e)
  then have "q \<in> fst (pids s')" "\<And>k code. e = (k, Do_exit code) \<Longrightarrow> current_pid k \<noteq> q" by auto
  with step_refines [of e s' ro] show ?case by (auto elim!: pid_step_cases)
qed simp

lemma protection_needs_origin:
  assumes "trace ro s es s'" "fst (pids s) = {}"
  shows "fst (pids s') = {}"
  using assms
proof (induction rule: trace.induct)
  case (next_step es s' e)
  with step_refines [of e s' ro] show ?case by (auto elim!: pid_step_cases)
qed simp

end
