(* ===== verification/Sample_Kernel.thy ===== *)
theory Sample_Kernel
  imports Sample_States Traces
begin

text \<open>
  A concrete machine for the instances of the properties: the file \<^verbatim>\<open>/etc/passwd\<close> on one mount,
  process 7 running with parent 5, and process 9 protected; a TCP socket and its peer; and the
  parse tree of a command line of dash.
\<close>

definition etc_name :: bytes where "etc_name = [101, 116, 99]"

definition passwd_name :: bytes where "passwd_name = [112, 97, 115, 115, 119, 100]"

definition sample_inode :: inode_v where
  "sample_inode = \<lparr>i_ino = 42, i_dev = 1, i_generation = 0, i_uid = 0, i_gid = 0, i_mode = 0x81A4, i_mtime_sec = 9, i_nlink = 1\<rparr>"

definition sample_dentry :: "ptr \<Rightarrow> bytes \<Rightarrow> dentry_v" where
  "sample_dentry parent name = \<lparr>d_parent = parent, d_name_len = word_of_nat (length name), d_name = name, d_magic = 0,
     d_inode = sample_inode\<rparr>"

definition sample_task :: "u32 \<Rightarrow> task_v" where
  "sample_task pid = \<lparr>t_pid = pid, t_tgid = pid, t_start_time = 1000, t_real_parent = 5, t_flags = 0, t_ptrace = 0,
     t_uid = 0, t_euid = 0, t_gid = 0, t_egid = 0, t_suid = 0, t_has_mm = True, t_exe_file = Some (3, 1),
     t_arg_start = 16, t_arg_end = 20, t_user_mem = (\<lambda>_. 97), t_fd_table = No_files\<rparr>"

definition sample_kernel :: kernel where
  "sample_kernel = \<lparr>
     dentries = (\<lambda>d. if d = 2 then sample_dentry 1 etc_name else if d = 3 then sample_dentry 2 passwd_name
                     else sample_dentry 1 [SLASH]),
     mounts = (\<lambda>_. \<lparr>mnt_root = 1, mnt_mountpoint = 1, mnt_parent = 1\<rparr>),
     tasks = (\<lambda>t. sample_task (ucast t)), current_task = 7, cgroup_id = 1, ktime_ns = 60, inode_layout = Mtime_sec\<rparr>"

definition sample_process :: "u32 \<Rightarrow> process_t" where
  "sample_process pid = empty_process_t\<lparr>p_pid := pid, p_ppid := 5, p_unique_process_id := ucast pid\<rparr>"

definition host_state :: bpf_state where
  "host_state = boot_state\<lparr>
     alive_process_cache_map := [7 \<mapsto> sample_process 7, 5 \<mapsto> sample_process 5, 9 \<mapsto> sample_process 9],
     protected_processes := [9 \<mapsto> 1], print_scratch := [0 \<mapsto> ()],
     walk_state := [0 \<mapsto> \<lparr>ws_node_addrs = replicate 16 0, ws_separators = replicate 16 0,
       ws_cmd = \<lparr>cs_arr = replicate 256 0, cs_length = 0\<rparr>\<rparr>]\<rparr>"

section \<open>The machine\<close>

lemma kernel_simps [simp]:
  "running sample_kernel = sample_task 7" "current_pid sample_kernel = 7" "ktime_ns sample_kernel = 60"
  "tasks sample_kernel 7 = sample_task 7" "tasks sample_kernel 9 = sample_task 9" "tasks sample_kernel 8 = sample_task 8" "current_task sample_kernel = 7"
  by (simp_all add: sample_kernel_def current_pid_def sample_task_def)

lemma task_simps [simp]:
  "t_pid (sample_task p) = p" "t_tgid (sample_task p) = p" "t_start_time (sample_task p) = 1000"
  "t_real_parent (sample_task p) = 5"
  by (simp_all add: sample_task_def)

lemma process_simps [simp]:
  "p_pid (sample_process p) = p" "p_ppid (sample_process p) = 5"
  "wf_process (sample_process p)" "p_unique_process_id (sample_process p) = ucast p"
  "c_length (p_shell_command (sample_process p)) = 0" "p_unique_ppid_id (sample_process p) = 0"
  by (simp_all add: sample_process_def empty_process_t_def
      empty_file_t_def empty_command_line_t_def wf_process_def wf_file_def)

lemma host_fields [simp]:
  "rb host_state = []" "sent_signals host_state = []" "rb_reserved host_state = 0"
  "alive_process_cache_map host_state 7 = Some (sample_process 7)"
  "alive_process_cache_map host_state 5 = Some (sample_process 5)"
  "alive_process_cache_map host_state 9 = Some (sample_process 9)"
  "protected_processes host_state = [9 \<mapsto> 1]" "program_related_pids host_state = Map.empty"
  "kthread_exec_pids host_state = Map.empty" "global_event_id_counter host_state = 1"
  "helpers_succeed host_state" "heap_ok host_state"
  "private_write_event_cache_lru_map host_state = Map.empty" "global_write_event_cache_lru_map host_state = Map.empty"
  "private_read_event_cache_lru_map host_state = Map.empty" "global_read_event_cache_lru_map host_state = Map.empty"
  "sk_incoming_connections host_state = Map.empty" "sk_outgoing_connections host_state = Map.empty"
  "parent_processes_to_kill host_state = Map.empty" "active_shell_pids host_state = Map.empty"
  "tail_call_counter host_state = [0 \<mapsto> 0]" "exec_pids host_state = Map.empty"
  by (simp_all add: host_state_def boot_state_def helpers_succeed_def heap_ok_def)

lemma host_fill_ready [simp]: "fill_ready host_state"
  by (simp add: fill_ready_def buffers_ready_def) (simp add: host_state_def boot_state_def)

lemma host_ready [simp]: "hook_ready sample_kernel host_state"
  by (simp add: hook_ready_def stack_ok_def) (simp add: host_state_def boot_state_def)

lemma host_monitored [simp]: "monitored sample_kernel host_state"
  by (simp add: monitored_def is_task_with_mm_def is_system_task_def)
    (simp add: sample_task_def word_le_nat_alt)

lemma host_cached [simp]: "subjects_cached sample_kernel host_state (sample_process 7) (sample_process 5)"
  by (simp add: subjects_cached_def)

section \<open>Files\<close>

lemma sample_names [simp]: "ok_names sample_kernel"
  by (simp add: ok_names_def sample_kernel_def sample_dentry_def etc_name_def passwd_name_def)

lemma sample_name_ok [simp]: "ok_name etc_name" "ok_name passwd_name" "d_name (dentries sample_kernel 3) = passwd_name"
  by (simp_all add: ok_name_def etc_name_def passwd_name_def sample_kernel_def sample_dentry_def)

lemma sample_path_names [simp]:
  "path_names sample_kernel 20 3 1 = Some [passwd_name, etc_name]" "path_names sample_kernel 20 2 1 = Some [etc_name]"
  "path_names sample_kernel 20 1 1 = Some []"
  by (simp_all add: sample_kernel_def sample_dentry_def eval_nat_numeral)

lemma sample_path [simp]: "path_ok sample_kernel (3, 1) [passwd_name, etc_name]"
  by (simp add: path_ok_def full_path_def) (simp add: etc_name_def passwd_name_def)

lemma sample_entry [simp]: "entry_ok sample_kernel (2, 1) [etc_name] 3"
  by (simp add: entry_ok_def full_path_def) (simp add: etc_name_def passwd_name_def)

lemma sample_kind [simp]: "file_kind_ok sample_kernel (3, 1)"
  by (simp add: file_kind_ok_def get_file_type_from_mode_def sample_kernel_def sample_dentry_def sample_inode_def)

text \<open>A tower of twenty-four directories.\<close>

definition deep_kernel :: kernel where
  "deep_kernel = sample_kernel\<lparr>dentries := (\<lambda>d. sample_dentry (d - 1) [97])\<rparr>"

lemma path_names_numeral:
  "path_names k (numeral v) d m =
     (if d = mnt_root (mounts k m) then
        if m \<noteq> mnt_parent (mounts k m)
        then path_names k (pred_numeral v) (mnt_mountpoint (mounts k m)) (mnt_parent (mounts k m))
        else Some []
      else if d = d_parent (dentries k d) then None
      else map_option ((#) (d_name (dentries k d))) (path_names k (pred_numeral v) (d_parent (dentries k d)) m))"
  by (simp only: numeral_eq_Suc path_names.simps)

lemma replicate_numeral: "replicate (numeral v) x = x # replicate (pred_numeral v) x"
  by (simp add: numeral_eq_Suc)

lemma deep_names [simp]:
  "path_names deep_kernel 20 25 1 = Some (replicate 20 [97])" "path_names deep_kernel 30 25 1 = Some (replicate 24 [97])"
  by (simp_all add: deep_kernel_def sample_kernel_def sample_dentry_def path_names_numeral replicate_numeral)

lemma length_full_path_replicate: "length (full_path (replicate n [97])) = 2 * n"
  by (induction n) (simp_all add: full_path_def)

lemma deep_path [simp]: "path_ok deep_kernel (25, 1) (replicate 20 [97])"
  by (simp add: path_ok_def length_full_path_replicate ok_names_def list_all_iff ok_name_def)
    (simp add: deep_kernel_def sample_dentry_def)

lemma sample_slots: "\<exists>s'. run_state (alloc_many allocate_process_t 2) host_state = ([Some 0, Some 1], s')"
proof -
  have two: "alloc_many m 2 = do { x \<leftarrow> m; y \<leftarrow> m; State_Monad.return [x, y] }" for m :: "'a option bpf"
    by (simp add: numeral_2_eq_2)
  show ?thesis unfolding two by (simp add: allocate_process_t_def host_state_def boot_state_def word_le_nat_alt)
qed

section \<open>Rules\<close>

lemma sample_rules [simp]: "rules_ok (sample_ro a) ty (\<lambda>_. sample_expr)"
  by (simp add: rules_ok_def)

lemma sample_preds_of [simp]:
  "p_pid (ev_process e) = 7 \<Longrightarrow> pred_holds (sample_ro a) e 5" "\<not> pred_holds (sample_ro a) e 3"
  by (simp_all add: pred_holds_def sample_ro_def pid_predicate_def pred_sem_def field_string_def
      field_numeric_def attribute_of_def field_subject_def subject_process_def subject_file_def
      process_string_def process_numeric_def file_string_def numeric_sem_def)

lemma sample_decision_of [simp]:
  "p_pid (ev_process e) = 7 \<Longrightarrow> decision (sample_ro a) (\<lambda>_. sample_expr) ty e = e\<lparr>ev_action := a, ev_matched_rule_id := 11\<rparr>"
proof -
  assume "p_pid (ev_process e) = 7"
  moreover have "event_rules (sample_ro a) ty = [sample_rule a]" by (simp add: sample_ro_def)
  ultimately show ?thesis
    by (simp add: decision_def decided_event_def sample_rule_def sample_expr_def)
qed

section \<open>Connections\<close>

text \<open>A socket of 10.0.0.1, port 5000, and its peer 10.0.0.2, port 443.\<close>

definition sample_peer :: sock_common_v where
  "sample_peer = \<lparr>skc_family = 2, skc_daddr = 0x0200000A, skc_rcv_saddr = 0x0100000A, skc_v6_daddr = replicate 4 0,
     skc_v6_rcv_saddr = replicate 4 0, skc_num = 5000, skc_dport = 0xBB01\<rparr>"

definition sample_socks :: "u64 \<Rightarrow> sock_v" where
  "sample_socks _ = \<lparr>sk_common = sample_peer, sk_protocol = 6\<rparr>"

definition sample_address :: sockaddr_v where
  "sample_address = \<lparr>sa_family = 2, sa_port = 0xBB01, sin_addr = 0x0200000A, sin6_addr = replicate 4 0\<rparr>"

lemma sample_tcp [simp]: "sk_protocol (sample_socks sk) = 6"
  by (simp add: sample_socks_def)

definition sample_incoming :: network_event_t where
  "sample_incoming = \<lparr>n_direction = INCOMING, n_protocol = IPPROTO_TCP, n_ip_type = AF_INET, n_source_port = 443,
     n_destination_port = 5000, n_addresses = [0x0200000A, 0x0100000A] @ replicate 6 0\<rparr>"

definition sample_outgoing :: network_event_t where
  "sample_outgoing = \<lparr>n_direction = OUTGOING, n_protocol = IPPROTO_TCP, n_ip_type = AF_INET, n_source_port = 0,
     n_destination_port = 443, n_addresses = [0, 0x0200000A] @ replicate 6 0\<rparr>"

lemma sample_incoming_fill [simp]:
  "fill_incomming_connection_network_event_t empty_network_event_t (sample_socks sk) sample_peer = (SUCCESS, sample_incoming)"
  by (subst incoming_ipv4)
    (simp_all add: sample_peer_def sample_socks_def sample_incoming_def empty_network_event_t_def bpf_ntohs_def)

lemma sample_outgoing_fill [simp]:
  "fill_outgoing_connection_network_event_t_first_part empty_network_event_t (sample_socks sk) sample_address = (SUCCESS, sample_outgoing)"
  by (simp add: fill_outgoing_connection_network_event_t_first_part_def set_ipv4_destination_def sample_address_def
      sample_outgoing_def sample_socks_def empty_network_event_t_def bpf_ntohs_def Let_def cell_simps)

lemma sample_established_fill [simp]:
  "fill_outgoing_connection_network_event_t_second_part sample_outgoing (sample_socks sk) =
     (SUCCESS, sample_outgoing\<lparr>n_source_port := 5000, n_addresses := [0x0100000A, 0x0200000A] @ replicate 6 0\<rparr>)"
  by (simp add: fill_outgoing_connection_network_event_t_second_part_def set_ipv4_source_def sample_socks_def sample_peer_def
      sample_outgoing_def Let_def cell_simps)

lemma sample_network_strings:
  assumes "ev_process e = sample_process 7" "ev_parent_process e = sample_process 5" "ev_type e = NETWORK" "ev_data e = Data_network n"
  shows "wf_event_strings (sample_ro a) e"
  using assms by (intro wf_event) (auto simp: target_file_def)

lemma sample_connection_strings [simp]:
  "wf_event_strings (sample_ro a) (stamped k s (incoming_event (sample_process 7) (sample_process 5) n))"
  "wf_event_strings (sample_ro a) (dated k (outgoing_event (sample_process 7) (sample_process 5) n))"
  by (rule sample_network_strings;
      simp add: stamped_def dated_def incoming_event_def outgoing_event_def add_network_def add_processes_def)+

section \<open>A command line of dash\<close>

text \<open>The parse tree of \<^verbatim>\<open>id; ls x\<close>: node 1 has the commands 2 and 3, whose words start at 12 and 13.\<close>

definition sample_mem :: dash_mem where
  "sample_mem = \<lparr>
     um_type = [1 \<mapsto> DASH_NSEMI, 2 \<mapsto> DASH_NCMD, 3 \<mapsto> DASH_NCMD],
     um_ncmd = [2 \<mapsto> \<lparr>nc_type = DASH_NCMD, nc_linno = 1, nc_assign = 0, nc_args = 12, nc_redirect = 0\<rparr>,
                3 \<mapsto> \<lparr>nc_type = DASH_NCMD, nc_linno = 1, nc_assign = 0, nc_args = 13, nc_redirect = 0\<rparr>],
     um_npipe = Map.empty, um_nredir = Map.empty,
     um_nbinary = [1 \<mapsto> \<lparr>nb_type = DASH_NSEMI, nb_ch1 = 2, nb_ch2 = 3\<rparr>],
     um_narg = [12 \<mapsto> \<lparr>na_type = DASH_NARG, na_next = 0, na_text = 22, na_backquote = 0\<rparr>,
                13 \<mapsto> \<lparr>na_type = DASH_NARG, na_next = 14, na_text = 23, na_backquote = 0\<rparr>,
                14 \<mapsto> \<lparr>na_type = DASH_NARG, na_next = 0, na_text = 24, na_backquote = 0\<rparr>],
     um_nnot = Map.empty, um_nodelist = Map.empty, um_nfile = Map.empty,
     um_str = [22 \<mapsto> [105, 100, 0], 23 \<mapsto> [108, 115, 0], 24 \<mapsto> [120, 0]]\<rparr>"

definition sample_words :: "u64 \<Rightarrow> bytes list" where
  "sample_words a = (if a = 2 then [[105, 100]] else [[108, 115], [120]])"

definition sample_tree :: ctree where
  "sample_tree = Branch DASH_NSEMI (Leaf 2) (Leaf 3)"

lemma sample_tree_simps [simp]:
  "represents sample_mem sample_tree 1" "leaves sample_tree = 2" "in_order (-1) sample_tree = [(2, -1), (3, DASH_NSEMI)]"
  by (simp_all add: sample_tree_def sample_mem_def is_list_operator_def)

lemma sample_commands [simp]:
  "simple_command sample_mem 2 (sample_words 2)" "simple_command sample_mem 3 (sample_words 3)"
  by (simp_all add: simple_command_def sample_mem_def sample_words_def c_string_def)

lemma sample_render [simp]:
  "render add_separator sample_words sample_tree = [105, 100, 59, 32, 108, 115, 32, 120]"
  by (simp add: render_def render_leaf_def sample_words_def add_separator_def add_word_def lit_def)

lemma sample_clean [simp]:
  "clean [105, 100, 59, 32, 108, 115, 32, 120] = [105, 100, 59, 32, 108, 115, 32, 120]"
  by (simp add: word_le_nat_alt)

end
