(* ===== verification/Regex_Nfa.thy ===== *)
theory Regex_Nfa
  imports Kmp_Builder
begin

text \<open>
  The first half of the regular-expression compiler of \<^verbatim>\<open>dfa_builder.cpp\<close>: the syntax tree of a
  pattern and Thompson's construction, which grows one automaton by adding states and
  transitions at its end. The lemmas show that the fragment built for a tree accepts the
  language of the tree, in whatever larger automaton the fragment ends up.
\<close>

section \<open>Syntax trees\<close>

datatype AstNode =
  LITERAL u8
| CHAR_CLASS "bool list"
| CONCAT AstNode AstNode
| ALTERNATION AstNode AstNode
| STAR AstNode
| PLUS AstNode
| OPTIONAL AstNode

section \<open>Automata\<close>

text \<open>
  A state is the list of its transitions, pairs of a symbol (\<open>-1\<close> for the empty word) and a
  target; an automaton under construction is the list of its states.
\<close>

abbreviation EPSILON :: int where "EPSILON \<equiv> -1"

type_synonym NfaState = "(int \<times> nat) list"

record NfaFragment =
  nf_start :: nat
  nf_accept :: nat

record Nfa =
  nfa_states :: "NfaState list"
  nfa_start :: nat
  nfa_accept :: nat

definition newState :: "NfaState list \<Rightarrow> nat \<times> NfaState list" where
  "newState N = (length N, N @ [[]])"

definition addTransition :: "nat \<Rightarrow> int \<Rightarrow> nat \<Rightarrow> NfaState list \<Rightarrow> NfaState list" where
  "addTransition from symbol to N = N[from := N ! from @ [(symbol, to)]]"

definition addCharClass :: "nat \<Rightarrow> bool list \<Rightarrow> nat \<Rightarrow> NfaState list \<Rightarrow> NfaState list" where
  "addCharClass from char_set to N =
     fold (\<lambda>c N. if char_set ! c then addTransition from (int c) to N else N) [0..<256] N"

fun buildNfaFromAst :: "AstNode \<Rightarrow> NfaState list \<Rightarrow> NfaFragment \<times> NfaState list" where
  "buildNfaFromAst (LITERAL ch) N =
     (let (s, N) = newState N; (a, N) = newState N
      in (\<lparr>nf_start = s, nf_accept = a\<rparr>, addTransition s (int (unat ch)) a N))"
| "buildNfaFromAst (CHAR_CLASS char_set) N =
     (let (s, N) = newState N; (a, N) = newState N
      in (\<lparr>nf_start = s, nf_accept = a\<rparr>, addCharClass s char_set a N))"
| "buildNfaFromAst (CONCAT l r) N =
     (let (left, N) = buildNfaFromAst l N; (right, N) = buildNfaFromAst r N
      in (\<lparr>nf_start = nf_start left, nf_accept = nf_accept right\<rparr>,
          addTransition (nf_accept left) EPSILON (nf_start right) N))"
| "buildNfaFromAst (ALTERNATION l r) N =
     (let (s, N) = newState N; (a, N) = newState N;
          (left, N) = buildNfaFromAst l N; (right, N) = buildNfaFromAst r N;
          N = addTransition s EPSILON (nf_start left) N; N = addTransition s EPSILON (nf_start right) N;
          N = addTransition (nf_accept left) EPSILON a N; N = addTransition (nf_accept right) EPSILON a N
      in (\<lparr>nf_start = s, nf_accept = a\<rparr>, N))"
| "buildNfaFromAst (STAR r) N =
     (let (s, N) = newState N; (a, N) = newState N; (inner, N) = buildNfaFromAst r N;
          N = addTransition s EPSILON (nf_start inner) N; N = addTransition s EPSILON a N;
          N = addTransition (nf_accept inner) EPSILON (nf_start inner) N; N = addTransition (nf_accept inner) EPSILON a N
      in (\<lparr>nf_start = s, nf_accept = a\<rparr>, N))"
| "buildNfaFromAst (PLUS r) N =
     (let (s, N) = newState N; (a, N) = newState N; (inner, N) = buildNfaFromAst r N;
          N = addTransition s EPSILON (nf_start inner) N;
          N = addTransition (nf_accept inner) EPSILON (nf_start inner) N; N = addTransition (nf_accept inner) EPSILON a N
      in (\<lparr>nf_start = s, nf_accept = a\<rparr>, N))"
| "buildNfaFromAst (OPTIONAL r) N =
     (let (s, N) = newState N; (a, N) = newState N; (inner, N) = buildNfaFromAst r N;
          N = addTransition s EPSILON (nf_start inner) N; N = addTransition s EPSILON a N;
          N = addTransition (nf_accept inner) EPSILON a N
      in (\<lparr>nf_start = s, nf_accept = a\<rparr>, N))"

section \<open>Languages\<close>

definition conc :: "bytes set \<Rightarrow> bytes set \<Rightarrow> bytes set" where
  "conc A B = {u @ v | u v. u \<in> A \<and> v \<in> B}"

inductive_set star :: "bytes set \<Rightarrow> bytes set" for A where
  star_nil: "[] \<in> star A"
| star_app: "u \<in> A \<Longrightarrow> v \<in> star A \<Longrightarrow> u @ v \<in> star A"

fun lang :: "AstNode \<Rightarrow> bytes set" where
  "lang (LITERAL ch) = {[ch]}"
| "lang (CHAR_CLASS char_set) = {[ch] | ch. char_set ! unat ch}"
| "lang (CONCAT l r) = conc (lang l) (lang r)"
| "lang (ALTERNATION l r) = lang l \<union> lang r"
| "lang (STAR r) = star (lang r)"
| "lang (PLUS r) = conc (lang r) (star (lang r))"
| "lang (OPTIONAL r) = insert [] (lang r)"

section \<open>Paths\<close>

definition edges :: "NfaState list \<Rightarrow> nat \<Rightarrow> (int \<times> nat) set" where
  "edges M p = (if p < length M then set (M ! p) else {})"

text \<open>\<open>path M n p w q\<close>: the word \<open>w\<close> leads from \<open>p\<close> to \<open>q\<close> in \<open>n\<close> transitions.\<close>

inductive path :: "NfaState list \<Rightarrow> nat \<Rightarrow> nat \<Rightarrow> bytes \<Rightarrow> nat \<Rightarrow> bool" for M where
  path_nil: "path M 0 p [] p"
| path_eps: "(EPSILON, q) \<in> edges M p \<Longrightarrow> path M n q w f \<Longrightarrow> path M (Suc n) p w f"
| path_sym: "(int (unat c), q) \<in> edges M p \<Longrightarrow> path M n q w f \<Longrightarrow> path M (Suc n) p (c # w) f"

inductive_cases path_cases: "path M n p w f"

definition reaches :: "NfaState list \<Rightarrow> nat \<Rightarrow> bytes \<Rightarrow> nat \<Rightarrow> bool" where
  "reaches M p w q \<longleftrightarrow> (\<exists>n. path M n p w q)"

lemma reaches_refl [simp]: "reaches M p [] p"
  unfolding reaches_def by (blast intro: path.intros)

lemma path_append: "path M n p u q \<Longrightarrow> path M m q v f \<Longrightarrow> path M (n + m) p (u @ v) f"
  by (induction rule: path.induct) (auto intro: path.intros)

lemma reaches_append: "reaches M p u q \<Longrightarrow> reaches M q v f \<Longrightarrow> reaches M p (u @ v) f"
  unfolding reaches_def by (blast intro: path_append)

lemma reaches_eps: "(EPSILON, q) \<in> edges M p \<Longrightarrow> reaches M q w f \<Longrightarrow> reaches M p w f"
  unfolding reaches_def by (blast intro: path.intros)

lemma reaches_sym: "(int (unat c), q) \<in> edges M p \<Longrightarrow> reaches M p [c] q"
  unfolding reaches_def by (blast intro: path.intros)

lemma path_leaves:
  assumes "path M n p w f" "f \<noteq> p"
  shows "\<exists>m. n = Suc m \<and> ((\<exists>q. (EPSILON, q) \<in> edges M p \<and> path M m q w f) \<or>
    (\<exists>c v q. w = c # v \<and> (int (unat c), q) \<in> edges M p \<and> path M m q v f))"
  using assms(1) by (cases rule: path_cases) (use assms(2) in auto)

section \<open>Fragments\<close>

text \<open>
  A fragment of an automaton: entered at \<open>s\<close>, left at \<open>a\<close> only, with the language \<open>L\<close>. The states
  between are \<open>R\<close>; what the automaton does after \<open>a\<close> is its own business.
\<close>

definition fragment :: "NfaState list \<Rightarrow> nat set \<Rightarrow> nat \<Rightarrow> nat \<Rightarrow> bytes set \<Rightarrow> bool" where
  "fragment M R s a L \<longleftrightarrow> s \<in> R \<and> a \<in> R \<and> (\<forall>u\<in>L. reaches M s u a) \<and>
     (\<forall>n w f. path M n s w f \<longrightarrow> f \<notin> R - {a} \<longrightarrow> (\<exists>m u v. m < n \<and> w = u @ v \<and> u \<in> L \<and> path M m a v f))"

lemma fragment_reaches: "fragment M R s a L \<Longrightarrow> u \<in> L \<Longrightarrow> reaches M s u a"
  by (simp add: fragment_def)

lemma fragment_split:
  "fragment M R s a L \<Longrightarrow> path M n s w f \<Longrightarrow> f \<notin> R - {a} \<Longrightarrow> \<exists>m u v. m < n \<and> w = u @ v \<and> u \<in> L \<and> path M m a v f"
  unfolding fragment_def by blast

text \<open>An edge set that only has empty moves.\<close>

lemma path_eps_only:
  assumes "path M n p w f" "f \<noteq> p" "edges M p = Pair EPSILON ` T"
  shows "\<exists>m q. n = Suc m \<and> q \<in> T \<and> path M m q w f"
proof -
  have "int (unat c) \<noteq> EPSILON" for c :: u8 by linarith
  with path_leaves [OF assms(1,2)] assms(3) show ?thesis by blast
qed


lemma fragment_concat:
  assumes l: "fragment M R1 s1 a1 L1" and r: "fragment M R2 s2 a2 L2" and link: "edges M a1 = Pair EPSILON ` {s2}"
    and disj: "R1 \<inter> R2 = {}" and R: "R1 \<union> R2 \<subseteq> R"
  shows "fragment M R s1 a2 (conc L1 L2)"
  unfolding fragment_def
proof (intro conjI ballI allI impI)
  show "s1 \<in> R" "a2 \<in> R" using l r R by (auto simp: fragment_def)
  fix u assume "u \<in> conc L1 L2"
  then obtain v w where "u = v @ w" "v \<in> L1" "w \<in> L2" by (auto simp: conc_def)
  moreover have "(EPSILON, s2) \<in> edges M a1" using link by simp
  ultimately show "reaches M s1 u a2"
    using fragment_reaches [OF l] fragment_reaches [OF r] by (blast intro: reaches_append reaches_eps)
next
  fix n w f assume path: "path M n s1 w f" and f: "f \<notin> R - {a2}"
  have a: "a1 \<in> R1" "a2 \<in> R2" using l r by (auto simp: fragment_def)
  with f R disj have f1: "f \<notin> R1 - {a1}" "f \<noteq> a1" "f \<notin> R2 - {a2}" by auto
  from fragment_split [OF l path f1(1)] obtain m u v where 1: "m < n" "w = u @ v" "u \<in> L1" "path M m a1 v f" by blast
  from path_eps_only [OF 1(4) f1(2) link] obtain m' where 2: "m = Suc m'" "path M m' s2 v f" by blast
  from fragment_split [OF r 2(2) f1(3)] obtain k u' v' where "k < m'" "v = u' @ v'" "u' \<in> L2" "path M k a2 v' f" by blast
  with 1 2 show "\<exists>m u v. m < n \<and> w = u @ v \<and> u \<in> conc L1 L2 \<and> path M m a2 v f"
    by (intro exI [of _ k] exI [of _ "u @ u'"] exI [of _ v']) (auto simp: conc_def)
qed

lemma fragment_alternation:
  assumes l: "fragment M R1 s1 a1 L1" and r: "fragment M R2 s2 a2 L2"
    and fork: "edges M s = Pair EPSILON ` {s1, s2}" and join: "edges M a1 = Pair EPSILON ` {a}" "edges M a2 = Pair EPSILON ` {a}"
    and R: "R1 \<union> R2 \<subseteq> R" "s \<in> R" "a \<in> R" and fresh: "s \<noteq> a" "a \<notin> R1" "a \<notin> R2"
  shows "fragment M R s a (L1 \<union> L2)"
  unfolding fragment_def
proof (intro conjI ballI allI impI)
  fix u assume "u \<in> L1 \<union> L2"
  then have "reaches M s1 u a1 \<or> reaches M s2 u a2" using fragment_reaches [OF l] fragment_reaches [OF r] by blast
  moreover have "(EPSILON, a) \<in> edges M a1" "(EPSILON, a) \<in> edges M a2" "(EPSILON, s1) \<in> edges M s" "(EPSILON, s2) \<in> edges M s"
    using fork join by simp_all
  moreover have "reaches M p u a" if "reaches M p u b" "(EPSILON, a) \<in> edges M b" for p b
    using reaches_append [OF that(1) reaches_eps [OF that(2) reaches_refl]] by simp
  ultimately show "reaches M s u a" by (blast intro: reaches_eps)
next
  fix n w f assume path: "path M n s w f" and f: "f \<notin> R - {a}"
  have "a1 \<in> R1" "a2 \<in> R2" using l r by (auto simp: fragment_def)
  with f R fresh have ne: "f \<noteq> s" "f \<notin> R1 - {a1}" "f \<notin> R2 - {a2}" "f \<noteq> a1" "f \<noteq> a2" by auto
  from path_eps_only [OF path ne(1) fork] obtain m where m: "n = Suc m" "path M m s1 w f \<or> path M m s2 w f" by blast
  from m(2) show "\<exists>m u v. m < n \<and> w = u @ v \<and> u \<in> L1 \<union> L2 \<and> path M m a v f"
  proof
    assume "path M m s1 w f"
    from fragment_split [OF l this ne(2)] obtain k u v where 1: "k < m" "w = u @ v" "u \<in> L1" "path M k a1 v f" by blast
    from path_eps_only [OF 1(4) ne(4) join(1)] obtain k' where "k = Suc k'" "path M k' a v f" by blast
    with 1 m(1) show ?thesis by (intro exI [of _ k'] exI [of _ u] exI [of _ v]) simp
  next
    assume "path M m s2 w f"
    from fragment_split [OF r this ne(3)] obtain k u v where 1: "k < m" "w = u @ v" "u \<in> L2" "path M k a2 v f" by blast
    from path_eps_only [OF 1(4) ne(5) join(2)] obtain k' where "k = Suc k'" "path M k' a v f" by blast
    with 1 m(1) show ?thesis by (intro exI [of _ k'] exI [of _ u] exI [of _ v]) simp
  qed
qed (use R in auto)

text \<open>
  The three repetitions are one: the inner fragment may be repeated (\<open>again\<close>) and may be skipped
  (\<open>skip\<close>).
\<close>

definition repeated :: "bool \<Rightarrow> bytes set \<Rightarrow> bytes set" where
  "repeated again L = (if again then conc L (star L) else L)"

lemma star_unfold: "star L = insert [] (conc L (star L))"
  by (auto simp: conc_def elim: star.cases intro: star.intros)

lemma repeated_once: "u \<in> L \<Longrightarrow> u \<in> repeated again L"
  using star_nil [of L] by (force simp: repeated_def conc_def)

lemma repeated_more: "again \<Longrightarrow> u \<in> L \<Longrightarrow> v \<in> repeated again L \<Longrightarrow> u @ v \<in> repeated again L"
  unfolding repeated_def conc_def by (auto intro: star.intros)

lemma repeated_split:
  assumes "u \<in> repeated again L"
  shows "\<exists>v w. u = v @ w \<and> v \<in> L \<and> (w = [] \<or> again \<and> w \<in> star L)"
proof (cases again)
  case True
  with assms show ?thesis by (auto simp: repeated_def conc_def)
next
  case False
  with assms show ?thesis by (intro exI [of _ u] exI [of _ "[]"]) (simp add: repeated_def)
qed

lemma star_reaches:
  assumes "fragment M R i b L" "(EPSILON, i) \<in> edges M b" "w \<in> star L"
  shows "reaches M b w b"
  using assms(3)
proof induction
  case (star_app u v)
  with fragment_reaches [OF assms(1)] assms(2) show ?case by (blast intro: reaches_append reaches_eps)
qed simp

lemma repeated_splits:
  assumes inner: "fragment M R i b L" and out: "edges M b = Pair EPSILON ` (insert a (if again then {i} else {}))"
    and f: "f \<notin> R"
  shows "path M n i w f \<Longrightarrow> \<exists>m u v. m < n \<and> w = u @ v \<and> u \<in> repeated again L \<and> path M m a v f"
proof (induction n arbitrary: w rule: less_induct)
  case (less n)
  have "b \<in> R" using inner by (simp add: fragment_def)
  with f have fb: "f \<noteq> b" "f \<notin> R - {b}" by auto
  from fragment_split [OF inner less.prems fb(2)] obtain m u v
    where 1: "m < n" "w = u @ v" "u \<in> L" "path M m b v f" by blast
  from path_eps_only [OF 1(4) fb(1) out] obtain k where k: "m = Suc k" "path M k a v f \<or> again \<and> path M k i v f"
    by (auto split: if_splits)
  from k(2) show ?case
  proof
    assume "path M k a v f"
    with 1 k(1) show ?thesis by (intro exI [of _ k] exI [of _ u] exI [of _ v]) (simp add: repeated_once)
  next
    assume 2: "again \<and> path M k i v f"
    with less.IH [of k v] 1(1) k(1) obtain k' u' v' where "k' < k" "v = u' @ v'" "u' \<in> repeated again L" "path M k' a v' f" by auto
    with 1 k(1) 2 show ?thesis by (intro exI [of _ k'] exI [of _ "u @ u'"] exI [of _ v']) (simp add: repeated_more)
  qed
qed

lemma fragment_loop:
  assumes inner: "fragment M R1 i b L" and enter: "edges M s = Pair EPSILON ` (insert i (if skip then {a} else {}))"
    and out: "edges M b = Pair EPSILON ` (insert a (if again then {i} else {}))"
    and R: "R1 \<subseteq> R" "s \<in> R" "a \<in> R" and fresh: "s \<noteq> a" "a \<notin> R1"
  shows "fragment M R s a (if skip then insert [] (repeated again L) else repeated again L)"
  unfolding fragment_def
proof (intro conjI ballI allI impI)
  have e: "(EPSILON, i) \<in> edges M s" "(EPSILON, a) \<in> edges M b" using enter out by simp_all
  fix u assume u: "u \<in> (if skip then insert [] (repeated again L) else repeated again L)"
  have "reaches M s u a" if u1: "u \<in> repeated again L"
  proof -
    obtain v w where vw: "u = v @ w" "v \<in> L" "w = [] \<or> again \<and> w \<in> star L"
      using repeated_split [OF u1] by blast
    have "reaches M b w b" using vw(3) star_reaches [OF inner] out by auto
    from reaches_append [OF this reaches_eps [OF e(2) reaches_refl]] have "reaches M b w a" by simp
    from reaches_eps [OF e(1) reaches_append [OF fragment_reaches [OF inner vw(2)] this]] vw(1) show ?thesis by simp
  qed
  moreover have "reaches M s [] a" if skip
  proof -
    have "(EPSILON, a) \<in> edges M s" using that enter by simp
    from reaches_eps [OF this reaches_refl] show ?thesis .
  qed
  ultimately show "reaches M s u a" using u by (auto split: if_splits)
next
  fix n w f assume path: "path M n s w f" and f: "f \<notin> R - {a}"
  then have ne: "f \<noteq> s" "f \<notin> R1" using R fresh by auto
  from path_eps_only [OF path ne(1) enter] obtain m where m: "n = Suc m" "path M m i w f \<or> skip \<and> path M m a w f"
    by (auto split: if_splits)
  from m(2) show "\<exists>m u v. m < n \<and> w = u @ v \<and> u \<in> (if skip then insert [] (repeated again L) else repeated again L) \<and> path M m a v f"
  proof
    assume "path M m i w f"
    from repeated_splits [OF inner out ne(2) this] m(1) show ?thesis
      by (auto simp: less_Suc_eq)
  next
    assume "skip \<and> path M m a w f"
    with m(1) show ?thesis by (intro exI [of _ m] exI [of _ "[]"] exI [of _ w]) simp
  qed
qed (use R in auto)

section \<open>The construction\<close>

lemma length_addTransition [simp]: "length (addTransition p c q N) = length N"
  by (simp add: addTransition_def)

lemma length_addCharClass [simp]: "length (addCharClass p cs q N) = length N"
proof -
  have "length (fold (\<lambda>c N. if cs ! c then addTransition p (int c) q N else N) xs N) = length N" for xs
    by (induction xs arbitrary: N) simp_all
  then show ?thesis by (simp add: addCharClass_def)
qed

lemma edges_newState [simp]: "edges (N @ [[]]) p = edges N p" "edges (N @ [[], []]) p = edges N p"
  by (auto simp: edges_def nth_append nth_Cons')

lemma edges_beyond: "length N \<le> p \<Longrightarrow> edges N p = {}"
  by (simp add: edges_def)

lemma edges_addTransition:
  "p < length N \<Longrightarrow> edges (addTransition p c q N) x = (if x = p then insert (c, q) (edges N x) else edges N x)"
  by (auto simp: edges_def addTransition_def)

lemma edges_addCharClass:
  assumes "p < length N"
  shows "edges (addCharClass p cs q N) x =
    (if x = p then {(int c, q) | c. c < 256 \<and> cs ! c} \<union> edges N x else edges N x)"
proof -
  have "edges (fold (\<lambda>c N. if cs ! c then addTransition p (int c) q N else N) xs N) x =
      (if x = p then {(int c, q) | c. c \<in> set xs \<and> cs ! c} \<union> edges N x else edges N x)" for xs
    using assms by (induction xs arbitrary: N) (auto simp: edges_addTransition)
  from this [of "[0..<256]"] show ?thesis by (simp add: addCharClass_def)
qed

lemmas nfa_simps = newState_def Let_def case_prod_beta edges_addTransition edges_addCharClass edges_beyond

text \<open>What the construction leaves alone, and that the accepting state of a fragment is an end.\<close>

definition grown :: "NfaState list \<Rightarrow> NfaFragment \<Rightarrow> NfaState list \<Rightarrow> bool" where
  "grown N fr N' \<longleftrightarrow> length N \<le> nf_start fr \<and> nf_start fr < length N' \<and> length N \<le> nf_accept fr \<and> nf_accept fr < length N' \<and>
     edges N' (nf_accept fr) = {} \<and> (\<forall>p<length N. edges N' p = edges N p)"

lemma build_grows: "buildNfaFromAst r N = (fr, N') \<Longrightarrow> grown N fr N'"
proof (induction r arbitrary: N fr N')
  case (CONCAT l r)
  obtain left N1 where 1: "buildNfaFromAst l N = (left, N1)" by fastforce
  obtain right N2 where 2: "buildNfaFromAst r N1 = (right, N2)" by fastforce
  from CONCAT.prems CONCAT.IH(1) [OF 1] CONCAT.IH(2) [OF 2] 1 2 show ?case
    by (auto simp: grown_def edges_addTransition)
next
  case (ALTERNATION l r)
  obtain left N1 where 1: "buildNfaFromAst l (N @ [[]] @ [[]]) = (left, N1)" by fastforce
  obtain right N2 where 2: "buildNfaFromAst r N1 = (right, N2)" by fastforce
  from ALTERNATION.prems ALTERNATION.IH(1) [OF 1] ALTERNATION.IH(2) [OF 2] 1 2 show ?case
    by (auto simp: grown_def nfa_simps)
next
  case (STAR r)
  obtain inner N1 where 1: "buildNfaFromAst r (N @ [[]] @ [[]]) = (inner, N1)" by fastforce
  from STAR.prems STAR.IH [OF 1] 1 show ?case by (auto simp: grown_def nfa_simps)
next
  case (PLUS r)
  obtain inner N1 where 1: "buildNfaFromAst r (N @ [[]] @ [[]]) = (inner, N1)" by fastforce
  from PLUS.prems PLUS.IH [OF 1] 1 show ?case by (auto simp: grown_def nfa_simps)
next
  case (OPTIONAL r)
  obtain inner N1 where 1: "buildNfaFromAst r (N @ [[]] @ [[]]) = (inner, N1)" by fastforce
  from OPTIONAL.prems OPTIONAL.IH [OF 1] 1 show ?case by (auto simp: grown_def nfa_simps)
qed (auto simp: grown_def nfa_simps)

text \<open>In every automaton that has the transitions of the fragment, the fragment has the language of the tree.\<close>

lemma symbol_step:
  assumes "edges M s = {(int c, a) | c. c < 256 \<and> P c}" "s \<in> R" "a \<in> R" "s \<noteq> a"
  shows "fragment M R s a {[ch] | ch. P (unat (ch :: u8))}"
  unfolding fragment_def
proof (intro conjI ballI allI impI)
  fix u assume "u \<in> {[ch] | ch. P (unat (ch :: u8))}"
  then obtain ch :: u8 where u: "u = [ch]" "P (unat ch)" by blast
  then have "(int (unat ch), a) \<in> edges M s" using assms(1) u8_less [of ch] by blast
  with u(1) show "reaches M s u a" by (simp only: reaches_sym)
next
  fix n w f assume path: "path M n s w f" and "f \<notin> R - {a}"
  then have "f \<noteq> s" using assms by auto
  from path_leaves [OF path this] assms(1) obtain m c v where "n = Suc m" "w = c # v" "P (unat c)" "path M m a v f"
    by (auto simp del: of_nat_unat)
  then show "\<exists>m u v. m < n \<and> w = u @ v \<and> u \<in> {[ch] | ch. P (unat (ch :: u8))} \<and> path M m a v f"
    by (intro exI [of _ m] exI [of _ "[c]"] exI [of _ v]) simp
qed (use assms in auto)

lemma build_loop:
  assumes IH: "\<And>N fr N'. buildNfaFromAst r N = (fr, N') \<Longrightarrow>
      (\<And>p. length N \<le> p \<Longrightarrow> p < length N' \<Longrightarrow> p \<noteq> nf_accept fr \<Longrightarrow> edges M p = edges N' p) \<Longrightarrow>
      fragment M {length N..<length N'} (nf_start fr) (nf_accept fr) (lang r)"
    and 1: "buildNfaFromAst r (N @ [[], []]) = (inner, N1)"
    and M: "\<And>p. length N \<le> p \<Longrightarrow> p < length N' \<Longrightarrow> p \<noteq> nf_accept fr \<Longrightarrow> edges M p = edges N' p"
    and fr: "nf_accept fr = Suc (length N)" "length N' = length N1"
    and enter: "edges N' (length N) = Pair EPSILON ` insert (nf_start inner) (if skip then {Suc (length N)} else {})"
    and out: "edges N' (nf_accept inner) = Pair EPSILON ` insert (Suc (length N)) (if again then {nf_start inner} else {})"
    and rest: "\<And>p. Suc (Suc (length N)) \<le> p \<Longrightarrow> p \<noteq> nf_accept inner \<Longrightarrow> edges N' p = edges N1 p"
  shows "fragment M {length N..<length N'} (length N) (Suc (length N))
    (if skip then insert [] (repeated again (lang r)) else repeated again (lang r))"
proof (rule fragment_loop)
  note g = build_grows [OF 1, unfolded grown_def]
  show "fragment M {length (N @ [[], []])..<length N1} (nf_start inner) (nf_accept inner) (lang r)"
    by (rule IH [OF 1]) (use M g fr rest in auto)
  show "edges M (length N) = Pair EPSILON ` insert (nf_start inner) (if skip then {Suc (length N)} else {})"
    "edges M (nf_accept inner) = Pair EPSILON ` insert (Suc (length N)) (if again then {nf_start inner} else {})"
    using M [of "length N"] M [of "nf_accept inner"] g fr enter out by simp_all
qed (use build_grows [OF 1, unfolded grown_def] fr in auto)

lemma build_fragment:
  assumes "buildNfaFromAst r N = (fr, N')"
    and "\<And>p. length N \<le> p \<Longrightarrow> p < length N' \<Longrightarrow> p \<noteq> nf_accept fr \<Longrightarrow> edges M p = edges N' p"
  shows "fragment M {length N..<length N'} (nf_start fr) (nf_accept fr) (lang r)"
  using assms
proof (induction r arbitrary: N fr N')
  case (LITERAL ch)
  have "edges M (length N) = {(int c, Suc (length N)) | c. c < 256 \<and> c = unat ch}"
    using LITERAL.prems u8_less [of ch] by (auto simp: nfa_simps)
  moreover have "{[c] | c. unat c = unat ch} = {[ch]}" by (auto dest: word_unat_eq_iff [THEN iffD2])
  ultimately show ?case using symbol_step [of M "length N" "Suc (length N)" "\<lambda>c. c = unat ch" "{length N..<length N'}"] LITERAL.prems(1)
    by (auto simp: nfa_simps)
next
  case (CHAR_CLASS cs)
  have "edges M (length N) = {(int c, Suc (length N)) | c. c < 256 \<and> cs ! c}"
    using CHAR_CLASS.prems by (auto simp: nfa_simps)
  from symbol_step [OF this, of "{length N..<length N'}"] CHAR_CLASS.prems(1) show ?case
    by (auto simp: nfa_simps)
next
  case (CONCAT l r)
  obtain left N1 where 1: "buildNfaFromAst l N = (left, N1)" by fastforce
  obtain right N2 where 2: "buildNfaFromAst r N1 = (right, N2)" by fastforce
  note g = build_grows [OF 1, unfolded grown_def] build_grows [OF 2, unfolded grown_def]
  have fr: "nf_start fr = nf_start left" "nf_accept fr = nf_accept right"
    "N' = addTransition (nf_accept left) EPSILON (nf_start right) N2" using CONCAT.prems(1) 1 2 by auto
  have M: "edges M p = edges N' p" if "length N \<le> p" "p < length N2" "p \<noteq> nf_accept right" for p
    using CONCAT.prems(2) [of p] that fr by simp
  have "fragment M {length N..<length N1} (nf_start left) (nf_accept left) (lang l)"
    by (rule CONCAT.IH(1) [OF 1]) (use M g fr in \<open>auto simp: edges_addTransition\<close>)
  moreover have "fragment M {length N1..<length N2} (nf_start right) (nf_accept right) (lang r)"
    by (rule CONCAT.IH(2) [OF 2]) (use M g fr in \<open>auto simp: edges_addTransition\<close>)
  moreover have "edges M (nf_accept left) = Pair EPSILON ` {nf_start right}"
    using M [of "nf_accept left"] g fr by (auto simp: edges_addTransition)
  ultimately show ?case
    unfolding fr lang.simps by (rule fragment_concat) (use g fr in auto)
next
  case (ALTERNATION l r)
  obtain left N1 where 1: "buildNfaFromAst l (N @ [[], []]) = (left, N1)" by fastforce
  obtain right N2 where 2: "buildNfaFromAst r N1 = (right, N2)" by fastforce
  note g = build_grows [OF 1, unfolded grown_def] build_grows [OF 2, unfolded grown_def]
  let ?s = "length N" and ?a = "Suc (length N)"
  have fr: "nf_start fr = ?s" "nf_accept fr = ?a"
    "N' = addTransition (nf_accept right) EPSILON ?a (addTransition (nf_accept left) EPSILON ?a
      (addTransition ?s EPSILON (nf_start right) (addTransition ?s EPSILON (nf_start left) N2)))"
    using ALTERNATION.prems(1) 1 2 by (auto simp: nfa_simps)
  have M: "edges M p = edges N' p" if "length N \<le> p" "p < length N2" "p \<noteq> ?a" for p
    using ALTERNATION.prems(2) [of p] that fr by simp
  have "fragment M {length (N @ [[], []])..<length N1} (nf_start left) (nf_accept left) (lang l)"
    by (rule ALTERNATION.IH(1) [OF 1]) (use M g fr in \<open>auto simp: edges_addTransition\<close>)
  moreover have "fragment M {length N1..<length N2} (nf_start right) (nf_accept right) (lang r)"
    by (rule ALTERNATION.IH(2) [OF 2]) (use M g fr in \<open>auto simp: edges_addTransition\<close>)
  moreover have "edges M ?s = Pair EPSILON ` {nf_start left, nf_start right}" "edges M (nf_accept left) = Pair EPSILON ` {?a}"
    "edges M (nf_accept right) = Pair EPSILON ` {?a}"
    using M [of ?s] M [of "nf_accept left"] M [of "nf_accept right"] g fr by (auto simp: nfa_simps)
  ultimately show ?case
    unfolding fr lang.simps by (rule fragment_alternation) (use g fr in auto)
next
  case (STAR r)
  obtain inner N1 where 1: "buildNfaFromAst r (N @ [[], []]) = (inner, N1)" by fastforce
  note g = build_grows [OF 1, unfolded grown_def]
  have "fragment M {length N..<length N'} (length N) (Suc (length N))
      (if True then insert [] (repeated True (lang r)) else repeated True (lang r))"
    by (rule build_loop [OF STAR.IH 1 STAR.prems(2)]) (use STAR.prems(1) 1 g in \<open>auto simp: nfa_simps\<close>)
  then show ?case using STAR.prems(1) by (auto simp: nfa_simps repeated_def star_unfold [symmetric])
next
  case (PLUS r)
  obtain inner N1 where 1: "buildNfaFromAst r (N @ [[], []]) = (inner, N1)" by fastforce
  note g = build_grows [OF 1, unfolded grown_def]
  have "fragment M {length N..<length N'} (length N) (Suc (length N))
      (if False then insert [] (repeated True (lang r)) else repeated True (lang r))"
    by (rule build_loop [OF PLUS.IH 1 PLUS.prems(2)]) (use PLUS.prems(1) 1 g in \<open>auto simp: nfa_simps\<close>)
  then show ?case using PLUS.prems(1) by (auto simp: nfa_simps repeated_def star_unfold [symmetric])
next
  case (OPTIONAL r)
  obtain inner N1 where 1: "buildNfaFromAst r (N @ [[], []]) = (inner, N1)" by fastforce
  note g = build_grows [OF 1, unfolded grown_def]
  have "fragment M {length N..<length N'} (length N) (Suc (length N))
      (if True then insert [] (repeated False (lang r)) else repeated False (lang r))"
    by (rule build_loop [OF OPTIONAL.IH 1 OPTIONAL.prems(2)]) (use OPTIONAL.prems(1) 1 g in \<open>auto simp: nfa_simps\<close>)
  then show ?case using OPTIONAL.prems(1) by (auto simp: nfa_simps repeated_def star_unfold [symmetric])
qed

end
