(* ===== verification/Regex_Dfa.thy ===== *)
theory Regex_Dfa
  imports Regex_Nfa
begin

text \<open>
  The subset construction of the regular-expression compiler (\<^verbatim>\<open>epsilonClosure\<close>, \<^verbatim>\<open>nfaMove\<close>,
  \<^verbatim>\<open>subsetConstruction\<close>): the loops end, the result accepts what the automaton accepts, and the
  construction fails only when more sets are reached than the table has rows. An exception of
  the source is a value of \<open>regex_error\<close>; a write behind the end of a vector, which the source
  does not check, is the value \<open>Out_of_bounds\<close>.
\<close>

datatype regex_error = Parse_error | Empty_pattern | Too_many_states | No_accepting_state | Out_of_bounds | Overflow | Out_of_fuel

section \<open>Subset construction\<close>

type_synonym StateSet = "nat set"

definition transitions_of :: "NfaState list \<Rightarrow> nat \<Rightarrow> (int \<times> nat) list" where
  "transitions_of N p = (if p < length N then N ! p else [])"

definition closure_step :: "int \<times> nat \<Rightarrow> StateSet \<times> nat list \<Rightarrow> StateSet \<times> nat list" where
  "closure_step t st = (case t of (symbol, target) \<Rightarrow> case st of (closure, work) \<Rightarrow>
     if symbol = EPSILON \<and> target \<notin> closure then (insert target closure, work @ [target]) else (closure, work))"

definition targets :: "NfaState list \<Rightarrow> StateSet" where
  "targets N = (\<Union>st\<in>set N. snd ` set st)"

lemma finite_targets [simp]: "finite (targets N)"
  by (simp add: targets_def)

lemma transitions_targets: "t \<in> set (transitions_of N p) \<Longrightarrow> snd t \<in> targets N"
  by (auto simp: transitions_of_def targets_def split: if_splits intro: nth_mem)

lemma closure_step_simps [simp]:
  "closure_step (symbol, target) (closure, work) =
     (if symbol = EPSILON \<and> target \<notin> closure then (insert target closure, work @ [target]) else (closure, work))"
  by (simp add: closure_step_def)

text \<open>The states that one round adds to the closure and to the queue.\<close>

lemma closure_steps:
  "\<exists>new. fold closure_step ts (closure, work) = (closure \<union> set new, work @ new) \<and> set new \<inter> closure = {} \<and>
     set new \<subseteq> snd ` set ts \<and> closure \<union> set new = closure \<union> {q. (EPSILON, q) \<in> set ts}"
proof (induction ts arbitrary: closure work)
  case (Cons t ts)
  obtain symbol target where t: "t = (symbol, target)" by (cases t)
  show ?case
  proof (cases "symbol = EPSILON \<and> target \<notin> closure")
    case True
    from Cons [of "insert target closure" "work @ [target]"] obtain new where
      "fold closure_step ts (insert target closure, work @ [target]) = (insert target closure \<union> set new, (work @ [target]) @ new)"
      "set new \<inter> insert target closure = {}" "set new \<subseteq> snd ` set ts"
      "insert target closure \<union> set new = insert target closure \<union> {q. (EPSILON, q) \<in> set ts}" by blast
    then show ?thesis using True t by (intro exI [of _ "target # new"]) auto
  next
    case False
    from Cons [of closure work] False t show ?thesis by auto
  qed
qed (auto intro: exI [of _ "[]"])

function closure_loop :: "NfaState list \<Rightarrow> StateSet \<Rightarrow> nat list \<Rightarrow> StateSet" where
  "closure_loop N closure [] = closure"
| "closure_loop N closure (current # work) =
     (let (closure', work') = fold closure_step (transitions_of N current) (closure, work)
      in closure_loop N closure' work')"
  by pat_completeness auto
termination
proof (relation "measures [\<lambda>(N, closure, work). card (targets N - closure), \<lambda>(N, closure, work). length work]", goal_cases)
  case (2 N closure current work x closure' work')
  obtain new where new: "fold closure_step (transitions_of N current) (closure, work) = (closure \<union> set new, work @ new)"
    "set new \<inter> closure = {}" "set new \<subseteq> snd ` set (transitions_of N current)"
    using closure_steps [of "transitions_of N current" closure work] by blast
  have eq: "closure' = closure \<union> set new" "work' = work @ new" using 2 new(1) by auto
  show ?case
  proof (cases new)
    case Nil
    then show ?thesis using eq by simp
  next
    case (Cons q qs)
    have "snd ` set (transitions_of N current) \<subseteq> targets N" using transitions_targets by auto
    with new Cons have "q \<in> targets N - closure" by auto
    then have "targets N - closure' \<subset> targets N - closure" using eq Cons by auto
    then have "card (targets N - closure') < card (targets N - closure)" by (intro psubset_card_mono) auto
    then show ?thesis by simp
  qed
qed simp

definition epsilonClosure :: "NfaState list \<Rightarrow> StateSet \<Rightarrow> StateSet" where
  "epsilonClosure N states = closure_loop N states (sorted_list_of_set states)"

definition nfaMove :: "NfaState list \<Rightarrow> StateSet \<Rightarrow> int \<Rightarrow> StateSet" where
  "nfaMove N states symbol = (\<Union>s\<in>states. snd ` set (filter (\<lambda>t. fst t = symbol) (transitions_of N s)))"

record DfaState =
  ds_transitions :: "int list"
  ds_is_accepting :: bool

record IntermediateDfa =
  id_states :: "DfaState list"
  id_start :: nat

definition new_dfa_state :: DfaState where
  "new_dfa_state = \<lparr>ds_transitions = replicate 256 (-1), ds_is_accepting = False\<rparr>"

definition set_transition :: "nat \<Rightarrow> nat \<Rightarrow> nat \<Rightarrow> DfaState list \<Rightarrow> DfaState list" where
  "set_transition i c target D = D[i := (D ! i)\<lparr>ds_transitions := (ds_transitions (D ! i))[c := int target]\<rparr>]"

type_synonym subset_state = "DfaState list \<times> (StateSet \<rightharpoonup> nat) \<times> StateSet list"

definition visit_char :: "Nfa \<Rightarrow> nat \<Rightarrow> StateSet \<Rightarrow> nat \<Rightarrow> subset_state \<Rightarrow> regex_error + subset_state" where
  "visit_char nfa current_id current c st = (case st of (D, state_map, work) \<Rightarrow>
     let moved = nfaMove (nfa_states nfa) current (int c) in
     if moved = {} then Inr st
     else let target = epsilonClosure (nfa_states nfa) moved in
       if target = {} then Inr st
       else case state_map target of
         None \<Rightarrow>
           let new_id = length D in
           if new_id \<ge> MAX_REGEX_DFA_STATES then Inl Too_many_states
           else Inr (set_transition current_id c new_id
                       (D @ [new_dfa_state\<lparr>ds_is_accepting := nfa_accept nfa \<in> target\<rparr>]),
                     state_map(target \<mapsto> new_id), work @ [target])
       | Some i \<Rightarrow> Inr (set_transition current_id c i D, state_map, work))"

fun visit_chars :: "Nfa \<Rightarrow> nat \<Rightarrow> StateSet \<Rightarrow> nat list \<Rightarrow> subset_state \<Rightarrow> regex_error + subset_state" where
  "visit_chars nfa current_id current [] st = Inr st"
| "visit_chars nfa current_id current (c # cs) st = (case visit_char nfa current_id current c st of
     Inl e \<Rightarrow> Inl e | Inr st' \<Rightarrow> visit_chars nfa current_id current cs st')"

text \<open>Every push onto the queue uses up one of the states that are left.\<close>

lemma visit_char_measure:
  "visit_char nfa i S c (D, m, work) = Inr (D', m', work') \<Longrightarrow>
   (MAX_REGEX_DFA_STATES - length D') + length work' \<le> (MAX_REGEX_DFA_STATES - length D) + length work"
  by (auto simp: visit_char_def Let_def set_transition_def split: if_splits option.splits)

lemma visit_chars_measure:
  "visit_chars nfa i S cs (D, m, work) = Inr (D', m', work') \<Longrightarrow>
   (MAX_REGEX_DFA_STATES - length D') + length work' \<le> (MAX_REGEX_DFA_STATES - length D) + length work"
proof (induction cs arbitrary: D m work)
  case (Cons c cs)
  then obtain D1 m1 work1 where 1: "visit_char nfa i S c (D, m, work) = Inr (D1, m1, work1)"
    by (auto split: sum.splits)
  with Cons.prems have "visit_chars nfa i S cs (D1, m1, work1) = Inr (D', m', work')" by simp
  from Cons.IH [OF this] visit_char_measure [OF 1] show ?case by simp
qed simp

function subset_loop :: "Nfa \<Rightarrow> subset_state \<Rightarrow> regex_error + DfaState list" where
  "subset_loop nfa (D, state_map, []) = Inr D"
| "subset_loop nfa (D, state_map, current # work) =
     (case visit_chars nfa (case state_map current of None \<Rightarrow> 0 | Some i \<Rightarrow> i) current [0..<256] (D, state_map, work) of
        Inl e \<Rightarrow> Inl e
      | Inr st \<Rightarrow> subset_loop nfa st)"
  by pat_completeness auto
termination
proof (relation "measure (\<lambda>(nfa, D, m, work). (MAX_REGEX_DFA_STATES - length D) + length work)", goal_cases)
  case (2 nfa D m current work st)
  obtain D' m' work' where st: "st = (D', m', work')" by (cases st)
  from visit_chars_measure [OF 2 [unfolded st]] show ?case by (simp add: st)
qed simp

definition subsetConstruction :: "Nfa \<Rightarrow> regex_error + IntermediateDfa" where
  "subsetConstruction nfa =
     (let start_set = epsilonClosure (nfa_states nfa) {nfa_start nfa}
      in case subset_loop nfa ([new_dfa_state\<lparr>ds_is_accepting := nfa_accept nfa \<in> start_set\<rparr>], [start_set \<mapsto> 0], [start_set]) of
           Inl e \<Rightarrow> Inl e
         | Inr D \<Rightarrow> Inr \<lparr>id_states = D, id_start = 0\<rparr>)"

section \<open>Closures\<close>

lemma set_transitions_of [simp]: "set (transitions_of N p) = edges N p"
  by (simp add: transitions_of_def edges_def)

lemma closure_loop_sound: "closure_loop N closure work \<subseteq> {q. \<exists>p\<in>closure. reaches N p [] q}"
  if "set work \<subseteq> closure" for N closure work
  using that
proof (induction N closure work rule: closure_loop.induct)
  case (1 N closure)
  then show ?case using reaches_refl by fastforce
next
  case (2 N closure current work)
  obtain new where new: "fold closure_step (transitions_of N current) (closure, work) = (closure \<union> set new, work @ new)"
    "closure \<union> set new = closure \<union> {q. (EPSILON, q) \<in> edges N current}"
    using closure_steps [of "transitions_of N current" closure work] by auto
  have "closure_loop N closure (current # work) \<subseteq> {q. \<exists>p\<in>closure \<union> set new. reaches N p [] q}"
    using "2.IH" [OF new(1) [symmetric] refl] "2.prems" by (auto simp: new(1))
  moreover have "\<exists>p\<in>closure. reaches N p [] q" if "p \<in> set new" "p \<notin> closure" "reaches N p [] q" for p q
  proof -
    have "(EPSILON, p) \<in> edges N current" using that(1,2) new(2) by auto
    from reaches_eps [OF this that(3)] "2.prems" show ?thesis by auto
  qed
  ultimately show ?case by blast
qed

lemma closure_loop_closed:
  assumes "\<And>p q. p \<in> closure \<Longrightarrow> p \<notin> set work \<Longrightarrow> (EPSILON, q) \<in> edges N p \<Longrightarrow> q \<in> closure"
  shows "closure \<subseteq> closure_loop N closure work \<and>
    (\<forall>p q. p \<in> closure_loop N closure work \<longrightarrow> (EPSILON, q) \<in> edges N p \<longrightarrow> q \<in> closure_loop N closure work)"
  using assms
proof (induction N closure work rule: closure_loop.induct)
  case (1 N closure)
  then show ?case by auto
next
  case (2 N closure current work)
  obtain new where new: "fold closure_step (transitions_of N current) (closure, work) = (closure \<union> set new, work @ new)"
    "closure \<union> set new = closure \<union> {q. (EPSILON, q) \<in> edges N current}"
    using closure_steps [of "transitions_of N current" closure work] by auto
  have "q \<in> closure \<union> set new" if "p \<in> closure \<union> set new" "p \<notin> set (work @ new)" "(EPSILON, q) \<in> edges N p" for p q
    using that "2.prems" [of p q] new(2) by (cases "p = current") auto
  from "2.IH" [OF new(1) [symmetric] refl this] show ?case by (auto simp: new(1))
qed

lemma reaches_empty_closed:
  assumes "\<And>p q. p \<in> C \<Longrightarrow> (EPSILON, q) \<in> edges N p \<Longrightarrow> q \<in> C" "reaches N p [] q" "p \<in> C"
  shows "q \<in> C"
proof -
  have "path N n p w q \<Longrightarrow> w = [] \<Longrightarrow> p \<in> C \<Longrightarrow> q \<in> C" for n p w q
    by (induction rule: path.induct) (use assms(1) in auto)
  with assms(2,3) show ?thesis by (auto simp: reaches_def)
qed

lemma epsilonClosure_reaches:
  assumes "finite S"
  shows "epsilonClosure N S = {q. \<exists>p\<in>S. reaches N p [] q}"
proof
  show "epsilonClosure N S \<subseteq> {q. \<exists>p\<in>S. reaches N p [] q}"
    unfolding epsilonClosure_def by (rule closure_loop_sound) (simp add: assms)
  have *: "S \<subseteq> epsilonClosure N S" "\<And>p q. p \<in> epsilonClosure N S \<Longrightarrow> (EPSILON, q) \<in> edges N p \<Longrightarrow> q \<in> epsilonClosure N S"
    using closure_loop_closed [of S "sorted_list_of_set S" N] assms unfolding epsilonClosure_def by auto
  show "{q. \<exists>p\<in>S. reaches N p [] q} \<subseteq> epsilonClosure N S"
    using reaches_empty_closed [of "epsilonClosure N S" N] * by blast
qed

lemma nfaMove_edges: "nfaMove N S c = {q. \<exists>p\<in>S. (c, q) \<in> edges N p}"
  by (force simp: nfaMove_def)

lemma finite_edges [simp]: "finite (edges N p)"
  by (simp add: edges_def)

lemma finite_nfaMove: "finite S \<Longrightarrow> finite (nfaMove N S c)"
  by (simp add: nfaMove_def)

lemma reaches_targets: "reaches N p w q \<Longrightarrow> q = p \<or> q \<in> targets N"
proof -
  have "path N n p w q \<Longrightarrow> q = p \<or> q \<in> targets N" for n
  proof (induction rule: path.induct)
    case (path_eps q p n w f)
    then show ?case using transitions_targets [of "(EPSILON, q)" N p] by auto
  next
    case (path_sym c q p n w f)
    then show ?case using transitions_targets [of "(int (unat c), q)" N p] by auto
  qed simp
  then show "reaches N p w q \<Longrightarrow> q = p \<or> q \<in> targets N" by (auto simp: reaches_def)
qed

lemma finite_closure: "finite S \<Longrightarrow> finite (epsilonClosure N S)"
proof -
  assume "finite S"
  then have "epsilonClosure N S \<subseteq> S \<union> targets N"
    unfolding epsilonClosure_reaches [OF \<open>finite S\<close>] using reaches_targets by blast
  with \<open>finite S\<close> show ?thesis by (metis finite_Un finite_subset finite_targets)
qed

text \<open>The set of states after one more symbol.\<close>

definition succ_set :: "NfaState list \<Rightarrow> StateSet \<Rightarrow> u8 \<Rightarrow> StateSet" where
  "succ_set N S ch = epsilonClosure N (nfaMove N S (int (unat ch)))"

lemma succ_set_empty: "nfaMove N S (int (unat ch)) = {} \<longleftrightarrow> succ_set N S ch = {}" if "finite S"
proof -
  have "succ_set N S ch = {q. \<exists>p\<in>nfaMove N S (int (unat ch)). reaches N p [] q}"
    by (simp only: succ_set_def epsilonClosure_reaches [OF finite_nfaMove [OF that]])
  then show ?thesis using reaches_refl by blast
qed

definition states_after :: "NfaState list \<Rightarrow> nat \<Rightarrow> bytes \<Rightarrow> StateSet" where
  "states_after N p w = foldl (succ_set N) (epsilonClosure N {p}) w"

lemma finite_states_after: "finite (states_after N p w)"
  unfolding states_after_def
  by (induction w rule: rev_induct) (simp_all add: finite_closure finite_nfaMove succ_set_def)

text \<open>A word followed by one symbol: a symbol transition between two empty walks.\<close>

lemma reaches_snoc:
  "reaches N p (w @ [c]) q \<longleftrightarrow> (\<exists>r r'. reaches N p w r \<and> (int (unat c), r') \<in> edges N r \<and> reaches N r' [] q)"
proof
  assume "\<exists>r r'. reaches N p w r \<and> (int (unat c), r') \<in> edges N r \<and> reaches N r' [] q"
  then obtain r r' where r: "reaches N p w r" "(int (unat c), r') \<in> edges N r" "reaches N r' [] q" by blast
  from reaches_append [OF r(1) reaches_append [OF reaches_sym [OF r(2)] r(3)]] show "reaches N p (w @ [c]) q" by simp
next
  have "path N n p v q \<Longrightarrow> v = w @ [c] \<Longrightarrow> \<exists>r r'. reaches N p w r \<and> (int (unat c), r') \<in> edges N r \<and> reaches N r' [] q"
    for n p v q w
  proof (induction arbitrary: w rule: path.induct)
    case (path_eps q p n v f)
    then show ?case by (blast intro: reaches_eps)
  next
    case (path_sym ch q p n v f)
    show ?case
    proof (cases w)
      case Nil
      with path_sym.prems have "ch = c" "v = []" by auto
      with path_sym.hyps have "(int (unat c), q) \<in> edges N p" "reaches N q [] f" by (auto simp: reaches_def)
      then show ?thesis unfolding Nil using reaches_refl by blast
    next
      case (Cons x w')
      with path_sym.prems have "ch = x" "v = w' @ [c]" by auto
      from path_sym.IH [OF this(2)] obtain r r' where r: "reaches N q w' r" "(int (unat c), r') \<in> edges N r" "reaches N r' [] f"
        by blast
      from reaches_append [OF reaches_sym [OF path_sym.hyps(1)] r(1)] \<open>ch = x\<close> Cons have "reaches N p w r" by simp
      with r(2,3) show ?thesis by blast
    qed
  qed simp
  then show "reaches N p (w @ [c]) q \<Longrightarrow> \<exists>r r'. reaches N p w r \<and> (int (unat c), r') \<in> edges N r \<and> reaches N r' [] q"
    by (auto simp: reaches_def)
qed

lemma states_after_reaches: "states_after N p w = {q. reaches N p w q}"
proof (induction w rule: rev_induct)
  case Nil
  then show ?case by (simp add: states_after_def epsilonClosure_reaches)
next
  case (snoc c w)
  have "states_after N p (w @ [c]) = succ_set N (states_after N p w) c" by (simp add: states_after_def)
  also have "\<dots> = {q. \<exists>r'\<in>nfaMove N (states_after N p w) (int (unat c)). reaches N r' [] q}"
    by (simp add: succ_set_def epsilonClosure_reaches finite_nfaMove finite_states_after)
  also have "\<dots> = {q. reaches N p (w @ [c]) q}"
    unfolding nfaMove_edges snoc by (auto simp: reaches_snoc simp del: of_nat_unat)
  finally show ?case .
qed

section \<open>The states of the construction\<close>

text \<open>
  The state \<open>i\<close> of the automaton stands for the set \<open>Q ! i\<close>. An entry of its row is right when it
  names the state of the next set, and \<open>-1\<close> when that set is empty.
\<close>

definition entry_ok :: "NfaState list \<Rightarrow> StateSet list \<Rightarrow> DfaState list \<Rightarrow> nat \<Rightarrow> nat \<Rightarrow> bool" where
  "entry_ok N Q D i c \<longleftrightarrow> (let S = succ_set N (Q ! i) (word_of_nat c); x = ds_transitions (D ! i) ! c
     in if S = {} then x = -1 else \<exists>j<length Q. x = int j \<and> Q ! j = S)"

definition subset_inv :: "Nfa \<Rightarrow> StateSet list \<Rightarrow> DfaState list \<Rightarrow> (StateSet \<rightharpoonup> nat) \<Rightarrow> bool" where
  "subset_inv nfa Q D m \<longleftrightarrow> length Q = length D \<and> (\<forall>S i. m S = Some i \<longleftrightarrow> i < length Q \<and> Q ! i = S) \<and>
     (\<forall>S\<in>set Q. finite S) \<and> (\<forall>i<length D. ds_is_accepting (D ! i) = (nfa_accept nfa \<in> Q ! i) \<and>
        length (ds_transitions (D ! i)) = 256 \<and>
        (\<forall>c<256. ds_transitions (D ! i) ! c = -1 \<or> entry_ok (nfa_states nfa) Q D i c))"

lemma unat_char: "c < 256 \<Longrightarrow> unat (word_of_nat c :: u8) = c"
  by (simp add: unat_of_nat)

lemma entry_ok_append:
  "entry_ok N Q D j c \<Longrightarrow> j < length Q \<Longrightarrow> ds_transitions (D' ! j) ! c = ds_transitions (D ! j) ! c \<Longrightarrow> entry_ok N (Q @ new) D' j c"
  by (auto simp: entry_ok_def Let_def nth_append split: if_splits)

text \<open>Writing a right entry keeps the invariant.\<close>

lemma set_transition_inv:
  assumes inv: "subset_inv nfa Q D m" and i: "i < length Q" "c < 256"
    and j: "j < length Q" "Q ! j = succ_set (nfa_states nfa) (Q ! i) (word_of_nat c)" "Q ! j \<noteq> {}"
  shows "subset_inv nfa Q (set_transition i c j D) m" "entry_ok (nfa_states nfa) Q (set_transition i c j D) i c"
    and "k < length Q \<Longrightarrow> entry_ok (nfa_states nfa) Q D k c' \<Longrightarrow> entry_ok (nfa_states nfa) Q (set_transition i c j D) k c'"
proof -
  let ?D = "set_transition i c j D" and ?N = "nfa_states nfa"
  have len: "length Q = length D" "length (ds_transitions (D ! i)) = 256" using inv i by (auto simp: subset_inv_def)
  have row: "ds_transitions (?D ! k) ! c' = (if k = i \<and> c' = c then int j else ds_transitions (D ! k) ! c')" if "k < length Q" for k c'
    using that len i by (auto simp: set_transition_def nth_list_update)
  show ok: "entry_ok ?N Q ?D i c"
    using j row [of i c] i by (auto simp: entry_ok_def Let_def)
  show keep: "entry_ok ?N Q ?D k c'" if "k < length Q" "entry_ok ?N Q D k c'" for k c'
    using entry_ok_append [of ?N Q D k c' ?D "[]"] that ok row [of k c'] by (cases "k = i \<and> c' = c") auto
  have "ds_is_accepting (?D ! k) = ds_is_accepting (D ! k)" "length (ds_transitions (?D ! k)) = length (ds_transitions (D ! k))"
    if "k < length D" for k using that len i by (cases "k = i"; simp add: set_transition_def)+
  moreover have "length ?D = length D" by (simp add: set_transition_def)
  ultimately show "subset_inv nfa Q ?D m"
    using inv ok keep row len unfolding subset_inv_def by (auto; metis)
qed

lemma new_state_inv:
  assumes inv: "subset_inv nfa Q D m" and new: "m S = None" "finite S"
  shows "subset_inv nfa (Q @ [S]) (D @ [new_dfa_state\<lparr>ds_is_accepting := nfa_accept nfa \<in> S\<rparr>]) (m(S \<mapsto> length D))"
    (is "subset_inv nfa ?Q ?D ?m")
proof -
  have len: "length Q = length D" using inv by (simp add: subset_inv_def)
  have m: "m T = Some i \<longleftrightarrow> i < length Q \<and> Q ! i = T" for T i using inv by (simp add: subset_inv_def)
  have "?m T = Some i \<longleftrightarrow> i < length ?Q \<and> ?Q ! i = T" for T i
    using m [of T i] m [of S] new(1) len by (auto simp: nth_append less_Suc_eq)
  moreover have "ds_transitions (?D ! i) ! c = -1 \<or> entry_ok (nfa_states nfa) ?Q ?D i c" if "i < length ?D" "c < 256" for i c
  proof (cases "i < length D")
    case True
    with inv that have "ds_transitions (D ! i) ! c = -1 \<or> entry_ok (nfa_states nfa) Q D i c" by (auto simp: subset_inv_def)
    with True len entry_ok_append [of "nfa_states nfa" Q D i c ?D "[S]"] show ?thesis by (auto simp: nth_append)
  next
    case False
    with that show ?thesis by (simp add: nth_append new_dfa_state_def)
  qed
  ultimately show ?thesis
    using inv new(2) unfolding subset_inv_def by (auto simp: nth_append less_Suc_eq new_dfa_state_def)
qed

lemma visit_char_inv:
  assumes inv: "subset_inv nfa Q D m" and i: "i < length Q" "c < 256"
    and run: "visit_char nfa i (Q ! i) c (D, m, work) = Inr (D', m', work')"
  shows "\<exists>new. subset_inv nfa (Q @ new) D' m' \<and> work' = work @ new \<and> entry_ok (nfa_states nfa) (Q @ new) D' i c \<and>
    (\<forall>k c'. k < length Q \<longrightarrow> entry_ok (nfa_states nfa) Q D k c' \<longrightarrow> entry_ok (nfa_states nfa) (Q @ new) D' k c')"
proof -
  let ?N = "nfa_states nfa" and ?S = "succ_set (nfa_states nfa) (Q ! i) (word_of_nat c)"
  have fin: "finite (Q ! i)" and len: "length Q = length D" using inv i by (auto simp: subset_inv_def)
  have S: "?S = epsilonClosure ?N (nfaMove ?N (Q ! i) (int c))" using i(2) by (simp add: succ_set_def unat_char del: of_nat_unat)
  have empty: "nfaMove ?N (Q ! i) (int c) = {} \<longleftrightarrow> ?S = {}"
    using succ_set_empty [OF fin, of ?N "word_of_nat c"] i(2) by (simp add: unat_char del: of_nat_unat)
  consider (none) "?S = {}" | (known) j where "?S \<noteq> {}" "m ?S = Some j" | (fresh) "?S \<noteq> {}" "m ?S = None" by blast
  then show ?thesis
  proof cases
    case none
    then have "D' = D" "m' = m" "work' = work" using run empty by (simp_all add: visit_char_def)
    moreover have "ds_transitions (D ! i) ! c = -1 \<or> entry_ok ?N Q D i c" using inv i len by (auto simp: subset_inv_def)
    then have "entry_ok ?N Q D i c" using none by (auto simp: entry_ok_def Let_def)
    ultimately show ?thesis using inv by (intro exI [of _ "[]"]) simp
  next
    case known
    then have j: "j < length Q" "Q ! j = ?S" using inv by (auto simp: subset_inv_def)
    have "D' = set_transition i c j D" "m' = m" "work' = work"
      using run known empty by (auto simp: visit_char_def Let_def S [symmetric])
    with set_transition_inv [OF inv i j] known(1) j(2) show ?thesis by (intro exI [of _ "[]"]) simp
  next
    case fresh
    have finS: "finite ?S" using fin by (simp add: succ_set_def finite_closure finite_nfaMove)
    let ?D = "D @ [new_dfa_state\<lparr>ds_is_accepting := nfa_accept nfa \<in> ?S\<rparr>]"
    have eq: "D' = set_transition i c (length D) ?D" "m' = m(?S \<mapsto> length D)" "work' = work @ [?S]"
      using run fresh empty by (auto simp: visit_char_def Let_def S [symmetric] split: if_splits)
    note inv' = new_state_inv [OF inv fresh(2) finS]
    have j: "length D < length (Q @ [?S])" "(Q @ [?S]) ! length D = succ_set ?N ((Q @ [?S]) ! i) (word_of_nat c)"
      using len i by (simp_all add: nth_append)
    note st = set_transition_inv [OF inv' _ i(2) j]
    have "entry_ok ?N (Q @ [?S]) ?D k c'" if "k < length Q" "entry_ok ?N Q D k c'" for k c'
      using entry_ok_append [OF that(2,1)] that(1) len by (simp add: nth_append)
    with st eq i len fresh(1) show ?thesis by (intro exI [of _ "[?S]"]) (auto simp: nth_append)
  qed
qed

lemma visit_chars_inv:
  assumes "subset_inv nfa Q D m" "i < length Q" "visit_chars nfa i (Q ! i) cs (D, m, work) = Inr (D', m', work')"
    and "\<And>c. c \<in> set cs \<Longrightarrow> c < 256"
  shows "\<exists>new. subset_inv nfa (Q @ new) D' m' \<and> work' = work @ new \<and>
    (\<forall>c\<in>set cs. entry_ok (nfa_states nfa) (Q @ new) D' i c) \<and>
    (\<forall>k c'. k < length Q \<longrightarrow> entry_ok (nfa_states nfa) Q D k c' \<longrightarrow> entry_ok (nfa_states nfa) (Q @ new) D' k c')"
  using assms
proof (induction cs arbitrary: Q D m work)
  case Nil
  then show ?case by (intro exI [of _ "[]"]) simp
next
  case (Cons c cs)
  then obtain D1 m1 work1 where 1: "visit_char nfa i (Q ! i) c (D, m, work) = Inr (D1, m1, work1)"
    "visit_chars nfa i (Q ! i) cs (D1, m1, work1) = Inr (D', m', work')"
    by (auto split: sum.splits)
  from visit_char_inv [OF Cons.prems(1,2) _ 1(1)] Cons.prems(4) obtain new where
    new: "subset_inv nfa (Q @ new) D1 m1" "work1 = work @ new" "entry_ok (nfa_states nfa) (Q @ new) D1 i c"
      "\<And>k c'. k < length Q \<Longrightarrow> entry_ok (nfa_states nfa) Q D k c' \<Longrightarrow> entry_ok (nfa_states nfa) (Q @ new) D1 k c'"
    by auto
  have "(Q @ new) ! i = Q ! i" "i < length (Q @ new)" using Cons.prems(2) by (simp_all add: nth_append)
  with Cons.IH [OF new(1), of work1] 1(2) Cons.prems(4) obtain more where
    more: "subset_inv nfa ((Q @ new) @ more) D' m'" "work' = work1 @ more"
      "\<And>c. c \<in> set cs \<Longrightarrow> entry_ok (nfa_states nfa) ((Q @ new) @ more) D' i c"
      "\<And>k c'. k < length (Q @ new) \<Longrightarrow> entry_ok (nfa_states nfa) (Q @ new) D1 k c' \<Longrightarrow>
         entry_ok (nfa_states nfa) ((Q @ new) @ more) D' k c'"
    by auto
  have "k < length (Q @ new)" if "k < length Q" for k using that by simp
  with new more Cons.prems(2) show ?case by (intro exI [of _ "new @ more"]) auto
qed

lemma subset_loop_inv:
  assumes "subset_loop nfa (D, m, work) = Inr D'" "subset_inv nfa Q D m" "set work \<subseteq> set Q"
    and "\<And>k c. k < length Q \<Longrightarrow> Q ! k \<notin> set work \<Longrightarrow> c < 256 \<Longrightarrow> entry_ok (nfa_states nfa) Q D k c"
  shows "\<exists>new m'. subset_inv nfa (Q @ new) D' m' \<and>
    (\<forall>k<length D'. \<forall>c<256. entry_ok (nfa_states nfa) (Q @ new) D' k c)"
  using assms
proof (induction nfa "(D, m, work)" arbitrary: D m work Q rule: subset_loop.induct)
  case (1 nfa D m)
  then show ?case by (intro exI [of _ "[]"] exI [of _ m]) (auto simp: subset_inv_def)
next
  case (2 nfa D m current work)
  from "2.prems"(3) obtain i where i: "i < length Q" "Q ! i = current" by (auto simp: in_set_conv_nth)
  then have "m current = Some i" using "2.prems"(2) by (auto simp: subset_inv_def)
  with "2.prems"(1) obtain D1 m1 work1 where
    1: "visit_chars nfa i (Q ! i) [0..<256] (D, m, work) = Inr (D1, m1, work1)" "subset_loop nfa (D1, m1, work1) = Inr D'"
    using i by (auto split: sum.splits simp del: upt.simps)
  from visit_chars_inv [OF "2.prems"(2) i(1) 1(1)] obtain new where
    new: "subset_inv nfa (Q @ new) D1 m1" "work1 = work @ new" "\<And>c. c < 256 \<Longrightarrow> entry_ok (nfa_states nfa) (Q @ new) D1 i c"
      "\<And>k c'. k < length Q \<Longrightarrow> entry_ok (nfa_states nfa) Q D k c' \<Longrightarrow> entry_ok (nfa_states nfa) (Q @ new) D1 k c'"
    by auto
  have sub: "set work1 \<subseteq> set (Q @ new)" using new(2) "2.prems"(3) by auto
  have rows: "entry_ok (nfa_states nfa) (Q @ new) D1 k c"
    if k: "k < length (Q @ new)" "(Q @ new) ! k \<notin> set work1" "c < 256" for k c
  proof (cases "k < length Q")
    case True
    with k new(2) have "Q ! k \<notin> set work" by (auto simp: nth_append)
    moreover have "Q ! k \<noteq> current" if "k \<noteq> i"
    proof
      assume "Q ! k = current"
      then have "m current = Some k" using True "2.prems"(2) by (auto simp: subset_inv_def)
      with \<open>m current = Some i\<close> that show False by simp
    qed
    ultimately show ?thesis
      using True k(3) new(3,4) "2.prems"(4) [of k c] by (cases "k = i") auto
  next
    case False
    with k new(2) show ?thesis by (auto simp: nth_append)
  qed
  have "Inr (D1, m1, work1) = visit_chars nfa (case m current of None \<Rightarrow> 0 | Some i \<Rightarrow> i) current [0..<256] (D, m, work)"
    using 1(1) \<open>m current = Some i\<close> i(2) by simp
  from "2.hyps" [OF this [symmetric] 1(2) new(1) sub rows] obtain more m' where
    "subset_inv nfa ((Q @ new) @ more) D' m'" "\<forall>k<length D'. \<forall>c<256. entry_ok (nfa_states nfa) ((Q @ new) @ more) D' k c" by blast
  then show ?case by (intro exI [of _ "new @ more"] exI [of _ m']) simp
qed

lemma visit_chars_size:
  "visit_chars nfa i S cs (D, m, work) = Inr (D', m', work') \<Longrightarrow> length D \<le> MAX_REGEX_DFA_STATES \<Longrightarrow> length D' \<le> MAX_REGEX_DFA_STATES"
proof (induction cs arbitrary: D m work)
  case (Cons c cs)
  then obtain D1 m1 work1 where 1: "visit_char nfa i S c (D, m, work) = Inr (D1, m1, work1)"
    "visit_chars nfa i S cs (D1, m1, work1) = Inr (D', m', work')" by (auto split: sum.splits)
  then have "length D1 \<le> MAX_REGEX_DFA_STATES"
    using Cons.prems(2) by (auto simp: visit_char_def Let_def set_transition_def split: if_splits option.splits)
  with Cons.IH [OF 1(2)] show ?case by simp
qed simp

lemma subset_loop_size:
  "subset_loop nfa (D, m, work) = Inr D' \<Longrightarrow> length D \<le> MAX_REGEX_DFA_STATES \<Longrightarrow> length D' \<le> MAX_REGEX_DFA_STATES"
proof (induction nfa "(D, m, work)" arbitrary: D m work rule: subset_loop.induct)
  case (2 nfa D m current work)
  then obtain D1 m1 work1 where
    "visit_chars nfa (case m current of None \<Rightarrow> 0 | Some i \<Rightarrow> i) current [0..<256] (D, m, work) = Inr (D1, m1, work1)"
    "subset_loop nfa (D1, m1, work1) = Inr D'" by (auto split: sum.splits simp del: upt.simps)
  with "2.hyps" [OF this] visit_chars_size "2.prems"(2) show ?case by blast
qed simp

section \<open>Deterministic automata\<close>

definition dfa_next :: "DfaState list \<Rightarrow> int \<Rightarrow> u8 \<Rightarrow> int" where
  "dfa_next D q ch = (if q < 0 then -1 else ds_transitions (D ! nat q) ! unat ch)"

definition dfa_go :: "DfaState list \<Rightarrow> int \<Rightarrow> bytes \<Rightarrow> int" where
  "dfa_go D = foldl (dfa_next D)"

lemma dfa_go_simps [simp]:
  "dfa_go D q [] = q" "dfa_go D q (w @ [c]) = dfa_next D (dfa_go D q w) c"
  by (simp_all add: dfa_go_def)

definition dfa_accepts :: "IntermediateDfa \<Rightarrow> bytes \<Rightarrow> bool" where
  "dfa_accepts dfa w \<longleftrightarrow> (let q = dfa_go (id_states dfa) (int (id_start dfa)) w
     in 0 \<le> q \<and> ds_is_accepting (id_states dfa ! nat q))"

definition wf_dfa :: "IntermediateDfa \<Rightarrow> bool" where
  "wf_dfa dfa \<longleftrightarrow> id_start dfa < length (id_states dfa) \<and> (\<forall>i<length (id_states dfa).
     length (ds_transitions (id_states dfa ! i)) = 256 \<and>
     (\<forall>c<256. -1 \<le> ds_transitions (id_states dfa ! i) ! c \<and> ds_transitions (id_states dfa ! i) ! c < int (length (id_states dfa))))"

lemma dfa_next_range:
  assumes "wf_dfa dfa" "-1 \<le> q" "q < int (length (id_states dfa))"
  shows "-1 \<le> dfa_next (id_states dfa) q ch" "dfa_next (id_states dfa) q ch < int (length (id_states dfa))"
  using assms u8_less [of ch] by (auto simp: dfa_next_def wf_dfa_def)

lemma dfa_go_range:
  assumes "wf_dfa dfa" "-1 \<le> q" "q < int (length (id_states dfa))"
  shows "-1 \<le> dfa_go (id_states dfa) q w \<and> dfa_go (id_states dfa) q w < int (length (id_states dfa))"
  using assms dfa_next_range by (induction w rule: rev_induct) simp_all

text \<open>A run of the subset automaton is at the set of the states that the nondeterministic one can reach.\<close>

lemma subset_run:
  assumes "\<And>k c. k < length Q \<Longrightarrow> c < 256 \<Longrightarrow> entry_ok N Q D k c" "Q ! 0 = epsilonClosure N {p}" "Q \<noteq> []"
  shows "if states_after N p w = {} then dfa_go D 0 w = -1
    else \<exists>j<length Q. dfa_go D 0 w = int j \<and> Q ! j = states_after N p w"
proof (induction w rule: rev_induct)
  case Nil
  have "p \<in> epsilonClosure N {p}" by (simp add: epsilonClosure_reaches)
  then have "epsilonClosure N {p} \<noteq> {}" by blast
  then show ?case using assms(2,3) by (auto simp: states_after_def)
next
  case (snoc c w)
  have next_set: "states_after N p (w @ [c]) = succ_set N (states_after N p w) c" by (simp add: states_after_def)
  show ?case
  proof (cases "states_after N p w = {}")
    case True
    have "succ_set N {} c = {}" by (simp add: succ_set_def nfaMove_def epsilonClosure_def)
    with True snoc next_set show ?thesis by (simp add: dfa_next_def)
  next
    case False
    with snoc obtain j where j: "j < length Q" "dfa_go D 0 w = int j" "Q ! j = states_after N p w" by auto
    from assms(1) [OF j(1) u8_less [of c]] j next_set show ?thesis
      by (auto simp: entry_ok_def Let_def dfa_next_def)
  qed
qed

lemma subset_result:
  assumes "subsetConstruction nfa = Inr dfa"
  shows "wf_dfa dfa" "length (id_states dfa) \<le> MAX_REGEX_DFA_STATES" "id_start dfa = 0"
    and "dfa_accepts dfa w \<longleftrightarrow> reaches (nfa_states nfa) (nfa_start nfa) w (nfa_accept nfa)"
    and "dfa_go (id_states dfa) 0 w = -1 \<longleftrightarrow> \<not> (\<exists>q. reaches (nfa_states nfa) (nfa_start nfa) w q)"
proof -
  let ?N = "nfa_states nfa" and ?S = "epsilonClosure (nfa_states nfa) {nfa_start nfa}"
  let ?D = "[new_dfa_state\<lparr>ds_is_accepting := nfa_accept nfa \<in> ?S\<rparr>]"
  obtain D where D: "subset_loop nfa (?D, [?S \<mapsto> 0], [?S]) = Inr D" "dfa = \<lparr>id_states = D, id_start = 0\<rparr>"
    using assms by (auto simp: subsetConstruction_def Let_def split: sum.splits)
  have "subset_inv nfa [] [] Map.empty" by (simp add: subset_inv_def)
  from new_state_inv [OF this, of ?S] have "subset_inv nfa [?S] ?D [?S \<mapsto> 0]" by (simp add: finite_closure)
  from subset_loop_inv [OF D(1) this] obtain new m' where
    inv: "subset_inv nfa ([?S] @ new) D m'" "\<And>k c. k < length D \<Longrightarrow> c < 256 \<Longrightarrow> entry_ok ?N ([?S] @ new) D k c" by auto
  let ?Q = "[?S] @ new"
  have len: "length ?Q = length D" using inv(1) by (simp add: subset_inv_def)
  have rows: "entry_ok ?N ?Q D k c" if "k < length ?Q" "c < 256" for k c using inv(2) that len by simp
  have "-1 \<le> ds_transitions (D ! i) ! c \<and> ds_transitions (D ! i) ! c < int (length D)" if "i < length D" "c < 256" for i c
    using inv(2) [OF that] len by (auto simp: entry_ok_def Let_def split: if_splits)
  then show "wf_dfa dfa" using inv(1) len D(2) by (auto simp: wf_dfa_def subset_inv_def)
  show "length (id_states dfa) \<le> MAX_REGEX_DFA_STATES" "id_start dfa = 0" using subset_loop_size [OF D(1)] D(2) by auto
  have acc: "ds_is_accepting (D ! j) = (nfa_accept nfa \<in> ?Q ! j)" if "j < length ?Q" for j
    using inv(1) that len by (simp add: subset_inv_def)
  from subset_run [OF rows, of "nfa_start nfa" w]
  show "dfa_go (id_states dfa) 0 w = -1 \<longleftrightarrow> \<not> (\<exists>q. reaches ?N (nfa_start nfa) w q)"
    by (auto simp: D(2) states_after_reaches split: if_splits)
  from subset_run [OF rows, of "nfa_start nfa" w]
  show "dfa_accepts dfa w \<longleftrightarrow> reaches ?N (nfa_start nfa) w (nfa_accept nfa)"
    using acc by (auto simp: dfa_accepts_def D(2) Let_def states_after_reaches split: if_splits)
qed

section \<open>The number of states\<close>

text \<open>The sets that the nondeterministic automaton can be in. The construction makes a state for each of them only.\<close>

definition reached_sets :: "Nfa \<Rightarrow> StateSet set" where
  "reached_sets nfa = range (states_after (nfa_states nfa) (nfa_start nfa))"

lemma reached_subset: "S \<in> reached_sets nfa \<Longrightarrow> S \<subseteq> insert (nfa_start nfa) (targets (nfa_states nfa))"
  by (auto simp: reached_sets_def states_after_reaches dest: reaches_targets)

lemma finite_reached [simp]: "finite (reached_sets nfa)"
  by (rule finite_subset [of _ "Pow (insert (nfa_start nfa) (targets (nfa_states nfa)))"]) (use reached_subset in auto)

lemma reached_succ: "S \<in> reached_sets nfa \<Longrightarrow> succ_set (nfa_states nfa) S c \<in> reached_sets nfa"
proof -
  assume "S \<in> reached_sets nfa"
  then obtain w where "S = states_after (nfa_states nfa) (nfa_start nfa) w" by (auto simp: reached_sets_def)
  then have "succ_set (nfa_states nfa) S c = states_after (nfa_states nfa) (nfa_start nfa) (w @ [c])" by (simp add: states_after_def)
  then show ?thesis by (simp add: reached_sets_def)
qed

definition size_inv :: "Nfa \<Rightarrow> subset_state \<Rightarrow> bool" where
  "size_inv nfa st \<longleftrightarrow> (case st of (D, m, work) \<Rightarrow>
     dom m \<subseteq> reached_sets nfa \<and> length D = card (dom m) \<and> set work \<subseteq> reached_sets nfa)"

lemma visit_char_sized:
  assumes "size_inv nfa st" "S \<in> reached_sets nfa" "c < 256"
  shows "case visit_char nfa i S c st of Inl e \<Rightarrow> e = Too_many_states \<and> MAX_REGEX_DFA_STATES < card (reached_sets nfa)
    | Inr st' \<Rightarrow> size_inv nfa st'"
proof -
  obtain D m work where st: "st = (D, m, work)" by (cases st)
  let ?T = "epsilonClosure (nfa_states nfa) (nfaMove (nfa_states nfa) S (int c))"
  have T: "?T \<in> reached_sets nfa"
    using reached_succ [OF assms(2), of "word_of_nat c"] assms(3) by (simp add: succ_set_def unat_char del: of_nat_unat)
  have "finite (dom m)" using assms(1) st finite_subset [OF _ finite_reached] by (auto simp: size_inv_def)
  then have "card (insert ?T (dom m)) = Suc (card (dom m))" if "m ?T = None" using that by (simp add: domIff)
  moreover have "length D < card (reached_sets nfa)" if "m ?T = None"
  proof -
    have "dom m \<subset> reached_sets nfa" using T that assms(1) st by (auto simp: size_inv_def)
    then have "card (dom m) < card (reached_sets nfa)" by (rule psubset_card_mono [OF finite_reached])
    then show ?thesis using assms(1) st by (simp add: size_inv_def)
  qed
  ultimately show ?thesis
    using assms(1) T by (auto simp: st visit_char_def size_inv_def Let_def set_transition_def split: option.splits)
qed

lemma visit_chars_sized:
  assumes "size_inv nfa st" "S \<in> reached_sets nfa" "\<And>c. c \<in> set cs \<Longrightarrow> c < 256"
  shows "case visit_chars nfa i S cs st of Inl e \<Rightarrow> e = Too_many_states \<and> MAX_REGEX_DFA_STATES < card (reached_sets nfa)
    | Inr st' \<Rightarrow> size_inv nfa st'"
  using assms
proof (induction cs arbitrary: st)
  case (Cons c cs)
  have "c < 256" "\<And>c. c \<in> set cs \<Longrightarrow> c < 256" using Cons.prems(3) by simp_all
  with visit_char_sized [OF Cons.prems(1,2), of c i] Cons.IH [OF _ Cons.prems(2)] show ?case
    by (cases "visit_char nfa i S c st") simp_all
qed simp

lemma subset_loop_sized:
  "size_inv nfa st \<Longrightarrow> case subset_loop nfa st of
     Inl e \<Rightarrow> e = Too_many_states \<and> MAX_REGEX_DFA_STATES < card (reached_sets nfa)
   | Inr D \<Rightarrow> length D \<le> card (reached_sets nfa)"
proof (induction nfa st rule: subset_loop.induct)
  case (1 nfa D m)
  then show ?case by (auto simp: size_inv_def intro: card_mono)
next
  case (2 nfa D m current work)
  let ?v = "visit_chars nfa (case m current of None \<Rightarrow> 0 | Some i \<Rightarrow> i) current [0..<256] (D, m, work)"
  have "size_inv nfa (D, m, work)" "current \<in> reached_sets nfa" using "2.prems" by (auto simp: size_inv_def)
  from visit_chars_sized [OF this, of "[0..<256]" "case m current of None \<Rightarrow> 0 | Some i \<Rightarrow> i"]
  have "case ?v of Inl e \<Rightarrow> e = Too_many_states \<and> MAX_REGEX_DFA_STATES < card (reached_sets nfa) | Inr st' \<Rightarrow> size_inv nfa st'"
    by simp
  with "2.IH" show ?case by (cases ?v) (simp_all del: upt.simps)
qed

lemma subset_sized:
  "case subsetConstruction nfa of
     Inl e \<Rightarrow> e = Too_many_states \<and> MAX_REGEX_DFA_STATES < card (reached_sets nfa)
   | Inr dfa \<Rightarrow> length (id_states dfa) \<le> card (reached_sets nfa)"
proof -
  let ?S = "epsilonClosure (nfa_states nfa) {nfa_start nfa}"
  have "?S = states_after (nfa_states nfa) (nfa_start nfa) []" by (simp add: states_after_def)
  then have "?S \<in> reached_sets nfa" by (auto simp: reached_sets_def)
  then have "size_inv nfa ([new_dfa_state\<lparr>ds_is_accepting := nfa_accept nfa \<in> ?S\<rparr>], [?S \<mapsto> 0], [?S])"
    by (simp add: size_inv_def)
  from subset_loop_sized [OF this] show ?thesis
    by (auto simp: subsetConstruction_def Let_def split: sum.splits)
qed

end
