(* ===== verification/Regex_Table.thy ===== *)
theory Regex_Table
  imports Regex_Dfa
begin

text \<open>
  Minimisation by partition refinement and the renumbering with the dead state first and the
  start state second (\<^verbatim>\<open>minimizeDfa\<close>, \<^verbatim>\<open>normalizeDfa\<close>). The lemmas carry the accepted language
  through both steps and say when the second writes outside its array.
\<close>

section \<open>Minimisation\<close>

text \<open>The automaton with a dead state for the missing transitions.\<close>

definition complete_row :: "nat \<Rightarrow> DfaState \<Rightarrow> DfaState" where
  "complete_row dead_id st = st\<lparr>ds_transitions := map (\<lambda>t. if t = -1 then int dead_id else t) (ds_transitions st)\<rparr>"

definition completed :: "DfaState list \<Rightarrow> DfaState list" where
  "completed D = map (complete_row (length D)) D @
     [\<lparr>ds_transitions = replicate 256 (int (length D)), ds_is_accepting = False\<rparr>]"

definition initial_partition :: "DfaState list \<Rightarrow> nat list \<times> nat" where
  "initial_partition D =
     (if (\<exists>st\<in>set D. ds_is_accepting st) \<and> (\<exists>st\<in>set D. \<not> ds_is_accepting st)
      then (map (\<lambda>st. if ds_is_accepting st then 1 else 0) D, 2)
      else (replicate (length D) 0, 1))"

type_synonym signature = "nat \<times> nat list"

definition signature_of :: "DfaState list \<Rightarrow> nat list \<Rightarrow> nat \<Rightarrow> signature" where
  "signature_of D part i = (part ! i, map (\<lambda>t. part ! nat t) (ds_transitions (D ! i)))"

text \<open>One round: the states are numbered by their signatures, in the order of their first appearance.\<close>

fun assign_groups :: "signature list \<Rightarrow> (signature \<rightharpoonup> nat) \<Rightarrow> nat \<Rightarrow> nat list \<times> nat" where
  "assign_groups [] signature_map new_num_groups = ([], new_num_groups)"
| "assign_groups (key # keys) signature_map new_num_groups = (case signature_map key of
     None \<Rightarrow>
       let (rest, n) = assign_groups keys (signature_map(key \<mapsto> new_num_groups)) (Suc new_num_groups)
       in (new_num_groups # rest, n)
   | Some gid \<Rightarrow>
       let (rest, n) = assign_groups keys signature_map new_num_groups in (gid # rest, n))"

definition refine_round :: "DfaState list \<Rightarrow> nat list \<Rightarrow> nat list \<times> nat" where
  "refine_round D part = assign_groups (map (signature_of D part) [0..<length D]) Map.empty 0"

lemma assign_groups_size: "assign_groups keys m n = (gs, k) \<Longrightarrow> length gs = length keys \<and> n \<le> k \<and> k \<le> n + length keys"
proof (induction keys arbitrary: m n gs k)
  case (Cons key keys)
  show ?case
  proof (cases "m key")
    case None
    obtain rest k' where "assign_groups keys (m(key \<mapsto> n)) (Suc n) = (rest, k')" by fastforce
    with Cons.IH [OF this] Cons.prems None show ?thesis by auto
  next
    case (Some g)
    obtain rest k' where "assign_groups keys m n = (rest, k')" by fastforce
    with Cons.IH [OF this] Cons.prems Some show ?thesis by auto
  qed
qed simp

lemma refine_round_size: "refine_round D part = (part', k) \<Longrightarrow> length part' = length D \<and> k \<le> length D"
  using assign_groups_size [of "map (signature_of D part) [0..<length D]" Map.empty 0] by (simp add: refine_round_def)

function refine :: "DfaState list \<Rightarrow> nat list \<Rightarrow> nat \<Rightarrow> nat list \<times> nat" where
  "refine D part num_groups =
     (let (new_partition, new_num_groups) = refine_round D part
      in if new_num_groups > num_groups then refine D new_partition new_num_groups else (part, num_groups))"
  by pat_completeness auto
termination
proof (relation "measure (\<lambda>(D, part, num_groups). length D - num_groups)", goal_cases)
  case (2 D part num_groups x new_partition new_num_groups)
  then have run: "refine_round D part = (new_partition, new_num_groups)" by simp
  from refine_round_size [OF this] 2(3) show ?case by (auto simp flip: 2(1,2))
qed simp

declare refine.simps [simp del]

definition group_row :: "DfaState list \<Rightarrow> nat list \<Rightarrow> nat \<Rightarrow> DfaState" where
  "group_row D part g = (case find (\<lambda>i. part ! i = g) [0..<length D] of
     None \<Rightarrow> new_dfa_state
   | Some i \<Rightarrow> \<lparr>ds_transitions = map (\<lambda>t. int (part ! nat t)) (ds_transitions (D ! i)),
       ds_is_accepting = ds_is_accepting (D ! i)\<rparr>)"

definition minimizeDfa :: "IntermediateDfa \<Rightarrow> IntermediateDfa" where
  "minimizeDfa dfa =
     (if length (id_states dfa) \<le> 1 then dfa
      else let D = completed (id_states dfa);
               (part, num_groups) = initial_partition D;
               (part, num_groups) = refine D part num_groups
           in \<lparr>id_states = map (group_row D part) [0..<num_groups], id_start = part ! id_start dfa\<rparr>)"


section \<open>Minimisation keeps the language and leaves no two equal states\<close>

definition complete_dfa :: "DfaState list \<Rightarrow> bool" where
  "complete_dfa D \<longleftrightarrow> (\<forall>i<length D. length (ds_transitions (D ! i)) = 256 \<and>
     (\<forall>c<256. 0 \<le> ds_transitions (D ! i) ! c \<and> ds_transitions (D ! i) ! c < int (length D)))"

definition succ_of :: "DfaState list \<Rightarrow> nat \<Rightarrow> u8 \<Rightarrow> nat" where
  "succ_of D i ch = nat (ds_transitions (D ! i) ! unat ch)"

definition run_of :: "DfaState list \<Rightarrow> nat \<Rightarrow> bytes \<Rightarrow> nat" where
  "run_of D = foldl (succ_of D)"

definition state_lang :: "DfaState list \<Rightarrow> nat \<Rightarrow> bytes set" where
  "state_lang D i = {w. ds_is_accepting (D ! run_of D i w)}"

lemma run_of_simps [simp]:
  "run_of D i [] = i" "run_of D i (c # w) = run_of D (succ_of D i c) w" "run_of D i (w @ [c]) = succ_of D (run_of D i w) c"
  by (simp_all add: run_of_def)

lemma succ_of_less: "complete_dfa D \<Longrightarrow> i < length D \<Longrightarrow> succ_of D i ch < length D"
  using u8_less [of ch] unfolding complete_dfa_def succ_of_def by fastforce

lemma run_of_less: "complete_dfa D \<Longrightarrow> i < length D \<Longrightarrow> run_of D i w < length D"
  by (induction w arbitrary: i) (simp_all add: succ_of_less)

lemma dfa_go_run_of: "complete_dfa D \<Longrightarrow> i < length D \<Longrightarrow> dfa_go D (int i) w = int (run_of D i w)"
proof (induction w rule: rev_induct)
  case (snoc c w)
  then have "run_of D i w < length D" by (simp add: run_of_less)
  with snoc u8_less [of c] show ?case by (simp add: dfa_next_def succ_of_def complete_dfa_def)
qed simp

lemma state_lang_succ: "state_lang D i = state_lang D j \<Longrightarrow> state_lang D (succ_of D i c) = state_lang D (succ_of D j c)"
proof -
  assume eq: "state_lang D i = state_lang D j"
  have "w \<in> state_lang D (succ_of D k c) \<longleftrightarrow> c # w \<in> state_lang D k" for w k by (simp add: state_lang_def)
  with eq show ?thesis by blast
qed

lemma state_lang_accepting: "state_lang D i = state_lang D j \<Longrightarrow> ds_is_accepting (D ! i) = ds_is_accepting (D ! j)"
proof -
  assume "state_lang D i = state_lang D j"
  then have "[] \<in> state_lang D i \<longleftrightarrow> [] \<in> state_lang D j" by simp
  then show ?thesis by (simp add: state_lang_def)
qed

text \<open>A round gives equal numbers to equal signatures only, and uses all numbers below the count.\<close>

lemma assign_groups_spec:
  assumes "assign_groups keys m n = (gs, k)" "ran m = {0..<n}" "inj_on m (dom m)"
  shows "\<exists>m'. m \<subseteq>\<^sub>m m' \<and> dom m' = dom m \<union> set keys \<and> ran m' = {0..<k} \<and> inj_on m' (dom m') \<and>
    (\<forall>i<length keys. m' (keys ! i) = Some (gs ! i))"
  using assms
proof (induction keys arbitrary: m n gs)
  case (Cons key keys)
  show ?case
  proof (cases "m key")
    case None
    obtain rest where rest: "assign_groups keys (m(key \<mapsto> n)) (Suc n) = (rest, k)" "gs = n # rest"
      using Cons.prems(1) None by (auto split: prod.splits)
    have "ran (m(key \<mapsto> n)) = {0..<Suc n}" using None Cons.prems(2) by auto
    moreover have "inj_on (m(key \<mapsto> n)) (dom (m(key \<mapsto> n)))"
    proof (rule inj_onI)
      fix x y
      assume "x \<in> dom (m(key \<mapsto> n))" "y \<in> dom (m(key \<mapsto> n))" "(m(key \<mapsto> n)) x = (m(key \<mapsto> n)) y"
      moreover have "m z \<noteq> Some n" for z using Cons.prems(2) ranI [of m z n] by auto
      ultimately show "x = y"
        using Cons.prems(3) by (auto simp: inj_on_def split: if_splits; metis)
    qed
    ultimately obtain m' where "m(key \<mapsto> n) \<subseteq>\<^sub>m m'" "dom m' = dom (m(key \<mapsto> n)) \<union> set keys" "ran m' = {0..<k}"
      "inj_on m' (dom m')" "\<forall>i<length keys. m' (keys ! i) = Some (rest ! i)"
      using Cons.IH [OF rest(1)] by blast
    moreover from this(1) None have "m \<subseteq>\<^sub>m m'" "m' key = Some n"
      unfolding map_le_def by (metis domIff fun_upd_other, metis dom_fun_upd fun_upd_same insertI1 option.simps(3))
    ultimately show ?thesis using rest(2) by (intro exI [of _ m']) (auto simp: nth_Cons split: nat.splits)
  next
    case (Some g)
    obtain rest where rest: "assign_groups keys m n = (rest, k)" "gs = g # rest"
      using Cons.prems(1) Some by (auto split: prod.splits)
    from Cons.IH [OF rest(1) Cons.prems(2,3)] obtain m' where "m \<subseteq>\<^sub>m m'" "dom m' = dom m \<union> set keys"
      "ran m' = {0..<k}" "inj_on m' (dom m')" "\<forall>i<length keys. m' (keys ! i) = Some (rest ! i)" by blast
    moreover from this(1) Some have "m' key = Some g" by (metis domI map_le_def)
    ultimately show ?thesis using rest(2) Some by (intro exI [of _ m']) (auto simp: nth_Cons split: nat.splits)
  qed
next
  case Nil
  then show ?case by (intro exI [of _ m]) simp
qed

lemma refine_round_spec:
  assumes "refine_round D part = (part', k)"
  shows "length part' = length D" "set part' = {0..<k}"
    and "i < length D \<Longrightarrow> j < length D \<Longrightarrow> part' ! i = part' ! j \<longleftrightarrow> signature_of D part i = signature_of D part j"
proof -
  let ?keys = "map (signature_of D part) [0..<length D]"
  have run: "assign_groups ?keys Map.empty 0 = (part', k)" using assms by (simp add: refine_round_def)
  show len: "length part' = length D" using assign_groups_size [OF run] by simp
  from assign_groups_spec [OF run] obtain m where m: "dom m = set ?keys" "ran m = {0..<k}" "inj_on m (dom m)"
    "\<And>i. i < length D \<Longrightarrow> m (signature_of D part i) = Some (part' ! i)" by auto
  show "part' ! i = part' ! j \<longleftrightarrow> signature_of D part i = signature_of D part j" if "i < length D" "j < length D"
  proof
    assume "part' ! i = part' ! j"
    with m(4) that have "m (signature_of D part i) = m (signature_of D part j)" by simp
    with m(1,3) that show "signature_of D part i = signature_of D part j" by (auto simp: inj_on_def)
  next
    assume "signature_of D part i = signature_of D part j"
    with m(4) [OF that(1)] m(4) [OF that(2)] show "part' ! i = part' ! j" by simp
  qed
  have "set part' = (\<lambda>i. part' ! i) ` {0..<length D}" using len by (auto simp: set_conv_nth)
  also have "\<dots> = ran m"
  proof
    show "(\<lambda>i. part' ! i) ` {0..<length D} \<subseteq> ran m" proof
      fix g assume "g \<in> (\<lambda>i. part' ! i) ` {0..<length D}"
      then obtain i where "i < length D" "g = part' ! i" by auto
      with m(4) show "g \<in> ran m" by (intro ranI) simp
    qed
    show "ran m \<subseteq> (\<lambda>i. part' ! i) ` {0..<length D}"
    proof
      fix g assume "g \<in> ran m"
      then obtain key where key: "m key = Some g" by (auto simp: ran_def)
      then have "key \<in> set ?keys" using m(1) by blast
      then obtain i where "i < length D" "key = signature_of D part i" by auto
      with m(4) key show "g \<in> (\<lambda>i. part' ! i) ` {0..<length D}" by force
    qed
  qed
  finally show "set part' = {0..<k}" using m(2) by simp
qed

lemma signature_eq_iff:
  assumes "complete_dfa D" "i < length D" "j < length D"
  shows "signature_of D part i = signature_of D part j \<longleftrightarrow>
    part ! i = part ! j \<and> (\<forall>c. part ! succ_of D i c = part ! succ_of D j c)"
proof -
  have len: "length (ds_transitions (D ! i)) = 256" "length (ds_transitions (D ! j)) = 256"
    using assms by (auto simp: complete_dfa_def)
  have "(\<forall>k<256. part ! nat (ds_transitions (D ! i) ! k) = part ! nat (ds_transitions (D ! j) ! k)) \<longleftrightarrow>
    (\<forall>c. part ! succ_of D i c = part ! succ_of D j c)" (is "?l \<longleftrightarrow> ?r")
  proof
    assume ?r
    show ?l
    proof (intro allI impI)
      fix k :: nat assume "k < 256"
      then have "unat (word_of_nat k :: u8) = k" by (simp add: unat_of_nat)
      with \<open>?r\<close> [rule_format, of "word_of_nat k"]
      show "part ! nat (ds_transitions (D ! i) ! k) = part ! nat (ds_transitions (D ! j) ! k)" by (simp add: succ_of_def)
    qed
  qed (use u8_less in \<open>auto simp: succ_of_def\<close>)
  then show ?thesis using len by (auto simp: signature_of_def list_eq_iff_nth_eq)
qed

text \<open>
  A partition between equality of acceptance and equality of language. The refinement keeps it
  there, and stops only at one that the transitions respect.
\<close>

definition partition_ok :: "DfaState list \<Rightarrow> nat list \<Rightarrow> nat \<Rightarrow> bool" where
  "partition_ok D part num \<longleftrightarrow> length part = length D \<and> set part = {0..<num} \<and>
     (\<forall>i<length D. \<forall>j<length D. part ! i = part ! j \<longrightarrow> ds_is_accepting (D ! i) = ds_is_accepting (D ! j)) \<and>
     (\<forall>i<length D. \<forall>j<length D. state_lang D i = state_lang D j \<longrightarrow> part ! i = part ! j)"

definition partition_stable :: "DfaState list \<Rightarrow> nat list \<Rightarrow> bool" where
  "partition_stable D part \<longleftrightarrow> (\<forall>i<length D. \<forall>j<length D. part ! i = part ! j \<longrightarrow>
     (\<forall>c. part ! succ_of D i c = part ! succ_of D j c))"

lemma partition_okD:
  assumes "partition_ok D part num"
  shows "length part = length D" "set part = {0..<num}"
    and "i < length D \<Longrightarrow> j < length D \<Longrightarrow> part ! i = part ! j \<Longrightarrow> ds_is_accepting (D ! i) = ds_is_accepting (D ! j)"
    and "i < length D \<Longrightarrow> j < length D \<Longrightarrow> state_lang D i = state_lang D j \<Longrightarrow> part ! i = part ! j"
  using assms unfolding partition_ok_def by blast+

lemma partition_okI:
  assumes "length part = length D" "set part = {0..<num}"
    and "\<And>i j. i < length D \<Longrightarrow> j < length D \<Longrightarrow> part ! i = part ! j \<Longrightarrow> ds_is_accepting (D ! i) = ds_is_accepting (D ! j)"
    and "\<And>i j. i < length D \<Longrightarrow> j < length D \<Longrightarrow> state_lang D i = state_lang D j \<Longrightarrow> part ! i = part ! j"
  shows "partition_ok D part num"
  using assms unfolding partition_ok_def by blast

lemma initial_partition_ok: "D \<noteq> [] \<Longrightarrow> initial_partition D = (part, num) \<Longrightarrow> partition_ok D part num"
proof -
  assume D: "D \<noteq> []" and run: "initial_partition D = (part, num)"
  show ?thesis
  proof (cases "(\<exists>st\<in>set D. ds_is_accepting st) \<and> (\<exists>st\<in>set D. \<not> ds_is_accepting st)")
    case True
    then have p: "part = map (\<lambda>st. if ds_is_accepting st then 1 else 0) D" "num = 2"
      using run by (simp_all add: initial_partition_def)
    obtain st st' where st: "st \<in> set D" "ds_is_accepting st" "st' \<in> set D" "\<not> ds_is_accepting st'" using True by blast
    have "{0, 1} \<subseteq> set part" using imageI [OF st(1), of "\<lambda>st. if ds_is_accepting st then 1 else 0 :: nat"]
        imageI [OF st(3), of "\<lambda>st. if ds_is_accepting st then 1 else 0 :: nat"] st(2,4) by (simp add: p(1))
    moreover have "set part \<subseteq> {0, 1}" by (auto simp: p(1))
    moreover have "{0..<num} = {0, 1}" by (auto simp: p(2))
    ultimately have all: "set part = {0..<num}" by (simp add: subset_antisym)
    have eq: "part ! i = part ! j \<longleftrightarrow> ds_is_accepting (D ! i) = ds_is_accepting (D ! j)"
      if "i < length D" "j < length D" for i j
      using that by (simp add: p(1))
    have "part ! i = part ! j" if "i < length D" "j < length D" "state_lang D i = state_lang D j" for i j
      using eq [OF that(1,2)] state_lang_accepting [OF that(3)] by (rule iffD2)
    moreover have "length part = length D" by (simp add: p(1))
    ultimately show ?thesis using all eq by (intro partition_okI) blast+
  next
    case False
    then have "initial_partition D = (replicate (length D) 0, 1)" unfolding initial_partition_def by (rule if_not_P)
    then have p: "part = replicate (length D) 0" "num = 1" using run by simp_all
    have "ds_is_accepting (D ! i) = ds_is_accepting (D ! j)" if "i < length D" "j < length D" for i j
      using False that nth_mem by blast
    moreover have "set part = {0..<num}" using p D by simp
    moreover have "length part = length D" by (simp add: p(1))
    moreover have "part ! i = part ! j" if "i < length D" "j < length D" for i j
      using that by (simp add: p(1))
    ultimately show ?thesis by (intro partition_okI) blast+
  qed
qed

lemma refine_round_ok:
  assumes "complete_dfa D" "partition_ok D part num" "refine_round D part = (part', k)"
  shows "partition_ok D part' k"
proof -
  note spec = refine_round_spec [OF assms(3)]
  have "part' ! i = part' ! j" if ij: "i < length D" "j < length D" "state_lang D i = state_lang D j" for i j
  proof -
    have "part ! succ_of D i c = part ! succ_of D j c" for c
      using partition_okD(4) [OF assms(2)] state_lang_succ [OF ij(3)] succ_of_less [OF assms(1)] ij(1,2) by blast
    with partition_okD(4) [OF assms(2) ij] show ?thesis
      unfolding spec(3) [OF ij(1,2)] signature_eq_iff [OF assms(1) ij(1,2)] by blast
  qed
  moreover have "ds_is_accepting (D ! i) = ds_is_accepting (D ! j)"
    if "i < length D" "j < length D" "part' ! i = part' ! j" for i j
    using that partition_okD(3) [OF assms(2) that(1,2)] signature_eq_iff [OF assms(1) that(1,2)] spec(3) [OF that(1,2)] by blast
  ultimately show ?thesis using spec(1,2) by (intro partition_okI)
qed

lemma refine_round_stable:
  assumes "complete_dfa D" "partition_ok D part num" "refine_round D part = (part', k)" "k \<le> num"
  shows "partition_stable D part"
proof -
  note spec = refine_round_spec [OF assms(3)]
  note len = partition_okD(1,2) [OF assms(2)]
  define old where "old g = part ! (LEAST i. i < length D \<and> part' ! i = g)" for g
  have old: "old (part' ! i) = part ! i" if "i < length D" for i
  proof -
    have "(LEAST j. j < length D \<and> part' ! j = part' ! i) < length D \<and> part' ! (LEAST j. j < length D \<and> part' ! j = part' ! i) = part' ! i"
      by (rule LeastI [of _ i]) (simp add: that)
    with that show ?thesis unfolding old_def
      using spec(3) [of "LEAST j. j < length D \<and> part' ! j = part' ! i" i] unfolding signature_of_def by blast
  qed
  have "old ` set part' = (\<lambda>i. part ! i) ` {0..<length D}"
    using old spec(1) by (auto simp: set_conv_nth image_iff intro!: bexI) metis
  also have "\<dots> = set part" using len(1) by (auto simp: set_conv_nth)
  finally have "old ` set part' = set part" .
  then have "old ` {0..<k} = {0..<num}" using spec(2) len(2) by simp
  moreover from this have "num \<le> k" using card_image_le [of "{0..<k}" old] by simp
  ultimately have inj: "inj_on old {0..<k}" using assms(4) by (intro eq_card_imp_inj_on) auto
  have "part' ! i = part' ! j" if "i < length D" "j < length D" "part ! i = part ! j" for i j
  proof -
    have "part' ! i \<in> {0..<k}" "part' ! j \<in> {0..<k}"
      using that(1,2) spec(1) nth_mem [of i part'] nth_mem [of j part'] by (simp_all flip: spec(2))
    with inj old [OF that(1)] old [OF that(2)] that(3) show ?thesis by (metis inj_onD)
  qed
  then show ?thesis
    unfolding partition_stable_def using spec(3) signature_eq_iff [OF assms(1)] by blast
qed

lemma refine_ok:
  assumes "complete_dfa D" "partition_ok D part num" "refine D part num = (part', num')"
  shows "partition_ok D part' num' \<and> partition_stable D part'"
  using assms
proof (induction D part num rule: refine.induct)
  case (1 D part num)
  obtain p k where run: "refine_round D part = (p, k)" by fastforce
  show ?case
  proof (cases "num < k")
    case True
    with "1.prems" run refine.simps [of D part num] have "refine D p k = (part', num')" by simp
    with "1.IH" [OF run [symmetric] refl True] refine_round_ok [OF "1.prems"(1,2) run] "1.prems"(1) show ?thesis by simp
  next
    case False
    with "1.prems" run refine.simps [of D part num] have "part' = part" "num' = num" by simp_all
    with "1.prems"(2) refine_round_stable [OF "1.prems"(1,2) run] False show ?thesis by simp
  qed
qed

text \<open>The automaton of the groups.\<close>

lemma group_row_of:
  assumes "length part = length D" "i < length D"
  obtains i' where "i' < length D" "part ! i' = part ! i"
    "group_row D part (part ! i) = \<lparr>ds_transitions = map (\<lambda>t. int (part ! nat t)) (ds_transitions (D ! i')),
       ds_is_accepting = ds_is_accepting (D ! i')\<rparr>"
proof (cases "find (\<lambda>k. part ! k = part ! i) [0..<length D]")
  case None
  with assms(2) have False by (auto simp: find_None_iff)
  then show ?thesis ..
next
  case (Some i')
  then have "i' < length D" "part ! i' = part ! i" by (auto simp: find_Some_iff)
  with Some that show ?thesis by (simp add: group_row_def)
qed

lemma quotient_ok:
  assumes "complete_dfa D" "partition_ok D part num" "partition_stable D part"
  defines "M \<equiv> map (group_row D part) [0..<num]"
  shows "complete_dfa M" and "i < length D \<Longrightarrow> part ! i < length M"
    and "i < length D \<Longrightarrow> state_lang M (part ! i) = state_lang D i"
proof -
  note ok = partition_okD [OF assms(2)]
  show bound: "part ! i < length M" if "i < length D" for i
    using that ok(1,2) nth_mem [of i part] by (simp add: M_def)
  have row: "length (ds_transitions (M ! (part ! i))) = 256 \<and> ds_is_accepting (M ! (part ! i)) = ds_is_accepting (D ! i) \<and>
    (\<forall>c. ds_transitions (M ! (part ! i)) ! unat c = int (part ! succ_of D i c))" if i: "i < length D" for i
  proof -
    obtain i' where i': "i' < length D" "part ! i' = part ! i"
      "group_row D part (part ! i) = \<lparr>ds_transitions = map (\<lambda>t. int (part ! nat t)) (ds_transitions (D ! i')),
         ds_is_accepting = ds_is_accepting (D ! i')\<rparr>" by (rule group_row_of [OF ok(1) i])
    have len: "length (ds_transitions (D ! i')) = 256" using assms(1) i'(1) by (simp add: complete_dfa_def)
    have "part ! succ_of D i' c = part ! succ_of D i c" for c
      using assms(3) i'(1,2) i unfolding partition_stable_def by blast
    moreover have "ds_is_accepting (D ! i') = ds_is_accepting (D ! i)" by (rule ok(3) [OF i'(1) i i'(2)])
    moreover have "M ! (part ! i) = group_row D part (part ! i)" using bound [OF i] by (simp add: M_def)
    ultimately show ?thesis using len u8_less i'(3) by (simp add: succ_of_def)
  qed
  have onto: "\<exists>i<length D. g = part ! i" if "g < length M" for g
  proof -
    have "g \<in> set part" using that ok(2) by (simp add: M_def)
    then show ?thesis using ok(1) by (auto simp: in_set_conv_nth)
  qed
  show "complete_dfa M"
    unfolding complete_dfa_def
  proof (intro allI impI conjI)
    fix g assume "g < length M"
    from onto [OF this] obtain i where i: "i < length D" "g = part ! i" by blast
    then show "length (ds_transitions (M ! g)) = 256" using row by simp
    fix c :: nat assume "c < 256"
    then have "unat (word_of_nat c :: u8) = c" by (simp add: unat_of_nat)
    with row [OF i(1)] have t: "ds_transitions (M ! g) ! c = int (part ! succ_of D i (word_of_nat c))"
      unfolding i(2) by metis
    show "0 \<le> ds_transitions (M ! g) ! c" "ds_transitions (M ! g) ! c < int (length M)"
      using bound [OF succ_of_less [OF assms(1) i(1)]] by (simp_all add: t)
  qed
  have "run_of M (part ! i) w = part ! run_of D i w" if "i < length D" for i w
    using that
  proof (induction w arbitrary: i)
    case (Cons c w)
    have "succ_of M (part ! i) c = part ! succ_of D i c" using row [OF Cons.prems] by (simp add: succ_of_def)
    with Cons.IH [OF succ_of_less [OF assms(1) Cons.prems]] show ?case by simp
  qed simp
  then show "state_lang M (part ! i) = state_lang D i" if "i < length D"
    using that row run_of_less [OF assms(1) that] by (simp add: state_lang_def)
qed

lemma completed_ok:
  assumes "wf_dfa dfa"
  defines "S \<equiv> id_states dfa"
  shows "complete_dfa (completed S)" and "state_lang (completed S) (length S) = {}"
    and "w \<in> state_lang (completed S) (id_start dfa) \<longleftrightarrow> dfa_accepts dfa w"
proof -
  let ?C = "completed S"
  have len: "length ?C = Suc (length S)" by (simp add: completed_def)
  have dead: "?C ! length S = \<lparr>ds_transitions = replicate 256 (int (length S)), ds_is_accepting = False\<rparr>"
    by (simp add: completed_def nth_append)
  have row: "?C ! i = complete_row (length S) (S ! i)" if "i < length S" for i
    using that by (simp add: completed_def nth_append)
  have wf: "length (ds_transitions (S ! i)) = 256" "c < 256 \<Longrightarrow> -1 \<le> ds_transitions (S ! i) ! c"
    "c < 256 \<Longrightarrow> ds_transitions (S ! i) ! c < int (length S)" if "i < length S" for i c
    using assms(1) that by (auto simp: wf_dfa_def S_def)
  have step: "ds_transitions (?C ! i) ! c = (if ds_transitions (S ! i) ! c = -1 then int (length S) else ds_transitions (S ! i) ! c)"
    if "i < length S" "c < 256" for i c
    using that wf(1) [OF that(1)] by (simp add: row complete_row_def)
  show "complete_dfa ?C"
    unfolding complete_dfa_def
  proof (intro allI impI)
    fix i assume "i < length ?C"
    then consider "i < length S" | "i = length S" using len by linarith
    then show "length (ds_transitions (?C ! i)) = 256 \<and>
      (\<forall>c<256. 0 \<le> ds_transitions (?C ! i) ! c \<and> ds_transitions (?C ! i) ! c < int (length ?C))"
    proof cases
      case 1
      have "0 \<le> ds_transitions (?C ! i) ! c \<and> ds_transitions (?C ! i) ! c < int (length ?C)" if "c < 256" for c
        using step [OF 1 that] wf(2,3) [OF 1 that] len by auto
      then show ?thesis using wf(1) [OF 1] by (simp add: row [OF 1] complete_row_def)
    qed (simp add: dead len)
  qed
  have "run_of ?C (length S) v = length S" for v
    by (induction v) (use u8_less in \<open>simp_all add: succ_of_def dead\<close>)
  then show "state_lang ?C (length S) = {}" by (simp add: state_lang_def dead)
  let ?s = "id_start dfa"
  have start: "?s < length S" using assms(1) by (simp add: wf_dfa_def S_def)
  have go: "run_of ?C ?s v \<le> length S \<and>
    dfa_go S (int ?s) v = (if run_of ?C ?s v = length S then -1 else int (run_of ?C ?s v))" for v
  proof (induction v rule: rev_induct)
    case (snoc c v)
    show ?case
    proof (cases "run_of ?C ?s v = length S")
      case True
      with snoc u8_less [of c] show ?thesis by (simp add: dfa_next_def succ_of_def dead)
    next
      case False
      then have less: "run_of ?C ?s v < length S" using snoc by simp
      from step [OF this u8_less [of c]] wf(2,3) [OF this u8_less [of c]] snoc False show ?thesis
        by (auto simp: dfa_next_def succ_of_def)
    qed
  qed (use start in simp)
  show "w \<in> state_lang ?C ?s \<longleftrightarrow> dfa_accepts dfa w"
  proof (cases "run_of ?C ?s w = length S")
    case True
    with go [of w] show ?thesis unfolding state_lang_def dfa_accepts_def by (simp add: dead flip: S_def)
  next
    case False
    with go [of w] have "run_of ?C ?s w < length S" "dfa_go S (int ?s) w = int (run_of ?C ?s w)" by auto
    then show ?thesis unfolding state_lang_def dfa_accepts_def by (simp add: row complete_row_def flip: S_def)
  qed
qed

text \<open>A complete automaton in terms of the languages of its states.\<close>

lemma complete_wf: "complete_dfa (id_states dfa) \<Longrightarrow> id_start dfa < length (id_states dfa) \<Longrightarrow> wf_dfa dfa"
  by (auto simp: complete_dfa_def wf_dfa_def intro: order_trans [of "-1" 0])

lemma complete_accepts:
  "complete_dfa (id_states dfa) \<Longrightarrow> id_start dfa < length (id_states dfa) \<Longrightarrow>
   dfa_accepts dfa w \<longleftrightarrow> w \<in> state_lang (id_states dfa) (id_start dfa)"
  by (simp add: dfa_accepts_def dfa_go_run_of state_lang_def)

lemma minimize_result:
  assumes "wf_dfa dfa"
  shows "wf_dfa (minimizeDfa dfa)" "dfa_accepts (minimizeDfa dfa) w \<longleftrightarrow> dfa_accepts dfa w"
    and "length (id_states dfa) > 1 \<Longrightarrow> complete_dfa (id_states (minimizeDfa dfa))"
    and "length (id_states dfa) > 1 \<Longrightarrow> inj_on (state_lang (id_states (minimizeDfa dfa))) {0..<length (id_states (minimizeDfa dfa))}"
    and "length (id_states dfa) > 1 \<Longrightarrow> \<exists>d<length (id_states (minimizeDfa dfa)). state_lang (id_states (minimizeDfa dfa)) d = {}"
    and "length (id_states (minimizeDfa dfa)) \<le> Suc (length (id_states dfa))"
proof -
  let ?S = "id_states dfa" and ?M = "minimizeDfa dfa"
  let ?C = "completed ?S"
  have "wf_dfa ?M \<and> (dfa_accepts ?M w \<longleftrightarrow> dfa_accepts dfa w) \<and> length (id_states ?M) \<le> Suc (length ?S) \<and> (length ?S > 1 \<longrightarrow> complete_dfa (id_states ?M) \<and>
    inj_on (state_lang (id_states ?M)) {0..<length (id_states ?M)} \<and>
    (\<exists>d<length (id_states ?M). state_lang (id_states ?M) d = {}))"
  proof (cases "length ?S > 1")
    case False
    then show ?thesis using assms by (simp add: minimizeDfa_def)
  next
    case True
    obtain p0 n0 where 0: "initial_partition ?C = (p0, n0)" by fastforce
    obtain part num where 1: "refine ?C p0 n0 = (part, num)" by fastforce
    note C = completed_ok [OF assms]
    have len: "length ?C = Suc (length ?S)" by (simp add: completed_def)
    have "partition_ok ?C p0 n0" by (rule initial_partition_ok [OF _ 0]) (simp add: completed_def)
    from refine_ok [OF C(1) this 1] have ok: "partition_ok ?C part num" "partition_stable ?C part" by auto
    note Q = quotient_ok [OF C(1) ok]
    let ?Q = "map (group_row ?C part) [0..<num]"
    have M: "?M = \<lparr>id_states = ?Q, id_start = part ! id_start dfa\<rparr>"
      using True 0 1 by (simp add: minimizeDfa_def Let_def)
    have start: "id_start dfa < length ?C" using assms len by (simp add: wf_dfa_def)
    have "inj_on (state_lang ?Q) {0..<length ?Q}"
    proof (rule inj_onI)
      fix g h assume gh: "g \<in> {0..<length ?Q}" "h \<in> {0..<length ?Q}" "state_lang ?Q g = state_lang ?Q h"
      then have "g \<in> set part" "h \<in> set part" using partition_okD(2) [OF ok(1)] by auto
      then obtain i j where "i < length ?C" "g = part ! i" "j < length ?C" "h = part ! j"
        using partition_okD(1) [OF ok(1)] by (auto simp: in_set_conv_nth)
      with gh(3) Q(3) partition_okD(4) [OF ok(1)] show "g = h" by blast
    qed
    moreover have "state_lang ?Q (part ! length ?S) = {}" "part ! length ?S < length ?Q"
      using Q(2,3) [of "length ?S"] len C(2) by simp_all
    moreover have "wf_dfa ?M" unfolding M by (rule complete_wf) (use Q(1,2) start in simp_all)
    moreover have "dfa_accepts ?M w \<longleftrightarrow> dfa_accepts dfa w"
      using complete_accepts [of ?M w] Q start C(3) by (simp add: M)
    moreover have "num \<le> length ?C"
      using partition_okD(1,2) [OF ok(1)] card_length [of part] by simp
    ultimately show ?thesis using Q(1) len unfolding M by auto
  qed
  then show "wf_dfa ?M" "dfa_accepts ?M w \<longleftrightarrow> dfa_accepts dfa w"
    and "length ?S > 1 \<Longrightarrow> complete_dfa (id_states ?M)"
    and "length ?S > 1 \<Longrightarrow> inj_on (state_lang (id_states ?M)) {0..<length (id_states ?M)}"
    and "length ?S > 1 \<Longrightarrow> \<exists>d<length (id_states ?M). state_lang (id_states ?M) d = {}"
    and "length (id_states ?M) \<le> Suc (length ?S)" by blast+
qed

section \<open>Renumbering\<close>

definition is_dead :: "DfaState list \<Rightarrow> nat \<Rightarrow> bool" where
  "is_dead D i \<longleftrightarrow> \<not> ds_is_accepting (D ! i) \<and> (\<forall>c<256. ds_transitions (D ! i) ! c = int i)"

fun number_rest :: "nat list \<Rightarrow> int list \<Rightarrow> nat \<Rightarrow> int list" where
  "number_rest [] remap next_id = remap"
| "number_rest (i # is) remap next_id =
     (if remap ! i = -1 then number_rest is (remap[i := int next_id]) (Suc next_id) else number_rest is remap next_id)"

definition renumbering :: "nat option \<Rightarrow> nat \<Rightarrow> nat \<Rightarrow> int list" where
  "renumbering dead start n =
     (let remap = replicate n (-1);
          remap = (case dead of None \<Rightarrow> remap | Some d \<Rightarrow> remap[d := 0]);
          remap = remap[start := 1]
      in number_rest [0..<n] remap 2)"

definition renamed_row :: "int list \<Rightarrow> DfaState \<Rightarrow> DfaState" where
  "renamed_row remap st = st\<lparr>ds_transitions := map (\<lambda>t. if t = -1 then 0 else remap ! nat t) (ds_transitions st)\<rparr>"

definition normalizeDfa :: "IntermediateDfa \<Rightarrow> regex_error + IntermediateDfa" where
  "normalizeDfa dfa =
     (let D = id_states dfa; n = length D;
          dead_state = find (is_dead D) [0..<n];
          remap = renumbering dead_state (id_start dfa) n;
          total_states = (if dead_state = None then n + 1 else n);
          row0 = \<lparr>ds_transitions = replicate 256 0, ds_is_accepting = False\<rparr>
      in if total_states > MAX_REGEX_DFA_STATES then Inl Too_many_states
         else if \<exists>i<n. remap ! i \<ge> int total_states then Inl Out_of_bounds
         else Inr \<lparr>id_states = fold (\<lambda>i E. E[nat (remap ! i) := renamed_row remap (D ! i)]) [0..<n]
                     (row0 # replicate (total_states - 1) new_dfa_state),
                   id_start = 1\<rparr>)"


section \<open>Renumbering keeps the language\<close>

lemma length_number_rest [simp]: "length (number_rest is remap next_id) = length remap"
  by (induction "is" arbitrary: remap next_id) simp_all

lemma number_rest_spec:
  assumes "length remap = n" "i < n" "k \<le> n"
  shows "number_rest [k..<n] remap next_id ! i =
    (if k \<le> i \<and> remap ! i = -1 then int (next_id + length (filter (\<lambda>j. remap ! j = -1) [k..<i])) else remap ! i)"
  using assms
proof (induction "n - k" arbitrary: k remap next_id)
  case (Suc d)
  have up: "[k..<n] = k # [Suc k..<n]" using Suc.hyps(2) by (intro upt_conv_Cons) simp
  have cnt: "[k..<i] = (if k < i then k # [Suc k..<i] else [])" by (simp add: upt_conv_Cons)
  show ?case
  proof (cases "remap ! k = -1")
    case True
    have "filter (\<lambda>j. remap[k := int next_id] ! j = -1) [Suc k..<i] = filter (\<lambda>j. remap ! j = -1) [Suc k..<i]"
      by (rule filter_cong) auto
    with True Suc.prems Suc.hyps(2) Suc.hyps(1) [of "Suc k" "remap[k := int next_id]" "Suc next_id"] show ?thesis
      by (auto simp: up cnt nth_list_update)
  next
    case False
    then have "k \<le> i \<and> remap ! i = -1 \<longrightarrow> k < i" by (cases "k = i") auto
    with False Suc.prems Suc.hyps(2) Suc.hyps(1) [of "Suc k" remap next_id] show ?thesis by (auto simp: up cnt)
  qed
qed simp

text \<open>The numbers of the states that are neither dead nor the start.\<close>

definition rank_of :: "nat set \<Rightarrow> nat \<Rightarrow> nat" where
  "rank_of fixed i = length (filter (\<lambda>j. j \<notin> fixed) [0..<i])"

lemma rank_of_card: "rank_of fixed i = card ({0..<i} - fixed)"
proof -
  have "rank_of fixed i = card (set (filter (\<lambda>j. j \<notin> fixed) [0..<i]))"
    unfolding rank_of_def by (rule distinct_card [symmetric]) simp
  also have "set (filter (\<lambda>j. j \<notin> fixed) [0..<i]) = {0..<i} - fixed" by auto
  finally show ?thesis .
qed

lemma rank_of_mono: "i < j \<Longrightarrow> i \<notin> fixed \<Longrightarrow> rank_of fixed i < rank_of fixed j"
  unfolding rank_of_card by (rule psubset_card_mono) auto

lemma rank_of_bound:
  assumes "i < n" "i \<notin> fixed" "fixed \<subseteq> {0..<n}"
  shows "rank_of fixed i < n - card fixed"
proof -
  have "rank_of fixed i < card ({0..<n} - fixed)"
    unfolding rank_of_card by (rule psubset_card_mono) (use assms in auto)
  also have "card ({0..<n} - fixed) = n - card fixed"
    using assms(3) by (subst card_Diff_subset) (auto intro: finite_subset)
  finally show ?thesis .
qed

definition fixed_of :: "nat option \<Rightarrow> nat \<Rightarrow> nat set" where
  "fixed_of dead start = insert start (set_option dead)"

lemma renumbering_spec:
  assumes "start < n" "\<And>d. dead = Some d \<Longrightarrow> d < n" "i < n"
  shows "length (renumbering dead start n) = n"
    and "renumbering dead start n ! i = (if i = start then 1 else if dead = Some i then 0 else int (2 + rank_of (fixed_of dead start) i))"
proof -
  define r where "r = (case dead of None \<Rightarrow> replicate n (-1) | Some d \<Rightarrow> (replicate n (-1))[d := 0])[start := 1 :: int]"
  have len: "length r = n" by (simp add: r_def split: option.splits)
  have r: "renumbering dead start n = number_rest [0..<n] r 2" by (simp add: renumbering_def r_def Let_def split: option.splits)
  have at: "r ! j = (if j = start then 1 else if dead = Some j then 0 else -1)" if "j < n" for j
    using that assms(1,2) by (auto simp: r_def nth_list_update split: option.splits)
  show "length (renumbering dead start n) = n" by (simp add: r len)
  have "filter (\<lambda>j. r ! j = -1) [0..<i] = filter (\<lambda>j. j \<notin> fixed_of dead start) [0..<i]"
    by (rule filter_cong) (use assms(3) in \<open>auto simp: at fixed_of_def\<close>)
  then show "renumbering dead start n ! i =
      (if i = start then 1 else if dead = Some i then 0 else int (2 + rank_of (fixed_of dead start) i))"
    using assms(3) unfolding r number_rest_spec [OF len assms(3) le0] by (simp add: at rank_of_def)
qed

text \<open>Writing the rows one after the other under distinct numbers.\<close>

lemma length_write_rows: "length (fold (\<lambda>i E. E[f i := g i]) is E) = length E"
  by (induction "is" arbitrary: E) simp_all

lemma write_rows_other: "k \<notin> f ` set is \<Longrightarrow> fold (\<lambda>i E. E[f i := g i]) is E ! k = E ! k"
  by (induction "is" arbitrary: E) simp_all

lemma write_rows:
  assumes "inj_on f (set is)" "j \<in> set is" "f j < length E"
  shows "fold (\<lambda>i E. E[f i := g i]) is E ! f j = g j"
  using assms
proof (induction "is" arbitrary: E)
  case (Cons i "is")
  show ?case
  proof (cases "j \<in> set is")
    case False
    then have "j = i" "f i \<notin> f ` set is" using Cons.prems by (auto simp: inj_on_def)
    then show ?thesis using Cons.prems(3) by (simp add: write_rows_other)
  qed (use Cons in simp)
qed simp

text \<open>The renumbered automaton: the automaton, with its dead state first and its start second.\<close>

lemma find_dead: "find (is_dead D) [0..<length D] = Some d \<Longrightarrow> d < length D \<and> is_dead D d"
  by (auto simp: find_Some_iff)

lemma normalize_error:
  assumes "wf_dfa dfa"
  defines "dead \<equiv> find (is_dead (id_states dfa)) [0..<length (id_states dfa)]"
  shows "normalizeDfa dfa = Inl e \<longleftrightarrow>
    (if (if dead = None then length (id_states dfa) + 1 else length (id_states dfa)) > MAX_REGEX_DFA_STATES then e = Too_many_states
     else e = Out_of_bounds \<and> dead = Some (id_start dfa))"
proof -
  let ?D = "id_states dfa" and ?s = "id_start dfa"
  let ?n = "length (id_states dfa)"
  let ?total = "if dead = None then ?n + 1 else ?n"
  let ?r = "renumbering dead ?s ?n"
  have s: "?s < ?n" using assms(1) by (simp add: wf_dfa_def)
  have d: "d < ?n" if "dead = Some d" for d using that find_dead by (simp add: dead_def)
  have at: "?r ! i = (if i = ?s then 1 else if dead = Some i then 0 else int (2 + rank_of (fixed_of dead ?s) i))"
    if "i < ?n" for i by (rule renumbering_spec(2) [OF s d that])
  have fixed: "fixed_of dead ?s \<subseteq> {0..<?n}" using s d by (auto simp: fixed_of_def)
  have "(\<exists>i<?n. ?r ! i \<ge> int ?total) \<longleftrightarrow> dead = Some ?s"
  proof (cases "dead = Some ?s")
    case True
    then have "fixed_of dead ?s = {?s}" by (simp add: fixed_of_def)
    show ?thesis
    proof (cases "?n = 1")
      case True
      then show ?thesis using at [of ?s] s \<open>dead = Some ?s\<close> by auto
    next
      case False
      define m where "m = (if ?s = ?n - 1 then ?n - 2 else ?n - 1)"
      have m: "m < ?n" "m \<noteq> ?s" using False s unfolding m_def by (cases "?s = ?n - 1"; simp)+
      have "rank_of {?s} m = ?n - 2"
      proof (cases "?s = ?n - 1")
        case True
        then have "{0..<m} - {?s} = {0..<?n - 2}" by (auto simp: m_def)
        then show ?thesis by (simp add: rank_of_card)
      next
        case False
        then have "m = ?n - 1" "?s \<in> {0..<?n - 1}" using s by (auto simp: m_def)
        then show ?thesis by (simp add: rank_of_card card_Diff_singleton)
      qed
      with at [OF m(1)] m(2) True False s \<open>fixed_of dead ?s = {?s}\<close> have "?r ! m = int ?n" by auto
      with m(1) True show ?thesis by auto
    qed
  next
    case False
    have "?r ! i < int ?total" if i: "i < ?n" for i
    proof (cases "i \<in> fixed_of dead ?s")
      case True
      have "dead \<noteq> None \<Longrightarrow> ?n > 1" using False d s by (cases "?n = 1") auto
      with True at [OF i] s show ?thesis by (auto simp: fixed_of_def)
    next
      case out: False
      from False have "card (fixed_of dead ?s) = (if dead = None then 1 else 2)" by (auto simp: fixed_of_def split: option.splits)
      with rank_of_bound [OF i out fixed] have "2 + rank_of (fixed_of dead ?s) i < ?total" by (auto split: if_splits)
      with at [OF i] out show ?thesis by (auto simp: fixed_of_def)
    qed
    with False show ?thesis by (auto simp: not_le)
  qed
  then show ?thesis unfolding normalizeDfa_def Let_def dead_def [symmetric] by auto
qed

lemma normalize_result:
  assumes "wf_dfa dfa" "normalizeDfa dfa = Inr dfa'"
  shows "complete_dfa (id_states dfa')" "id_start dfa' = 1" "1 < length (id_states dfa')"
    "length (id_states dfa') \<le> MAX_REGEX_DFA_STATES" "dfa_accepts dfa' w \<longleftrightarrow> dfa_accepts dfa w"
proof -
  let ?D = "id_states dfa" and ?s = "id_start dfa"
  let ?n = "length (id_states dfa)"
  define dead where "dead = find (is_dead ?D) [0..<?n]"
  define total where "total = (if dead = None then ?n + 1 else ?n)"
  define f where "f i = nat (renumbering dead ?s ?n ! i)" for i
  have s: "?s < ?n" using assms(1) by (simp add: wf_dfa_def)
  have d: "d < ?n" if "dead = Some d" for d using that find_dead by (simp add: dead_def)
  have at: "renumbering dead ?s ?n ! i = (if i = ?s then 1 else if dead = Some i then 0 else int (2 + rank_of (fixed_of dead ?s) i))"
    if "i < ?n" for i by (rule renumbering_spec(2) [OF s d that])
  have f: "f i = (if i = ?s then 1 else if dead = Some i then 0 else 2 + rank_of (fixed_of dead ?s) i)" if "i < ?n" for i
    using at [OF that] by (auto simp: f_def nat_add_distrib)
  have int_f: "renumbering dead ?s ?n ! i = int (f i)" if "i < ?n" for i
    using at [OF that] by (simp add: f_def)
  have rows: "\<And>i. i < ?n \<Longrightarrow> f i < total" "total \<le> MAX_REGEX_DFA_STATES"
    "dfa' = \<lparr>id_states = fold (\<lambda>i E. E[f i := renamed_row (renumbering dead ?s ?n) (?D ! i)]) [0..<?n]
       (\<lparr>ds_transitions = replicate 256 0, ds_is_accepting = False\<rparr> # replicate (total - 1) new_dfa_state), id_start = 1\<rparr>"
  proof -
    have N: "\<not> total > MAX_REGEX_DFA_STATES" "\<not> (\<exists>i<?n. renumbering dead ?s ?n ! i \<ge> int total)"
      using assms(2) unfolding normalizeDfa_def Let_def dead_def [symmetric] total_def [symmetric] f_def
      by (auto split: if_splits)
    show "\<And>i. i < ?n \<Longrightarrow> f i < total" using N(2) int_f by (metis not_le of_nat_less_iff)
    show "total \<le> MAX_REGEX_DFA_STATES" using N(1) by simp
  qed (use assms(2) in \<open>auto simp: normalizeDfa_def Let_def f_def simp flip: dead_def total_def split: if_splits\<close>)
  define E where "E = id_states dfa'"
  have not_start: "dead \<noteq> Some ?s"
    using normalize_error [OF assms(1), of Out_of_bounds] assms(2) rows(2) by (auto simp: dead_def total_def)
  have inj: "inj_on f {0..<?n}"
  proof (rule linorder_inj_onI)
    fix i j assume "i < j" "i \<in> {0..<?n}" "j \<in> {0..<?n}"
    then show "f i \<noteq> f j"
      using rank_of_mono [of i j "fixed_of dead ?s"] not_start by (auto simp: f fixed_of_def)
  qed auto
  show start: "id_start dfa' = 1" by (simp add: rows(3))
  have len: "length E = total" using s by (auto simp: E_def rows(3) length_write_rows total_def)
  have row: "E ! f i = renamed_row (renumbering dead ?s ?n) (?D ! i)" if "i < ?n" for i
  proof -
    have "f i < Suc (total - 1)" using rows(1) [OF that] by linarith
    then show ?thesis unfolding E_def rows(3) IntermediateDfa.select_convs
      using that inj by (intro write_rows [where g = "\<lambda>i. renamed_row (renumbering dead ?s ?n) (?D ! i)"]) simp_all
  qed
  have wf: "length (ds_transitions (?D ! i)) = 256" "c < 256 \<Longrightarrow> -1 \<le> ds_transitions (?D ! i) ! c"
    "c < 256 \<Longrightarrow> ds_transitions (?D ! i) ! c < int ?n" if "i < ?n" for i c
    using assms(1) that by (auto simp: wf_dfa_def)
  have entry: "ds_transitions (E ! f i) ! c = (if ds_transitions (?D ! i) ! c = -1 then 0 else int (f (nat (ds_transitions (?D ! i) ! c))))"
    if "i < ?n" "c < 256" for i c
  proof -
    have "ds_transitions (?D ! i) ! c = -1 \<or> nat (ds_transitions (?D ! i) ! c) < ?n" using wf(2,3) [OF that] by linarith
    with that wf(1) [OF that(1)] int_f show ?thesis by (auto simp: row renamed_row_def)
  qed
  have zero: "length (ds_transitions (E ! 0)) = 256 \<and> \<not> ds_is_accepting (E ! 0) \<and> (\<forall>c<256. ds_transitions (E ! 0) ! c = 0)"
  proof (cases dead)
    case None
    then have "0 \<notin> f ` {0..<?n}" by (auto simp: f)
    then have "E ! 0 = \<lparr>ds_transitions = replicate 256 0, ds_is_accepting = False\<rparr>"
      unfolding E_def rows(3) by (simp add: write_rows_other)
    then show ?thesis by simp
  next
    case (Some d)
    then have d': "d < ?n" "is_dead ?D d" "f d = 0" using find_dead [of ?D d] not_start by (auto simp: dead_def f)
    with row [OF d'(1)] wf(1) [OF d'(1)] entry [OF d'(1)] show ?thesis by (auto simp: is_dead_def renamed_row_def)
  qed
  have onto: "k = 0 \<or> (\<exists>i<?n. k = f i)" if "k < total" for k
  proof -
    have card: "card (f ` {0..<?n}) = ?n" using inj by (simp add: card_image)
    have "{1..<total} \<subseteq> f ` {0..<?n}"
    proof (cases "dead = None")
      case True
      have "f i \<noteq> 0" if "i < ?n" for i using f [OF that] True by simp
      then have "f ` {0..<?n} \<subseteq> {1..<total}" using rows(1) by (auto simp: Suc_le_eq)
      then have "f ` {0..<?n} = {1..<total}" by (rule card_subset_eq [rotated]) (use True card in \<open>auto simp: total_def\<close>)
      then show ?thesis by simp
    next
      case False
      have "f ` {0..<?n} \<subseteq> {0..<total}" using rows(1) by auto
      then have "f ` {0..<?n} = {0..<total}" by (rule card_subset_eq [rotated]) (use False card in \<open>auto simp: total_def\<close>)
      then show ?thesis by auto
    qed
    moreover have "k = 0 \<or> k \<in> {1..<total}" using that by auto
    ultimately have "k = 0 \<or> k \<in> f ` {0..<?n}" by blast
    then show ?thesis by auto
  qed
  have "f ?s < total" "f ?s = 1" using rows(1) [OF s] f [OF s] by auto
  then show "1 < length (id_states dfa')" "length (id_states dfa') \<le> MAX_REGEX_DFA_STATES"
    using len rows(2) by (simp_all add: E_def)
  have "complete_dfa E"
    unfolding complete_dfa_def
  proof (intro allI impI)
    fix k assume "k < length E"
    then consider "k = 0" | i where "i < ?n" "k = f i" using onto len by auto
    then show "length (ds_transitions (E ! k)) = 256 \<and>
      (\<forall>c<256. 0 \<le> ds_transitions (E ! k) ! c \<and> ds_transitions (E ! k) ! c < int (length E))"
    proof cases
      case 1
      then show ?thesis using zero \<open>k < length E\<close> by auto
    next
      case 2
      have "ds_transitions (E ! k) ! c < int (length E)" if "c < 256" for c
        using entry [OF 2(1) that] rows(1) wf(2,3) [OF 2(1) that] len \<open>k < length E\<close> 2(2) by auto
      with 2 entry [OF 2(1)] wf(1) [OF 2(1)] show ?thesis by (auto simp: row renamed_row_def)
    qed
  qed
  then show "complete_dfa (id_states dfa')" by (simp add: E_def)
  have range: "-1 \<le> dfa_go ?D (int ?s) v \<and> dfa_go ?D (int ?s) v < int ?n" for v
    using dfa_go_range [OF assms(1)] s by simp
  have go: "dfa_go E 1 v = (if dfa_go ?D (int ?s) v = -1 then 0 else int (f (nat (dfa_go ?D (int ?s) v))))" for v
  proof (induction v rule: rev_induct)
    case (snoc c v)
    show ?case
    proof (cases "dfa_go ?D (int ?s) v = -1")
      case True
      with snoc zero u8_less [of c] show ?thesis by (simp add: dfa_next_def)
    next
      case False
      with range [of v] have q: "nat (dfa_go ?D (int ?s) v) < ?n" "\<not> dfa_go ?D (int ?s) v < 0" by auto
      from entry [OF q(1) u8_less [of c]] snoc False q(2) show ?thesis by (simp add: dfa_next_def)
    qed
  qed (use f [OF s] s in simp)
  show "dfa_accepts dfa' w \<longleftrightarrow> dfa_accepts dfa w"
  proof (cases "dfa_go ?D (int ?s) w = -1")
    case True
    with go [of w] zero show ?thesis by (simp add: dfa_accepts_def start flip: E_def)
  next
    case False
    with range [of w] have q: "nat (dfa_go ?D (int ?s) w) < ?n" "0 \<le> dfa_go ?D (int ?s) w" by auto
    with go [of w] False row [OF q(1)] show ?thesis by (simp add: dfa_accepts_def start renamed_row_def flip: E_def)
  qed
qed

end
