(* ===== verification/Regex_Compile.thy ===== *)
theory Regex_Compile
  imports Regex_Table
begin

text \<open>
  The end of \<^verbatim>\<open>DfaBuilder::buildRegexDfa\<close>: the automaton that may start anywhere, the flat table and
  the mask of accepting states, and the composition of all steps. The result is what the kernel
  searches with: \<open>regex_search_compiled\<close> says that \<open>regex_dfa_search\<close> on such a table finds exactly
  the haystacks with a match. The errors are classified as well.
\<close>

section \<open>The table\<close>

definition toFlatDfa :: "DfaState list \<Rightarrow> flat_2d_dfa_array_t" where
  "toFlatDfa D = (\<lambda>idx. if idx < length D * 256
     then let target = ds_transitions (D ! (idx div 256)) ! (idx mod 256) in if target \<ge> 0 then word_of_int target else 0
     else 0)"

definition buildAcceptingStates :: "DfaState list \<Rightarrow> u64" where
  "buildAcceptingStates D = fold (\<lambda>i result. if ds_is_accepting (D ! i) then result OR push_bit i 1 else result) [0..<length D] 0"

text \<open>The automaton that may start anywhere: a state that skips bytes is put in front.\<close>

definition skip_bytes :: "nat \<Rightarrow> NfaState list \<Rightarrow> NfaState list" where
  "skip_bytes skip_state N = fold (\<lambda>c. addTransition skip_state (int c) skip_state) [0..<256] N"

definition unanchored :: "AstNode \<Rightarrow> Nfa" where
  "unanchored ast =
     (let (fragment, N) = buildNfaFromAst ast [];
          (skip_state, N) = newState N
      in \<lparr>nfa_states = addTransition skip_state EPSILON (nf_start fragment) (skip_bytes skip_state N),
          nfa_start = skip_state, nfa_accept = nf_accept fragment\<rparr>)"

definition compileAst :: "AstNode \<Rightarrow> regex_error + flat_2d_dfa_array_t \<times> u64" where
  "compileAst ast = (case subsetConstruction (unanchored ast) of
     Inl e \<Rightarrow> Inl e
   | Inr dfa \<Rightarrow> (case normalizeDfa (minimizeDfa dfa) of
       Inl e \<Rightarrow> Inl e
     | Inr dfa' \<Rightarrow>
         if \<not> (\<exists>st\<in>set (id_states dfa'). ds_is_accepting st) then Inl No_accepting_state
         else Inr (toFlatDfa (id_states dfa'), buildAcceptingStates (id_states dfa'))))"


section \<open>The automaton that may start anywhere\<close>

lemma skip_bytes_length [simp]: "length (skip_bytes s N) = length N"
proof -
  have "length (fold (\<lambda>c. addTransition s (int c) s) xs N) = length N" for xs
    by (induction xs arbitrary: N) simp_all
  then show ?thesis by (simp add: skip_bytes_def)
qed

lemma edges_skip_bytes:
  assumes "s < length N"
  shows "edges (skip_bytes s N) p = (if p = s then {(int c, s) | c. c < 256} \<union> edges N p else edges N p)"
proof -
  have "edges (fold (\<lambda>c. addTransition s (int c) s) xs N) p =
      (if p = s then {(int c, s) | c. c \<in> set xs} \<union> edges N p else edges N p)" for xs
    using assms by (induction xs arbitrary: N) (auto simp: edges_addTransition)
  from this [of "[0..<256]"] show ?thesis by (simp add: skip_bytes_def)
qed

lemma unanchored_parts:
  assumes "buildNfaFromAst ast [] = (fr, N)"
  shows "nfa_start (unanchored ast) = length N" "nfa_accept (unanchored ast) = nf_accept fr"
    "length (nfa_states (unanchored ast)) = Suc (length N)"
    "edges (nfa_states (unanchored ast)) (length N) = insert (EPSILON, nf_start fr) {(int c, length N) | c. c < 256}"
    "p \<noteq> length N \<Longrightarrow> edges (nfa_states (unanchored ast)) p = edges N p"
  using assms by (auto simp: unanchored_def Let_def newState_def edges_addTransition edges_skip_bytes edges_beyond)

lemma skip_any:
  assumes "\<And>c. c < 256 \<Longrightarrow> (int c, s) \<in> edges M s"
  shows "reaches M s w s"
proof (induction w)
  case (Cons c w)
  from reaches_append [OF reaches_sym [OF assms [OF u8_less [of c]]] Cons] show ?case by simp
qed simp

lemma unanchored_reaches:
  "reaches (nfa_states (unanchored ast)) (nfa_start (unanchored ast)) w (nfa_accept (unanchored ast)) \<longleftrightarrow>
   (\<exists>x u. w = x @ u \<and> u \<in> lang ast)"
proof -
  obtain fr N where N: "buildNfaFromAst ast [] = (fr, N)" by fastforce
  let ?M = "nfa_states (unanchored ast)" and ?s = "length N" and ?a = "nf_accept fr"
  note U = unanchored_parts [OF N]
  note g = build_grows [OF N, unfolded grown_def]
  have frag: "fragment ?M {0..<?s} (nf_start fr) ?a (lang ast)"
    using build_fragment [OF N, of ?M] U(5) by simp
  have stuck: "v = []" if "path ?M m ?a v f" for m v f
    using that by (cases rule: path_cases) (use g U(5) [of ?a] in auto)
  have "\<exists>x u. w = x @ u \<and> u \<in> lang ast" if "path ?M n ?s w ?a" for n
    using that
  proof (induction n arbitrary: w)
    case 0
    then show ?case using g by (cases rule: path_cases) auto
  next
    case (Suc n)
    have "?a \<noteq> ?s" using g by auto
    from path_leaves [OF Suc.prems this] U(4) consider "path ?M n (nf_start fr) w ?a"
      | c v where "w = c # v" "path ?M n ?s v ?a" by (auto simp del: of_nat_unat)
    then show ?case
    proof cases
      case 1
      from fragment_split [OF frag this] obtain m u v where "w = u @ v" "u \<in> lang ast" "path ?M m ?a v ?a" by auto
      with stuck [of m v ?a] have "w = [] @ u \<and> u \<in> lang ast" by simp
      then show ?thesis by blast
    next
      case 2
      from Suc.IH [OF 2(2)] obtain x u where "v = x @ u" "u \<in> lang ast" by blast
      with 2(1) have "w = (c # x) @ u \<and> u \<in> lang ast" by simp
      then show ?thesis by blast
    qed
  qed
  moreover have "reaches ?M ?s (x @ u) ?a" if "u \<in> lang ast" for x u
  proof (rule reaches_append)
    show "reaches ?M ?s x ?s" by (rule skip_any) (use U(4) in auto)
    show "reaches ?M ?s u ?a" by (rule reaches_eps [OF _ fragment_reaches [OF frag that]]) (simp add: U(4))
  qed
  ultimately show ?thesis unfolding U(1,2) reaches_def by blast
qed

section \<open>The table holds the automaton\<close>

lemma flat_step:
  assumes "complete_dfa E" "length E \<le> MAX_REGEX_DFA_STATES" "q < length E"
  shows "dfa_step (toFlatDfa E) (word_of_nat q) ch = word_of_nat (succ_of E q ch)"
proof -
  have q: "(q * 256 + unat ch) div 256 = q" "(q * 256 + unat ch) mod 256 = unat ch" "q * 256 + unat ch < length E * 256"
    using u8_less [of ch] assms(3) by (auto, linarith)
  have t: "0 \<le> ds_transitions (E ! q) ! unat ch" "succ_of E q ch < 256"
    using assms u8_less [of ch] succ_of_less [OF assms(1,3), of ch] by (auto simp: complete_dfa_def)
  have "(ucast (word_of_nat (succ_of E q ch) :: u8) :: u32) = word_of_nat (succ_of E q ch)"
    using t(2) by (simp add: unat_of_nat flip: word_of_nat_unat_8_32)
  then show ?thesis
    using dfa_step_table [of q "toFlatDfa E" ch] assms(2,3) q t
    by (simp add: toFlatDfa_def succ_of_def Let_def)
qed

lemma flat_run:
  assumes "complete_dfa E" "length E \<le> MAX_REGEX_DFA_STATES" "q < length E"
  shows "dfa_run (toFlatDfa E) (word_of_nat q) w = word_of_nat (run_of E q w)"
  using assms(3)
proof (induction w arbitrary: q)
  case (Cons c w)
  with flat_step [OF assms(1,2) Cons.prems] succ_of_less [OF assms(1) Cons.prems] show ?case by simp
qed simp

lemma accepting_bits:
  "k < 64 \<Longrightarrow> bit (buildAcceptingStates E) k \<longleftrightarrow> k < length E \<and> ds_is_accepting (E ! k)"
proof -
  assume "k < 64"
  then have "bit (fold (\<lambda>i result. if ds_is_accepting (E ! i) then result OR push_bit i 1 else result) xs (r :: u64)) k \<longleftrightarrow>
    bit r k \<or> (k \<in> set xs \<and> ds_is_accepting (E ! k))" for xs r
  proof (induction xs arbitrary: r)
    case (Cons i xs)
    have "bit (push_bit i (1 :: u64)) k \<longleftrightarrow> i = k" using \<open>k < 64\<close> by (auto simp: bit_exp_iff)
    then have "bit (if ds_is_accepting (E ! i) then r OR push_bit i 1 else r) k \<longleftrightarrow> bit r k \<or> (i = k \<and> ds_is_accepting (E ! k))"
      by (auto simp: bit_or_iff)
    with Cons.IH [OF \<open>k < 64\<close>] show ?case by auto
  qed simp
  then show ?thesis by (simp add: buildAcceptingStates_def)
qed

lemma regex_accepting_state:
  assumes "k < length E" "length E \<le> MAX_REGEX_DFA_STATES"
  shows "regex_accepting (buildAcceptingStates E) (word_of_nat k) \<longleftrightarrow> ds_is_accepting (E ! k)"
proof -
  have "unat (word_of_nat k :: u32) = k" using assms by (simp add: unat_of_nat)
  moreover have "drop_bit k x AND 1 \<noteq> 0 \<longleftrightarrow> bit x k" for x :: u64
    by (simp add: and_one_eq mod_2_eq_odd bit_iff_odd_drop_bit)
  ultimately show ?thesis
    using assms accepting_bits [of k E] by (simp add: regex_accepting_def word_less_nat_alt)
qed

section \<open>The compiler as a whole\<close>

lemma unanchored_alive: "\<exists>q. reaches (nfa_states (unanchored ast)) (nfa_start (unanchored ast)) w q"
proof -
  obtain fr N where N: "buildNfaFromAst ast [] = (fr, N)" by fastforce
  have "reaches (nfa_states (unanchored ast)) (length N) w (length N)"
    by (rule skip_any) (simp add: unanchored_parts [OF N])
  then show ?thesis using unanchored_parts(1) [OF N] by metis
qed

lemma dead_lang:
  assumes "complete_dfa D" "i < length D"
  shows "is_dead D i \<Longrightarrow> state_lang D i = {}"
    and "inj_on (state_lang D) {0..<length D} \<Longrightarrow> state_lang D i = {} \<Longrightarrow> is_dead D i"
proof -
  assume dead: "is_dead D i"
  have "run_of D i w = i" for w
    by (induction w) (use dead u8_less in \<open>simp_all add: is_dead_def succ_of_def\<close>)
  with dead show "state_lang D i = {}" by (simp add: state_lang_def is_dead_def)
next
  assume inj: "inj_on (state_lang D) {0..<length D}" and empty: "state_lang D i = {}"
  have "ds_transitions (D ! i) ! c = int i" if "c < 256" for c
  proof -
    have "unat (word_of_nat c :: u8) = c" using that by (rule unat_char)
    moreover have "state_lang D (succ_of D i ch) = {}" for ch
      using empty by (auto simp: state_lang_def elim: allE [of _ "ch # w" for w])
    then have "succ_of D i ch = i" for ch
      using inj_onD [OF inj, of "succ_of D i ch" i] empty succ_of_less [OF assms] assms(2) by simp
    ultimately show ?thesis
      using assms that by (metis complete_dfa_def int_nat_eq succ_of_def)
  qed
  moreover have "[] \<notin> state_lang D i" using empty by simp
  ultimately show "is_dead D i" by (simp add: is_dead_def state_lang_def)
qed

lemma empty_dead:
  assumes "subsetConstruction (unanchored ast) = Inr dfa" "lang ast = {}"
  defines "D \<equiv> id_states (minimizeDfa dfa)"
  shows "find (is_dead D) [0..<length D] = Some (id_start (minimizeDfa dfa))"
proof -
  let ?s = "id_start (minimizeDfa dfa)"
  note s = subset_result [OF assms(1)]
  note m = minimize_result [OF s(1)]
  have none: "\<not> dfa_accepts dfa w" for w using s(4) assms(2) by (simp add: unanchored_reaches)
  have start: "?s < length D" using m(1) by (simp add: wf_dfa_def D_def)
  show ?thesis
  proof (cases "length (id_states dfa) > 1")
    case True
    have "state_lang D ?s = {}" using none m(2) complete_accepts [OF m(3) [OF True]] start by (auto simp: D_def)
    then have "is_dead D ?s" using dead_lang(2) [of D ?s] start m(3,4) [OF True] by (simp add: D_def)
    then have "find (is_dead D) [0..<length D] \<noteq> None" using start by (auto simp: find_None_iff)
    then obtain d where d: "find (is_dead D) [0..<length D] = Some d" by blast
    from find_dead [OF d] dead_lang(1) [of D d] m(3) [OF True] have "state_lang D d = {}" "d < length D" by (auto simp: D_def)
    with \<open>state_lang D ?s = {}\<close> start m(4) [OF True] have "d = ?s" by (auto simp: inj_on_def D_def)
    with d show ?thesis by simp
  next
    case False
    then have "minimizeDfa dfa = dfa" by (simp add: minimizeDfa_def)
    with False start s(3) have D: "D = id_states dfa" "length D = 1" "?s = 0"
      by (cases "id_states dfa"; auto simp: D_def)+
    have "ds_transitions (D ! 0) ! unat c = 0" for c :: u8
    proof -
      have "dfa_go D 0 [c] = ds_transitions (D ! 0) ! unat c" using dfa_go_simps(2) [of D 0 "[]" c] by (simp add: dfa_next_def)
      moreover have "dfa_go D 0 [c] \<noteq> -1" using s(5) [of "[c]"] unanchored_alive D(1) by auto
      moreover have "-1 \<le> dfa_go D 0 [c] \<and> dfa_go D 0 [c] < 1" using dfa_go_range [OF s(1), of 0 "[c]"] D by (cases "id_states dfa") auto
      ultimately show ?thesis by simp
    qed
    then have "ds_transitions (D ! 0) ! c = 0" if "c < 256" for c using unat_char [OF that] by metis
    moreover have "\<not> ds_is_accepting (D ! 0)" using none [of "[]"] s(3) D(1) by (simp add: dfa_accepts_def)
    ultimately show ?thesis using D(2,3) by (simp add: is_dead_def)
  qed
qed

lemma dead_empty:
  assumes "subsetConstruction (unanchored ast) = Inr dfa"
    and "find (is_dead (id_states (minimizeDfa dfa))) [0..<length (id_states (minimizeDfa dfa))] = Some (id_start (minimizeDfa dfa))"
  shows "lang ast = {}"
proof -
  let ?M = "minimizeDfa dfa"
  let ?D = "id_states ?M" and ?s = "int (id_start ?M)"
  note s = subset_result [OF assms(1)]
  from find_dead [OF assms(2)] have dead: "is_dead ?D (id_start ?M)" by simp
  have "dfa_go ?D ?s w = ?s" for w
    by (induction w rule: rev_induct) (use dead u8_less in \<open>simp_all add: is_dead_def dfa_next_def\<close>)
  then have "\<not> dfa_accepts ?M w" for w using dead by (simp add: dfa_accepts_def is_dead_def)
  then have "\<not> (\<exists>x u. w = x @ u \<and> u \<in> lang ast)" for w
    using minimize_result(2) [OF s(1)] s(4) by (simp add: unanchored_reaches)
  then show ?thesis by fastforce
qed

text \<open>Every way to fail: too many sets of states, or a pattern that matches nothing.\<close>

lemma compile_error:
  assumes "compileAst ast = Inl e"
  shows "e = Too_many_states \<and> MAX_REGEX_DFA_STATES \<le> card (reached_sets (unanchored ast)) \<or> e = Out_of_bounds \<and> lang ast = {}"
proof (cases "subsetConstruction (unanchored ast)")
  case (Inl e')
  with assms subset_sized [of "unanchored ast"] show ?thesis by (simp add: compileAst_def)
next
  case (Inr dfa)
  note s = subset_result [OF Inr]
  note m = minimize_result [OF s(1)]
  let ?D = "id_states (minimizeDfa dfa)"
  let ?dead = "find (is_dead ?D) [0..<length ?D]"
  let ?total = "if ?dead = None then length ?D + 1 else length ?D"
  have "\<exists>d<length ?D. is_dead ?D d" if "length (id_states dfa) > 1"
    using m(5) [OF that] dead_lang(2) [OF m(3) [OF that] _ m(4) [OF that]] by blast
  then have "?dead \<noteq> None" if "length (id_states dfa) > 1" using that by (auto simp: find_None_iff)
  then have size: "?total \<le> Suc (length (id_states dfa))"
    using m(6) by (cases "length (id_states dfa) > 1") (auto simp: minimizeDfa_def)
  have card: "length (id_states dfa) \<le> card (reached_sets (unanchored ast))"
    using subset_sized [of "unanchored ast"] Inr by simp
  show ?thesis
  proof (cases "normalizeDfa (minimizeDfa dfa)")
    case (Inl e')
    then have e: "e = e'" using assms \<open>subsetConstruction (unanchored ast) = Inr dfa\<close> by (simp add: compileAst_def)
    show ?thesis
    proof (cases "?total > MAX_REGEX_DFA_STATES")
      case True
      with normalize_error [OF m(1), of e'] Inl have "e' = Too_many_states" by (simp split: if_splits)
      with True size card e show ?thesis by simp
    next
      case False
      with normalize_error [OF m(1), of e'] Inl have "e' = Out_of_bounds" "?dead = Some (id_start (minimizeDfa dfa))" by auto
      with dead_empty [OF Inr] e show ?thesis by simp
    qed
  next
    case norm: (Inr d2)
    note n = normalize_result [OF m(1) norm]
    have "lang ast = {}"
    proof (rule ccontr)
      assume "lang ast \<noteq> {}"
      then obtain u where "u \<in> lang ast" by blast
      then have "dfa_accepts d2 u" using n(5) m(2) s(4) by (auto simp: unanchored_reaches)
      then have "u \<in> state_lang (id_states d2) 1" using complete_accepts [of d2 u] n(1-3) by simp
      then have "ds_is_accepting (id_states d2 ! run_of (id_states d2) 1 u)" by (simp add: state_lang_def)
      with run_of_less [OF n(1,3)] have "\<exists>st\<in>set (id_states d2). ds_is_accepting st" by (meson nth_mem)
      with assms Inr norm show False by (simp add: compileAst_def)
    qed
    from empty_dead [OF Inr this] normalize_error [OF m(1), of Out_of_bounds] normalize_error [OF m(1), of Too_many_states] norm
    show ?thesis by (simp split: if_splits)
  qed
qed

lemma compile_empty:
  assumes "lang ast = {}"
  shows "compileAst ast = Inl Too_many_states \<or> compileAst ast = Inl Out_of_bounds"
proof (cases "compileAst ast")
  case (Inl e)
  with compile_error [OF Inl] show ?thesis by auto
next
  case (Inr r)
  then obtain d0 d2 where d: "subsetConstruction (unanchored ast) = Inr d0" "normalizeDfa (minimizeDfa d0) = Inr d2"
    by (auto simp: compileAst_def split: sum.splits)
  note m = minimize_result(1) [OF subset_result(1) [OF d(1)]]
  from empty_dead [OF d(1) assms] normalize_error [OF m, of Out_of_bounds] normalize_error [OF m, of Too_many_states] d(2)
  show ?thesis by (simp split: if_splits)
qed

lemma compile_result:
  assumes "compileAst ast = Inr (dfa, acc)"
  obtains E where "complete_dfa E" "length E \<le> MAX_REGEX_DFA_STATES" "1 < length E" "dfa = toFlatDfa E" "acc = buildAcceptingStates E"
    "\<And>w. w \<in> state_lang E 1 \<longleftrightarrow> (\<exists>x u. w = x @ u \<and> u \<in> lang ast)"
proof -
  obtain d0 d2 where d: "subsetConstruction (unanchored ast) = Inr d0" "normalizeDfa (minimizeDfa d0) = Inr d2"
    "dfa = toFlatDfa (id_states d2)" "acc = buildAcceptingStates (id_states d2)"
    using assms by (auto simp: compileAst_def split: sum.splits if_splits)
  note s = subset_result [OF d(1)]
  note n = normalize_result [OF minimize_result(1) [OF s(1)] d(2)]
  have "w \<in> state_lang (id_states d2) 1 \<longleftrightarrow> (\<exists>x u. w = x @ u \<and> u \<in> lang ast)" for w
    using complete_accepts [of d2 w] n minimize_result(2) [OF s(1)] s(4) by (simp add: unanchored_reaches)
  with that [OF n(1,4,3) d(3,4)] show thesis by blast
qed

lemma compiled_hits:
  assumes "compileAst ast = Inr (dfa, acc)"
  shows "first_hit dfa (regex_accepting acc) 1 h \<longleftrightarrow> h \<noteq> [] \<and> (\<exists>u\<in>lang ast. sublist u h)"
proof -
  obtain E where E: "complete_dfa E" "length E \<le> MAX_REGEX_DFA_STATES" "1 < length E" "dfa = toFlatDfa E" "acc = buildAcceptingStates E"
    "\<And>w. w \<in> state_lang E 1 \<longleftrightarrow> (\<exists>x u. w = x @ u \<and> u \<in> lang ast)" using compile_result [OF assms] by blast
  have "regex_accepting acc (dfa_run dfa 1 ys) \<longleftrightarrow> (\<exists>x u. ys = x @ u \<and> u \<in> lang ast)" for ys
    using flat_run [OF E(1-3), of ys] regex_accepting_state [OF run_of_less [OF E(1,3), of ys] E(2)] E(6) [of ys]
    by (simp add: E(4,5) state_lang_def)
  then have "first_hit dfa (regex_accepting acc) 1 h \<longleftrightarrow> (\<exists>ys x u. ys \<noteq> [] \<and> prefix ys h \<and> ys = x @ u \<and> u \<in> lang ast)"
    by (auto simp: first_hit_iff)
  also have "\<dots> \<longleftrightarrow> h \<noteq> [] \<and> (\<exists>u\<in>lang ast. sublist u h)" (is "?l \<longleftrightarrow> ?r")
  proof
    assume ?l
    then show ?r by (auto simp: prefix_def) (blast intro: sublist_appendI)+
  next
    assume ?r
    then obtain u x z where u: "u \<in> lang ast" "h = x @ u @ z" and ne: "h \<noteq> []" by (auto simp: sublist_def)
    show ?l
    proof (cases "x @ u = []")
      case False
      with u show ?thesis by (intro exI [of _ "x @ u"] exI [of _ x] exI [of _ u]) (simp add: prefix_def)
    next
      case True
      with u ne show ?thesis by (intro exI [of _ h] exI [of _ h] exI [of _ "[]"]) simp
    qed
  qed
  finally show ?thesis .
qed

lemma regex_search_compiled:
  assumes "compileAst ast = Inr (dfa, acc)" "wf_sctx c" "0 \<le> sc_idx_to_DFA c"
    and "idx_to_DFA_map ro (word_of_int (sc_idx_to_DFA c)) = Some dfa"
    and "idx_to_accepting_states_map ro (word_of_int (sc_idx_to_DFA c)) = Some acc"
  shows "regex_dfa_search ro c \<longleftrightarrow> haystack_str c \<noteq> [] \<and> (\<exists>u\<in>lang ast. sublist u (haystack_str c))"
  using regex_dfa_search_run [OF assms(2-5)] compiled_hits [OF assms(1), of "haystack_str c"] by (simp add: first_hit_iff)

section \<open>Small patterns compile\<close>

lemma targets_addTransition: "p < length N \<Longrightarrow> targets (addTransition p c q N) \<subseteq> insert q (targets N)"
proof -
  assume p: "p < length N"
  have "set (addTransition p c q N) \<subseteq> insert (N ! p @ [(c, q)]) (set N)"
    unfolding addTransition_def by (rule set_update_subset_insert)
  then have "targets (addTransition p c q N) \<subseteq> snd ` set (N ! p @ [(c, q)]) \<union> targets N" unfolding targets_def by blast
  moreover have "snd ` set (N ! p) \<subseteq> targets N" using nth_mem [OF p] unfolding targets_def by blast
  ultimately show ?thesis by auto
qed

definition closed_nfa :: "NfaState list \<Rightarrow> bool" where
  "closed_nfa N \<longleftrightarrow> targets N \<subseteq> {0..<length N}"

lemma closed_new [simp]: "closed_nfa N \<Longrightarrow> closed_nfa (N @ [[]])"
proof -
  have "targets (N @ [[]]) = targets N" by (simp add: targets_def)
  then show "closed_nfa N \<Longrightarrow> closed_nfa (N @ [[]])" by (auto simp: closed_nfa_def)
qed

lemma closed_add [simp]: "closed_nfa N \<Longrightarrow> p < length N \<Longrightarrow> q < length N \<Longrightarrow> closed_nfa (addTransition p c q N)"
  using targets_addTransition [of p N c q] by (auto simp: closed_nfa_def)

lemma closed_fold:
  "closed_nfa N \<Longrightarrow> p < length N \<Longrightarrow> q < length N \<Longrightarrow>
   closed_nfa (fold (\<lambda>c N. if P c then addTransition p (g c) q N else N) cs N) \<and>
   length (fold (\<lambda>c N. if P c then addTransition p (g c) q N else N) cs N) = length N"
  by (induction cs arbitrary: N) simp_all

lemma closed_build: "buildNfaFromAst r N = (fr, N') \<Longrightarrow> closed_nfa N \<Longrightarrow> closed_nfa N'"
proof (induction r arbitrary: N fr N')
  case (CHAR_CLASS cs)
  have "closed_nfa (addCharClass (length N) cs (Suc (length N)) ((N @ [[]]) @ [[]]))"
    unfolding addCharClass_def using closed_fold [of "(N @ [[]]) @ [[]]" "length N" "Suc (length N)" "\<lambda>c. cs ! c" int "[0..<256]"]
      closed_new [OF closed_new [OF CHAR_CLASS.prems(2)]] by (simp del: append_assoc)
  with CHAR_CLASS.prems(1) show ?case by (auto simp: newState_def Let_def)
next
  case (CONCAT l r)
  obtain left N1 where 1: "buildNfaFromAst l N = (left, N1)" by fastforce
  obtain right N2 where 2: "buildNfaFromAst r N1 = (right, N2)" by fastforce
  from CONCAT.prems CONCAT.IH(1) [OF 1] CONCAT.IH(2) [OF 2] 1 2 build_grows [OF 1] build_grows [OF 2] show ?case
    by (auto simp: grown_def)
next
  case (ALTERNATION l r)
  obtain left N1 where 1: "buildNfaFromAst l ((N @ [[]]) @ [[]]) = (left, N1)" by fastforce
  obtain right N2 where 2: "buildNfaFromAst r N1 = (right, N2)" by fastforce
  note c1 = ALTERNATION.IH(1) [OF 1 closed_new [OF closed_new [OF ALTERNATION.prems(2)]]]
  from ALTERNATION.prems c1 ALTERNATION.IH(2) [OF 2 c1] 1 2 build_grows [OF 1] build_grows [OF 2] show ?case
    by (auto simp: newState_def Let_def grown_def simp del: append_assoc)
next
  case (STAR r)
  obtain inner N1 where 1: "buildNfaFromAst r ((N @ [[]]) @ [[]]) = (inner, N1)" by fastforce
  from STAR.prems STAR.IH [OF 1 closed_new [OF closed_new [OF STAR.prems(2)]]] 1 build_grows [OF 1] show ?case
    by (auto simp: newState_def Let_def grown_def simp del: append_assoc)
next
  case (PLUS r)
  obtain inner N1 where 1: "buildNfaFromAst r ((N @ [[]]) @ [[]]) = (inner, N1)" by fastforce
  from PLUS.prems PLUS.IH [OF 1 closed_new [OF closed_new [OF PLUS.prems(2)]]] 1 build_grows [OF 1] show ?case
    by (auto simp: newState_def Let_def grown_def simp del: append_assoc)
next
  case (OPTIONAL r)
  obtain inner N1 where 1: "buildNfaFromAst r ((N @ [[]]) @ [[]]) = (inner, N1)" by fastforce
  from OPTIONAL.prems OPTIONAL.IH [OF 1 closed_new [OF closed_new [OF OPTIONAL.prems(2)]]] 1 build_grows [OF 1] show ?case
    by (auto simp: newState_def Let_def grown_def simp del: append_assoc)
qed (auto simp: newState_def Let_def simp del: append_assoc)

lemma unanchored_closed: "closed_nfa (nfa_states (unanchored ast)) \<and> nfa_start (unanchored ast) < length (nfa_states (unanchored ast))"
proof -
  obtain fr N where N: "buildNfaFromAst ast [] = (fr, N)" by fastforce
  have "closed_nfa []" by (simp add: closed_nfa_def targets_def)
  from closed_build [OF N this] have "closed_nfa (N @ [[]])" by simp
  then have "closed_nfa (skip_bytes (length N) (N @ [[]])) \<and> length (skip_bytes (length N) (N @ [[]])) = Suc (length N)"
    unfolding skip_bytes_def using closed_fold [of "N @ [[]]" "length N" "length N" "\<lambda>c. True" int "[0..<256]"] by simp
  with build_grows [OF N] show ?thesis by (simp add: unanchored_def N newState_def Let_def grown_def)
qed

text \<open>A pattern with a match and a small automaton compiles.\<close>

lemma reached_bound: "card (reached_sets (unanchored ast)) \<le> 2 ^ length (nfa_states (unanchored ast))"
proof -
  let ?n = "length (nfa_states (unanchored ast))"
  have "reached_sets (unanchored ast) \<subseteq> Pow {0..<?n}"
    using reached_subset unanchored_closed [of ast] by (fastforce simp: closed_nfa_def)
  then have "card (reached_sets (unanchored ast)) \<le> card (Pow {0..<?n})" by (intro card_mono) auto
  then show ?thesis by (simp add: card_Pow)
qed

lemma small_compiles:
  assumes "length (nfa_states (unanchored ast)) \<le> 4"
  shows "compileAst ast = Inl e \<longleftrightarrow> e = Out_of_bounds \<and> lang ast = {}"
proof -
  have "card (reached_sets (unanchored ast)) \<le> 2 ^ 4"
    using reached_bound [of ast] power_increasing [OF assms, of "2 :: nat"] by linarith
  then have "e = Out_of_bounds \<and> lang ast = {}" if "compileAst ast = Inl e" for e using compile_error [OF that] by auto
  with compile_empty [of ast] show ?thesis by auto
qed

lemma atom_states: "length (nfa_states (unanchored (LITERAL c))) = 3" "length (nfa_states (unanchored (CHAR_CLASS cs))) = 3"
proof -
  have "length (skip_bytes s N) = length N" for s N by (rule skip_bytes_length)
  then show "length (nfa_states (unanchored (LITERAL c))) = 3" "length (nfa_states (unanchored (CHAR_CLASS cs))) = 3"
    by (simp_all add: unanchored_def newState_def Let_def)
qed

end
