(* ===== verification/Regex_Parser.thy ===== *)
theory Regex_Parser
  imports Regex_Compile
begin

text \<open>
  \<^verbatim>\<open>RegexParser\<close> of \<^verbatim>\<open>dfa_builder.cpp\<close> and the entry point \<^verbatim>\<open>DfaBuilder::buildRegexDfa\<close>. The parser's
  position is the rest of the pattern, so that \<^verbatim>\<open>atEnd\<close> is the test for the empty list, \<^verbatim>\<open>peek\<close>
  its first byte and \<^verbatim>\<open>advance\<close> its tail; every exception is \<open>Parse_error\<close>. The descent through
  groups is bounded by a fuel argument; \<open>parse_total\<close> shows that what \<open>parse\<close> hands out is
  always enough. A signed overflow of a repetition count, which the source does not exclude, is
  the value \<open>Overflow\<close>. The character tests are those of the C locale.
\<close>

section \<open>Character sets\<close>

abbreviation byte :: "char \<Rightarrow> u8" where "byte c \<equiv> of_char c"

definition digitSet :: "bool list" where
  "digitSet = map (\<lambda>c. 48 \<le> c \<and> c \<le> 57) [0..<256]"

definition wordSet :: "bool list" where
  "wordSet = map (\<lambda>c. (97 \<le> c \<and> c \<le> 122) \<or> (65 \<le> c \<and> c \<le> 90) \<or> (48 \<le> c \<and> c \<le> 57) \<or> c = 95) [0..<256]"

definition spaceSet :: "bool list" where
  "spaceSet = map (\<lambda>c. c \<in> {32, 9, 10, 13, 12, 11}) [0..<256]"

definition dotSet :: "bool list" where
  "dotSet = map (\<lambda>c. 32 \<le> c \<and> c \<le> 126) [0..<256]"

definition invertSet :: "bool list \<Rightarrow> bool list" where
  "invertSet s = map (\<lambda>c. \<not> s ! c) [0..<256]"

definition fold_case :: "nat \<Rightarrow> bool list \<Rightarrow> bool list" where
  "fold_case c s = (if s ! c \<or> s ! (c - 32) then s[c := True, c - 32 := True] else s)"

definition applyCaseInsensitive :: "bool list \<Rightarrow> bool list" where
  "applyCaseInsensitive s = fold fold_case [97..<123] s"

definition emptySet :: "bool list" where
  "emptySet = replicate 256 False"

definition isdigit :: "u8 \<Rightarrow> bool" where
  "isdigit c \<longleftrightarrow> 48 \<le> c \<and> c \<le> 57"

definition isalpha :: "u8 \<Rightarrow> bool" where
  "isalpha c \<longleftrightarrow> (97 \<le> c \<and> c \<le> 122) \<or> (65 \<le> c \<and> c \<le> 90)"

definition tolower :: "u8 \<Rightarrow> u8" where
  "tolower c = (if 65 \<le> c \<and> c \<le> 90 then c + 32 else c)"

definition toupper :: "u8 \<Rightarrow> u8" where
  "toupper c = (if 97 \<le> c \<and> c \<le> 122 then c - 32 else c)"

section \<open>Atoms\<close>

type_synonym 'a parsed = "regex_error + 'a \<times> bytes"

definition resolveEscapeChar :: "u8 \<Rightarrow> u8" where
  "resolveEscapeChar c =
     (if c = byte (CHR ''n'') then 10 else if c = byte (CHR ''t'') then 9 else if c = byte (CHR ''r'') then 13
      else if c = byte (CHR ''f'') then 12 else if c = byte (CHR ''v'') then 11 else if c = byte (CHR ''a'') then 7
      else if c = byte (CHR ''0'') then 0 else c)"

definition escapeSet :: "u8 \<Rightarrow> bool list option" where
  "escapeSet c =
     (if c = byte (CHR ''d'') then Some digitSet else if c = byte (CHR ''D'') then Some (invertSet digitSet)
      else if c = byte (CHR ''w'') then Some wordSet else if c = byte (CHR ''W'') then Some (invertSet wordSet)
      else if c = byte (CHR ''s'') then Some spaceSet else if c = byte (CHR ''S'') then Some (invertSet spaceSet)
      else None)"

text \<open>A literal byte, of both cases when the pattern ignores case.\<close>

definition literalAtom :: "bool \<Rightarrow> u8 \<Rightarrow> AstNode" where
  "literalAtom ci c =
     (if ci \<and> isalpha c then CHAR_CLASS (emptySet[unat (tolower c) := True, unat (toupper c) := True]) else LITERAL c)"

definition classAtom :: "bool \<Rightarrow> bool list \<Rightarrow> AstNode" where
  "classAtom ci s = CHAR_CLASS (if ci then applyCaseInsensitive s else s)"

definition parseCharClassEscape :: "bytes \<Rightarrow> bool list parsed" where
  "parseCharClassEscape s = (case s of [] \<Rightarrow> Inl Parse_error
     | c # s \<Rightarrow> Inr (case escapeSet c of Some cs \<Rightarrow> cs | None \<Rightarrow> emptySet[unat (resolveEscapeChar c) := True], s))"

definition parseEscapeAtom :: "bool \<Rightarrow> bytes \<Rightarrow> AstNode parsed" where
  "parseEscapeAtom ci s = (case s of [] \<Rightarrow> Inl Parse_error
     | c # s \<Rightarrow> Inr (case escapeSet c of Some cs \<Rightarrow> classAtom ci cs | None \<Rightarrow> literalAtom ci (resolveEscapeChar c), s))"

definition add_set :: "bool list \<Rightarrow> bool list \<Rightarrow> bool list" where
  "add_set cs s = map (\<lambda>i. s ! i \<or> cs ! i) [0..<256]"

definition add_range :: "u8 \<Rightarrow> u8 \<Rightarrow> bool list \<Rightarrow> bool list" where
  "add_range start end_char s = fold (\<lambda>c s. s[c := True]) [unat start..<Suc (unat end_char)] s"

text \<open>The members of a bracket expression up to its closing bracket, which is a member when it comes first.\<close>

definition range_end :: "bytes \<Rightarrow> (u8 \<times> bytes) option" where
  "range_end s = (case s of d # e # s' \<Rightarrow> if d = byte (CHR ''-'') \<and> e \<noteq> byte (CHR '']'') then Some (e, s') else None | _ \<Rightarrow> None)"

function class_loop :: "bool \<Rightarrow> bool list \<Rightarrow> bytes \<Rightarrow> bool list parsed" where
  "class_loop first cs [] = Inl Parse_error"
| "class_loop first cs (c # s) =
     (if c = byte (CHR '']'') \<and> \<not> first then Inr (cs, s)
      else if c = byte (CHR 0x5C) then (case parseCharClassEscape s of
        Inl e \<Rightarrow> Inl e
      | Inr (escape_set, s) \<Rightarrow> class_loop False (add_set escape_set cs) s)
      else case range_end s of
        None \<Rightarrow> class_loop False (cs[unat c := True]) s
      | Some (e, s) \<Rightarrow> if e < c then Inl Parse_error else class_loop False (add_range c e cs) s)"
  by pat_completeness auto
termination
  by (relation "measure (\<lambda>(first, cs, s). length s)")
    (auto simp: parseCharClassEscape_def range_end_def split: list.splits if_splits)

definition parseCharClassAtom :: "bool \<Rightarrow> bytes \<Rightarrow> AstNode parsed" where
  "parseCharClassAtom ci s =
     (let negated = (s \<noteq> [] \<and> hd s = byte (CHR ''^''));
          s = (if negated then tl s else s)
      in case class_loop True emptySet s of
           Inl e \<Rightarrow> Inl e
         | Inr (cs, s) \<Rightarrow> Inr (classAtom ci (if negated then invertSet cs else cs), s))"

section \<open>Repetitions\<close>

fun number_loop :: "int \<Rightarrow> bytes \<Rightarrow> int parsed" where
  "number_loop num [] = Inr (num, [])"
| "number_loop num (c # s) =
     (if isdigit c
      then let num' = num * 10 + (int (unat c) - 48) in if num' > 2147483647 then Inl Overflow else number_loop num' s
      else Inr (num, c # s))"

definition parseNumber :: "bytes \<Rightarrow> int parsed" where
  "parseNumber s = (if s = [] \<or> \<not> isdigit (hd s) then Inl Parse_error else number_loop 0 s)"

definition add_node :: "AstNode \<Rightarrow> AstNode option \<Rightarrow> AstNode option" where
  "add_node node result = Some (case result of None \<Rightarrow> node | Some r \<Rightarrow> CONCAT r node)"

definition expandBoundedRepetition :: "AstNode \<Rightarrow> int \<Rightarrow> int \<Rightarrow> regex_error + AstNode" where
  "expandBoundedRepetition atom min_rep max_rep =
     (if min_rep = 0 \<and> max_rep = 0 then Inl Parse_error
      else if min_rep = 1 \<and> max_rep = 1 then Inr atom
      else let result = (add_node atom ^^ nat min_rep) None;
               result = (if max_rep = -1 then add_node (STAR atom) result
                         else if max_rep > min_rep then (add_node (OPTIONAL atom) ^^ nat (max_rep - min_rep)) result
                         else result)
           in case result of None \<Rightarrow> Inl Parse_error | Some r \<Rightarrow> Inr r)"

definition skip_lazy :: "bytes \<Rightarrow> bytes" where
  "skip_lazy s = (if s \<noteq> [] \<and> hd s = byte (CHR ''?'') then tl s else s)"

definition parse_max :: "int \<Rightarrow> bytes \<Rightarrow> int parsed" where
  "parse_max min_rep s =
     (if s \<noteq> [] \<and> hd s = byte (CHR '','')
      then if tl s \<noteq> [] \<and> hd (tl s) \<noteq> byte (CHR ''}'') then parseNumber (tl s) else Inr (-1, tl s)
      else Inr (min_rep, s))"

definition parseBoundedRepetition :: "AstNode \<Rightarrow> bytes \<Rightarrow> AstNode parsed" where
  "parseBoundedRepetition atom s = (case parseNumber s of
     Inl e \<Rightarrow> Inl e
   | Inr (min_rep, s) \<Rightarrow> (case parse_max min_rep s of
       Inl e \<Rightarrow> Inl e
     | Inr (max_rep, s) \<Rightarrow>
         if s = [] \<or> hd s \<noteq> byte (CHR ''}'') then Inl Parse_error
         else let s = skip_lazy (tl s) in
           if min_rep < 0 \<or> (max_rep \<noteq> -1 \<and> max_rep < min_rep) then Inl Parse_error
           else (case expandBoundedRepetition atom min_rep max_rep of Inl e \<Rightarrow> Inl e | Inr r \<Rightarrow> Inr (r, s))))"

definition quantifier :: "AstNode \<Rightarrow> bytes \<Rightarrow> AstNode parsed" where
  "quantifier atom s = (case s of [] \<Rightarrow> Inr (atom, [])
     | c # s' \<Rightarrow>
         if c = byte (CHR ''*'') then Inr (STAR atom, skip_lazy s')
         else if c = byte (CHR ''+'') then Inr (PLUS atom, skip_lazy s')
         else if c = byte (CHR ''?'') then Inr (OPTIONAL atom, skip_lazy s')
         else if c = byte (CHR ''{'') then parseBoundedRepetition atom s'
         else Inr (atom, s))"

section \<open>Expressions\<close>

function (sequential) parseAlternation :: "nat \<Rightarrow> bool \<Rightarrow> bytes \<Rightarrow> AstNode parsed"
  and alternation_loop :: "nat \<Rightarrow> bool \<Rightarrow> AstNode \<Rightarrow> bytes \<Rightarrow> AstNode parsed"
  and parseConcat :: "nat \<Rightarrow> bool \<Rightarrow> AstNode option \<Rightarrow> bytes \<Rightarrow> AstNode parsed"
  and parseQuantified :: "nat \<Rightarrow> bool \<Rightarrow> bytes \<Rightarrow> AstNode parsed"
  and parseAtom :: "nat \<Rightarrow> bool \<Rightarrow> bytes \<Rightarrow> AstNode parsed" where
  "parseAlternation 0 ci s = Inl Out_of_fuel"
| "parseAlternation (Suc f) ci s = (case parseConcat f ci None s of
     Inl e \<Rightarrow> Inl e | Inr (left, s) \<Rightarrow> alternation_loop f ci left s)"
| "alternation_loop 0 ci left s = Inl Out_of_fuel"
| "alternation_loop (Suc f) ci left s =
     (if s \<noteq> [] \<and> hd s = byte (CHR ''|'')
      then (case parseConcat f ci None (tl s) of
        Inl e \<Rightarrow> Inl e | Inr (right, s) \<Rightarrow> alternation_loop f ci (ALTERNATION left right) s)
      else Inr (left, s))"
| "parseConcat 0 ci result s = Inl Out_of_fuel"
| "parseConcat (Suc f) ci result s =
     (if s \<noteq> [] \<and> hd s \<noteq> byte (CHR ''|'') \<and> hd s \<noteq> byte (CHR '')'')
      then (case parseQuantified f ci s of
        Inl e \<Rightarrow> Inl e | Inr (atom, s) \<Rightarrow> parseConcat f ci (add_node atom result) s)
      else case result of None \<Rightarrow> Inl Parse_error | Some r \<Rightarrow> Inr (r, s))"
| "parseQuantified 0 ci s = Inl Out_of_fuel"
| "parseQuantified (Suc f) ci s = (case parseAtom f ci s of Inl e \<Rightarrow> Inl e | Inr (atom, s) \<Rightarrow> quantifier atom s)"
| "parseAtom 0 ci s = Inl Out_of_fuel"
| "parseAtom (Suc f) ci s = (case s of [] \<Rightarrow> Inl Parse_error
     | c # s \<Rightarrow>
         if c = byte (CHR ''('') then (case parseAlternation f ci s of
           Inl e \<Rightarrow> Inl e
         | Inr (inner, s) \<Rightarrow> if s = [] \<or> hd s \<noteq> byte (CHR '')'') then Inl Parse_error else Inr (inner, tl s))
         else if c = byte (CHR ''['') then parseCharClassAtom ci s
         else if c = byte (CHR ''.'') then Inr (classAtom ci dotSet, s)
         else if c = byte (CHR 0x5C) then parseEscapeAtom ci s
         else Inr (literalAtom ci c, s))"

  by pat_completeness auto
termination
  by (relation "measure (case_sum (case_sum (\<lambda>(f, _). f) (\<lambda>(f, _). f)) (case_sum (\<lambda>(f, _). f) (case_sum (\<lambda>(f, _). f) (\<lambda>(f, _). f))))") simp_all

definition parse :: "bytes \<Rightarrow> regex_error + AstNode" where
  "parse pattern =
     (let ci = (length pattern \<ge> 4 \<and> take 4 pattern = lit ''(?i)'');
          s = (if ci then drop 4 pattern else pattern)
      in case parseAlternation (6 * length s + 5) ci s of
           Inl e \<Rightarrow> Inl e
         | Inr (ast, s) \<Rightarrow> if s \<noteq> [] then Inl Parse_error else Inr ast)"

definition buildRegexDfa :: "bytes \<Rightarrow> regex_error + flat_2d_dfa_array_t \<times> u64" where
  "buildRegexDfa pattern = (if pattern = [] then Inl Empty_pattern
     else case parse pattern of Inl e \<Rightarrow> Inl e | Inr ast \<Rightarrow> compileAst ast)"

section \<open>The parser returns\<close>

text \<open>Well-formed trees: every class has an entry for every byte.\<close>

primrec wf_ast :: "AstNode \<Rightarrow> bool" where
  "wf_ast (LITERAL c) = True"
| "wf_ast (CHAR_CLASS cs) = (length cs = 256)"
| "wf_ast (CONCAT l r) = (wf_ast l \<and> wf_ast r)"
| "wf_ast (ALTERNATION l r) = (wf_ast l \<and> wf_ast r)"
| "wf_ast (STAR r) = wf_ast r"
| "wf_ast (PLUS r) = wf_ast r"
| "wf_ast (OPTIONAL r) = wf_ast r"

text \<open>
  What a step of the parser does: it fails with an error of the pattern (never for want of fuel), or it hands
  on a result with a property and at most \<open>n\<close> of the input.
\<close>

definition parses :: "nat \<Rightarrow> ('a \<Rightarrow> bool) \<Rightarrow> 'a parsed \<Rightarrow> bool" where
  "parses n P res \<longleftrightarrow> (case res of Inl e \<Rightarrow> e = Parse_error \<or> e = Overflow | Inr (r, s) \<Rightarrow> P r \<and> length s \<le> n)"

lemma parses_simps [simp]:
  "parses n P (Inl e) \<longleftrightarrow> e = Parse_error \<or> e = Overflow" "parses n P (Inr (r, s)) \<longleftrightarrow> P r \<and> length s \<le> n"
  by (simp_all add: parses_def)

lemma parses_mono: "parses n P res \<Longrightarrow> n \<le> m \<Longrightarrow> parses m P res"
  by (auto simp: parses_def split: sum.splits)

lemma parses_bind:
  assumes "parses n P res" "\<And>r s. res = Inr (r, s) \<Longrightarrow> P r \<Longrightarrow> length s \<le> n \<Longrightarrow> parses m Q (g r s)"
  shows "parses m Q (case res of Inl e \<Rightarrow> Inl e | Inr (r, s) \<Rightarrow> g r s)"
proof (cases res)
  case (Inr b)
  with assms show ?thesis by (cases b) simp
qed (use assms(1) in simp)

lemma set_lengths [simp]:
  "length digitSet = 256" "length wordSet = 256" "length spaceSet = 256" "length dotSet = 256" "length (invertSet s) = 256"
  "length emptySet = 256" "length (add_set cs s) = 256"
  by (simp_all add: digitSet_def wordSet_def spaceSet_def dotSet_def invertSet_def emptySet_def add_set_def)

lemma length_applyCaseInsensitive [simp]: "length (applyCaseInsensitive s) = length s"
proof -
  have "length (fold fold_case xs s) = length s" for xs
    by (induction xs arbitrary: s) (simp_all add: fold_case_def)
  then show ?thesis by (simp only: applyCaseInsensitive_def)
qed

lemma length_add_range [simp]: "length (add_range c e s) = length s"
proof -
  have "length (fold (\<lambda>c s. s[c := True]) xs s) = length s" for xs by (induction xs arbitrary: s) simp_all
  then show ?thesis by (simp add: add_range_def)
qed

lemma wf_atoms [simp]: "wf_ast (literalAtom ci c)" "wf_ast (classAtom ci cs) \<longleftrightarrow> length cs = 256"
  by (simp_all add: literalAtom_def classAtom_def)

lemma length_escapeSet: "escapeSet c = Some cs \<Longrightarrow> length cs = 256"
  by (auto simp: escapeSet_def split: if_splits)

lemma class_loop_parses: "length cs = 256 \<Longrightarrow> parses (length s) (\<lambda>cs. length cs = 256) (class_loop first cs s)"
proof (induction first cs s rule: class_loop.induct)
  case (2 first cs c s)
  have e: "parses (length s) (\<lambda>cs. length cs = 256) (parseCharClassEscape s)"
    using length_escapeSet by (auto simp: parseCharClassEscape_def split: list.splits option.splits)
  show ?case
  proof (cases "c = byte (CHR '']'') \<and> \<not> first")
    case False
    note IH = "2.IH" [OF False]
    show ?thesis
    proof (cases "c = byte (CHR 0x5C)")
      case True
      have "parses (length (c # s)) (\<lambda>cs. length cs = 256) (case parseCharClassEscape s of
        Inl e \<Rightarrow> Inl e | Inr (escape_set, s) \<Rightarrow> class_loop False (add_set escape_set cs) s)"
        using e by (rule parses_bind) (use IH(1) [OF True] in \<open>fastforce simp: parses_def split: sum.splits\<close>)
      with True False show ?thesis by simp
    next
      case plain: False
      show ?thesis
      proof (cases "range_end s")
        case None
        with IH(2) [OF plain None] "2.prems" False plain show ?thesis by (auto simp: parses_def split: sum.splits)
      next
        case (Some es)
        obtain e s' where es: "es = (e, s')" by (cases es)
        then have "length s' \<le> length s" using Some by (auto simp: range_end_def split: list.splits if_splits)
        moreover have "parses (length s') (\<lambda>cs. length cs = 256) (class_loop False (add_range c e cs) s')" if "\<not> e < c"
          using IH(3) [OF plain Some es [symmetric] that] "2.prems" by simp
        ultimately show ?thesis using False plain Some es by (auto simp: parses_def split: sum.splits)
      qed
    qed
  qed (use "2.prems" in simp)
qed simp

lemma parseCharClassAtom_parses: "parses (length s) wf_ast (parseCharClassAtom ci s)"
  unfolding parseCharClassAtom_def Let_def
  by (rule parses_bind [OF class_loop_parses]) auto

lemma parseEscapeAtom_parses: "parses (length s) wf_ast (parseEscapeAtom ci s)"
  using length_escapeSet by (auto simp: parseEscapeAtom_def split: list.splits option.splits)

lemma number_loop_parses: "0 \<le> n \<Longrightarrow> parses (length s) (\<lambda>n. 0 \<le> n) (number_loop n s)"
proof (induction n s rule: number_loop.induct)
  case (2 num c s)
  have "0 \<le> num * 10 + (int (unat c) - 48)" if "isdigit c"
    using that "2.prems" by (simp add: isdigit_def word_le_nat_alt del: of_nat_unat)
  with 2 show ?case by (auto simp: Let_def parses_def split: sum.splits)
qed simp

lemma parseNumber_parses: "parses (length s) (\<lambda>n. 0 \<le> n) (parseNumber s)"
  by (simp add: parseNumber_def number_loop_parses)

lemma parse_max_parses: "0 \<le> n \<Longrightarrow> parses (length s) (\<lambda>_. True) (parse_max n s)"
  using parseNumber_parses [of "tl s"] by (auto simp: parse_max_def parses_def split: sum.splits)

lemma add_nodes: "wf_ast node \<Longrightarrow> (\<forall>r. result = Some r \<longrightarrow> wf_ast r) \<Longrightarrow> (add_node node ^^ n) result = Some r \<Longrightarrow> wf_ast r"
  by (induction n arbitrary: r) (auto simp: add_node_def split: option.splits)

lemma expand_wf: "wf_ast atom \<Longrightarrow> expandBoundedRepetition atom m n = Inr r \<Longrightarrow> wf_ast r"
proof -
  assume atom: "wf_ast atom" and run: "expandBoundedRepetition atom m n = Inr r"
  let ?copies = "(add_node atom ^^ nat m) None"
  have copies: "\<forall>r. ?copies = Some r \<longrightarrow> wf_ast r" using add_nodes [OF atom, of None "nat m"] by simp
  have "r = atom \<or> add_node (STAR atom) ?copies = Some r \<or>
    (add_node (OPTIONAL atom) ^^ nat (n - m)) ?copies = Some r \<or> ?copies = Some r"
    using run by (simp add: expandBoundedRepetition_def Let_def split: if_splits option.splits)
  then show "wf_ast r"
    using atom copies add_nodes [OF _ copies, of "OPTIONAL atom" "nat (n - m)" r] add_nodes [OF _ copies, of "STAR atom" 1 r]
    by auto
qed

lemma expand_error: "expandBoundedRepetition atom m n = Inl e \<Longrightarrow> e = Parse_error"
  by (auto simp: expandBoundedRepetition_def Let_def split: if_splits option.splits)

lemma length_skip_lazy: "length (skip_lazy s) \<le> length s"
  by (simp add: skip_lazy_def)

lemma parseBoundedRepetition_parses: "wf_ast atom \<Longrightarrow> parses (length s) wf_ast (parseBoundedRepetition atom s)"
  unfolding parseBoundedRepetition_def
proof (rule parses_bind [OF parseNumber_parses], rule parses_bind [OF parse_max_parses])
  fix m n :: int and s1 s2 :: bytes
  assume "wf_ast atom" "length s1 \<le> length s" "length s2 \<le> length s1"
  moreover have "length (skip_lazy (tl s2)) \<le> length s2" using length_skip_lazy [of "tl s2"] by simp
  ultimately show "parses (length s) wf_ast (if s2 = [] \<or> hd s2 \<noteq> byte (CHR ''}'') then Inl Parse_error
         else let s = skip_lazy (tl s2) in
           if m < 0 \<or> (n \<noteq> -1 \<and> n < m) then Inl Parse_error
           else (case expandBoundedRepetition atom m n of Inl e \<Rightarrow> Inl e | Inr r \<Rightarrow> Inr (r, s)))"
    using expand_wf [of atom m n] expand_error [of atom m n] by (auto simp: Let_def split: sum.splits)
qed

lemma quantifier_parses: "wf_ast atom \<Longrightarrow> parses (length s) wf_ast (quantifier atom s)"
proof (cases s)
  case (Cons c s')
  assume "wf_ast atom"
  then show ?thesis
    using length_skip_lazy [of s'] parseBoundedRepetition_parses [of atom s'] Cons
    by (auto simp: quantifier_def parses_def split: sum.splits)
qed (simp add: quantifier_def)

lemma descent_parses:
  "(6 * length s + 4 \<le> f \<longrightarrow> parses (length s - 1) wf_ast (parseAlternation f ci s))"
  "(6 * length s + 1 \<le> f \<longrightarrow> wf_ast left \<longrightarrow> parses (length s) wf_ast (alternation_loop f ci left s))"
  "(6 * length s + 3 \<le> f \<longrightarrow> pred_option wf_ast result \<longrightarrow>
      parses (if result = None then length s - 1 else length s) wf_ast (parseConcat f ci result s))"
  "(6 * length s + 2 \<le> f \<longrightarrow> parses (length s - 1) wf_ast (parseQuantified f ci s))"
  "(6 * length s + 1 \<le> f \<longrightarrow> parses (length s - 1) wf_ast (parseAtom f ci s))"
proof (induction f ci s and f ci left s and f ci result s and f ci s and f ci s
    rule: parseAlternation_alternation_loop_parseConcat_parseQuantified_parseAtom.induct)
  case (2 f ci s)
  show ?case
    unfolding parseAlternation.simps
  proof (intro impI parses_bind)
    assume fuel: "6 * length s + 4 \<le> Suc f"
    then show "parses (length s - 1) wf_ast (parseConcat f ci None s)" using "2.IH"(1) by simp
    fix r s' assume run: "parseConcat f ci None s = Inr (r, s')" and r: "wf_ast r" "length s' \<le> length s - 1"
    show "parses (length s - 1) wf_ast (alternation_loop f ci r s')"
      using "2.IH"(2) [OF run refl] fuel r by (auto elim: parses_mono)
  qed
next
  case (4 f ci left s)
  show ?case
  proof (cases "s \<noteq> [] \<and> hd s = byte (CHR ''|'')")
    case True
    show ?thesis
      unfolding alternation_loop.simps if_P [OF True]
    proof (intro impI parses_bind)
      assume fuel: "6 * length s + 1 \<le> Suc f" and left: "wf_ast left"
      have len: "length s = Suc (length (tl s))" using True by simp
      then have "parses (length (tl s) - 1) wf_ast (parseConcat f ci None (tl s))" using "4.IH"(1) [OF True] fuel by simp
      then show "parses (length (tl s)) wf_ast (parseConcat f ci None (tl s))" by (rule parses_mono) simp
      fix r s' assume run: "parseConcat f ci None (tl s) = Inr (r, s')" and r: "wf_ast r" "length s' \<le> length (tl s)"
      from r(2) fuel len have "6 * length s' + 1 \<le> f" by linarith
      with "4.IH"(2) [OF True run refl] left r(1) have "parses (length s') wf_ast (alternation_loop f ci (ALTERNATION left r) s')"
        by simp
      then show "parses (length s) wf_ast (alternation_loop f ci (ALTERNATION left r) s')"
        by (rule parses_mono) (use r(2) len in linarith)
    qed
  qed auto
next
  case (6 f ci result s)
  let ?go = "s \<noteq> [] \<and> hd s \<noteq> byte (CHR ''|'') \<and> hd s \<noteq> byte (CHR '')'')"
  show ?case
  proof (cases ?go)
    case True
    show ?thesis
      unfolding parseConcat.simps if_P [OF True]
    proof (intro impI parses_bind)
      assume fuel: "6 * length s + 3 \<le> Suc f" and result: "pred_option wf_ast result"
      then show "parses (length s - 1) wf_ast (parseQuantified f ci s)" using "6.IH"(1) [OF True] by simp
      fix r s' assume run: "parseQuantified f ci s = Inr (r, s')" and r: "wf_ast r" "length s' \<le> length s - 1"
      have "pred_option wf_ast (add_node r result)" using result r(1) by (auto simp: add_node_def split: option.splits)
      moreover have len: "length s > 0" using True by simp
      from r(2) fuel len have "6 * length s' + 3 \<le> f" by linarith
      ultimately have "parses (length s') wf_ast (parseConcat f ci (add_node r result) s')"
        using "6.IH"(2) [OF True run refl] by (simp add: add_node_def)
      then show "parses (if result = None then length s - 1 else length s) wf_ast (parseConcat f ci (add_node r result) s')"
        by (rule parses_mono) (use r(2) len in auto)
    qed
  next
    case False
    then show ?thesis by (auto split: option.splits)
  qed
next
  case (8 f ci s)
  show ?case
    unfolding parseQuantified.simps
  proof (intro impI parses_bind)
    assume fuel: "6 * length s + 2 \<le> Suc f"
    then show "parses (length s - 1) wf_ast (parseAtom f ci s)" using "8.IH" by simp
    fix r and s' :: bytes assume "wf_ast r" "length s' \<le> length s - 1"
    then show "parses (length s - 1) wf_ast (quantifier r s')" using quantifier_parses [of r s'] by (auto elim: parses_mono)
  qed
next
  case (10 f ci s)
  show ?case
  proof (cases s)
    case (Cons c s')
    have group: "parses (length s') wf_ast (case parseAlternation f ci s' of Inl e \<Rightarrow> Inl e
      | Inr (inner, s) \<Rightarrow> if s = [] \<or> hd s \<noteq> byte (CHR '')'') then Inl Parse_error else Inr (inner, tl s))"
      if "6 * length s + 1 \<le> Suc f" "c = byte (CHR ''('')"
    proof (rule parses_bind)
      show "parses (length s' - 1) wf_ast (parseAlternation f ci s')" using "10.IH" [OF Cons that(2)] that(1) Cons by simp
    qed auto
    show ?thesis
      using group parseCharClassAtom_parses [of s' ci] parseEscapeAtom_parses [of s' ci] by (simp add: Cons)
  qed simp
qed simp_all

lemma parse_total: "case parse pattern of Inl e \<Rightarrow> e = Parse_error \<or> e = Overflow | Inr ast \<Rightarrow> wf_ast ast"
proof -
  have "parses (length s - 1) wf_ast (parseAlternation (6 * length s + 5) ci s)" for ci s
    using descent_parses(1) [of s "6 * length s + 5" ci] by simp
  then have "case (case parseAlternation (6 * length s + 5) ci s of Inl e \<Rightarrow> Inl e
      | Inr (ast, s) \<Rightarrow> if s \<noteq> [] then Inl Parse_error else Inr ast) of Inl e \<Rightarrow> e = Parse_error \<or> e = Overflow | Inr ast \<Rightarrow> wf_ast ast" for ci s
    unfolding parses_def by (fastforce split: sum.splits)
  then show ?thesis unfolding parse_def Let_def by blast
qed

section \<open>Bounded repetitions\<close>

definition power_lang :: "bytes set \<Rightarrow> nat \<Rightarrow> bytes set" where
  "power_lang L n = (conc L ^^ n) {[]}"

lemma conc_nil [simp]: "conc {[]} L = L" "conc L {[]} = L"
  by (auto simp: conc_def)

lemma conc_assoc: "conc (conc A B) C = conc A (conc B C)"
  by (auto simp: conc_def) (metis append_assoc)+

lemma conc_UN: "conc A (\<Union>k\<in>K. B k) = (\<Union>k\<in>K. conc A (B k))" "conc (\<Union>k\<in>K. B k) A = (\<Union>k\<in>K. conc (B k) A)"
  by (auto simp: conc_def)

lemma power_lang_simps [simp]: "power_lang L 0 = {[]}" "power_lang L (Suc n) = conc L (power_lang L n)"
  by (simp_all add: power_lang_def)

lemma power_lang_add: "conc (power_lang L m) (power_lang L n) = power_lang L (m + n)"
  by (induction m) (simp_all add: conc_assoc)

lemma star_powers: "star L = (\<Union>k. power_lang L k)"
proof
  show "star L \<subseteq> (\<Union>k. power_lang L k)"
  proof
    fix w assume "w \<in> star L"
    then show "w \<in> (\<Union>k. power_lang L k)"
    proof induction
      case star_nil
      have "[] \<in> power_lang L 0" by simp
      then show ?case by blast
    next
      case (star_app u v)
      then obtain k where "v \<in> power_lang L k" by blast
      with star_app(1) have "u @ v \<in> power_lang L (Suc k)" by (auto simp: conc_def)
      then show ?case by blast
    qed
  qed
  have "power_lang L k \<subseteq> star L" for k by (induction k) (auto simp: conc_def intro: star.intros)
  then show "(\<Union>k. power_lang L k) \<subseteq> star L" by blast
qed

lemma optional_powers: "power_lang (insert [] L) k = (\<Union>j\<in>{0..k}. power_lang L j)"
proof (induction k)
  case (Suc k)
  have "conc (insert [] L) A = A \<union> conc L A" for A by (auto simp: conc_def)
  then have "power_lang (insert [] L) (Suc k) = (\<Union>j\<in>{0..k}. power_lang L j) \<union> (\<Union>j\<in>{0..k}. power_lang L (Suc j))"
    unfolding power_lang_simps Suc by (simp add: conc_UN UN_Un_distrib)
  also have "\<dots> = (\<Union>j\<in>{0..Suc k}. power_lang L j)"
  proof -
    have "(\<Union>j\<in>{0..k}. power_lang L (Suc j)) = (\<Union>j\<in>Suc ` {0..k}. power_lang L j)" by blast
    moreover have "{0..Suc k} = {0..k} \<union> Suc ` {0..k}" by auto
    ultimately show ?thesis by (simp only: UN_Un)
  qed
  finally show ?case .
qed simp

text \<open>A partial result stands for the empty word before its first node.\<close>

definition olang :: "AstNode option \<Rightarrow> bytes set" where
  "olang result = (case result of None \<Rightarrow> {[]} | Some r \<Rightarrow> lang r)"

lemma olang_add [simp]: "olang (add_node x result) = conc (olang result) (lang x)"
  by (simp add: olang_def add_node_def split: option.splits)

lemma olang_adds: "olang ((add_node x ^^ k) result) = conc (olang result) (power_lang (lang x) k)"
proof (induction k)
  case (Suc k)
  have "conc (power_lang (lang x) k) (lang x) = power_lang (lang x) (Suc k)" using power_lang_add [of "lang x" k 1] by simp
  then show ?case by (simp add: Suc conc_assoc)
qed simp

lemma repetition_lang:
  assumes "expandBoundedRepetition atom m n = Inr r" "0 \<le> m" "n = -1 \<or> m \<le> n"
  shows "lang r = (\<Union>k\<in>{k. nat m \<le> k \<and> (n = -1 \<or> k \<le> nat n)}. power_lang (lang atom) k)"
proof -
  let ?L = "lang atom" and ?copies = "(add_node atom ^^ nat m) None"
  have copies: "olang ?copies = power_lang ?L (nat m)" unfolding olang_adds by (simp add: olang_def)
  consider (one) "m = 1" "n = 1" "r = atom" | (more) "n = -1" "add_node (STAR atom) ?copies = Some r"
    | (upto) "m < n" "(add_node (OPTIONAL atom) ^^ nat (n - m)) ?copies = Some r" | (exact) "m = n" "?copies = Some r"
    using assms by (auto simp: expandBoundedRepetition_def Let_def split: if_splits option.splits)
  then show ?thesis
  proof cases
    case one
    have "{k. Suc 0 \<le> k \<and> k \<le> Suc 0} = {Suc 0}" by auto
    with one show ?thesis by simp
  next
    case more
    have "lang r = olang (add_node (STAR atom) ?copies)" using more by (simp add: olang_def)
    also have "\<dots> = (\<Union>k. power_lang ?L (nat m + k))" by (simp add: copies star_powers conc_UN power_lang_add)
    also have "\<dots> = (\<Union>k\<in>{k. nat m \<le> k}. power_lang ?L k)" by (auto simp: le_iff_add) 
    finally show ?thesis using more(1) by simp
  next
    case upto
    have "lang r = olang ((add_node (OPTIONAL atom) ^^ nat (n - m)) ?copies)" using upto by (simp add: olang_def)
    also have "\<dots> = (\<Union>k\<in>{0..nat (n - m)}. power_lang ?L (nat m + k))"
      unfolding olang_adds [where x = "OPTIONAL atom"] copies by (simp add: optional_powers conc_UN power_lang_add)
    also have "\<dots> = (\<Union>k\<in>(\<lambda>k. nat m + k) ` {0..nat (n - m)}. power_lang ?L k)" by blast
    also have "(\<lambda>k. nat m + k) ` {0..nat (n - m)} = {k. nat m \<le> k \<and> (n = -1 \<or> k \<le> nat n)}"
      using upto(1) assms(2) by (auto simp: image_iff intro!: bexI [of _ "k - nat m" for k])
    finally show ?thesis .
  next
    case exact
    then have "lang r = power_lang ?L (nat m)" using copies by (simp add: olang_def)
    moreover have "{k. nat m \<le> k \<and> (n = -1 \<or> k \<le> nat n)} = {nat m}" using exact(1) assms(2) by auto
    ultimately show ?thesis by simp
  qed
qed

section \<open>Printing and parsing\<close>

text \<open>A pattern for every tree: groups around the operands, a backslash before the bytes with a meaning.\<close>

definition special :: "u8 set" where
  "special = set (map byte [CHR ''('', CHR '')'', CHR ''['', CHR ''.'', CHR ''|'', CHR ''*'', CHR ''+'', CHR ''?'', CHR ''{'', CHR 0x5C])"

definition print_literal :: "u8 \<Rightarrow> bytes" where
  "print_literal c = (if c \<in> special then [byte (CHR 0x5C), c] else [c])"

definition print_member :: "u8 \<Rightarrow> bytes" where
  "print_member c = (if isalpha c \<or> isdigit c then [c] else [byte (CHR 0x5C), c])"

definition members :: "bool list \<Rightarrow> u8 list" where
  "members cs = map word_of_nat (filter (\<lambda>c. cs ! c) [0..<256])"

definition print_class :: "bool list \<Rightarrow> bytes" where
  "print_class cs = (if members cs = [] then [byte (CHR ''[''), byte (CHR ''^''), byte (CHR 0x5C), byte (CHR ''w''), byte (CHR 0x5C), byte (CHR ''W''), byte (CHR '']'')]
     else byte (CHR ''['') # concat (map print_member (members cs)) @ [byte (CHR '']'')])"

definition group :: "bytes \<Rightarrow> bytes" where
  "group s = byte (CHR ''('') # s @ [byte (CHR '')'')]"

fun print_ast :: "AstNode \<Rightarrow> bytes" where
  "print_ast (LITERAL c) = print_literal c"
| "print_ast (CHAR_CLASS cs) = print_class cs"
| "print_ast (CONCAT l r) = group (print_ast l) @ group (print_ast r)"
| "print_ast (ALTERNATION l r) = group (print_ast l) @ byte (CHR ''|'') # group (print_ast r)"
| "print_ast (STAR r) = group (print_ast r) @ [byte (CHR ''*'')]"
| "print_ast (PLUS r) = group (print_ast r) @ [byte (CHR ''+'')]"
| "print_ast (OPTIONAL r) = group (print_ast r) @ [byte (CHR ''?'')]"

text \<open>The places where an expression ends.\<close>

definition stops :: "bytes \<Rightarrow> bool" where
  "stops rest \<longleftrightarrow> rest = [] \<or> hd rest = byte (CHR '')'')"

lemma quantifier_stops [simp]: "stops rest \<Longrightarrow> quantifier r rest = Inr (r, rest)"
  by (cases rest) (auto simp: stops_def quantifier_def)

lemma concat_stops: "stops rest \<or> hd rest = byte (CHR ''|'') \<Longrightarrow> 0 < f \<Longrightarrow> parseConcat f ci (Some r) rest = Inr (r, rest)"
  by (cases f) (auto simp: stops_def)

lemma alternation_stops: "stops rest \<Longrightarrow> 0 < f \<Longrightarrow> alternation_loop f ci r rest = Inr (r, rest)"
  by (cases f) (auto simp: stops_def)

lemma parse_single:
  assumes "parseQuantified f ci s = Inr (r, rest)" "s \<noteq> []" "hd s \<noteq> byte (CHR ''|'')" "hd s \<noteq> byte (CHR '')'')" "stops rest" "0 < f"
  shows "parseAlternation (Suc (Suc f)) ci s = Inr (r, rest)"
  using assms alternation_stops [of rest "Suc f" ci r] concat_stops [of rest f ci r]
  by (simp add: add_node_def del: alternation_loop.simps)

text \<open>Members of a class.\<close>

lemma escape_plain:
  "\<not> isalpha c \<Longrightarrow> \<not> isdigit c \<Longrightarrow> escapeSet c = None \<and> resolveEscapeChar c = c"
  by (auto simp: escapeSet_def resolveEscapeChar_def isalpha_def isdigit_def)

definition add_member :: "u8 \<Rightarrow> bool list \<Rightarrow> bool list" where
  "add_member c cs = cs[unat c := True]"

lemma range_end_None: "hd s \<noteq> byte (CHR ''-'') \<Longrightarrow> range_end s = None"
  by (auto simp: range_end_def split: list.splits)

lemma add_single: "length cs = 256 \<Longrightarrow> add_set (emptySet[unat (c :: u8) := True]) cs = add_member c cs"
  using u8_less [of c] by (auto simp: list_eq_iff_nth_eq add_set_def emptySet_def add_member_def nth_list_update)

lemma class_member:
  assumes "length cs = 256" "hd s \<noteq> byte (CHR ''-'')"
  shows "class_loop first cs (print_member c @ s) = class_loop False (add_member c cs) s"
proof (cases "isalpha c \<or> isdigit c")
  case True
  then have "c \<noteq> byte (CHR '']'')" "c \<noteq> byte (CHR 0x5C)" by (auto simp: isalpha_def isdigit_def)
  with True range_end_None [OF assms(2)] show ?thesis by (simp add: print_member_def add_member_def)
next
  case False
  with escape_plain [of c] add_single [OF assms(1), of c] show ?thesis
    by (simp add: print_member_def parseCharClassEscape_def)
qed

lemma hd_members: "hd (concat (map print_member ms) @ byte (CHR '']'') # s) \<noteq> byte (CHR ''-'')"
  by (cases ms) (auto simp: print_member_def isalpha_def isdigit_def)

lemma class_members:
  "length cs = 256 \<Longrightarrow> class_loop False cs (concat (map print_member ms) @ byte (CHR '']'') # s) = Inr (fold add_member ms cs, s)"
proof (induction ms arbitrary: cs)
  case (Cons m ms)
  have "length (add_member m cs) = 256" using Cons.prems by (simp add: add_member_def)
  with class_member [OF Cons.prems hd_members, of False m ms s] Cons.IH show ?case by simp
qed simp

lemma members_nth: "k < 256 \<Longrightarrow> (word_of_nat k :: u8) \<in> set (members cs) \<longleftrightarrow> cs ! k"
proof -
  assume k: "k < 256"
  have "(word_of_nat k :: u8) = word_of_nat j \<Longrightarrow> j < 256 \<Longrightarrow> k = j" for j
    using unat_char [OF k] unat_char [of j] by metis
  with k show ?thesis by (auto simp: members_def)
qed

lemma fold_members: "k < length cs \<Longrightarrow> length cs = 256 \<Longrightarrow> fold add_member ms cs ! k \<longleftrightarrow> cs ! k \<or> word_of_nat k \<in> set ms"
proof (induction ms arbitrary: cs)
  case (Cons m ms)
  have "unat m = k \<longleftrightarrow> m = word_of_nat k" using unat_char [of k] Cons.prems by auto
  with Cons u8_less [of m] show ?case by (auto simp: add_member_def nth_list_update)
qed simp

lemma length_fold_member [simp]: "length (fold add_member ms cs) = length cs"
  by (induction ms arbitrary: cs) (simp_all add: add_member_def)

lemma parse_class:
  assumes "length cs = 256"
  shows "parseCharClassAtom False (tl (print_class cs) @ s) = Inr (CHAR_CLASS cs, s)"
proof (cases "members cs")
  case Nil
  have "\<not> cs ! k" if "k < 256" for k using members_nth [OF that, of cs] Nil by simp
  then have "invertSet (add_set (invertSet wordSet) (add_set wordSet emptySet)) = cs"
    using assms by (auto simp: list_eq_iff_nth_eq invertSet_def add_set_def)
  then show ?thesis
    using Nil by (simp add: print_class_def parseCharClassAtom_def parseCharClassEscape_def escapeSet_def classAtom_def)
next
  case (Cons m ms)
  let ?body = "print_member m @ concat (map print_member ms) @ byte (CHR '']'') # s"
  have "hd ?body \<noteq> byte (CHR ''^'')" by (auto simp: print_member_def isalpha_def isdigit_def)
  moreover have "fold add_member (members cs) emptySet = cs"
    using assms members_nth fold_members [of _ emptySet "members cs"]
    by (auto simp: list_eq_iff_nth_eq emptySet_def)
  moreover have "class_loop True emptySet ?body = Inr (fold add_member (members cs) emptySet, s)"
    using class_member [of emptySet "concat (map print_member ms) @ byte (CHR '']'') # s" True m] hd_members [of ms s]
      class_members [of "add_member m emptySet" ms s] by (simp add: Cons add_member_def)
  ultimately show ?thesis
    by (simp add: print_class_def Cons parseCharClassAtom_def Let_def classAtom_def)
qed


lemma print_head:
  "print_ast r \<noteq> [] \<and> hd (print_ast r) \<notin> set (map byte [CHR '')'', CHR ''|'', CHR ''?''])"
  by (cases r) (auto simp: print_literal_def special_def print_class_def group_def)

lemma parse_literal:
  "0 < f \<Longrightarrow> parseAtom f False (print_literal c @ rest) = Inr (LITERAL c, rest)"
proof (cases f)
  case (Suc g)
  have "escapeSet c = None \<and> resolveEscapeChar c = c" if "c \<in> special"
    by (rule escape_plain) (use that in \<open>auto simp: special_def isalpha_def isdigit_def\<close>)
  then show ?thesis
    by (auto simp: Suc print_literal_def parseEscapeAtom_def literalAtom_def) (auto simp: special_def)
qed simp

text \<open>Where the operands of a tree are parsed back, their groups are atoms.\<close>

definition reads_back :: "AstNode \<Rightarrow> bool" where
  "reads_back r \<longleftrightarrow> (\<forall>f rest. stops rest \<longrightarrow> 6 * length (print_ast r @ rest) + 4 \<le> f \<longrightarrow>
     parseAlternation f False (print_ast r @ rest) = Inr (r, rest))"

lemma parse_group:
  assumes "reads_back r" "6 * length (group (print_ast r) @ rest) + 1 \<le> f"
  shows "parseAtom f False (group (print_ast r) @ rest) = Inr (r, rest)"
proof -
  obtain g where f: "f = Suc g" using assms(2) by (cases f) auto
  have "parseAlternation g False (print_ast r @ byte (CHR '')'') # rest) = Inr (r, byte (CHR '')'') # rest)"
    using assms by (auto simp: reads_back_def f stops_def group_def)
  then show ?thesis by (simp add: f group_def)
qed

lemma quantified_group:
  assumes "reads_back r" "6 * length (group (print_ast r) @ rest) + 2 \<le> f"
  shows "parseQuantified f False (group (print_ast r) @ rest) = quantifier r rest"
proof -
  obtain g where f: "f = Suc g" using assms(2) by (cases f) auto
  then show ?thesis using parse_group [OF assms(1), of rest g] assms(2) by simp
qed

lemma group_head: "group s @ rest \<noteq> []" "hd (group s @ rest) = byte (CHR ''('')"
  by (simp_all add: group_def)

lemma stops_lazy [simp]: "stops rest \<Longrightarrow> skip_lazy rest = rest"
  by (auto simp: stops_def skip_lazy_def)

lemma fuel_four: "n + 4 \<le> f \<Longrightarrow> \<exists>g. f = Suc (Suc g) \<and> n + 2 \<le> g"
  by (intro exI [of _ "f - 2"]) linarith

lemma fuel_three: "n + 4 \<le> f \<Longrightarrow> \<exists>g. f = Suc (Suc (Suc g)) \<and> n + 1 \<le> g"
  by (intro exI [of _ "f - 3"]) linarith

lemma reads_atom:
  assumes "\<And>f rest. 0 < f \<Longrightarrow> parseAtom f False (print_ast r @ rest) = Inr (r, rest)"
  shows "reads_back r"
  unfolding reads_back_def
proof (intro allI impI)
  fix f rest assume rest: "stops rest" and fuel: "6 * length (print_ast r @ rest) + 4 \<le> f"
  obtain g where f: "f = Suc (Suc g)" "2 \<le> g" using fuel_four [OF fuel] by auto
  then obtain h where g: "g = Suc h" "0 < h" by (cases g) auto
  have "parseQuantified g False (print_ast r @ rest) = Inr (r, rest)" using assms [OF g(2), of rest] rest by (simp add: g(1))
  from parse_single [OF this] print_head [of r] rest g show "parseAlternation f False (print_ast r @ rest) = Inr (r, rest)"
    by (auto simp: f hd_append)
qed

lemma reads_quantified:
  assumes "reads_back r" "\<And>rest. stops rest \<Longrightarrow> quantifier r (q # rest) = Inr (r', rest)" "print_ast r' = group (print_ast r) @ [q]"
  shows "reads_back r'"
  unfolding reads_back_def
proof (intro allI impI)
  fix f rest assume "stops rest" and fuel: "6 * length (print_ast r' @ rest) + 4 \<le> f"
  obtain g where f: "f = Suc (Suc g)" using fuel_four [OF fuel] by blast
  have "parseQuantified g False (group (print_ast r) @ q # rest) = Inr (r', rest)"
    using quantified_group [OF assms(1), of "q # rest" g] fuel assms(2) [OF \<open>stops rest\<close>] by (simp add: assms(3) f)
  from parse_single [OF this] group_head [of "print_ast r" "q # rest"] \<open>stops rest\<close> fuel
  show "parseAlternation f False (print_ast r' @ rest) = Inr (r', rest)" by (simp add: assms(3) f)
qed

lemma print_parse: "wf_ast r \<Longrightarrow> reads_back r"
proof (induction r)
  case (LITERAL c)
  show ?case by (rule reads_atom) (simp add: parse_literal)
next
  case (CHAR_CLASS cs)
  show ?case
  proof (rule reads_atom)
    fix f :: nat and rest assume "0 < f"
    then obtain g where f: "f = Suc g" by (cases f) auto
    obtain body where body: "print_class cs = byte (CHR ''['') # body" by (rule that [of "tl (print_class cs)"]) (simp add: print_class_def)
    with parse_class [of cs rest] CHAR_CLASS show "parseAtom f False (print_ast (CHAR_CLASS cs) @ rest) = Inr (CHAR_CLASS cs, rest)"
      by (simp add: f)
  qed
next
  case (CONCAT l r)
  show ?case
    unfolding reads_back_def
  proof (intro allI impI)
    let ?l = "group (print_ast l)" and ?r = "group (print_ast r)"
    fix f rest assume rest: "stops rest" and fuel: "6 * length (print_ast (CONCAT l r) @ rest) + 4 \<le> f"
    then obtain g where f: "f = Suc (Suc (Suc g))" "6 * length (?l @ ?r @ rest) + 1 \<le> g"
      using fuel_three [OF fuel] by auto
    have "quantifier l (?r @ rest) = Inr (l, ?r @ rest)" by (simp add: group_def quantifier_def)
    then have 1: "parseQuantified (Suc g) False (?l @ ?r @ rest) = Inr (l, ?r @ rest)"
      using quantified_group [of l "?r @ rest" "Suc g"] CONCAT f(2) by simp
    have 2: "parseQuantified g False (?r @ rest) = Inr (r, rest)"
      using quantified_group [of r rest g] CONCAT f(2) rest by (simp add: group_def)
    have "parseConcat (Suc (Suc g)) False None (?l @ ?r @ rest) = Inr (CONCAT l r, rest)"
      using 1 2 concat_stops [of rest g False "CONCAT l r"] rest f(2) group_head [of "print_ast l" "?r @ rest"]
        group_head [of "print_ast r" rest] by (simp add: add_node_def)
    then show "parseAlternation f False (print_ast (CONCAT l r) @ rest) = Inr (CONCAT l r, rest)"
      using alternation_stops [OF rest, of "Suc (Suc g)" False "CONCAT l r"] by (simp add: f)
  qed
next
  case (ALTERNATION l r)
  show ?case
    unfolding reads_back_def
  proof (intro allI impI)
    let ?l = "group (print_ast l)" and ?r = "group (print_ast r)" and ?bar = "byte (CHR ''|'')"
    fix f rest assume rest: "stops rest" and fuel: "6 * length (print_ast (ALTERNATION l r) @ rest) + 4 \<le> f"
    then obtain g where f: "f = Suc (Suc (Suc g))" "6 * length (?l @ ?bar # ?r @ rest) + 1 \<le> g"
      using fuel_three [OF fuel] by auto
    have "quantifier l (?bar # ?r @ rest) = Inr (l, ?bar # ?r @ rest)" by (simp add: quantifier_def)
    then have "parseQuantified (Suc g) False (?l @ ?bar # ?r @ rest) = Inr (l, ?bar # ?r @ rest)"
      using quantified_group [of l "?bar # ?r @ rest" "Suc g"] ALTERNATION f(2) by simp
    then have 1: "parseConcat (Suc (Suc g)) False None (?l @ ?bar # ?r @ rest) = Inr (l, ?bar # ?r @ rest)"
      using concat_stops [of "?bar # ?r @ rest" "Suc g" False l] group_head [of "print_ast l" "?bar # ?r @ rest"]
      by (simp add: add_node_def)
    have "parseQuantified g False (?r @ rest) = Inr (r, rest)"
      using quantified_group [of r rest g] ALTERNATION f(2) rest by (simp add: group_def)
    then have 2: "parseConcat (Suc g) False None (?r @ rest) = Inr (r, rest)"
      using concat_stops [of rest g False r] group_head [of "print_ast r" rest] rest f(2) by (simp add: add_node_def)
    have "alternation_loop (Suc (Suc g)) False l (?bar # ?r @ rest) = Inr (ALTERNATION l r, rest)"
      using 2 alternation_stops [OF rest, of "Suc g" False "ALTERNATION l r"] by simp
    with 1 show "parseAlternation f False (print_ast (ALTERNATION l r) @ rest) = Inr (ALTERNATION l r, rest)"
      by (simp add: f)
  qed
next
  case (STAR r)
  show ?case by (rule reads_quantified [of r "byte (CHR ''*'')"]) (use STAR in \<open>simp_all add: quantifier_def\<close>)
next
  case (PLUS r)
  show ?case by (rule reads_quantified [of r "byte (CHR ''+'')"]) (use PLUS in \<open>simp_all add: quantifier_def\<close>)
next
  case (OPTIONAL r)
  show ?case by (rule reads_quantified [of r "byte (CHR ''?'')"]) (use OPTIONAL in \<open>simp_all add: quantifier_def\<close>)
qed

lemma print_not_flag: "take 4 (print_ast r) \<noteq> lit ''(?i)''"
proof
  assume *: "take 4 (print_ast r) = lit ''(?i)''"
  have "hd (tl (print_ast r)) = byte (CHR ''?'') \<and> hd (print_ast r) = byte (CHR ''('')"
    using * by (cases "print_ast r"; cases "tl (print_ast r)") (auto simp: lit_def)
  moreover have "hd (print_ast q @ rest) \<noteq> byte (CHR ''?'')" for q rest using print_head [of q] by (auto simp: hd_append)
  ultimately show False
    by (cases r) (auto simp: print_literal_def special_def print_class_def group_def split: if_splits)
qed

lemma parse_print: "wf_ast r \<Longrightarrow> parse (print_ast r) = Inr r"
  using print_parse [of r] print_not_flag [of r] by (simp add: parse_def Let_def reads_back_def stops_def)

section \<open>Case folding after negation\<close>

text \<open>
  A bracket expression of a pattern that ignores case is negated first and folded afterwards: a
  letter that the brackets exclude is back in the set when its other case is not excluded.
\<close>

lemma fold_case_one: "s ! k \<Longrightarrow> fold_case c s ! k" "length (fold_case c s) = length s"
proof -
  have "s ! k \<Longrightarrow> s[c := True] ! k" for s :: "bool list" and c by (cases "c < length s") (auto simp: nth_list_update list_update_beyond)
  then show "s ! k \<Longrightarrow> fold_case c s ! k" by (simp add: fold_case_def)
  show "length (fold_case c s) = length s" by (simp add: fold_case_def)
qed

lemma fold_case_keeps: "s ! k \<Longrightarrow> k < length s \<Longrightarrow> fold fold_case cs s ! k"
proof (induction cs arbitrary: s)
  case (Cons c cs)
  with Cons.IH fold_case_one show ?case by simp
qed simp

lemma fold_case_adds:
  "c \<in> set cs \<Longrightarrow> s ! (c - 32) \<Longrightarrow> c < length s \<Longrightarrow> fold fold_case cs s ! c"
proof (induction cs arbitrary: s)
  case (Cons a cs)
  have "fold_case a s ! (c - 32)" "c < length (fold_case a s)" using Cons.prems fold_case_one by auto
  moreover have "fold_case a s ! c" if "a = c" using Cons.prems that by (auto simp: fold_case_def nth_list_update)
  ultimately show ?case using Cons.prems(1) Cons.IH [of "fold_case a s"] fold_case_keeps [of "fold_case a s" c cs] by auto
qed simp

lemma negation_is_undone:
  "\<exists>ast. parse (lit ''(?i)[^a]'') = Inr ast \<and> lit ''a'' \<in> lang ast"
proof (intro exI conjI)
  let ?cs = "invertSet (emptySet[97 := True])"
  have "parseCharClassAtom True (lit ''^a]'') = Inr (CHAR_CLASS (applyCaseInsensitive ?cs), [])"
    by (simp add: lit_def parseCharClassAtom_def range_end_def classAtom_def)
  then have "parseQuantified (Suc (Suc f)) True (lit ''[^a]'') = Inr (CHAR_CLASS (applyCaseInsensitive ?cs), [])" for f
    by (simp add: lit_def quantifier_def)
  from parse_single [OF this [of 25]] have "parseAlternation 29 True (lit ''[^a]'') = Inr (CHAR_CLASS (applyCaseInsensitive ?cs), [])"
    by (simp add: lit_def stops_def)
  moreover have "lit ''(?i)[^a]'' = lit ''(?i)'' @ lit ''[^a]''" "length (lit ''(?i)'') = 4" "length (lit ''[^a]'') = 4"
    by (simp_all add: lit_def)
  ultimately show "parse (lit ''(?i)[^a]'') = Inr (CHAR_CLASS (applyCaseInsensitive ?cs))"
    by (simp add: parse_def Let_def)
  have "?cs ! (97 - 32)" by (simp add: invertSet_def emptySet_def)
  from fold_case_adds [of 97 "[97..<123]" ?cs, OF _ this] have "applyCaseInsensitive ?cs ! 97"
    by (simp add: applyCaseInsensitive_def del: upt_rec_numeral)
  then show "lit ''a'' \<in> lang (CHAR_CLASS (applyCaseInsensitive ?cs))" by (simp add: lit_def)
qed

end
