(* ===== verification/Rule_Loader.thy ===== *)
theory Rule_Loader
  imports Regex_Parser Sample_Kernel "HOL-Library.Multiset"
begin

text \<open>
  How the daemon turns the rules of the configuration into the maps of the kernel side:
  \<^verbatim>\<open>rule.hpp\<close> (the records), \<^verbatim>\<open>rules_organizer.hpp\<close> (the end marker, the split by event type, the
  order by id and the filters), \<^verbatim>\<open>rule_converter.cpp\<close> (the records of the kernel side),
  \<^verbatim>\<open>rules_into_bpf_maps.cpp\<close> (the maps) and \<^verbatim>\<open>rules_metadata_tracker.hpp\<close>. An exception is a value of
  \<open>load_error\<close>. A hash map refuses a key beyond its capacity, an array an index beyond its end.
  The order of versions (a vendored library), \<^verbatim>\<open>inet_pton\<close> (the C library) are parameters. An
  \<^verbatim>\<open>unordered_map\<close> is the list of its entries in the order of the iteration, and \<^verbatim>\<open>std::sort\<close> is a
  stable sort; the two agree as far as the ids of the rules are different.
\<close>

section \<open>The configuration\<close>

record config_RuleString =
  crs_value :: bytes
  crs_string_type :: string_type

record config_RuleIP =
  cri_ip :: bytes
  cri_cidr :: int
  cri_ip_type :: int

record config_Predicate =
  cp_field :: rule_field_type
  cp_comparison_type :: comparison_type
  cp_string_idx :: int
  cp_numerical_value :: int
  cp_fieldref :: rule_field_type

record config_Token =
  ct_operator_type :: operator_types
  ct_predicate_idx :: int

datatype rule_severity = RULE_SEVERITY_UNKNOWN | RULE_SEVERITY_INFORMATIONAL | RULE_SEVERITY_LOW
  | RULE_SEVERITY_MEDIUM | RULE_SEVERITY_HIGH | RULE_SEVERITY_CRITICAL

record RuleMetadata =
  rm_description :: bytes
  rm_title :: bytes
  rm_severity :: rule_severity
  rm_mitre_tags :: "bytes list"
  rm_name :: bytes
  rm_author :: bytes
  rm_status :: bytes

record 'v config_Rule =
  cr_id :: u32
  cr_action :: rule_action
  cr_applied_events :: "event_type list"
  cr_tokens :: "config_Token list"
  cr_min_version :: 'v
  cr_max_version :: 'v
  cr_metadata :: RuleMetadata
  cr_is_end_of_rules :: bool

record file_monitoring_events =
  on_chmod :: bool
  on_chown :: bool
  on_file_create :: bool
  on_mkdir :: bool
  on_rmdir :: bool
  on_unlink :: bool
  on_rename :: bool
  on_write :: bool
  on_read :: bool

record config_features =
  file_monitoring_enabled :: bool
  file_monitoring_events :: file_monitoring_events
  network_monitoring_enabled :: bool

datatype load_error = Too_many_tokens | String_too_long | Bad_regex regex_error | Invalid_address | Undefined_shift | Map_full

section \<open>Organising the rules\<close>

abbreviation INT_MAX :: u32 where "INT_MAX \<equiv> 2147483647"

definition no_metadata :: RuleMetadata where
  "no_metadata = \<lparr>rm_description = [], rm_title = [], rm_severity = RULE_SEVERITY_UNKNOWN, rm_mitre_tags = [],
     rm_name = [], rm_author = [], rm_status = []\<rparr>"

definition end_rule :: "'v \<Rightarrow> 'v config_Rule" where
  "end_rule zero_version = \<lparr>cr_id = INT_MAX, cr_action = ALLOW_EVENT,
     cr_applied_events = [EXEC, FILE_CREATE, CHOWN, CHMOD, WRITE, READ, UNLINK, RENAME, NETWORK, MKDIR, RMDIR],
     cr_tokens = [], cr_min_version = zero_version, cr_max_version = zero_version,
     cr_metadata = no_metadata, cr_is_end_of_rules = True\<rparr>"

definition add_end_rules :: "'v \<Rightarrow> 'v config_Rule list \<Rightarrow> 'v config_Rule list" where
  "add_end_rules zero_version rules = rules @ [end_rule zero_version]"

type_synonym 'v OrganizedRules = "event_type \<rightharpoonup> 'v config_Rule list"

definition push_rule :: "'v config_Rule \<Rightarrow> event_type \<Rightarrow> 'v OrganizedRules \<Rightarrow> 'v OrganizedRules" where
  "push_rule r event organized =
     organized(event \<mapsto> (case organized event of None \<Rightarrow> [] | Some rs \<Rightarrow> rs) @ [r])"

definition organize_by_event_type :: "'v config_Rule list \<Rightarrow> 'v OrganizedRules" where
  "organize_by_event_type rules =
     (let organized = fold (\<lambda>r. fold (push_rule r) (cr_applied_events r)) rules Map.empty
      in (\<lambda>event. map_option (sort_key cr_id) (organized event)))"

definition remove_event_type :: "event_type \<Rightarrow> 'v OrganizedRules \<Rightarrow> 'v OrganizedRules" where
  "remove_event_type ty organized = organized(ty := None)"

definition remove_unless :: "bool \<times> event_type \<Rightarrow> 'v OrganizedRules \<Rightarrow> 'v OrganizedRules" where
  "remove_unless entry organized = (if fst entry then organized else remove_event_type (snd entry) organized)"

definition filter_out_rules_for_disabled_probes :: "config_features \<Rightarrow> 'v OrganizedRules \<Rightarrow> 'v OrganizedRules" where
  "filter_out_rules_for_disabled_probes features organized =
     (let fm = file_monitoring_events features;
          organized = (if \<not> file_monitoring_enabled features
            then fold remove_event_type [CHMOD, CHOWN, FILE_CREATE, MKDIR, RMDIR, UNLINK, RENAME, WRITE, READ] organized
            else fold remove_unless [(on_chmod fm, CHMOD), (on_chown fm, CHOWN), (on_file_create fm, FILE_CREATE),
              (on_mkdir fm, MKDIR), (on_rmdir fm, RMDIR), (on_unlink fm, UNLINK), (on_rename fm, RENAME),
              (on_write fm, WRITE), (on_read fm, READ)] organized)
      in if \<not> network_monitoring_enabled features then remove_event_type NETWORK organized else organized)"

text \<open>The order of versions, the default version (no bound) and the version of the daemon.\<close>

record 'v versions =
  v_less :: "'v \<Rightarrow> 'v \<Rightarrow> bool"
  v_zero :: 'v
  v_current :: 'v

definition version_excludes :: "'v versions \<Rightarrow> 'v config_Rule \<Rightarrow> bool" where
  "version_excludes v r \<longleftrightarrow>
     (cr_min_version r \<noteq> v_zero v \<and> v_less v (v_current v) (cr_min_version r)) \<or>
     (cr_max_version r \<noteq> v_zero v \<and> v_less v (cr_max_version r) (v_current v))"

definition filter_out_rules_by_version :: "'v versions \<Rightarrow> 'v OrganizedRules \<Rightarrow> 'v OrganizedRules" where
  "filter_out_rules_by_version v organized = (\<lambda>event. map_option (filter (\<lambda>r. \<not> version_excludes v r)) (organized event))"

definition organize_rules :: "'v versions \<Rightarrow> config_features \<Rightarrow> 'v config_Rule list \<Rightarrow> 'v OrganizedRules" where
  "organize_rules v features rules =
     filter_out_rules_by_version v (filter_out_rules_for_disabled_probes features (organize_by_event_type rules))"

section \<open>Conversion\<close>

definition convertToken :: "config_Token \<Rightarrow> token_t" where
  "convertToken t = \<lparr>t_operator_type = ct_operator_type t, t_pred_idx = word_of_int (ct_predicate_idx t),
     t_result = TOKEN_RESULT_UNKNOWN\<rparr>"

definition zero_token :: token_t where
  "zero_token = \<lparr>t_operator_type = OPERATOR_PREDICATE, t_pred_idx = 0, t_result = TOKEN_RESULT_UNKNOWN\<rparr>"

definition convertRule :: "'v config_Rule \<Rightarrow> load_error + rule_t" where
  "convertRule r =
     (if length (cr_tokens r) > MAX_TOKENS_PER_RULE then Inl Too_many_tokens
      else Inr \<lparr>r_id = cr_id r, r_action = cr_action r, r_token_count = word_of_nat (length (cr_tokens r)),
                r_is_end_of_rules = (if cr_is_end_of_rules r then 1 else 0),
                r_tokens = map convertToken (cr_tokens r) @ replicate (MAX_TOKENS_PER_RULE - length (cr_tokens r)) zero_token\<rparr>)"

definition convertPredicate :: "config_Predicate \<Rightarrow> predicate_t" where
  "convertPredicate p = \<lparr>pr_field = cp_field p, pr_operation = cp_comparison_type p, pr_string_idx = cp_string_idx p,
     pr_numerical_value = word_of_int (cp_numerical_value p), pr_fieldref = cp_fieldref p\<rparr>"

definition convertRuleString :: "config_RuleString \<Rightarrow> load_error + rule_string_t" where
  "convertRuleString s =
     (if length (crs_value s) > MAX_NEEDLE_LENGTH then Inl String_too_long
      else Inr \<lparr>rs_value = crs_value s @ replicate (MAX_NEEDLE_LENGTH - length (crs_value s)) 0,
                rs_length = word_of_nat (length (crs_value s)), rs_idx_to_DFA = -1\<rparr>)"

definition htonl :: "u32 \<Rightarrow> u32" where
  "htonl x = push_bit 24 (x AND 255) OR push_bit 8 (x AND 65280) OR drop_bit 8 (x AND 16711680) OR drop_bit 24 x"

definition prefix_mask :: "nat \<Rightarrow> u32" where
  "prefix_mask bits = htonl (NOT (push_bit (32 - bits) 1 - 1))"

fun ipv6_masks :: "nat \<Rightarrow> nat \<Rightarrow> u32 list" where
  "ipv6_masks 0 remaining_bits = []"
| "ipv6_masks (Suc n) remaining_bits =
     (if remaining_bits \<ge> 32 then 4294967295 # ipv6_masks n (remaining_bits - 32)
      else if remaining_bits > 0 then prefix_mask remaining_bits # ipv6_masks n 0
      else 0 # ipv6_masks n 0)"

text \<open>\<open>inet_pton\<close> for the two families: the address in network byte order, when the text is one.\<close>

record address_parser =
  pton4 :: "bytes \<Rightarrow> u32 option"
  pton6 :: "bytes \<Rightarrow> u32 list option"

definition convertRuleIP :: "address_parser \<Rightarrow> config_RuleIP \<Rightarrow> load_error + rule_ip_t" where
  "convertRuleIP ap ip =
     (if cri_ip_type ip = 2 then (case pton4 ap (cri_ip ip) of
        None \<Rightarrow> Inl Invalid_address
      | Some addr \<Rightarrow>
          if cri_cidr ip = 0 then Inr \<lparr>ri_ip = [addr, 0, 0, 0], ri_cidr_mask = [0, 0, 0, 0]\<rparr>
          else if cri_cidr ip < 1 \<or> cri_cidr ip > 32 then Inl Undefined_shift
          else Inr \<lparr>ri_ip = [addr, 0, 0, 0], ri_cidr_mask = [prefix_mask (nat (cri_cidr ip)), 0, 0, 0]\<rparr>)
      else (case pton6 ap (cri_ip ip) of
        None \<Rightarrow> Inl Invalid_address
      | Some addr \<Rightarrow> Inr \<lparr>ri_ip = addr, ri_cidr_mask = ipv6_masks 4 (nat (cri_cidr ip mod 4294967296))\<rparr>))"

section \<open>The maps\<close>

abbreviation MAX_TOTAL_PREDS :: nat where "MAX_TOTAL_PREDS \<equiv> 16384"

text \<open>The loop of the \<^verbatim>\<open>populate\<close> functions: convert an entry, or skip it, and store it under its id.\<close>

fun populate :: "(int \<Rightarrow> 'a \<Rightarrow> load_error + 'b option) \<Rightarrow> (int \<times> 'a) list \<Rightarrow> (u32 \<rightharpoonup> 'b) \<Rightarrow> load_error + (u32 \<rightharpoonup> 'b)" where
  "populate convert [] m = Inr m"
| "populate convert ((i, x) # xs) m = (case convert i x of
     Inl e \<Rightarrow> Inl e
   | Inr None \<Rightarrow> populate convert xs m
   | Inr (Some y) \<Rightarrow>
       if word_of_int i \<notin> dom m \<and> card (dom m) \<ge> MAX_TOTAL_PREDS then Inl Map_full
       else populate convert xs (m(word_of_int i \<mapsto> y)))"

definition populate_predicates_map :: "(int \<times> config_Predicate) list \<Rightarrow> load_error + (u32 \<rightharpoonup> predicate_t)" where
  "populate_predicates_map id_to_predicate = populate (\<lambda>i p. Inr (Some (convertPredicate p))) id_to_predicate Map.empty"

definition populate_rules_strings_map :: "(int \<times> config_RuleString) list \<Rightarrow> load_error + (u32 \<rightharpoonup> rule_string_t)" where
  "populate_rules_strings_map id_to_string = populate (\<lambda>i s. case convertRuleString s of
       Inl e \<Rightarrow> Inl e
     | Inr str \<Rightarrow> Inr (Some (str\<lparr>rs_idx_to_DFA := if crs_string_type s \<noteq> STRING_TYPE_DEFAULT then i else -1\<rparr>)))
     id_to_string Map.empty"

definition string_dfa :: "int \<Rightarrow> config_RuleString \<Rightarrow> load_error + flat_2d_dfa_array_t option" where
  "string_dfa i s = (case crs_string_type s of
     STRING_TYPE_DEFAULT \<Rightarrow> Inr None
   | STRING_TYPE_CONTAINS \<Rightarrow> Inr (Some (buildKmpDfa (crs_value s)))
   | STRING_TYPE_REGEX \<Rightarrow> (case buildRegexDfa (crs_value s) of Inl e \<Rightarrow> Inl (Bad_regex e) | Inr (dfa, acc) \<Rightarrow> Inr (Some dfa)))"

definition populate_idx_to_DFA_map :: "(int \<times> config_RuleString) list \<Rightarrow> load_error + (u32 \<rightharpoonup> flat_2d_dfa_array_t)" where
  "populate_idx_to_DFA_map id_to_string = populate string_dfa id_to_string Map.empty"

definition string_accepting :: "int \<Rightarrow> config_RuleString \<Rightarrow> load_error + u64 option" where
  "string_accepting i s = (case crs_string_type s of
     STRING_TYPE_REGEX \<Rightarrow> (case buildRegexDfa (crs_value s) of Inl e \<Rightarrow> Inl (Bad_regex e) | Inr (dfa, acc) \<Rightarrow> Inr (Some acc))
   | _ \<Rightarrow> Inr None)"

definition populate_idx_to_accepting_states_map :: "(int \<times> config_RuleString) list \<Rightarrow> load_error + (u32 \<rightharpoonup> u64)" where
  "populate_idx_to_accepting_states_map id_to_string = populate string_accepting id_to_string Map.empty"

definition populate_rules_ips_map :: "address_parser \<Rightarrow> (int \<times> config_RuleIP) list \<Rightarrow> load_error + (u32 \<rightharpoonup> rule_ip_t)" where
  "populate_rules_ips_map ap id_to_ip =
     populate (\<lambda>i ip. case convertRuleIP ap ip of Inl e \<Rightarrow> Inl e | Inr c \<Rightarrow> Inr (Some c)) id_to_ip Map.empty"

definition zero_rule :: rule_t where
  "zero_rule = \<lparr>r_id = 0, r_action = ALLOW_EVENT, r_token_count = 0, r_is_end_of_rules = 0,
     r_tokens = replicate MAX_TOKENS_PER_RULE zero_token\<rparr>"

fun fill_array :: "nat \<Rightarrow> 'v config_Rule list \<Rightarrow> load_error + rule_t list" where
  "fill_array i [] = Inr []"
| "fill_array i (r # rs) = (case convertRule r of
     Inl e \<Rightarrow> Inl e
   | Inr c_rule \<Rightarrow>
       if i \<ge> MAX_RULES_PER_MAP_PLUS1 then Inl Map_full
       else (case fill_array (Suc i) rs of Inl e \<Rightarrow> Inl e | Inr cs \<Rightarrow> Inr (c_rule # cs)))"

fun populate_event_rule_maps :: "'v OrganizedRules \<Rightarrow> event_type list \<Rightarrow> load_error + (event_type \<Rightarrow> rule_t list)" where
  "populate_event_rule_maps organized [] = Inr (\<lambda>ty. replicate MAX_RULES_PER_MAP_PLUS1 zero_rule)"
| "populate_event_rule_maps organized (ty # tys) = (case populate_event_rule_maps organized tys of
     Inl e \<Rightarrow> Inl e
   | Inr maps \<Rightarrow> (case organized ty of
       None \<Rightarrow> Inr maps
     | Some rules \<Rightarrow>
         if rules = [] then Inr maps
         else (case fill_array 0 rules of
           Inl e \<Rightarrow> Inl e
         | Inr cs \<Rightarrow> Inr (maps(ty := cs @ replicate (MAX_RULES_PER_MAP_PLUS1 - length cs) zero_rule)))))"

definition event_types :: "event_type list" where
  "event_types = [EXEC, FORK, EXIT, FILE_CREATE, CHOWN, CHMOD, WRITE, READ, UNLINK, RENAME, NETWORK, MKDIR, RMDIR]"

definition create_rule_maps_from_organized_rules ::
  "address_parser \<Rightarrow> 'v OrganizedRules \<Rightarrow> (int \<times> config_RuleString) list \<Rightarrow> (int \<times> config_Predicate) list \<Rightarrow>
   (int \<times> config_RuleIP) list \<Rightarrow> ro_env \<Rightarrow> load_error + ro_env" where
  "create_rule_maps_from_organized_rules ap organized id_to_string id_to_predicate id_to_ip ro =
     (case populate_predicates_map id_to_predicate of Inl e \<Rightarrow> Inl e | Inr preds \<Rightarrow>
      case populate_rules_strings_map id_to_string of Inl e \<Rightarrow> Inl e | Inr strings \<Rightarrow>
      case populate_idx_to_DFA_map id_to_string of Inl e \<Rightarrow> Inl e | Inr dfas \<Rightarrow>
      case populate_idx_to_accepting_states_map id_to_string of Inl e \<Rightarrow> Inl e | Inr accs \<Rightarrow>
      case populate_rules_ips_map ap id_to_ip of Inl e \<Rightarrow> Inl e | Inr ips \<Rightarrow>
      case populate_event_rule_maps organized event_types of Inl e \<Rightarrow> Inl e | Inr rules \<Rightarrow>
        Inr (ro\<lparr>predicates_map := preds, rules_strings_map := strings, idx_to_DFA_map := dfas,
               idx_to_accepting_states_map := accs, rules_ips_map := ips, event_rules := rules\<rparr>))"

record 'v RulesConfig =
  id_to_string :: "(int \<times> config_RuleString) list"
  id_to_predicate :: "(int \<times> config_Predicate) list"
  id_to_ip :: "(int \<times> config_RuleIP) list"
  config_rules :: "'v config_Rule list"

text \<open>The steps of \<^verbatim>\<open>main\<close> and \<^verbatim>\<open>ProbeManager::bpfOpen\<close> from the configuration to the maps.\<close>

definition load_rules :: "'v versions \<Rightarrow> config_features \<Rightarrow> address_parser \<Rightarrow> 'v RulesConfig \<Rightarrow> ro_env \<Rightarrow> load_error + ro_env" where
  "load_rules v features ap cfg ro =
     create_rule_maps_from_organized_rules ap (organize_rules v features (add_end_rules (v_zero v) (config_rules cfg)))
       (id_to_string cfg) (id_to_predicate cfg) (id_to_ip cfg) ro"

section \<open>Metadata of the rules\<close>

record RulesMetadataTracker =
  metadata_to_id_map :: "RuleMetadata \<rightharpoonup> u32"
  id_to_metadata_map :: "u32 \<rightharpoonup> RuleMetadata"
  rule_id_to_metadata_id_map :: "u32 \<rightharpoonup> u32"
  metadata_id_counter :: u32

definition add_metadata :: "'v config_Rule \<Rightarrow> RulesMetadataTracker \<Rightarrow> RulesMetadataTracker" where
  "add_metadata r t =
     (if rule_id_to_metadata_id_map t (cr_id r) \<noteq> None then t
      else case metadata_to_id_map t (cr_metadata r) of
        Some i \<Rightarrow> t\<lparr>rule_id_to_metadata_id_map := (rule_id_to_metadata_id_map t)(cr_id r \<mapsto> i)\<rparr>
      | None \<Rightarrow>
          let i = metadata_id_counter t in
          t\<lparr>metadata_to_id_map := (metadata_to_id_map t)(cr_metadata r \<mapsto> i),
            id_to_metadata_map := (id_to_metadata_map t)(i \<mapsto> cr_metadata r),
            rule_id_to_metadata_id_map := (rule_id_to_metadata_id_map t)(cr_id r \<mapsto> i),
            metadata_id_counter := i + 1\<rparr>)"

definition track_metadata :: "'v config_Rule list \<Rightarrow> RulesMetadataTracker" where
  "track_metadata rules = fold add_metadata rules
     \<lparr>metadata_to_id_map = Map.empty, id_to_metadata_map = Map.empty, rule_id_to_metadata_id_map = Map.empty, metadata_id_counter = 0\<rparr>"

definition get_metadata :: "RulesMetadataTracker \<Rightarrow> u32 \<Rightarrow> RuleMetadata option" where
  "get_metadata t rule_id = Option.bind (rule_id_to_metadata_id_map t rule_id) (id_to_metadata_map t)"

section \<open>What the maps hold\<close>

lemma populate_step:
  assumes "populate convert ((i, x) # xs) m = Inr m'"
  shows "\<exists>y. convert i x = Inr y \<and> populate convert xs (case y of None \<Rightarrow> m | Some v \<Rightarrow> m(word_of_int i \<mapsto> v)) = Inr m'"
  using assms by (auto split: sum.splits option.splits if_splits)

lemma populate_keys: "populate convert xs m = Inr m' \<Longrightarrow> k \<notin> set (map (\<lambda>x. word_of_int (fst x)) xs) \<Longrightarrow> m' k = m k"
proof (induction xs arbitrary: m)
  case (Cons x xs)
  obtain i a where x: "x = (i, a)" by (cases x)
  from populate_step [OF Cons.prems(1) [unfolded x]] obtain y where
    "populate convert xs (case y of None \<Rightarrow> m | Some v \<Rightarrow> m(word_of_int i \<mapsto> v)) = Inr m'" by blast
  from Cons.IH [OF this] Cons.prems(2) x show ?case by (auto split: option.splits)
qed simp

lemma populate_entry:
  assumes "populate convert xs m = Inr m'" "distinct (map (\<lambda>x. word_of_int (fst x) :: u32) xs)" "(i, x) \<in> set xs"
  shows "\<exists>y. convert i x = Inr y \<and> m' (word_of_int i) = (case y of None \<Rightarrow> m (word_of_int i) | Some v \<Rightarrow> Some v)"
  using assms
proof (induction xs arbitrary: m)
  case (Cons a xs)
  obtain j z where a: "a = (j, z)" by (cases a)
  from populate_step [OF Cons.prems(1) [unfolded a]] obtain y where
    y: "convert j z = Inr y" "populate convert xs (case y of None \<Rightarrow> m | Some v \<Rightarrow> m(word_of_int j \<mapsto> v)) = Inr m'" by blast
  show ?case
  proof (cases "(i, x) = (j, z)")
    case True
    then have out: "word_of_int i \<notin> set (map (\<lambda>x. word_of_int (fst x) :: u32) xs)" using Cons.prems(2) a by simp
    from populate_keys [OF y(2) out] y(1) True show ?thesis by (auto split: option.splits)
  next
    case False
    then have "(i, x) \<in> set xs" using Cons.prems(3) a by auto
    moreover from this have "(word_of_int i :: u32) \<noteq> word_of_int j" using Cons.prems(2) a by (auto simp: image_iff)
    ultimately show ?thesis using Cons.IH [OF y(2)] Cons.prems(2) by (auto split: option.splits)
  qed
qed simp

lemma populate_origin:
  "populate convert xs m = Inr m' \<Longrightarrow> m' k = Some v \<Longrightarrow> m k = Some v \<or> (\<exists>i x. (i, x) \<in> set xs \<and> k = word_of_int i \<and> convert i x = Inr (Some v))"
proof (induction xs arbitrary: m)
  case (Cons a xs)
  obtain j z where a: "a = (j, z)" by (cases a)
  from populate_step [OF Cons.prems(1) [unfolded a]] obtain y where
    y: "convert j z = Inr y" "populate convert xs (case y of None \<Rightarrow> m | Some v \<Rightarrow> m(word_of_int j \<mapsto> v)) = Inr m'" by blast
  from Cons.IH [OF y(2) Cons.prems(2)] y(1) show ?case by (auto simp: a split: option.splits if_splits)
qed simp

lemma populate_ok:
  "finite (dom m) \<Longrightarrow> card (dom m) + length xs \<le> MAX_TOTAL_PREDS \<Longrightarrow> (\<And>i x. (i, x) \<in> set xs \<Longrightarrow> \<exists>y. convert i x = Inr y) \<Longrightarrow>
   \<exists>m'. populate convert xs m = Inr m'"
proof (induction xs arbitrary: m)
  case (Cons a xs)
  obtain i x where a: "a = (i, x)" by (cases a)
  obtain y where y: "convert i x = Inr y" using Cons.prems(3) [of i x] by (auto simp: a)
  let ?m = "case y of None \<Rightarrow> m | Some v \<Rightarrow> m(word_of_int i \<mapsto> v)"
  have "card (dom ?m) \<le> Suc (card (dom m))" using Cons.prems(1) by (auto simp: card_insert_if split: option.splits)
  then have "\<exists>m'. populate convert xs ?m = Inr m'"
    using Cons.prems by (intro Cons.IH) (auto split: option.splits)
  with y Cons.prems(2) show ?case by (auto simp: a split: option.splits)
qed simp

text \<open>
  What every rule map promises: it holds the converted entries of the configuration and nothing
  else, and it takes as many entries as it has room for.
\<close>

definition ids_differ :: "(int \<times> 'a) list \<Rightarrow> bool" where
  "ids_differ xs \<longleftrightarrow> distinct (map (\<lambda>x. word_of_int (fst x) :: u32) xs)"

locale rule_map =
  fixes fill :: "(int \<times> 'a) list \<Rightarrow> load_error + (u32 \<rightharpoonup> 'b)"
    and convert :: "int \<Rightarrow> 'a \<Rightarrow> load_error + 'b option"
  assumes origin: "fill xs = Inr m \<Longrightarrow> m k = Some v \<Longrightarrow> \<exists>i x. (i, x) \<in> set xs \<and> k = word_of_int i \<and> convert i x = Inr (Some v)"
    and entry: "fill xs = Inr m \<Longrightarrow> ids_differ xs \<Longrightarrow> (i, x) \<in> set xs \<Longrightarrow> convert i x = Inr (m (word_of_int i))"
    and fills: "length xs \<le> MAX_TOTAL_PREDS \<Longrightarrow> (\<And>i x. (i, x) \<in> set xs \<Longrightarrow> \<exists>y. convert i x = Inr y) \<Longrightarrow> \<exists>m. fill xs = Inr m"
begin

lemma lookup_iff:
  assumes "fill xs = Inr m" "ids_differ xs"
  shows "m k = Some v \<longleftrightarrow> (\<exists>i x. (i, x) \<in> set xs \<and> k = word_of_int i \<and> convert i x = Inr (Some v))"
  using origin [OF assms(1)] entry [OF assms] by (metis sum.inject(2))

lemma fails_on_entry:
  assumes "ids_differ xs" "(i, x) \<in> set xs" "convert i x = Inl e"
  shows "\<exists>e'. fill xs = Inl e'"
  using entry [OF _ assms(1,2)] assms(3) by (cases "fill xs") auto

end

lemma populate_rule_map:
  assumes "\<And>xs. fill xs = populate convert xs Map.empty"
  shows "rule_map fill convert"
proof
  fix xs :: "(int \<times> 'a) list" and m :: "u32 \<rightharpoonup> 'b"
  show "\<exists>i x. (i, x) \<in> set xs \<and> k = word_of_int i \<and> convert i x = Inr (Some v)" if "fill xs = Inr m" "m k = Some v" for k v
    using populate_origin [of convert xs Map.empty m k v] that assms by simp
  show "convert i x = Inr (m (word_of_int i))" if "fill xs = Inr m" "ids_differ xs" "(i, x) \<in> set xs" for i x
    using populate_entry [of convert xs Map.empty m i x] that assms by (auto simp: ids_differ_def split: option.splits)
  show "\<exists>m. fill xs = Inr m" if "length xs \<le> MAX_TOTAL_PREDS" "\<And>i x. (i, x) \<in> set xs \<Longrightarrow> \<exists>y. convert i x = Inr y"
    using populate_ok [of Map.empty xs convert] that assms by simp
qed

interpretation predicates: rule_map populate_predicates_map "\<lambda>i p. Inr (Some (convertPredicate p))"
  by (rule populate_rule_map) (rule populate_predicates_map_def)

interpretation strings: rule_map populate_rules_strings_map "\<lambda>i s. case convertRuleString s of
       Inl e \<Rightarrow> Inl e
     | Inr str \<Rightarrow> Inr (Some (str\<lparr>rs_idx_to_DFA := if crs_string_type s \<noteq> STRING_TYPE_DEFAULT then i else -1\<rparr>))"
  by (rule populate_rule_map) (rule populate_rules_strings_map_def)

interpretation dfas: rule_map populate_idx_to_DFA_map string_dfa
  by (rule populate_rule_map) (rule populate_idx_to_DFA_map_def)

interpretation accepting: rule_map populate_idx_to_accepting_states_map string_accepting
  by (rule populate_rule_map) (rule populate_idx_to_accepting_states_map_def)

interpretation ips: rule_map "populate_rules_ips_map ap" "\<lambda>i ip. case convertRuleIP ap ip of Inl e \<Rightarrow> Inl e | Inr c \<Rightarrow> Inr (Some c)" for ap
  by (rule populate_rule_map) (rule populate_rules_ips_map_def)

lemma fill_array_result:
  "fill_array i rs = Inr cs \<Longrightarrow> list_all2 (\<lambda>r c. convertRule r = Inr c) rs cs \<and> (rs \<noteq> [] \<longrightarrow> i + length rs \<le> MAX_RULES_PER_MAP_PLUS1)"
proof (induction i rs arbitrary: cs rule: fill_array.induct)
  case (2 i r rs)
  then obtain c cs' where "convertRule r = Inr c" "i < MAX_RULES_PER_MAP_PLUS1" "fill_array (Suc i) rs = Inr cs'" "cs = c # cs'"
    by (auto split: sum.splits if_splits)
  with "2.IH" [of c cs'] show ?case by (cases rs) auto
qed simp

lemma populate_event_result:
  assumes "populate_event_rule_maps organized tys = Inr maps" "distinct tys" "ty \<in> set tys" "organized ty = Some rs" "rs \<noteq> []"
  shows "\<exists>cs. fill_array 0 rs = Inr cs \<and> maps ty = cs @ replicate (MAX_RULES_PER_MAP_PLUS1 - length cs) zero_rule"
  using assms
proof (induction organized tys arbitrary: maps rule: populate_event_rule_maps.induct)
  case (2 organized t tys)
  from "2.prems"(1) obtain m0 where m0: "populate_event_rule_maps organized tys = Inr m0" by (auto split: sum.splits)
  show ?case
  proof (cases "ty = t")
    case True
    with "2.prems" m0 show ?thesis by (auto split: sum.splits)
  next
    case False
    with "2.IH" [OF m0] "2.prems" have "\<exists>cs. fill_array 0 rs = Inr cs \<and> m0 ty = cs @ replicate (MAX_RULES_PER_MAP_PLUS1 - length cs) zero_rule"
      by simp
    moreover have "maps ty = m0 ty" using "2.prems"(1) m0 False by (auto split: option.splits sum.splits if_splits)
    ultimately show ?thesis by simp
  qed
qed simp

section \<open>What the organiser does\<close>

definition listing :: "'v config_Rule list option \<Rightarrow> 'v config_Rule list" where
  "listing org = (case org of None \<Rightarrow> [] | Some rs \<Rightarrow> rs)"

lemma push_events:
  "distinct evs \<Longrightarrow> fold (push_rule r) evs organized ev = (if ev \<in> set evs then Some (listing (organized ev) @ [r]) else organized ev)"
  by (induction evs arbitrary: organized) (auto simp: push_rule_def listing_def)

lemma push_rules:
  assumes "\<forall>r\<in>set rules. distinct (cr_applied_events r)"
  shows "fold (\<lambda>r. fold (push_rule r) (cr_applied_events r)) rules organized ev =
    (if filter (\<lambda>r. ev \<in> set (cr_applied_events r)) rules = [] then organized ev
     else Some (listing (organized ev) @ filter (\<lambda>r. ev \<in> set (cr_applied_events r)) rules))"
  using assms
proof (induction rules arbitrary: organized)
  case (Cons r rules)
  let ?org = "fold (push_rule r) (cr_applied_events r) organized"
  have "?org ev = (if ev \<in> set (cr_applied_events r) then Some (listing (organized ev) @ [r]) else organized ev)"
    using push_events [of "cr_applied_events r" r organized ev] Cons.prems by simp
  with Cons.IH [of ?org] Cons.prems show ?case by (simp add: listing_def)
qed simp

lemma organized_rules:
  assumes "\<forall>r\<in>set rules. distinct (cr_applied_events r)" "filter (\<lambda>r. ty \<in> set (cr_applied_events r)) rules \<noteq> []"
  shows "organize_by_event_type rules ty = Some (sort_key cr_id (filter (\<lambda>r. ty \<in> set (cr_applied_events r)) rules))"
  using push_rules [OF assms(1), of Map.empty ty] assms(2) by (simp add: organize_by_event_type_def Let_def listing_def)

definition probe_enabled :: "config_features \<Rightarrow> event_type \<Rightarrow> bool" where
  "probe_enabled features ty \<longleftrightarrow> (case ty of
     CHMOD \<Rightarrow> file_monitoring_enabled features \<and> on_chmod (file_monitoring_events features)
   | CHOWN \<Rightarrow> file_monitoring_enabled features \<and> on_chown (file_monitoring_events features)
   | FILE_CREATE \<Rightarrow> file_monitoring_enabled features \<and> on_file_create (file_monitoring_events features)
   | MKDIR \<Rightarrow> file_monitoring_enabled features \<and> on_mkdir (file_monitoring_events features)
   | RMDIR \<Rightarrow> file_monitoring_enabled features \<and> on_rmdir (file_monitoring_events features)
   | UNLINK \<Rightarrow> file_monitoring_enabled features \<and> on_unlink (file_monitoring_events features)
   | RENAME \<Rightarrow> file_monitoring_enabled features \<and> on_rename (file_monitoring_events features)
   | WRITE \<Rightarrow> file_monitoring_enabled features \<and> on_write (file_monitoring_events features)
   | READ \<Rightarrow> file_monitoring_enabled features \<and> on_read (file_monitoring_events features)
   | NETWORK \<Rightarrow> network_monitoring_enabled features
   | _ \<Rightarrow> True)"

lemma remove_apply:
  "remove_event_type ty organized ty' = (if ty' = ty then None else organized ty')"
  "remove_unless (on, ty) organized ty' = (if ty' = ty \<and> \<not> on then None else organized ty')"
  by (simp_all add: remove_event_type_def remove_unless_def)

lemma disabled_probes: "filter_out_rules_for_disabled_probes features organized ty = (if probe_enabled features ty then organized ty else None)"
  by (cases ty; cases "file_monitoring_enabled features"; cases "network_monitoring_enabled features";
      simp add: filter_out_rules_for_disabled_probes_def probe_enabled_def Let_def remove_apply)

text \<open>The marker splits the sorted rules at its id.\<close>

lemma sort_around:
  assumes "\<forall>x\<in>set xs. f x \<noteq> f e"
  shows "sort_key f (xs @ [e]) = sort_key f (filter (\<lambda>x. f x < f e) xs) @ e # sort_key f (filter (\<lambda>x. f e < f x) xs)"
    (is "_ = ?ys")
proof (rule properties_for_sort_key)
  have "mset (filter (\<lambda>x. f x < f e) xs) + mset (filter (\<lambda>x. f e < f x) xs) = mset xs"
    using assms by (induction xs) (auto simp: neq_iff)
  then show "mset ?ys = mset (xs @ [e])" by simp
  show "sorted (map f ?ys)" by (auto simp: sorted_append less_imp_le intro: order_trans)
  fix k assume k: "k \<in> set ?ys"
  have split: "filter (\<lambda>x. f k = f x) xs = filter (\<lambda>x. f k = f x) (filter (\<lambda>x. f x < f e) xs) @ filter (\<lambda>x. f k = f x) (filter (\<lambda>x. f e < f x) xs)"
    if "f k \<noteq> f e"
  proof (cases "f k < f e")
    case True
    then have "filter (\<lambda>x. f e < f x \<and> f k = f x) xs = []" "filter (\<lambda>x. f x < f e \<and> f k = f x) xs = filter (\<lambda>x. f k = f x) xs"
      by (auto simp: filter_empty_conv intro!: filter_cong)
    then show ?thesis by simp
  next
    case False
    with that have "filter (\<lambda>x. f x < f e \<and> f k = f x) xs = []" "filter (\<lambda>x. f e < f x \<and> f k = f x) xs = filter (\<lambda>x. f k = f x) xs"
      by (auto simp: filter_empty_conv intro!: filter_cong)
    then show ?thesis by simp
  qed
  show "filter (\<lambda>x. f k = f x) ?ys = filter (\<lambda>x. f k = f x) (xs @ [e])"
  proof (cases "f k = f e")
    case True
    then have "filter (\<lambda>x. f k = f x) xs = []" using assms by (auto simp: filter_empty_conv)
    then show ?thesis using True by (auto simp: filter_empty_conv)
  next
    case False
    have "filter (\<lambda>x. f k = f x) (sort_key f zs) = filter (\<lambda>x. f k = f x) zs" for zs
      using sort_key_stable [of f "f k" zs] by (simp add: eq_commute)
    then show ?thesis using split [OF False] False by simp
  qed
qed

section \<open>Address masks\<close>

lemma byte_masks: "(255 :: u32) = mask 8" "(65280 :: u32) = push_bit 8 (mask 8)" "(16711680 :: u32) = push_bit 16 (mask 8)"
  by (simp_all add: mask_eq_exp_minus_1)

lemma htonl_bit: "q < 4 \<Longrightarrow> r < 8 \<Longrightarrow> bit (htonl x) (8 * q + r) \<longleftrightarrow> bit x (8 * (3 - q) + r)"
proof -
  assume r: "r < 8" and "q < 4"
  then consider "q = 0" | "q = 1" | "q = 2" | "q = 3" by linarith
  then show ?thesis
    using r unfolding htonl_def byte_masks
    by cases (auto simp: bit_or_iff bit_and_iff bit_push_bit_iff bit_drop_bit_eq bit_mask_iff ac_simps dest: bit_imp_le_length)
qed

lemma byte_index: "k < 32 \<Longrightarrow> \<exists>q<4. \<exists>r<8. k = 8 * q + r" for k :: nat
  by (intro exI [of _ "k div 8"] conjI exI [of _ "k mod 8"]) auto

lemma htonl_and: "htonl (x AND y) = htonl x AND htonl y"
proof (rule bit_word_eqI)
  fix k assume "k < LENGTH(32)"
  then obtain q r where "q < 4" "r < 8" "k = 8 * q + r" using byte_index [of k] by auto
  then show "bit (htonl (x AND y)) k = bit (htonl x AND htonl y) k" by (simp add: htonl_bit bit_and_iff)
qed

lemma htonl_htonl: "htonl (htonl x) = x"
proof (rule bit_word_eqI)
  fix k assume "k < LENGTH(32)"
  then obtain q r where qr: "q < 4" "r < 8" "k = 8 * q + r" using byte_index [of k] by auto
  then show "bit (htonl (htonl x)) k = bit x k" by (simp add: htonl_bit)
qed

text \<open>Two addresses agree under the mask when their first bits agree, in the order of the address text.\<close>

lemma prefix_mask_agrees:
  assumes "0 < n" "n \<le> 32"
  shows "x AND prefix_mask n = y AND prefix_mask n \<longleftrightarrow> drop_bit (32 - n) (htonl x) = drop_bit (32 - n) (htonl y)"
proof -
  let ?m = "NOT (push_bit (32 - n) 1 - 1) :: u32"
  have m: "?m = NOT (mask (32 - n))" by (simp add: mask_eq_exp_minus_1 push_bit_of_1)
  have "x AND prefix_mask n = y AND prefix_mask n \<longleftrightarrow> htonl (x AND prefix_mask n) = htonl (y AND prefix_mask n)"
    by (metis htonl_htonl)
  also have "\<dots> \<longleftrightarrow> htonl x AND ?m = htonl y AND ?m" by (simp add: htonl_and prefix_mask_def htonl_htonl)
  also have "\<dots> \<longleftrightarrow> drop_bit (32 - n) (htonl x) = drop_bit (32 - n) (htonl y)"
  proof
    assume eq: "htonl x AND ?m = htonl y AND ?m"
    show "drop_bit (32 - n) (htonl x) = drop_bit (32 - n) (htonl y)"
    proof (rule bit_word_eqI)
      fix k assume "k < LENGTH(32)"
      from eq have "bit (htonl x AND ?m) (32 - n + k) = bit (htonl y AND ?m) (32 - n + k)" by simp
      then show "bit (drop_bit (32 - n) (htonl x)) k = bit (drop_bit (32 - n) (htonl y)) k"
        unfolding m by (auto simp: bit_drop_bit_eq bit_and_iff bit_not_iff bit_mask_iff dest: bit_imp_le_length)
    qed
  next
    assume eq: "drop_bit (32 - n) (htonl x) = drop_bit (32 - n) (htonl y)"
    show "htonl x AND ?m = htonl y AND ?m"
    proof (rule bit_word_eqI)
      fix k assume k: "k < LENGTH(32)"
      have "bit (htonl x) k = bit (htonl y) k" if "32 - n \<le> k"
        using arg_cong [OF eq, of "\<lambda>w. bit w (k - (32 - n))"] that by (simp add: bit_drop_bit_eq)
      then show "bit (htonl x AND ?m) k = bit (htonl y AND ?m) k"
        unfolding m by (auto simp: bit_and_iff bit_not_iff bit_mask_iff)
    qed
  qed
  finally show ?thesis .
qed

section \<open>The loaded rules\<close>

text \<open>
  What the loader is given: entries under different ids, predicates that name a table only for
  \<^verbatim>\<open>contains\<close> strings, rules with different ids and events, and tokens in postfix order.
\<close>

definition pred_ok :: "'v RulesConfig \<Rightarrow> config_Predicate \<Rightarrow> bool" where
  "pred_ok cfg p \<longleftrightarrow>
     (cp_fieldref p \<noteq> FIELD_TYPE_NONE \<longrightarrow> cp_comparison_type p \<noteq> COMPARISON_TYPE_CONTAINS \<and> cp_comparison_type p \<noteq> COMPARISON_TYPE_REGEX) \<and>
     (cp_comparison_type p = COMPARISON_TYPE_CONTAINS \<longrightarrow>
        (\<forall>(i, s) \<in> set (id_to_string cfg). (word_of_int i :: u32) = word_of_int (cp_string_idx p) \<longrightarrow>
           0 \<le> i \<and> crs_string_type s = STRING_TYPE_CONTAINS))"

definition rule_ok :: "'v config_Rule \<Rightarrow> bool" where
  "rule_ok r \<longleftrightarrow> distinct (cr_applied_events r) \<and> \<not> cr_is_end_of_rules r \<and> cr_id r \<noteq> INT_MAX \<and>
     (\<exists>x. map convertToken (cr_tokens r) = postfix x)"

definition wf_config :: "address_parser \<Rightarrow> 'v RulesConfig \<Rightarrow> bool" where
  "wf_config ap cfg \<longleftrightarrow> ids_differ (id_to_string cfg) \<and> ids_differ (id_to_predicate cfg) \<and>
     (\<forall>(i, p) \<in> set (id_to_predicate cfg). pred_ok cfg p) \<and>
     (\<forall>r \<in> set (config_rules cfg). rule_ok r) \<and> distinct (map cr_id (config_rules cfg)) \<and>
     (\<forall>t a. pton6 ap t = Some a \<longrightarrow> length a = 4)"

lemma wf_config_rule: "wf_config ap cfg \<Longrightarrow> r \<in> set (config_rules cfg) \<Longrightarrow> rule_ok r"
  by (simp add: wf_config_def)

lemma load_parts:
  assumes "load_rules v features ap cfg ro = Inr ro'"
  shows "populate_predicates_map (id_to_predicate cfg) = Inr (predicates_map ro')"
    "populate_rules_strings_map (id_to_string cfg) = Inr (rules_strings_map ro')"
    "populate_idx_to_DFA_map (id_to_string cfg) = Inr (idx_to_DFA_map ro')"
    "populate_idx_to_accepting_states_map (id_to_string cfg) = Inr (idx_to_accepting_states_map ro')"
    "populate_rules_ips_map ap (id_to_ip cfg) = Inr (rules_ips_map ro')"
    "populate_event_rule_maps (organize_rules v features (add_end_rules (v_zero v) (config_rules cfg))) event_types = Inr (event_rules ro')"
  using assms by (auto simp: load_rules_def create_rule_maps_from_organized_rules_def split: sum.splits)

lemma length_ipv6_masks [simp]: "length (ipv6_masks n b) = n"
  by (induction n b rule: ipv6_masks.induct) simp_all

lemma loaded_ip:
  assumes "load_rules v features ap cfg ro = Inr ro'" "wf_config ap cfg" "rules_ips_map ro' k = Some ip"
  shows "length (ri_ip ip) = 4 \<and> length (ri_cidr_mask ip) = 4"
proof -
  from ips.origin [OF load_parts(5) [OF assms(1)] assms(3)]
  obtain c where "(case convertRuleIP ap c of Inl e \<Rightarrow> Inl e | Inr y \<Rightarrow> Inr (Some y)) = Inr (Some ip)" by auto
  then have "convertRuleIP ap c = Inr ip" by (simp split: sum.split_asm)
  with assms(2) show ?thesis by (auto simp: convertRuleIP_def wf_config_def split: if_splits option.splits)
qed

lemma loaded_string:
  assumes "load_rules v features ap cfg ro = Inr ro'" "rules_strings_map ro' k = Some str"
  obtains i s where "(i, s) \<in> set (id_to_string cfg)" "k = word_of_int i" "length (rs_value str) = MAX_NEEDLE_LENGTH"
    "unat (rs_length str) = length (crs_value s)" "length (crs_value s) \<le> MAX_NEEDLE_LENGTH" "rule_content str = crs_value s"
    "rs_idx_to_DFA str = (if crs_string_type s \<noteq> STRING_TYPE_DEFAULT then i else -1)"
proof -
  from strings.origin [OF load_parts(2) [OF assms(1)] assms(2)]
  obtain i s where s: "(i, s) \<in> set (id_to_string cfg)" "k = word_of_int i"
    "(case convertRuleString s of Inl e \<Rightarrow> Inl e
      | Inr c \<Rightarrow> Inr (Some (c\<lparr>rs_idx_to_DFA := if crs_string_type s \<noteq> STRING_TYPE_DEFAULT then i else -1\<rparr>))) = Inr (Some str)"
    by auto
  then obtain c where "convertRuleString s = Inr c"
    "str = c\<lparr>rs_idx_to_DFA := if crs_string_type s \<noteq> STRING_TYPE_DEFAULT then i else -1\<rparr>"
    by (cases "convertRuleString s") auto
  with s(1,2) show thesis
    using that [of i s] by (auto simp: convertRuleString_def rule_content_def unat_of_nat split: if_splits)
qed

lemma loaded_dfa:
  assumes "load_rules v features ap cfg ro = Inr ro'" "wf_config ap cfg" "(i, s) \<in> set (id_to_string cfg)"
  shows "crs_string_type s = STRING_TYPE_CONTAINS \<Longrightarrow> idx_to_DFA_map ro' (word_of_int i) = Some (buildKmpDfa (crs_value s))"
    and "crs_string_type s = STRING_TYPE_REGEX \<Longrightarrow> \<exists>dfa acc. buildRegexDfa (crs_value s) = Inr (dfa, acc) \<and>
      idx_to_DFA_map ro' (word_of_int i) = Some dfa \<and> idx_to_accepting_states_map ro' (word_of_int i) = Some acc"
proof -
  have ids: "ids_differ (id_to_string cfg)" using assms(2) by (simp add: wf_config_def)
  note d = dfas.entry [OF load_parts(3) [OF assms(1)] ids assms(3)]
  note a = accepting.entry [OF load_parts(4) [OF assms(1)] ids assms(3)]
  show "crs_string_type s = STRING_TYPE_CONTAINS \<Longrightarrow> idx_to_DFA_map ro' (word_of_int i) = Some (buildKmpDfa (crs_value s))"
    using d by (auto simp: string_dfa_def)
  show "crs_string_type s = STRING_TYPE_REGEX \<Longrightarrow> \<exists>dfa acc. buildRegexDfa (crs_value s) = Inr (dfa, acc) \<and>
      idx_to_DFA_map ro' (word_of_int i) = Some dfa \<and> idx_to_accepting_states_map ro' (word_of_int i) = Some acc"
    using d a by (auto simp: string_dfa_def string_accepting_def split: sum.splits)
qed

lemma loaded_db:
  assumes "load_rules v features ap cfg ro = Inr ro'" "wf_config ap cfg"
  shows "wf_rules_db ro'"
  unfolding wf_rules_db_def
proof (intro allI impI)
  fix k p assume "predicates_map ro' k = Some p"
  from predicates.origin [OF load_parts(1) [OF assms(1)] this]
  obtain i c where c: "(i, c) \<in> set (id_to_predicate cfg)" "p = convertPredicate c" by auto
  then have ok: "pred_ok cfg c" using assms(2) by (auto simp: wf_config_def)
  have "wf_rule_string ro' p str" if str: "rule_string ro' p = Some str" for str
  proof -
    from str c(2) have lookup: "rules_strings_map ro' (word_of_int (cp_string_idx c)) = Some str"
      by (simp add: rule_string_def convertPredicate_def)
    obtain j s where s: "(j, s) \<in> set (id_to_string cfg)" "word_of_int (cp_string_idx c) = (word_of_int j :: u32)"
      "length (rs_value str) = MAX_NEEDLE_LENGTH" "unat (rs_length str) = length (crs_value s)"
      "length (crs_value s) \<le> MAX_NEEDLE_LENGTH" "rule_content str = crs_value s"
      "rs_idx_to_DFA str = (if crs_string_type s \<noteq> STRING_TYPE_DEFAULT then j else -1)"
      by (rule loaded_string [OF assms(1) lookup])
    have "0 \<le> j \<and> crs_string_type s = STRING_TYPE_CONTAINS" if "cp_comparison_type c = COMPARISON_TYPE_CONTAINS"
      using ok that s(1,2) by (auto simp: pred_ok_def)
    with loaded_dfa(1) [OF assms s(1)] s c(2) show ?thesis
      by (auto simp: wf_rule_string_def convertPredicate_def)
  qed
  moreover have "length (ri_ip ip) = 4 \<and> length (ri_cidr_mask ip) = 4" if "rules_ips_map ro' (pr_numerical_value p) = Some ip" for ip
    by (rule loaded_ip [OF assms that])
  ultimately show "wf_pred ro' p" using ok c(2) by (auto simp: wf_pred_def pred_ok_def convertPredicate_def)
qed

text \<open>The rules in force for an event type: the applicable ones of the right version, below the id of the marker.\<close>

definition in_force :: "'v versions \<Rightarrow> event_type \<Rightarrow> 'v config_Rule \<Rightarrow> bool" where
  "in_force v ty r \<longleftrightarrow> ty \<in> set (cr_applied_events r) \<and> \<not> version_excludes v r \<and> cr_id r < INT_MAX"

lemma convertRule_Inr:
  assumes "convertRule r = Inr c"
  shows "r_id c = cr_id r" "r_action c = cr_action r" "r_is_end_of_rules c = (if cr_is_end_of_rules r then 1 else 0)"
    and "map convertToken (cr_tokens r) = postfix x \<Longrightarrow> rule_encodes c x"
proof -
  have len: "length (cr_tokens r) \<le> MAX_TOKENS_PER_RULE" using assms by (auto simp: convertRule_def split: if_splits)
  then have c: "c = \<lparr>r_id = cr_id r, r_action = cr_action r, r_token_count = word_of_nat (length (cr_tokens r)),
      r_is_end_of_rules = (if cr_is_end_of_rules r then 1 else 0),
      r_tokens = map convertToken (cr_tokens r) @ replicate (MAX_TOKENS_PER_RULE - length (cr_tokens r)) zero_token\<rparr>"
    using assms by (simp add: convertRule_def)
  show "r_id c = cr_id r" "r_action c = cr_action r" "r_is_end_of_rules c = (if cr_is_end_of_rules r then 1 else 0)"
    by (simp_all add: c)
  assume post: "map convertToken (cr_tokens r) = postfix x"
  then have "length (postfix x) = length (cr_tokens r)" by (metis length_map)
  with post len show "rule_encodes c x" by (simp add: c rule_encodes_def unat_of_nat)
qed

lemma organized_array:
  assumes "wf_config ap cfg" "probe_enabled features ty" "ty \<in> set (cr_applied_events (end_rule (v_zero v)))"
  shows "\<exists>upper. organize_rules v features (add_end_rules (v_zero v) (config_rules cfg)) ty =
    Some (sort_key cr_id (filter (in_force v ty) (config_rules cfg)) @ end_rule (v_zero v) # upper)"
proof -
  let ?e = "end_rule (v_zero v)" and ?app = "\<lambda>r. ty \<in> set (cr_applied_events r)"
  let ?rules = "config_rules cfg @ [?e]"
  have ok: "\<forall>r\<in>set (config_rules cfg). rule_ok r" using assms(1) by (simp add: wf_config_def)
  then have distinct: "\<forall>r\<in>set ?rules. distinct (cr_applied_events r)" by (auto simp: rule_ok_def end_rule_def)
  have app: "filter ?app ?rules = filter ?app (config_rules cfg) @ [?e]" using assms(3) by simp
  have ne: "\<forall>r\<in>set (filter ?app (config_rules cfg)). cr_id r \<noteq> cr_id ?e" using ok by (auto simp: rule_ok_def end_rule_def)
  have keep: "\<not> version_excludes v ?e" by (simp add: version_excludes_def end_rule_def)
  have "organize_by_event_type ?rules ty = Some (sort_key cr_id (filter ?app (config_rules cfg) @ [?e]))"
    using organized_rules [OF distinct, of ty] app by simp
  then have "organize_rules v features ?rules ty =
    Some (filter (\<lambda>r. \<not> version_excludes v r) (sort_key cr_id (filter ?app (config_rules cfg) @ [?e])))"
    using assms(2) by (simp add: organize_rules_def filter_out_rules_by_version_def disabled_probes)
  also have "filter (\<lambda>r. \<not> version_excludes v r) (sort_key cr_id (filter ?app (config_rules cfg) @ [?e])) =
    sort_key cr_id (filter (\<lambda>r. \<not> version_excludes v r) (filter (\<lambda>r. cr_id r < cr_id ?e) (filter ?app (config_rules cfg)))) @ ?e #
    filter (\<lambda>r. \<not> version_excludes v r) (sort_key cr_id (filter (\<lambda>r. cr_id ?e < cr_id r) (filter ?app (config_rules cfg))))"
    unfolding sort_around [OF ne] by (simp add: keep filter_sort)
  also have "filter (\<lambda>r. \<not> version_excludes v r) (filter (\<lambda>r. cr_id r < cr_id ?e) (filter ?app (config_rules cfg))) =
    filter (in_force v ty) (config_rules cfg)"
    by (auto simp: in_force_def end_rule_def intro!: filter_cong)
  finally show ?thesis by (auto simp: add_end_rules_def)
qed

lemma loaded_array:
  assumes "load_rules v features ap cfg ro = Inr ro'" "wf_config ap cfg" "probe_enabled features ty"
    and "ty \<in> set (cr_applied_events (end_rule (v_zero v)))"
  obtains cs stop rest where "event_rules ro' ty = cs @ stop # rest" "r_is_end_of_rules stop \<noteq> 0"
    "list_all2 (\<lambda>r c. convertRule r = Inr c) (sort_key cr_id (filter (in_force v ty) (config_rules cfg))) cs"
proof -
  obtain upper where org: "organize_rules v features (add_end_rules (v_zero v) (config_rules cfg)) ty =
    Some (sort_key cr_id (filter (in_force v ty) (config_rules cfg)) @ end_rule (v_zero v) # upper)"
    using organized_array [OF assms(2-4)] by blast
  have "distinct event_types" "ty \<in> set event_types"
    using assms(4) by (auto simp: event_types_def end_rule_def)
  from populate_event_result [OF load_parts(6) [OF assms(1)] this org] obtain all where
    all: "fill_array 0 (sort_key cr_id (filter (in_force v ty) (config_rules cfg)) @ end_rule (v_zero v) # upper) = Inr all"
      "event_rules ro' ty = all @ replicate (MAX_RULES_PER_MAP_PLUS1 - length all) zero_rule" by auto
  from fill_array_result [OF all(1)] obtain cs stop more where
    cs: "all = cs @ stop # more" "list_all2 (\<lambda>r c. convertRule r = Inr c) (sort_key cr_id (filter (in_force v ty) (config_rules cfg))) cs"
      "convertRule (end_rule (v_zero v)) = Inr stop"
    by (auto simp: list_all2_append1 list_all2_Cons1)
  have "r_is_end_of_rules stop \<noteq> 0" using convertRule_Inr(3) [OF cs(3)] by (simp add: end_rule_def)
  with that cs(1,2) all(2) show thesis by simp
qed

lemma list_all2_origin: "list_all2 P xs ys \<Longrightarrow> y \<in> set ys \<Longrightarrow> \<exists>x\<in>set xs. P x y"
  by (induction rule: list_all2_induct) auto

lemma loaded_before_end:
  assumes "load_rules v features ap cfg ro = Inr ro'" "wf_config ap cfg" "probe_enabled features ty"
    and "ty \<in> set (cr_applied_events (end_rule (v_zero v)))"
  shows "list_all2 (\<lambda>r c. convertRule r = Inr c) (sort_key cr_id (filter (in_force v ty) (config_rules cfg)))
      (takeWhile (\<lambda>c. r_is_end_of_rules c = 0) (event_rules ro' ty))"
    and "first_match P (event_rules ro' ty) = find P (takeWhile (\<lambda>c. r_is_end_of_rules c = 0) (event_rules ro' ty))"
proof -
  obtain cs stop rest where arr: "event_rules ro' ty = cs @ stop # rest" "r_is_end_of_rules stop \<noteq> 0"
    "list_all2 (\<lambda>r c. convertRule r = Inr c) (sort_key cr_id (filter (in_force v ty) (config_rules cfg))) cs"
    by (rule loaded_array [OF assms])
  have live: "r_is_end_of_rules c = 0" if "c \<in> set cs" for c
  proof -
    from list_all2_origin [OF arr(3) that] obtain r where r: "r \<in> set (config_rules cfg)" "convertRule r = Inr c" by auto
    then show ?thesis using wf_config_rule [OF assms(2) r(1)] convertRule_Inr(3) [OF r(2)] by (simp add: rule_ok_def)
  qed
  then have take: "takeWhile (\<lambda>c. r_is_end_of_rules c = 0) (event_rules ro' ty) = cs"
    using arr(2) by (simp add: arr(1) takeWhile_append)
  show "list_all2 (\<lambda>r c. convertRule r = Inr c) (sort_key cr_id (filter (in_force v ty) (config_rules cfg)))
      (takeWhile (\<lambda>c. r_is_end_of_rules c = 0) (event_rules ro' ty))" using arr(3) by (simp add: take)
  have "first_match P (cs @ stop # rest) = find P cs" if "\<forall>c\<in>set cs. r_is_end_of_rules c = 0" for cs
    using that arr(2) by (induction cs) auto
  then show "first_match P (event_rules ro' ty) = find P (takeWhile (\<lambda>c. r_is_end_of_rules c = 0) (event_rules ro' ty))"
    using live by (simp add: take) (simp add: arr(1))
qed

lemma loaded_rules_ok:
  assumes "load_rules v features ap cfg ro = Inr ro'" "wf_config ap cfg" "probe_enabled features ty"
    and "ty \<in> set (cr_applied_events (end_rule (v_zero v)))"
  shows "\<exists>ex. rules_ok ro' ty ex"
proof -
  have "\<exists>x. rule_encodes c x" if "c \<in> set (takeWhile (\<lambda>c. r_is_end_of_rules c = 0) (event_rules ro' ty))" for c
  proof -
    from list_all2_origin [OF loaded_before_end(1) [OF assms] that] obtain r where r: "r \<in> set (config_rules cfg)" "convertRule r = Inr c" by auto
    then show ?thesis using wf_config_rule [OF assms(2) r(1)] convertRule_Inr(4) [OF r(2)] by (auto simp: rule_ok_def)
  qed
  then have "rules_encode (event_rules ro' ty) (\<lambda>c. SOME x. rule_encodes c x)"
    unfolding rules_encode_def by (blast intro: someI_ex)
  with loaded_db [OF assms(1,2)] show ?thesis by (auto simp: rules_ok_def)
qed

text \<open>In a list sorted by ids that differ, the first hit has the least id.\<close>

lemma find_least:
  assumes "list_all2 (\<lambda>r c. conv r = Inr c) rs cs" "sorted (map key rs)" "distinct (map key rs)"
  shows "find P cs = Some c \<longleftrightarrow> (\<exists>r\<in>set rs. conv r = Inr c \<and> P c \<and>
    (\<forall>r'\<in>set rs. key r' < key r \<longrightarrow> (\<exists>c'. conv r' = Inr c' \<and> \<not> P c')))"
  using assms
proof (induction rs cs rule: list_all2_induct)
  case (Cons r rs a cs)
  have rest: "\<forall>r'\<in>set rs. key r < key r'" using Cons.prems by (auto simp: less_le image_iff)
  show ?case
  proof (cases "P a")
    case True
    with Cons.hyps(1) rest show ?thesis by (auto dest: less_asym)
  next
    case False
    with Cons rest show ?thesis by (auto dest: less_asym)
  qed
qed simp

lemma loaded_decision:
  assumes "load_rules v features ap cfg ro = Inr ro'" "wf_config ap cfg" "probe_enabled features ty"
    and "ty \<in> set (cr_applied_events (end_rule (v_zero v)))"
  shows "first_match P (event_rules ro' ty) = Some c \<longleftrightarrow>
    (\<exists>r\<in>set (config_rules cfg). in_force v ty r \<and> convertRule r = Inr c \<and> P c \<and>
      (\<forall>r'\<in>set (config_rules cfg). in_force v ty r' \<longrightarrow> cr_id r' < cr_id r \<longrightarrow> (\<exists>c'. convertRule r' = Inr c' \<and> \<not> P c')))"
proof -
  let ?rs = "sort_key cr_id (filter (in_force v ty) (config_rules cfg))"
  have "distinct (map cr_id ?rs)"
    using assms(2) by (auto simp: wf_config_def distinct_map inj_on_def)
  from find_least [OF loaded_before_end(1) [OF assms] sorted_sort_key this, of P c]
  show ?thesis unfolding loaded_before_end(2) [OF assms] by auto
qed

section \<open>When loading succeeds\<close>

lemma fill_array_ok:
  "i + length rs \<le> MAX_RULES_PER_MAP_PLUS1 \<Longrightarrow> (\<And>r. r \<in> set rs \<Longrightarrow> length (cr_tokens r) \<le> MAX_TOKENS_PER_RULE) \<Longrightarrow>
   \<exists>cs. fill_array i rs = Inr cs"
proof (induction i rs rule: fill_array.induct)
  case (2 i r rs)
  from "2.prems"(2) [of r] obtain c where c: "convertRule r = Inr c" by (auto simp: convertRule_def)
  with "2.prems" have "\<exists>cs. fill_array (Suc i) rs = Inr cs" by (intro "2.IH" [OF c]) auto
  with c "2.prems"(1) show ?case by auto
qed simp

lemma populate_event_ok:
  "(\<And>ty rs. organized ty = Some rs \<Longrightarrow> \<exists>cs. fill_array 0 rs = Inr cs) \<Longrightarrow> \<exists>maps. populate_event_rule_maps organized tys = Inr maps"
proof (induction tys)
  case (Cons ty tys)
  then obtain maps where "populate_event_rule_maps organized tys = Inr maps" by blast
  then show ?case using Cons.prems [of ty] by (auto split: option.splits)
qed simp

lemma organized_some:
  assumes "organize_rules v features rules ty = Some rs" "\<forall>r\<in>set rules. distinct (cr_applied_events r)"
  shows "set rs \<subseteq> set rules \<and> length rs \<le> length rules"
proof -
  let ?fs = "filter (\<lambda>r. ty \<in> set (cr_applied_events r)) rules"
  have "?fs \<noteq> []" using assms push_rules [OF assms(2), of Map.empty ty]
    by (auto simp: organize_rules_def filter_out_rules_by_version_def disabled_probes organize_by_event_type_def Let_def split: if_splits)
  from organized_rules [OF assms(2) this] assms(1) have "rs = filter (\<lambda>r. \<not> version_excludes v r) (sort_key cr_id ?fs)"
    by (auto simp: organize_rules_def filter_out_rules_by_version_def disabled_probes split: if_splits)
  moreover have "length (filter (\<lambda>r. \<not> version_excludes v r) (sort_key cr_id ?fs)) \<le> length rules"
    by (intro order_trans [OF length_filter_le]) simp
  ultimately show ?thesis by auto
qed

definition within_limits :: "address_parser \<Rightarrow> 'v RulesConfig \<Rightarrow> bool" where
  "within_limits ap cfg \<longleftrightarrow>
     length (id_to_string cfg) \<le> MAX_TOTAL_PREDS \<and> length (id_to_predicate cfg) \<le> MAX_TOTAL_PREDS \<and>
     length (id_to_ip cfg) \<le> MAX_TOTAL_PREDS \<and> length (config_rules cfg) < MAX_RULES_PER_MAP_PLUS1 \<and>
     (\<forall>(i, s) \<in> set (id_to_string cfg). length (crs_value s) \<le> MAX_NEEDLE_LENGTH \<and>
        (crs_string_type s = STRING_TYPE_REGEX \<longrightarrow> (\<exists>t. buildRegexDfa (crs_value s) = Inr t))) \<and>
     (\<forall>(i, ip) \<in> set (id_to_ip cfg). \<exists>a. convertRuleIP ap ip = Inr a) \<and>
     (\<forall>r \<in> set (config_rules cfg). length (cr_tokens r) \<le> MAX_TOKENS_PER_RULE)"

lemma load_succeeds:
  assumes "within_limits ap cfg" "wf_config ap cfg"
  shows "\<exists>ro'. load_rules v features ap cfg ro = Inr ro'"
proof -
  let ?org = "organize_rules v features (add_end_rules (v_zero v) (config_rules cfg))"
  have "\<exists>m. populate_predicates_map (id_to_predicate cfg) = Inr m" "\<exists>m. populate_rules_strings_map (id_to_string cfg) = Inr m"
    "\<exists>m. populate_idx_to_DFA_map (id_to_string cfg) = Inr m" "\<exists>m. populate_idx_to_accepting_states_map (id_to_string cfg) = Inr m"
    "\<exists>m. populate_rules_ips_map ap (id_to_ip cfg) = Inr m"
    using assms(1) unfolding within_limits_def
    by (intro predicates.fills strings.fills dfas.fills accepting.fills ips.fills;
        fastforce simp: convertRuleString_def string_dfa_def string_accepting_def split: string_type.split)+
  moreover have "\<exists>maps. populate_event_rule_maps ?org event_types = Inr maps"
  proof (rule populate_event_ok)
    fix ty rs assume "?org ty = Some rs"
    moreover have "\<forall>r\<in>set (add_end_rules (v_zero v) (config_rules cfg)). distinct (cr_applied_events r)"
      using wf_config_rule [OF assms(2)] by (auto simp: add_end_rules_def rule_ok_def end_rule_def)
    ultimately have "set rs \<subseteq> insert (end_rule (v_zero v)) (set (config_rules cfg))" "length rs \<le> Suc (length (config_rules cfg))"
      using organized_some [of v features "add_end_rules (v_zero v) (config_rules cfg)" ty rs] by (simp_all add: add_end_rules_def)
    with assms(1) show "\<exists>cs. fill_array 0 rs = Inr cs"
      by (intro fill_array_ok) (auto simp: within_limits_def end_rule_def)
  qed
  ultimately show ?thesis by (auto simp: load_rules_def create_rule_maps_from_organized_rules_def)
qed

section \<open>From the configuration to the verdict\<close>

text \<open>The tokens of a rule determine its expression.\<close>

fun decode :: "token_t list \<Rightarrow> expr list \<Rightarrow> expr list" where
  "decode [] st = st"
| "decode (t # ts) st = (case (t_operator_type t, st) of
     (OPERATOR_PREDICATE, st) \<Rightarrow> decode ts (Pred (t_pred_idx t) # st)
   | (OPERATOR_AND, b # a # st) \<Rightarrow> decode ts (And a b # st)
   | (OPERATOR_OR, b # a # st) \<Rightarrow> decode ts (Or a b # st)
   | (OPERATOR_NOT, a # st) \<Rightarrow> decode ts (Not a # st)
   | _ \<Rightarrow> [])"

lemma decode_postfix: "decode (postfix x @ ts) st = decode ts (x # st)"
  by (induction x arbitrary: ts st) simp_all

lemma postfix_inject: "postfix x = postfix y \<Longrightarrow> x = y"
  using decode_postfix [of x "[]" "[]"] decode_postfix [of y "[]" "[]"] by simp

definition config_matches :: "ro_env \<Rightarrow> event_t \<Rightarrow> 'v config_Rule \<Rightarrow> bool" where
  "config_matches ro e r \<longleftrightarrow> (\<exists>x. map convertToken (cr_tokens r) = postfix x \<and> expr_sem (pred_holds ro e) x)"

definition decides :: "'v versions \<Rightarrow> event_type \<Rightarrow> ro_env \<Rightarrow> event_t \<Rightarrow> 'v config_Rule list \<Rightarrow> 'v config_Rule \<Rightarrow> bool" where
  "decides v ty ro e rules r \<longleftrightarrow> r \<in> set rules \<and> in_force v ty r \<and> config_matches ro e r \<and>
     (\<forall>r'\<in>set rules. in_force v ty r' \<and> config_matches ro e r' \<longrightarrow> cr_id r \<le> cr_id r')"

lemma encodes_matches:
  assumes "convertRule r = Inr c" "rule_ok r" "rule_encodes c x"
  shows "config_matches ro e r \<longleftrightarrow> expr_sem (pred_holds ro e) x"
proof -
  from assms(2) obtain y where y: "map convertToken (cr_tokens r) = postfix y" by (auto simp: rule_ok_def)
  from convertRule_Inr(4) [OF assms(1) y] assms(3) have "postfix y = postfix x" by (auto simp: rule_encodes_def)
  then show ?thesis using y postfix_inject by (auto simp: config_matches_def)
qed

lemma loaded_matches:
  assumes "load_rules v features ap cfg ro = Inr ro'" "wf_config ap cfg" "probe_enabled features ty"
    and "ty \<in> set (cr_applied_events (end_rule (v_zero v)))"
    and "rules_encode (event_rules ro' ty) ex" "r \<in> set (config_rules cfg)" "in_force v ty r"
  shows "\<exists>c. convertRule r = Inr c \<and> (config_matches ro' e r \<longleftrightarrow> expr_sem (pred_holds ro' e) (ex c))"
proof -
  let ?cs = "takeWhile (\<lambda>c. r_is_end_of_rules c = 0) (event_rules ro' ty)"
  have "r \<in> set (sort_key cr_id (filter (in_force v ty) (config_rules cfg)))" using assms(6,7) by simp
  with loaded_before_end(1) [OF assms(1-4)] obtain c where "c \<in> set ?cs" "convertRule r = Inr c"
    by (metis (mono_tags, lifting) in_set_conv_nth list_all2_conv_all_nth)
  with encodes_matches [OF _ wf_config_rule [OF assms(2,6)]] assms(5) show ?thesis by (auto simp: rules_encode_def)
qed

lemma loaded_decides:
  assumes "load_rules v features ap cfg ro = Inr ro'" "wf_config ap cfg" "probe_enabled features ty"
    and "ty \<in> set (cr_applied_events (end_rule (v_zero v)))" and "rules_encode (event_rules ro' ty) ex"
  shows "decides v ty ro' e (config_rules cfg) r \<Longrightarrow>
      decision ro' ex ty e = e\<lparr>ev_action := cr_action r, ev_matched_rule_id := cr_id r\<rparr>"
    and "(\<forall>r. \<not> decides v ty ro' e (config_rules cfg) r) \<Longrightarrow> decision ro' ex ty e = e"
proof -
  let ?P = "\<lambda>c. expr_sem (pred_holds ro' e) (ex c)" and ?rules = "config_rules cfg"
  note dec = loaded_decision [OF assms(1-4), of ?P]
  note matches = loaded_matches [OF assms]
  have first: "first_match ?P (event_rules ro' ty) = Some c \<longleftrightarrow> (\<exists>r. decides v ty ro' e ?rules r \<and> convertRule r = Inr c)" for c
    unfolding dec decides_def using matches [of _ e] by (metis linorder_not_less sum.inject(2))
  { assume d: "decides v ty ro' e ?rules r"
    then obtain c where c: "convertRule r = Inr c" using matches [of r e] by (auto simp: decides_def)
    with d first have "first_match ?P (event_rules ro' ty) = Some c" by blast
    then show "decision ro' ex ty e = e\<lparr>ev_action := cr_action r, ev_matched_rule_id := cr_id r\<rparr>"
      by (simp add: decision_def decided_event_def convertRule_Inr(1,2) [OF c]) }
  assume "\<forall>r. \<not> decides v ty ro' e ?rules r"
  with first have "first_match ?P (event_rules ro' ty) = None" by (cases "first_match ?P (event_rules ro' ty)") auto
  then show "decision ro' ex ty e = e" by (simp add: decision_def decided_event_def)
qed

section \<open>Metadata\<close>

text \<open>The metadata of a rule id are those of the first rule with the id, while the counter does not wrap.\<close>

definition tracker_ok :: "RulesMetadataTracker \<Rightarrow> bool" where
  "tracker_ok t \<longleftrightarrow> (\<forall>m i. metadata_to_id_map t m = Some i \<longrightarrow> id_to_metadata_map t i = Some m) \<and>
     (\<forall>i. i \<in> dom (id_to_metadata_map t) \<longrightarrow> i < metadata_id_counter t) \<and>
     (\<forall>r i. rule_id_to_metadata_id_map t r = Some i \<longrightarrow> i \<in> dom (id_to_metadata_map t))"

lemma counter_step: "(c :: u32) \<noteq> 4294967295 \<Longrightarrow> c < c + 1 \<and> unat (c + 1) = Suc (unat c)"
proof -
  assume "c \<noteq> 4294967295"
  then have "unat c \<noteq> 4294967295" by (auto simp: word_unat_eq_iff)
  then have "unat c < 4294967295" using unsigned_less [of c, where ?'a = nat] by simp
  then have "unat (c + 1) = Suc (unat c)" by (simp add: unat_word_ariths)
  then show ?thesis by (simp add: word_less_nat_alt)
qed

lemma add_metadata_get:
  assumes "tracker_ok t" "metadata_id_counter t \<noteq> 4294967295"
  shows "tracker_ok (add_metadata r t)"
    and "get_metadata (add_metadata r t) k =
      (case get_metadata t k of Some m \<Rightarrow> Some m | None \<Rightarrow> if k = cr_id r then Some (cr_metadata r) else None)"
    and "unat (metadata_id_counter (add_metadata r t)) \<le> Suc (unat (metadata_id_counter t))"
proof -
  let ?c = "metadata_id_counter t"
  note step = counter_step [OF assms(2)]
  have fresh: "id_to_metadata_map t ?c = None" using assms(1) by (auto simp: tracker_ok_def)
  have known: "\<exists>m. get_metadata t k = Some m" if "rule_id_to_metadata_id_map t k = Some i" for k i
    using assms(1) that by (auto simp: tracker_ok_def get_metadata_def)
  consider (old) i where "rule_id_to_metadata_id_map t (cr_id r) = Some i"
    | (shared) i where "rule_id_to_metadata_id_map t (cr_id r) = None" "metadata_to_id_map t (cr_metadata r) = Some i"
    | (new) "rule_id_to_metadata_id_map t (cr_id r) = None" "metadata_to_id_map t (cr_metadata r) = None" by fastforce
  then have "tracker_ok (add_metadata r t) \<and> get_metadata (add_metadata r t) k =
      (case get_metadata t k of Some m \<Rightarrow> Some m | None \<Rightarrow> if k = cr_id r then Some (cr_metadata r) else None) \<and>
    unat (metadata_id_counter (add_metadata r t)) \<le> Suc (unat ?c)"
  proof cases
    case old
    with known [OF old] assms(1) show ?thesis by (auto simp: add_metadata_def split: option.splits)
  next
    case shared
    then have "id_to_metadata_map t i = Some (cr_metadata r)" using assms(1) by (auto simp: tracker_ok_def)
    with shared assms(1) show ?thesis
      by (auto simp: add_metadata_def tracker_ok_def get_metadata_def split: option.splits)
  next
    case new
    have "tracker_ok (add_metadata r t)"
      using new assms(1) fresh step by (auto simp: add_metadata_def tracker_ok_def Let_def split: if_splits intro: less_trans)
    moreover have "get_metadata (add_metadata r t) k =
      (case get_metadata t k of Some m \<Rightarrow> Some m | None \<Rightarrow> if k = cr_id r then Some (cr_metadata r) else None)"
      using new fresh assms(1)
      by (cases "rule_id_to_metadata_id_map t k") (auto simp: add_metadata_def get_metadata_def Let_def tracker_ok_def split: option.splits)
    ultimately show ?thesis using new step by (simp add: add_metadata_def Let_def)
  qed
  then show "tracker_ok (add_metadata r t)"
    and "get_metadata (add_metadata r t) k =
      (case get_metadata t k of Some m \<Rightarrow> Some m | None \<Rightarrow> if k = cr_id r then Some (cr_metadata r) else None)"
    and "unat (metadata_id_counter (add_metadata r t)) \<le> Suc (unat ?c)" by blast+
qed

lemma metadata_found:
  assumes "length rules < 4294967295"
  shows "get_metadata (track_metadata rules) k = map_option cr_metadata (find (\<lambda>r. cr_id r = k) rules)"
proof -
  have "get_metadata (fold add_metadata rules t) k =
    (case get_metadata t k of Some m \<Rightarrow> Some m | None \<Rightarrow> map_option cr_metadata (find (\<lambda>r. cr_id r = k) rules))"
    if "tracker_ok t" "unat (metadata_id_counter t) + length rules < 4294967295" for t
    using that
  proof (induction rules arbitrary: t)
    case (Cons r rules)
    have "metadata_id_counter t \<noteq> 4294967295" using Cons.prems(2) by (auto simp: word_unat_eq_iff)
    note add = add_metadata_get [OF Cons.prems(1) this, of r]
    from Cons.IH [OF add(1)] add(2) add(3) Cons.prems(2) show ?case by (auto split: option.splits)
  qed (auto split: option.splits)
  from this [of "\<lparr>metadata_to_id_map = Map.empty, id_to_metadata_map = Map.empty, rule_id_to_metadata_id_map = Map.empty, metadata_id_counter = 0\<rparr>"]
  show ?thesis using assms by (simp add: track_metadata_def tracker_ok_def get_metadata_def)
qed

end
