(* ===== verification/Event_Delivery.thy ===== *)
theory Event_Delivery
  imports Rule_Loader
begin

text \<open>
  How the daemon delivers what the programs report. \<^verbatim>\<open>events/event.hpp\<close> turns the raw structures of
  the ring buffers into messages, \<^verbatim>\<open>events/sync_enrichment.hpp\<close> adds the metadata of the matched rule,
  and \<^verbatim>\<open>RingbufferMessagesHandler\<close> (\<^verbatim>\<open>ringbuffers_messages_handlers.hpp\<close>) moves messages from the
  thread that polls the ring buffer to the thread that writes them. The two threads are the
  steps of a relation; a step is what a thread does without touching shared state twice, that is
  a section under the mutex, a read of \<^verbatim>\<open>m_running\<close>, or work on the thread's own queues. The
  batches handed to the serialiser are kept, the serialiser itself is not modelled.
\<close>

section \<open>Messages\<close>

text \<open>\<^verbatim>\<open>std::string(p.value, p.length)\<close>.\<close>

definition std_string :: "bytes \<Rightarrow> u16 \<Rightarrow> bytes" where
  "std_string value_bytes len = take (unat len) value_bytes"

record File =
  uf_inode :: u64
  uf_dev :: u32
  uf_unique_inode_id :: u64
  uf_path :: bytes
  uf_owner_uid :: u32
  uf_owner_gid :: u32
  uf_mode :: u16
  uf_type :: file_type
  uf_suid :: u8
  uf_sgid :: u8
  uf_last_modified_seconds :: u64
  uf_nlink :: u32
  uf_filename :: bytes

definition File_of :: "file_t \<Rightarrow> File" where
  "File_of f = \<lparr>uf_inode = f_inode f, uf_dev = f_dev f, uf_unique_inode_id = f_unique_inode_id f,
     uf_path = std_string (pt_value (f_path f)) (pt_length (f_path f)),
     uf_owner_uid = o_uid (f_owner f), uf_owner_gid = o_gid (f_owner f),
     uf_mode = f_mode f, uf_type = f_type f, uf_suid = f_suid f, uf_sgid = f_sgid f,
     uf_last_modified_seconds = f_last_modified_seconds f, uf_nlink = f_nlink f,
     uf_filename = std_string (fn_value (f_filename f)) (fn_length (f_filename f))\<rparr>"

record Process =
  up_pid :: u32
  up_ppid :: u32
  up_unique_process_id :: u64
  up_unique_ppid_id :: u64
  up_ruid :: u32
  up_rgid :: u32
  up_euid :: u32
  up_egid :: u32
  up_suid :: u32
  up_cgroup_id :: u64
  up_start_time :: u64
  up_ptrace_flags :: u32
  up_file :: File
  up_cmd :: bytes
  up_stdio :: stdio_fds_t
  up_shell_command :: bytes

definition Process_of :: "process_t \<Rightarrow> Process" where
  "Process_of p = \<lparr>up_pid = p_pid p, up_ppid = p_ppid p, up_unique_process_id = p_unique_process_id p,
     up_unique_ppid_id = p_unique_ppid_id p, up_ruid = p_ruid p, up_rgid = p_rgid p, up_euid = p_euid p,
     up_egid = p_egid p, up_suid = p_suid p, up_cgroup_id = p_cgroup_id p, up_start_time = p_start_time p,
     up_ptrace_flags = p_ptrace_flags p, up_file = File_of (p_file p),
     up_cmd = std_string (c_value (p_cmd p)) (c_length (p_cmd p)), up_stdio = p_stdio p,
     up_shell_command = std_string (c_value (p_shell_command p)) (c_length (p_shell_command p))\<rparr>"

datatype addresses =
    Ipv4Addresses (ipv4_source: u32) (ipv4_destination: u32)
  | Ipv6Addresses (ipv6_source: "u32 list") (ipv6_destination: "u32 list")

record NetworkEventData =
  nd_direction :: u32
  nd_protocol :: u8
  nd_ip_type :: u8
  nd_source_port :: u16
  nd_destination_port :: u16
  nd_addresses :: addresses

definition NetworkEventData_of :: "network_event_t \<Rightarrow> NetworkEventData" where
  "NetworkEventData_of e = \<lparr>nd_direction = n_direction e, nd_protocol = n_protocol e, nd_ip_type = n_ip_type e,
     nd_source_port = n_source_port e, nd_destination_port = n_destination_port e,
     nd_addresses = (if n_ip_type e = AF_INET
       then Ipv4Addresses (ipv4_source_ip e) (ipv4_destination_ip e)
       else Ipv6Addresses (map (ipv6_source_ip e) [0..<4]) (map (ipv6_destination_ip e) [0..<4]))\<rparr>"

datatype EventData =
    ChownEventData File u32 u32
  | ChmodEventData File u16
  | ForkEventData
  | ExecEventData Process
  | ExitEventData u32 u32
  | GenericFileEventData File
  | RenameEventData u32 File File
  | Network_data NetworkEventData
  | SignalEventData Process u32
  | PtraceEventData Process u32

definition EventData_of :: "ro_env \<Rightarrow> event_t \<Rightarrow> EventData" where
  "EventData_of ro ev =
     (let generic = GenericFileEventData (File_of (fc_file (data_file_create ro ev)));
          access = GenericFileEventData (File_of (w_file (data_write ro ev)))
      in case ev_type ev of
        CHOWN \<Rightarrow> (let d = data_chown ro ev in
          ChownEventData (File_of (chown_file d)) (chown_requested_owner_uid d) (chown_requested_owner_gid d))
      | CHMOD \<Rightarrow> (let d = data_chmod ro ev in ChmodEventData (File_of (chmod_file d)) (chmod_requested_mode d))
      | FORK \<Rightarrow> ForkEventData
      | EXEC \<Rightarrow> ExecEventData (Process_of (exec_new_process (data_exec ro ev)))
      | EXIT \<Rightarrow> (let d = data_exit ro ev in ExitEventData (exit_exit_code d) (exit_signal d))
      | FILE_CREATE \<Rightarrow> generic
      | WRITE \<Rightarrow> access
      | READ \<Rightarrow> access
      | UNLINK \<Rightarrow> generic
      | RENAME \<Rightarrow> (let d = data_rename ro ev in
          RenameEventData (rn_flags d) (File_of (rn_source_file d)) (File_of (rn_destination_file d)))
      | NETWORK \<Rightarrow> Network_data (NetworkEventData_of (data_network ro ev))
      | MKDIR \<Rightarrow> generic
      | RMDIR \<Rightarrow> generic
      | SIGNAL \<Rightarrow> (let d = data_signal ro ev in SignalEventData (Process_of (sg_process d)) (sg_signal d))
      | PTRACE \<Rightarrow> (let d = data_ptrace ro ev in PtraceEventData (Process_of (pc_process d)) (pc_mode d)))"

record Event =
  ue_id :: u64
  ue_type :: event_type
  ue_action :: rule_action
  ue_had_error_while_handling :: u8
  ue_time :: u64
  ue_process :: Process
  ue_parent_process :: Process
  ue_data :: EventData
  ue_matched_rule_id :: u32
  ue_matched_rule_metadata :: RuleMetadata
  ue_is_enriched :: bool

definition Event_of :: "ro_env \<Rightarrow> event_t \<Rightarrow> Event" where
  "Event_of ro ev = \<lparr>ue_id = ev_id ev, ue_type = ev_type ev, ue_action = ev_action ev,
     ue_had_error_while_handling = ev_had_error_while_handling ev, ue_time = ev_time ev,
     ue_process = Process_of (ev_process ev), ue_parent_process = Process_of (ev_parent_process ev),
     ue_data = EventData_of ro ev, ue_matched_rule_id = ev_matched_rule_id ev,
     ue_matched_rule_metadata = no_metadata, ue_is_enriched = False\<rparr>"

record Error =
  ur_error_code :: int
  ur_location :: string
  ur_hook_name :: bytes
  ur_is_enriched :: bool

definition Error_of :: "error_report_t \<Rightarrow> Error" where
  "Error_of e = \<lparr>ur_error_code = er_error_code e, ur_location = er_location e,
     ur_hook_name = take HOOK_NAME_MAX_LENGTH (c_string (er_hook_name e)), ur_is_enriched = False\<rparr>"

section \<open>Enrichment\<close>

text \<open>An unknown rule raises an exception, which is caught and logged.\<close>

definition enrich_event :: "RulesMetadataTracker \<Rightarrow> Event \<Rightarrow> Event" where
  "enrich_event rules_metadata event =
     (if ue_is_enriched event then event
      else let event = (if ue_matched_rule_id event > 0 then
             (case get_metadata rules_metadata (ue_matched_rule_id event) of
                Some m \<Rightarrow> event\<lparr>ue_matched_rule_metadata := m\<rparr> | None \<Rightarrow> event)
             else event)
           in event\<lparr>ue_is_enriched := True\<rparr>)"

definition enrich_error :: "Error \<Rightarrow> Error" where
  "enrich_error error = (if ur_is_enriched error then error else error\<lparr>ur_is_enriched := True\<rparr>)"

section \<open>The handler of a ring buffer\<close>

text \<open>
  Where the consumer thread is: before the test of \<^verbatim>\<open>m_running\<close>, before the section that swaps the
  queues, with messages in its own queue, and the same two places after the loop.
\<close>

datatype consumer_pc = At_test | At_swap | With_messages | At_last_swap | With_last_messages | Returned

text \<open>
  \<open>polling\<close> is the event of a callback that has passed its checks and waits for the mutex. The
  last two fields are observations: the batches handed to the serialiser and the distributor,
  and the events that were put into the queue.
\<close>

record ('raw, 'msg) handler =
  m_running :: bool
  m_main_queue :: "'raw list"
  m_thread_queue :: "'raw list"
  polling :: "'raw option"
  consumer :: consumer_pc
  batches :: "'msg list list"
  accepted :: "'raw list"

definition start :: "('raw, 'msg) handler" where
  "start = \<lparr>m_running = True, m_main_queue = [], m_thread_queue = [], polling = None, consumer = At_test,
     batches = [], accepted = []\<rparr>"

text \<open>The callback up to its mutex: the result it returns at once, if it does.\<close>

definition callback_checks :: "nat \<Rightarrow> 'raw option \<Rightarrow> nat \<Rightarrow> ('raw, 'msg) handler \<Rightarrow> int option \<times> ('raw, 'msg) handler" where
  "callback_checks raw_size ev len h =
     (if \<not> m_running h then (Some 0, h)
      else if len < raw_size then (Some (-1), h)
      else case ev of None \<Rightarrow> (Some (-1), h) | Some e \<Rightarrow> (None, h\<lparr>polling := Some e\<rparr>))"

definition callback_enqueues :: "nat \<Rightarrow> ('raw, 'msg) handler \<Rightarrow> int \<times> ('raw, 'msg) handler" where
  "callback_enqueues max_events_queue_size h = (case polling h of
     None \<Rightarrow> (0, h)
   | Some e \<Rightarrow>
       if length (m_main_queue h) \<ge> max_events_queue_size then (-1, h\<lparr>polling := None\<rparr>)
       else (0, h\<lparr>polling := None, m_main_queue := m_main_queue h @ [e], accepted := accepted h @ [e]\<rparr>))"

definition swap_queues :: "('raw, 'msg) handler \<Rightarrow> ('raw, 'msg) handler" where
  "swap_queues h = h\<lparr>m_main_queue := m_thread_queue h, m_thread_queue := m_main_queue h\<rparr>"

definition handle_messages :: "('raw \<Rightarrow> 'msg) \<Rightarrow> ('raw, 'msg) handler \<Rightarrow> ('raw, 'msg) handler" where
  "handle_messages message h = h\<lparr>batches := batches h @ [map message (m_thread_queue h)], m_thread_queue := []\<rparr>"

definition consumer_step :: "('raw \<Rightarrow> 'msg) \<Rightarrow> ('raw, 'msg) handler \<Rightarrow> ('raw, 'msg) handler" where
  "consumer_step message h = (case consumer h of
     At_test \<Rightarrow> h\<lparr>consumer := if m_running h then At_swap else At_last_swap\<rparr>
   | At_swap \<Rightarrow>
       (let h = (if m_main_queue h \<noteq> [] then swap_queues h else h)
        in h\<lparr>consumer := if m_thread_queue h = [] then At_test else With_messages\<rparr>)
   | With_messages \<Rightarrow> (handle_messages message h)\<lparr>consumer := At_test\<rparr>
   | At_last_swap \<Rightarrow>
       (let h = swap_queues h
        in h\<lparr>consumer := if m_thread_queue h = [] then Returned else With_last_messages\<rparr>)
   | With_last_messages \<Rightarrow> (handle_messages message h)\<lparr>consumer := Returned\<rparr>
   | Returned \<Rightarrow> h)"

text \<open>\<^verbatim>\<open>destroy\<close>, as far as the threads see it.\<close>

definition destroy :: "('raw, 'msg) handler \<Rightarrow> ('raw, 'msg) handler" where
  "destroy h = h\<lparr>m_running := False\<rparr>"

text \<open>One step of one of the threads. The polling thread runs one callback at a time.\<close>

inductive handler_step :: "nat \<Rightarrow> nat \<Rightarrow> ('raw \<Rightarrow> 'msg) \<Rightarrow> ('raw, 'msg) handler \<Rightarrow> ('raw, 'msg) handler \<Rightarrow> bool"
  for raw_size limit message where
  checks: "polling h = None \<Longrightarrow> handler_step raw_size limit message h (snd (callback_checks raw_size ev len h))"
| enqueues: "handler_step raw_size limit message h (snd (callback_enqueues limit h))"
| consumes: "handler_step raw_size limit message h (consumer_step message h)"
| stops: "handler_step raw_size limit message h (destroy h)"

inductive_cases handler_step_cases: "handler_step raw_size limit message h h'"

text \<open>
  The write to the output descriptor. The results of the \<^verbatim>\<open>write\<close> calls are a list; a result is
  the number of bytes taken, an interruption, or another error. \<open>None\<close> when a call is still out.
\<close>

datatype write_result = Wrote nat | Interrupted | Write_error

fun efficientBulkWrite :: "write_result list \<Rightarrow> bytes \<Rightarrow> bytes option" where
  "efficientBulkWrite results [] = Some []"
| "efficientBulkWrite [] (c # cs) = None"
| "efficientBulkWrite (Interrupted # results) (c # cs) = efficientBulkWrite results (c # cs)"
| "efficientBulkWrite (Write_error # results) (c # cs) = Some []"
| "efficientBulkWrite (Wrote n # results) (c # cs) =
     map_option ((@) (take n (c # cs))) (efficientBulkWrite results (drop n (c # cs)))"

section \<open>Messages keep what was reported\<close>

lemma std_string_content:
  "unat len \<le> n \<Longrightarrow> n < 256 \<Longrightarrow> length value_bytes = n + 1 \<Longrightarrow> std_string value_bytes len = content (len, n, value_bytes)"
  by (simp add: std_string_def content_recorded)

lemma Event_of_decided:
  "Event_of ro (e\<lparr>ev_action := a, ev_matched_rule_id := i\<rparr>) = (Event_of ro e)\<lparr>ue_action := a, ue_matched_rule_id := i\<rparr>"
proof -
  let ?e = "e\<lparr>ev_action := a, ev_matched_rule_id := i\<rparr>"
  have "ev_data ?e = ev_data e" by simp
  from union_members_cong [OF this] have "EventData_of ro ?e = EventData_of ro e"
    by (cases "ev_type e") (simp_all add: EventData_of_def Let_def)
  then show ?thesis by (simp add: Event_of_def)
qed

lemma enriched_metadata:
  assumes "length rules < 4294967295" "r \<in> set rules" "distinct (map cr_id rules)"
    and "ue_matched_rule_id event = cr_id r" "cr_id r > 0" "\<not> ue_is_enriched event"
  shows "enrich_event (track_metadata rules) event = event\<lparr>ue_matched_rule_metadata := cr_metadata r, ue_is_enriched := True\<rparr>"
proof -
  have "find (\<lambda>r'. cr_id r' = cr_id r) rules = Some r"
    using assms(2,3) by (induction rules) (auto simp: image_iff)
  with metadata_found [OF assms(1), of "cr_id r"] assms(4-6) show ?thesis by (simp add: enrich_event_def Let_def)
qed

text \<open>The report of an event that a rule of the configuration decided names that rule.\<close>

lemma report_names_rule:
  assumes "wf_config ap cfg" "r \<in> set (config_rules cfg)" "0 < cr_id r" "length (config_rules cfg) < 4294967294"
    and "ev_matched_rule_id d = cr_id r"
  shows "enrich_event (track_metadata (add_end_rules z (config_rules cfg))) (Event_of ro d) =
    (Event_of ro d)\<lparr>ue_matched_rule_metadata := cr_metadata r, ue_is_enriched := True\<rparr>"
proof (rule enriched_metadata)
  show "distinct (map cr_id (add_end_rules z (config_rules cfg)))"
    using assms(1) by (auto simp: add_end_rules_def end_rule_def wf_config_def rule_ok_def)
qed (use assms(2-5) in \<open>auto simp: add_end_rules_def Event_of_def\<close>)

section \<open>Delivery\<close>

definition queue_order :: "('raw \<Rightarrow> 'msg) \<Rightarrow> nat \<Rightarrow> ('raw, 'msg) handler \<Rightarrow> bool" where
  "queue_order message limit h \<longleftrightarrow>
     map message (accepted h) = concat (batches h) @ map message (m_thread_queue h @ m_main_queue h) \<and>
     (m_thread_queue h \<noteq> [] \<longleftrightarrow> consumer h \<in> {With_messages, With_last_messages}) \<and>
     length (m_main_queue h) \<le> limit \<and> length (m_thread_queue h) \<le> limit \<and> [] \<notin> set (batches h)"

lemma queue_order_start: "queue_order message limit start"
  by (simp add: queue_order_def start_def)

lemma queue_order_enqueues: "queue_order message limit h \<Longrightarrow> queue_order message limit (snd (callback_enqueues limit h))"
  by (auto simp: queue_order_def callback_enqueues_def split: option.splits)

lemma queue_order_checks: "queue_order message limit h \<Longrightarrow> queue_order message limit (snd (callback_checks raw_size ev len h))"
  by (auto simp: queue_order_def callback_checks_def split: option.splits)

lemma queue_order_consumes: "queue_order message limit h \<Longrightarrow> queue_order message limit (consumer_step message h)"
  by (cases "consumer h") (auto simp: queue_order_def consumer_step_def swap_queues_def handle_messages_def Let_def)

lemma queue_order_stops: "queue_order message limit h \<Longrightarrow> queue_order message limit (destroy h)"
  by (simp add: queue_order_def destroy_def)

lemma queue_order_step: "handler_step raw_size limit message h h' \<Longrightarrow> queue_order message limit h \<Longrightarrow> queue_order message limit h'"
  by (erule handler_step_cases) (simp_all add: queue_order_enqueues queue_order_checks queue_order_consumes queue_order_stops)

lemma delivery_in_order: "(handler_step raw_size limit message)\<^sup>*\<^sup>* start h \<Longrightarrow> queue_order message limit h"
  by (induction rule: rtranclp_induct) (auto intro: queue_order_start queue_order_step)

text \<open>Once the handler is stopped and no callback is out, nothing enters, and the consumer finishes.\<close>

definition closed_down :: "('raw, 'msg) handler \<Rightarrow> bool" where
  "closed_down h \<longleftrightarrow> \<not> m_running h \<and> polling h = None"

lemma closed_step: "handler_step raw_size limit message h h' \<Longrightarrow> closed_down h \<Longrightarrow> closed_down h' \<and> accepted h' = accepted h"
  by (erule handler_step_cases)
    (auto simp: closed_down_def callback_checks_def callback_enqueues_def destroy_def consumer_step_def swap_queues_def
      handle_messages_def Let_def split: consumer_pc.splits)

lemma consumer_keeps: "closed_down h \<Longrightarrow> closed_down (consumer_step message h) \<and> accepted (consumer_step message h) = accepted h"
  using closed_step [OF consumes] by blast

definition rounds_left :: "consumer_pc \<Rightarrow> nat" where
  "rounds_left pc = (case pc of At_swap \<Rightarrow> 5 | With_messages \<Rightarrow> 4 | At_test \<Rightarrow> 3 | At_last_swap \<Rightarrow> 2 | With_last_messages \<Rightarrow> 1 | Returned \<Rightarrow> 0)"

lemma consumer_progress:
  "closed_down h \<Longrightarrow> consumer h \<noteq> Returned \<Longrightarrow> rounds_left (consumer (consumer_step message h)) < rounds_left (consumer h)"
  by (cases "consumer h") (auto simp: closed_down_def rounds_left_def consumer_step_def swap_queues_def handle_messages_def Let_def)

lemma consumer_returns: "closed_down h \<Longrightarrow> rounds_left (consumer h) \<le> n \<Longrightarrow> consumer ((consumer_step message ^^ n) h) = Returned"
proof (induction n arbitrary: h)
  case 0
  then show ?case by (cases "consumer h") (auto simp: rounds_left_def)
next
  case (Suc n)
  have "rounds_left (consumer (consumer_step message h)) \<le> n"
  proof (cases "consumer h = Returned")
    case True
    then show ?thesis by (simp add: consumer_step_def rounds_left_def)
  next
    case False
    with consumer_progress [OF Suc.prems(1) False, of message] Suc.prems(2) show ?thesis by linarith
  qed
  with Suc.IH [of "consumer_step message h"] consumer_keeps [OF Suc.prems(1), of message] show ?case
    by (simp add: funpow_Suc_right del: funpow.simps)
qed

lemma reached_step:
  "(handler_step raw_size limit message)\<^sup>*\<^sup>* h0 h \<Longrightarrow> handler_step raw_size limit message h h' \<Longrightarrow>
   (handler_step raw_size limit message)\<^sup>*\<^sup>* h0 h'"
  by (rule rtranclp.rtrancl_into_rtrancl)

lemma consumer_runs: "(handler_step raw_size limit message)\<^sup>*\<^sup>* h ((consumer_step message ^^ n) h)"
  by (induction n) (auto intro: rtranclp.rtrancl_into_rtrancl consumes)

lemma consumer_keeps_funpow:
  "closed_down h \<Longrightarrow> closed_down ((consumer_step message ^^ n) h) \<and> accepted ((consumer_step message ^^ n) h) = accepted h"
  by (induction n) (simp_all add: consumer_keeps)

text \<open>
  While the handler runs, the consumer is inside its loop, so that the last swap of the queues is
  still to come when the handler is stopped. The last swap leaves the main queue empty, and nothing
  fills it again when no callback was out at the stop.
\<close>

definition in_loop :: "('raw, 'msg) handler \<Rightarrow> bool" where
  "in_loop h \<longleftrightarrow> (m_running h \<longrightarrow> consumer h \<in> {At_test, At_swap, With_messages})"

lemma in_loop_step: "handler_step raw_size limit message h h' \<Longrightarrow> in_loop h \<Longrightarrow> in_loop h'"
  by (erule handler_step_cases)
    (auto simp: in_loop_def callback_checks_def callback_enqueues_def destroy_def consumer_step_def swap_queues_def
      handle_messages_def Let_def split: consumer_pc.splits option.splits)

lemma reached_in_loop: "(handler_step raw_size limit message)\<^sup>*\<^sup>* start h \<Longrightarrow> in_loop h"
proof (induction rule: rtranclp_induct)
  case base
  show ?case by (simp add: in_loop_def start_def)
qed (rule in_loop_step)

definition drained :: "('raw, 'msg) handler \<Rightarrow> bool" where
  "drained h \<longleftrightarrow> (consumer h \<in> {With_last_messages, Returned} \<longrightarrow> m_main_queue h = [])"

lemma drained_consumes: "drained h \<Longrightarrow> queue_order message limit h \<Longrightarrow> drained (consumer_step message h)"
  by (cases "consumer h") (auto simp: drained_def queue_order_def consumer_step_def swap_queues_def handle_messages_def Let_def)

lemma drained_step:
  "handler_step raw_size limit message h h' \<Longrightarrow> queue_order message limit h \<Longrightarrow> closed_down h \<Longrightarrow> drained h \<Longrightarrow> drained h'"
proof (erule handler_step_cases)
  assume "h' = consumer_step message h" "queue_order message limit h" "drained h"
  then show "drained h'" by (simp add: drained_consumes)
qed (auto simp: drained_def closed_down_def callback_checks_def callback_enqueues_def destroy_def)

lemma stopped_run:
  assumes "(handler_step raw_size limit message)\<^sup>*\<^sup>* start h0" "m_running h0" "polling h0 = None"
    and "(handler_step raw_size limit message)\<^sup>*\<^sup>* (destroy h0) h"
  shows "(handler_step raw_size limit message)\<^sup>*\<^sup>* start h \<and> closed_down h \<and> drained h \<and> accepted h = accepted h0"
  using assms(4)
proof (induction rule: rtranclp_induct)
  case base
  from reached_in_loop [OF assms(1)] assms(2) have "drained (destroy h0)" by (auto simp: in_loop_def drained_def destroy_def)
  with reached_step [OF assms(1) stops] assms(3) show ?case by (simp add: closed_down_def destroy_def)
next
  case (step h1 h2)
  then show ?case
    using closed_step [OF step.hyps(2)] drained_step [OF step.hyps(2)] reached_step [OF _ step.hyps(2)] delivery_in_order by metis
qed

lemma shutdown_delivers:
  assumes "(handler_step raw_size limit message)\<^sup>*\<^sup>* start h0" "m_running h0" "polling h0 = None"
    and "(handler_step raw_size limit message)\<^sup>*\<^sup>* (destroy h0) h"
  defines "h' \<equiv> (consumer_step message ^^ 5) h"
  shows "consumer h' = Returned" "concat (batches h') = map message (accepted h0)"
proof -
  from stopped_run [OF assms(1-4)] have h: "(handler_step raw_size limit message)\<^sup>*\<^sup>* start h" "closed_down h" "drained h"
    "accepted h = accepted h0" by auto
  have "rounds_left (consumer h) \<le> 5" by (cases "consumer h") (simp_all add: rounds_left_def)
  from consumer_returns [OF h(2) this] show ret: "consumer h' = Returned" by (simp add: h'_def)
  have order: "queue_order message limit ((consumer_step message ^^ n) h)" for n
    by (rule delivery_in_order [OF rtranclp_trans [OF h(1) consumer_runs]])
  have "drained ((consumer_step message ^^ n) h)" for n
    by (induction n) (simp_all add: h(3) drained_consumes [OF _ order])
  then have "m_main_queue h' = []" using ret unfolding h'_def drained_def by blast
  moreover have "m_thread_queue h' = []" using order [of 5] ret by (auto simp: queue_order_def h'_def)
  moreover have "accepted h' = accepted h0" using consumer_keeps_funpow [OF h(2)] h(4) by (simp add: h'_def)
  ultimately show "concat (batches h') = map message (accepted h0)" using order [of 5] by (simp add: queue_order_def h'_def)
qed

text \<open>
  An event is lost when its callback has passed the test of \<^verbatim>\<open>m_running\<close> before the handler is
  stopped, and gets the mutex only after the last swap: the callback reports success.
\<close>

lemma late_event_is_lost:
  assumes "0 < limit"
  shows "\<exists>h. (handler_step raw_size limit message)\<^sup>*\<^sup>* start h \<and> consumer h = Returned \<and> accepted h = [e] \<and> batches h = []"
proof -
  let ?h1 = "snd (callback_checks raw_size (Some e) raw_size start)"
  let ?h2 = "consumer_step message (consumer_step message (destroy ?h1))"
  have "(handler_step raw_size limit message)\<^sup>*\<^sup>* start (snd (callback_enqueues limit ?h2))"
  proof (rule reached_step [OF _ enqueues])
    have "handler_step raw_size limit message start ?h1" by (rule checks) (simp add: start_def)
    from reached_step [OF reached_step [OF rtranclp.rtrancl_refl this] stops] show "(handler_step raw_size limit message)\<^sup>*\<^sup>* start ?h2"
      by (intro reached_step [OF reached_step [OF _ consumes] consumes])
  qed
  moreover have "snd (callback_enqueues limit ?h2) =
    \<lparr>m_running = False, m_main_queue = [e], m_thread_queue = [], polling = None, consumer = Returned, batches = [], accepted = [e]\<rparr>"
    using assms by (simp add: start_def callback_checks_def destroy_def consumer_step_def swap_queues_def callback_enqueues_def Let_def)
  ultimately show ?thesis by (intro exI [of _ "snd (callback_enqueues limit ?h2)"]) simp
qed

lemma event_is_queued:
  assumes "0 < limit"
  shows "\<exists>h. (handler_step raw_size limit message)\<^sup>*\<^sup>* start h \<and> accepted h = [e] \<and> m_main_queue h = [e] \<and> polling h = None \<and>
    m_running h"
proof -
  let ?h1 = "snd (callback_checks raw_size (Some e) raw_size start)"
  have "handler_step raw_size limit message start ?h1" by (rule checks) (simp add: start_def)
  from reached_step [OF reached_step [OF rtranclp.rtrancl_refl this] enqueues]
  have "(handler_step raw_size limit message)\<^sup>*\<^sup>* start (snd (callback_enqueues limit ?h1))" .
  with assms show ?thesis
    by (intro exI [of _ "snd (callback_enqueues limit ?h1)"]) (simp add: start_def callback_checks_def callback_enqueues_def)
qed

text \<open>The usual course: the event is queued, taken and handed to the serialiser.\<close>

lemma event_is_delivered:
  assumes "0 < limit"
  shows "\<exists>h. (handler_step raw_size limit message)\<^sup>*\<^sup>* start h \<and> accepted h = [e] \<and> batches h = [[message e]] \<and> polling h = None \<and>
    m_running h \<and> consumer h = At_test \<and> m_main_queue h = [] \<and> m_thread_queue h = []"
proof -
  let ?h1 = "snd (callback_checks raw_size (Some e) raw_size start)"
  let ?h2 = "snd (callback_enqueues limit ?h1)"
  let ?h = "consumer_step message (consumer_step message (consumer_step message ?h2))"
  have "handler_step raw_size limit message start ?h1" by (rule checks) (simp add: start_def)
  from reached_step [OF reached_step [OF rtranclp.rtrancl_refl this] enqueues]
  have "(handler_step raw_size limit message)\<^sup>*\<^sup>* start ?h"
    by (intro reached_step [OF reached_step [OF reached_step [OF _ consumes] consumes] consumes])
  moreover have "?h = \<lparr>m_running = True, m_main_queue = [], m_thread_queue = [], polling = None, consumer = At_test,
      batches = [[message e]], accepted = [e]\<rparr>"
    using assms by (simp add: start_def callback_checks_def consumer_step_def swap_queues_def callback_enqueues_def
      handle_messages_def Let_def)
  ultimately show ?thesis by (intro exI [of _ ?h]) simp
qed

section \<open>The two handlers\<close>

text \<open>What the handler expects of a kind of message: conversion leaves it to be enriched once.\<close>

locale message_kind =
  fixes convert :: "'raw \<Rightarrow> 'msg" and enrich :: "'msg \<Rightarrow> 'msg" and is_enriched :: "'msg \<Rightarrow> bool"
  assumes fresh: "\<not> is_enriched (convert r)"
    and enriched: "is_enriched (enrich m)"
    and once: "is_enriched m \<Longrightarrow> enrich m = m"
begin

lemma delivered_enriched:
  assumes "(handler_step raw_size limit (enrich \<circ> convert))\<^sup>*\<^sup>* start h" "m \<in> set (concat (batches h))"
  shows "is_enriched m \<and> (\<exists>r\<in>set (accepted h). m = enrich (convert r))"
proof -
  have "m \<in> set (map (enrich \<circ> convert) (accepted h))" using delivery_in_order [OF assms(1)] assms(2) by (simp add: queue_order_def)
  then show ?thesis by (auto simp: enriched)
qed

end

interpretation events: message_kind "Event_of ro" "enrich_event tracker" ue_is_enriched for ro tracker
  by unfold_locales (auto simp: Event_of_def enrich_event_def Let_def)

interpretation reports: message_kind Error_of enrich_error ur_is_enriched
  by unfold_locales (auto simp: Error_of_def enrich_error_def)

section \<open>The output descriptor\<close>

lemma bulk_write_prefix: "efficientBulkWrite results bytes_out = Some out \<Longrightarrow> prefix out bytes_out"
proof (induction results bytes_out arbitrary: out rule: efficientBulkWrite.induct)
  case (5 n results c cs)
  then obtain rest where "efficientBulkWrite results (drop n (c # cs)) = Some rest" "out = take n (c # cs) @ rest" by auto
  with 5 show ?case by (metis append_take_drop_id same_prefix_prefix)
qed simp_all

definition taken :: "write_result list \<Rightarrow> nat" where
  "taken results = sum_list (map (\<lambda>r. case r of Wrote n \<Rightarrow> n | _ \<Rightarrow> 0) results)"

lemma bulk_write_complete:
  "Write_error \<notin> set results \<Longrightarrow> length bytes_out \<le> taken results \<Longrightarrow> efficientBulkWrite results bytes_out = Some bytes_out"
proof (induction results bytes_out rule: efficientBulkWrite.induct)
  case (5 n results c cs)
  then have "length (drop n (c # cs)) \<le> taken results" by (simp add: taken_def)
  with 5 show ?case by (simp del: take_Cons drop_Cons add: append_take_drop_id)
qed (simp_all add: taken_def)

end
