(* ===== verification/Shell_Discovery.thy ===== *)
theory Shell_Discovery
  imports Event_Delivery
begin

text \<open>
  What the distributor does with a delivered event: \<^verbatim>\<open>ShellAsyncWorker::distributeIfNeeded\<close> looks at the
  executable of the process and queues the event when it is a shell, for a worker thread that adds
  new shells to the database and probes them. Whether a file is an executable, which takes opening
  it, is a parameter; the database and the attachment of probes are not modelled.
\<close>

section \<open>Kinds of shells\<close>

datatype ShellType = BASH | DASH | ZSH | FISH | KSH | UNKNOWN

definition getKnownShellNames :: "bytes list" where
  "getKnownShellNames = [lit ''bash'', lit ''dash'', lit ''zsh'', lit ''fish'', lit ''ksh'']"

definition shellNameToType :: "bytes \<Rightarrow> ShellType" where
  "shellNameToType name =
     (if name = lit ''bash'' then BASH else if name = lit ''dash'' then DASH else if name = lit ''zsh'' then ZSH
      else if name = lit ''fish'' then FISH else if name = lit ''ksh'' then KSH else UNKNOWN)"

text \<open>\<^verbatim>\<open>std::filesystem::path::filename\<close>.\<close>

definition path_filename :: "bytes \<Rightarrow> bytes" where
  "path_filename p = rev (takeWhile (\<lambda>c. c \<noteq> SLASH) (rev p))"

definition getShellType :: "(bytes \<Rightarrow> bool) \<Rightarrow> bytes \<Rightarrow> ShellType" where
  "getShellType isBinary p =
     (if \<not> isBinary p then UNKNOWN
      else if path_filename p \<in> set getKnownShellNames then shellNameToType (path_filename p)
      else UNKNOWN)"

section \<open>The worker\<close>

record FileKey =
  fk_inode :: u64
  fk_dev :: u32
  fk_last_modified_time :: u64

definition file_key :: "File \<Rightarrow> FileKey" where
  "file_key f = \<lparr>fk_inode = uf_inode f, fk_dev = uf_dev f, fk_last_modified_time = uf_last_modified_seconds f\<rparr>"

record ShellAsyncWorker =
  m_queue :: "Event list"
  w_running :: bool
  m_non_shells_quick_cache :: "FileKey set"

definition new_worker :: ShellAsyncWorker where
  "new_worker = \<lparr>m_queue = [], w_running = True, m_non_shells_quick_cache = {}\<rparr>"

text \<open>A full queue is logged, and the item pushed all the same.\<close>

definition enqueue :: "Event \<Rightarrow> ShellAsyncWorker \<Rightarrow> ShellAsyncWorker" where
  "enqueue item w = w\<lparr>m_queue := m_queue w @ [item]\<rparr>"

definition distributeIfNeeded :: "(bytes \<Rightarrow> bool) \<Rightarrow> Event \<Rightarrow> ShellAsyncWorker \<Rightarrow> ShellAsyncWorker" where
  "distributeIfNeeded isBinary event w =
     (let process_file = up_file (ue_process event);
          key = file_key process_file
      in if key \<in> m_non_shells_quick_cache w then w
         else if getShellType isBinary (uf_path process_file) = UNKNOWN
         then w\<lparr>m_non_shells_quick_cache := insert key (m_non_shells_quick_cache w)\<rparr>
         else enqueue event w)"

definition distributeMessages :: "bool \<Rightarrow> (bytes \<Rightarrow> bool) \<Rightarrow> Event list \<Rightarrow> ShellAsyncWorker \<Rightarrow> ShellAsyncWorker" where
  "distributeMessages shell_commands_monitoring_enabled isBinary messages w =
     (if shell_commands_monitoring_enabled then fold (distributeIfNeeded isBinary) messages w else w)"

text \<open>One round of the worker's loop: it waits, ends, or takes an item.\<close>

datatype round = Waits | Ends | Takes Event

definition workerLoop_round :: "ShellAsyncWorker \<Rightarrow> round \<times> ShellAsyncWorker" where
  "workerLoop_round w =
     (if \<not> w_running w then (Ends, w)
      else case m_queue w of [] \<Rightarrow> (Waits, w) | item # items \<Rightarrow> (Takes item, w\<lparr>m_queue := items\<rparr>))"

section \<open>Which events reach the worker\<close>

definition is_shell_event :: "(bytes \<Rightarrow> bool) \<Rightarrow> Event \<Rightarrow> bool" where
  "is_shell_event isBinary event \<longleftrightarrow> getShellType isBinary (uf_path (up_file (ue_process event))) \<noteq> UNKNOWN"

lemma shell_names: "shellNameToType name = UNKNOWN \<longleftrightarrow> name \<notin> set getKnownShellNames"
  by (simp add: getKnownShellNames_def shellNameToType_def)

lemma known_shells: "getShellType isBinary p \<noteq> UNKNOWN \<longleftrightarrow> isBinary p \<and> path_filename p \<in> set getKnownShellNames"
  by (simp add: getShellType_def shell_names)

text \<open>The same file, the same name: as long as this holds, the worker gets exactly the shells.\<close>

definition names_agree :: "(bytes \<Rightarrow> bool) \<Rightarrow> Event list \<Rightarrow> bool" where
  "names_agree isBinary es \<longleftrightarrow> (\<forall>e\<in>set es. \<forall>e'\<in>set es.
     file_key (up_file (ue_process e)) = file_key (up_file (ue_process e')) \<longrightarrow> is_shell_event isBinary e = is_shell_event isBinary e')"

lemma distribute_effect:
  "m_non_shells_quick_cache (distributeIfNeeded isBinary e w) =
     (if is_shell_event isBinary e then m_non_shells_quick_cache w
      else insert (file_key (up_file (ue_process e))) (m_non_shells_quick_cache w))"
  "m_queue (distributeIfNeeded isBinary e w) =
     m_queue w @ (if is_shell_event isBinary e \<and> file_key (up_file (ue_process e)) \<notin> m_non_shells_quick_cache w then [e] else [])"
  by (simp_all add: distributeIfNeeded_def Let_def enqueue_def is_shell_event_def insert_absorb)

lemma distributed_shells:
  assumes "names_agree isBinary es"
    and "\<forall>e\<in>set es. is_shell_event isBinary e \<longrightarrow> file_key (up_file (ue_process e)) \<notin> m_non_shells_quick_cache w"
  shows "m_queue (fold (distributeIfNeeded isBinary) es w) = m_queue w @ filter (is_shell_event isBinary) es"
  using assms
proof (induction es arbitrary: w)
  case (Cons e es)
  let ?w = "distributeIfNeeded isBinary e w" and ?key = "\<lambda>e. file_key (up_file (ue_process e))"
  have fresh: "?key e' \<notin> m_non_shells_quick_cache ?w" if e': "e' \<in> set es" "is_shell_event isBinary e'" for e'
  proof (cases "is_shell_event isBinary e")
    case True
    then show ?thesis using Cons.prems(2) e' unfolding distribute_effect by simp
  next
    case False
    then have "?key e' \<noteq> ?key e" using Cons.prems(1) e' unfolding names_agree_def by (metis list.set_intros)
    then show ?thesis using Cons.prems(2) e' unfolding distribute_effect by simp
  qed
  have "names_agree isBinary es" using Cons.prems(1) unfolding names_agree_def by (meson list.set_intros(2))
  with Cons.IH fresh have "m_queue (fold (distributeIfNeeded isBinary) es ?w) = m_queue ?w @ filter (is_shell_event isBinary) es"
    by blast
  moreover have "m_queue ?w = m_queue w @ filter (is_shell_event isBinary) [e]"
    using Cons.prems(2) by (simp add: distribute_effect)
  ultimately show ?case by simp
qed simp

lemma queued_are_shells:
  "\<forall>e\<in>set (m_queue w). is_shell_event isBinary e \<Longrightarrow>
   \<forall>e\<in>set (m_queue (fold (distributeIfNeeded isBinary) es w)). is_shell_event isBinary e"
proof (induction es arbitrary: w)
  case (Cons e es)
  have "\<forall>e\<in>set (m_queue (distributeIfNeeded isBinary e w)). is_shell_event isBinary e"
    using Cons.prems unfolding distribute_effect by auto
  from Cons.IH [OF this] show ?case by simp
qed simp

text \<open>
  The cache is by file, the kind of shell by name: a shell that was first run under a name that is
  not a shell's, say through a hard link, is not found when it runs under its own name.
\<close>

lemma other_name_hides_shell:
  assumes "\<not> is_shell_event isBinary e" "file_key (up_file (ue_process e)) = file_key (up_file (ue_process e'))"
  shows "m_queue (fold (distributeIfNeeded isBinary) [e, e'] new_worker) = []"
  using assms by (simp add: distribute_effect new_worker_def)

end
