(* ===== verification/Sample_Config.thy ===== *)
theory Sample_Config
  imports Shell_Discovery
begin

text \<open>
  A concrete configuration for the instances of the properties of the loader: two rules on the
  change of a file's mode, both about process 7, the one with the smaller id blocking and killing.
\<close>

text \<open>A configuration with two rules over one numeric predicate, and a substring.\<close>

definition sample_token :: config_Token where
  "sample_token = \<lparr>ct_operator_type = OPERATOR_PREDICATE, ct_predicate_idx = 4\<rparr>"

definition sample_config_rule :: "u32 \<Rightarrow> rule_action \<Rightarrow> event_type list \<Rightarrow> nat config_Rule" where
  "sample_config_rule i a tys = \<lparr>cr_id = i, cr_action = a, cr_applied_events = tys, cr_tokens = [sample_token],
     cr_min_version = 0, cr_max_version = 0, cr_metadata = no_metadata, cr_is_end_of_rules = False\<rparr>"

definition sample_config :: "nat RulesConfig" where
  "sample_config = \<lparr>
     id_to_string = [(3, \<lparr>crs_value = [97, 98], crs_string_type = STRING_TYPE_CONTAINS\<rparr>)],
     id_to_predicate = [(4, \<lparr>cp_field = PROCESS_PID, cp_comparison_type = COMPARISON_TYPE_EQUAL, cp_string_idx = -1,
       cp_numerical_value = 7, cp_fieldref = FIELD_TYPE_NONE\<rparr>)],
     id_to_ip = [],
     config_rules = [sample_config_rule 9 ALLOW_EVENT [CHMOD], sample_config_rule 5 BLOCK_KILL_PROCESS [CHMOD, EXEC]]\<rparr>"

abbreviation sample_versions :: "nat versions" where
  "sample_versions \<equiv> \<lparr>v_less = (<), v_zero = 0, v_current = 1\<rparr>"

abbreviation sample_features :: config_features where
  "sample_features \<equiv> \<lparr>file_monitoring_enabled = True, file_monitoring_events =
     \<lparr>on_chmod = True, on_chown = True, on_file_create = True, on_mkdir = True, on_rmdir = True, on_unlink = True,
       on_rename = True, on_write = True, on_read = True\<rparr>, network_monitoring_enabled = False\<rparr>"

abbreviation no_addresses :: address_parser where
  "no_addresses \<equiv> \<lparr>pton4 = \<lambda>t. None, pton6 = \<lambda>t. None\<rparr>"

lemma sample_token_postfix: "map convertToken [sample_token] = postfix (Pred 4)"
  by (simp add: convertToken_def sample_token_def op_token_def)

lemma sample_config_wf: "wf_config no_addresses sample_config"
proof -
  have "rule_ok (sample_config_rule i a tys)" if "distinct tys" "i \<noteq> INT_MAX" for i a tys
    using that sample_token_postfix by (auto simp: rule_ok_def sample_config_rule_def intro: exI [of _ "Pred 4"])
  then show ?thesis
    by (simp add: wf_config_def sample_config_def ids_differ_def pred_ok_def) (simp add: sample_config_rule_def)
qed

lemma sample_config_limits: "within_limits no_addresses sample_config"
  by (simp add: within_limits_def sample_config_def sample_config_rule_def)

lemma sample_probe: "probe_enabled sample_features CHMOD" "CHMOD \<in> set (cr_applied_events (end_rule (v_zero sample_versions)))"
  by (simp_all add: probe_enabled_def end_rule_def)

lemma sample_loaded:
  assumes "load_rules sample_versions sample_features no_addresses sample_config (sample_ro a) = Inr ro'"
  shows "pred_holds ro' sample_event 4" "matcher_inv ro' sample_event sample_state"
proof -
  obtain strings dfas accs ips rules where ro': "ro' = (sample_ro a)\<lparr>predicates_map := [4 \<mapsto> pid_predicate], rules_strings_map := strings,
      idx_to_DFA_map := dfas, idx_to_accepting_states_map := accs, rules_ips_map := ips, event_rules := rules\<rparr>"
    using assms unfolding load_rules_def create_rule_maps_from_organized_rules_def sample_config_def
    by (auto simp: populate_predicates_map_def convertPredicate_def pid_predicate_def split: sum.splits)
  have view: "subject_process ro' sample_event subj = subject_process (sample_ro a) sample_event subj"
    "subject_file ro' sample_event subj = subject_file (sample_ro a) sample_event subj" for subj
    by (cases subj; simp add: ro' subject_process_def subject_file_def target_file_def data_chmod_def data_rename_def union_bytes_def
        sample_event_def empty_event_t_def)+
  show "pred_holds ro' sample_event 4"
    by (simp add: ro' pred_holds_def pid_predicate_def pred_sem_def field_string_def
      field_numeric_def attribute_of_def field_subject_def subject_process_def subject_file_def
      process_string_def process_numeric_def file_string_def numeric_sem_def)
  show "matcher_inv ro' sample_event sample_state"
    using sample_inv [of a] loaded_db [OF assms sample_config_wf]
    by (simp add: matcher_inv_def wf_event_strings_def view cache_coherent_def sample_state_def boot_state_def)
qed

text \<open>The daemon's side of the sample configuration.\<close>

definition sample_message :: "event_t \<Rightarrow> Event" where
  "sample_message = enrich_event (track_metadata (config_rules sample_config)) \<circ> Event_of (sample_ro BLOCK_EVENT)"

lemma sample_matches:
  assumes "load_rules sample_versions sample_features no_addresses sample_config (sample_ro a) = Inr ro'"
  shows "decides sample_versions CHMOD ro' sample_event (config_rules sample_config) (sample_config_rule 5 BLOCK_KILL_PROCESS [CHMOD, EXEC])"
proof -
  have "config_matches ro' sample_event (sample_config_rule i a tys)" for i a tys
    using sample_loaded(1) [OF assms] sample_token_postfix
    by (auto simp: config_matches_def sample_config_rule_def intro!: exI [of _ "Pred 4"])
  then show ?thesis
    by (simp add: decides_def sample_config_def) (simp add: in_force_def version_excludes_def sample_config_rule_def)
qed

end
