(* ===== verification/Spec2Isabelle.thy ===== *)
theory Spec2Isabelle
  imports Sample_Kernel Sample_Config
begin

text \<open>
  owLSM is a rule-driven Linux security module. Its kernel side is a set of eBPF programs in C
  (\<^verbatim>\<open>src/src/Kernel\<close>) on the hooks of the Linux security modules, on scheduler tracepoints and on
  probes of the shells. A hook builds an event from the kernel's objects, hands it to a matching
  program by a tail call, and the first rule that matches gives the verdict, the report to
  userspace and the signals. The daemon in C++ (\<^verbatim>\<open>src/src/Userspace\<close>) reads the rules, sorts and
  filters them, compiles their strings into search tables and fills the maps the programs read.
  The development models both sides of that interface and proves what they promise together.

  \<^bold>\<open>How the program is modelled.\<close> A BPF program is a function in the state monad over
  \<open>bpf_state\<close>, a record with one field for each map of \<^verbatim>\<open>common_maps.bpf.h\<close>; the frozen maps and
  constants are a record \<open>ro_env\<close>. The kernel objects a program reads (tasks, dentries, mounts,
  sockets, the memory of a shell) are records behind addresses in a \<open>kernel\<close>, which does not change
  while a program runs. Integers are words at their width; a signed comparison goes through
  \<open>sint\<close>. A helper call that may fail asks a stream of outcomes in the state, so that every error
  branch of the source is a branch of the model; \<open>helpers_succeed\<close> is the hypothesis that none
  fails. Evictions from LRU maps are decided by an oracle in the state. A tail call is a call, as
  it never returns to its caller with something left to do. Exceptions of the daemon are values of
  \<open>regex_error\<close> and \<open>load_error\<close>; behaviour the C++ standard leaves undefined (a shift by too many
  bits, signed overflow, a write behind a vector) is an error value too.

  \<^bold>\<open>The theories.\<close>
    \<^item> \<open>Prelude\<close>: integer types, buffers, and frame and Hoare rules for the state monad.
      \<open>Structs\<close>, \<open>Event_Union\<close>, \<open>Bpf_State\<close>: the shared structures, the bytes of the events' union
      (locale \<open>struct_layout\<close>) and the maps. \<open>Error_Reports\<close>, \<open>Allocators\<close>:
      error reports, per-CPU scratch slots and events (locale \<open>slot_allocator\<close>).
    \<^item> \<open>String_Utils\<close>, \<open>Dfa\<close>: string comparison and the table-driven searches of the kernel side.
    \<^item> \<open>Fieldref\<close>, \<open>Predicates\<close>, \<open>Matcher\<close>: the value of every field, comparison with constants and
      other fields, and the lazy stack machine on postfix tokens with its cache of predicate results
      (locale \<open>stack_machine\<close>). \<open>Process_Cache\<close>, \<open>Tail_Calls\<close>: caches of processes and pid sets
      (locale \<open>process_store\<close>), and the matching program with its verdict and signals.
    \<^item> \<open>Extractors\<close>, \<open>Fill_Events\<close>, \<open>Event_Caching\<close>: paths, command lines and attributes from kernel
      objects, every fill function of the events, the verdict caches (locale \<open>verdict_cache\<close>).
    \<^item> \<open>Hook_Contract\<close>, \<open>Hooks_File\<close>, \<open>File_Enforcement\<close>, \<open>Verdict_Hooks\<close>: the hooks of the file
      operations, what they share (locales \<open>event_body_contract\<close>, \<open>event_hook_contract\<close>,
      \<open>cached_hook_contract\<close>, interpreted by nine hooks), and their behaviour end to end.
    \<^item> \<open>Hooks_Process\<close>, \<open>Hooks_Tamper\<close>, \<open>Hooks_Network\<close>: exec, fork, exit and system calls; signals to
      and tracing of protected processes (locale \<open>guard_contract\<close>); TCP connections.
    \<^item> \<open>Shell_Commands\<close>, \<open>Dash_Command\<close>, \<open>Dash_Rendering\<close>: the probes of bash and zsh (locales
      \<open>line_reader\<close>, \<open>prompt_probe\<close>) and the rendering of dash's parse tree (locale \<open>tree_walk\<close>).
    \<^item> \<open>Traces\<close>: all programs as the steps of one system, with an abstract machine over the sets of
      protected and ignored processes (locales \<open>quiet\<close> and \<open>untouched\<close>).
    \<^item> \<open>Kmp_Builder\<close>: the table of a needle. \<open>Regex_Nfa\<close>, \<open>Regex_Dfa\<close>, \<open>Regex_Table\<close>,
      \<open>Regex_Compile\<close>, \<open>Regex_Parser\<close>: \<^verbatim>\<open>dfa_builder.cpp\<close> from the text of a pattern to the table and
      its acceptance word. \<open>Rule_Loader\<close>: organiser, converter, map filling and the metadata of
      rules (locale \<open>rule_map\<close>, interpreted by the five maps of the loader).
    \<^item> \<open>Event_Delivery\<close>: conversion of raw events and error reports to messages, their enrichment, and
      the queues between the polling and the consumer thread of \<^verbatim>\<open>RingbufferMessagesHandler\<close> as a
      step relation (locale \<open>message_kind\<close>, interpreted by events and by error reports).
      \<open>Shell_Discovery\<close>: which delivered events reach the worker that looks for new shells.
    \<^item> \<open>Sample_States\<close>, \<open>Sample_Kernel\<close>, \<open>Sample_Config\<close>: concrete states, kernel objects and a
      configuration on which the properties are instantiated.

  \<^bold>\<open>What is shown.\<close> C1 to C4: the matching program enforces the first matching rule; rules mean
  boolean expressions, predicates mean comparisons of fields, \<^verbatim>\<open>contains\<close> means substring. C5 to C9:
  a regular expression means its language, which patterns are refused, the parser inverts a printer,
  a configuration within the limits loads into a well-formed rule database, and what is enforced is
  the matching rule of the configuration with the least id. C10 to C16: the file hooks end to end,
  cached verdicts, unmonitored tasks, entries of the root directory, and the balance of
  ring-buffer reservations along every sequence of runs. C17 to C27: protected and ignored
  processes, tampering, fork, exec and exit, and which process is killed when, with C26: the
  members of an event's union are views of its bytes. C28 to C30:
  network connections. C31 to C34: paths, command lines, and the bound on tail calls. C35 to C37: what
  is recorded of the commands typed into dash and bash. C38 to C40: the report names the rule behind
  it, and the daemon's queues keep order and lose nothing queued before a stop at which no callback
  is out. Theorems without a number
  treat unique ids, the verdict cache, scratch memory and the prompt of zsh.

  \<^bold>\<open>Bounds and fuel.\<close> The bounded loops of the eBPF side keep the bounds of the source, and the
  properties say what they cost: twenty rounds of the path walk (C31, C32), thirty-two rounds and
  sixteen stack entries for the tree of dash (C35, C36), eight rounds for wrapped and piped
  commands, four redirections, sixteen arguments, thirty-two tail calls (C34), eight scratch slots.
  The loops of the table builders end by measures: the closure under empty moves and the subset construction
  by the states not yet seen, the refinement by the number of groups. The recursive descent of the
  parser takes six units of fuel for each byte and five more, and \<open>parse_total\<close> shows that
  this never runs out.

  \<^bold>\<open>Parameters.\<close> Code outside the repository is an argument of the definitions: outcomes of the
  helper calls and evictions, the kernel objects, the padding bytes of a union
  (\<open>union_rest\<close>, on which no property puts a condition), \<^verbatim>\<open>inet_pton\<close> (\<open>address_parser\<close>), the order of versions
  (\<open>versions\<close>) and whether a file is an executable (\<open>isBinary\<close>).

  \<^bold>\<open>Not modelled.\<close> The printing of \<^verbatim>\<open>debug_utils.h\<close>, the trace pipe and log calls produce text
  only; \<^verbatim>\<open>features_test.bpf.c\<close> is loaded to see whether it loads. Programs that run at the same time on
  other CPUs are modelled as runs one after another: the interleaving of the accesses of two
  programs to one hash map is not. Of the daemon, the command line, the JSON and schema
  parsing, the attachment of probes, the serialisation of messages and the database of shells are
  left out: they are input and output around vendored libraries. The loader starts from empty maps, so that
  pinned maps left by an earlier run are not modelled.
\<close>

section \<open>Enforcement\<close>

text \<open>
  C1. The matching program of an event enforces the first matching rule. For a well-formed rule
  database and an event whose buffers have the sizes of their arrays, with the rules of the event type encoding boolean expressions over
  predicates, the verdict is a denial exactly when the action of the first rule whose expression
  holds (before the end marker) is one of the blocking actions; the event is sent to userspace,
  with that action and rule id, exactly when it has an id and is not excluded; the running
  process is sent SIGKILL exactly for the two block-and-kill actions; and no ring-buffer
  reservation is left behind.
\<close>

theorem enforcement:
  assumes "matcher_inv ro e s" and "rules_encode (event_rules ro ty) ex"
  shows "\<exists>s'. run_state (generic_tail_call ro pid ty) s =
      (if blocks (ev_action (decision ro ex ty e)) then DENY else ALLOW, s') \<and>
    rb s' = (if ev_id (decision ro ex ty e) > 0 \<and> ev_action (decision ro ex ty e) \<noteq> EXCLUDE_EVENT
             then decision ro ex ty e # rb s else rb s) \<and>
    rb_reserved s' = rb_reserved s \<and>
    sent_signals s' = (if kills_process (ev_action (decision ro ex ty e))
                       then (pid, SIGKILL) # sent_signals s else sent_signals s)"
  using generic_tail_call_result [OF assms] by blast

theorem enforcement_witness:
  "\<exists>s'. run_state (generic_tail_call (sample_ro BLOCK_KILL_PROCESS) 7 CHMOD) sample_state = (DENY, s') \<and>
     rb s' = [sample_event\<lparr>ev_action := BLOCK_KILL_PROCESS, ev_matched_rule_id := 11\<rparr>] \<and>
     rb_reserved s' = 0 \<and> sent_signals s' = [(7, SIGKILL)]"
  using enforcement [OF sample_inv [of BLOCK_KILL_PROCESS] sample_encodes [of BLOCK_KILL_PROCESS CHMOD], of 7]
  by (simp add: blocks_def kills_process_def sample_state_def boot_state_def)

text \<open>
  C2. A rule is evaluated as the boolean expression its postfix tokens encode: the stack machine
  with lazily evaluated predicates and the per-event result cache returns the value of the
  expression over the meaning of the predicates, and keeps its invariant (coherent cache, stack
  within bounds) for the next rule.
\<close>

theorem rule_evaluation:
  assumes "matcher_inv ro e s" and "rule_encodes r x"
  shows "\<exists>s'. run_state (evaluate_rule_against_event ro r e) s = (expr_sem (pred_holds ro e) x, s')
    \<and> matcher_inv ro e s'"
  by (rule evaluate_rule_result [OF assms])

theorem rule_evaluation_witness:
  "fst (run_state (evaluate_rule_against_event (sample_ro BLOCK_EVENT) (sample_rule BLOCK_EVENT) sample_event)
     sample_state)"
proof -
  have "rule_encodes (sample_rule BLOCK_EVENT) sample_expr"
    by (simp add: rule_encodes_def sample_rule_def sample_expr_def)
  from rule_evaluation [OF sample_inv [of BLOCK_EVENT] this] show ?thesis
    by (auto simp: sample_expr_def)
qed

text \<open>
  C3. A predicate is decided by the meaning of its field: over all ninety-one fields and ten
  comparison operators, the dispatch compares the attribute the field denotes (of the acting
  process, its parent, the target, the renamed files, the network connection) with the constant
  or the referenced field, as equality, prefix, suffix, substring, table-driven regular
  expression, signed comparison or masked address comparison.
\<close>

theorem predicate_meaning:
  assumes "matcher_ready e s" and "wf_rules_db ro" and "wf_event_strings ro e"
  shows "fst (run_state (eval_pred ro i e) s) = pred_holds ro e i"
  by (rule eval_pred_correct [OF assms])

theorem predicate_meaning_witness:
  "fst (run_state (eval_pred (sample_ro BLOCK_EVENT) 5 sample_event) sample_state)"
proof -
  have "matcher_ready sample_event sample_state"
    using sample_inv [of BLOCK_EVENT] by (simp add: matcher_inv_def)
  from predicate_meaning [OF this sample_db sample_strings, of BLOCK_EVENT 5] show ?thesis by simp
qed

text \<open>
  C4. A \<^verbatim>\<open>contains\<close> predicate is a substring test end to end: the kernel-side table search, run on
  the table userspace builds for the needle with the failure function, accepts exactly when
  the needle is non-empty and occurs in the haystack.
\<close>

theorem contains_is_substring:
  assumes "wf_sctx c" and "0 \<le> sc_idx_to_DFA c" and "length (needle_str c) \<le> MAX_NEEDLE_LENGTH"
    and "idx_to_DFA_map ro (word_of_int (sc_idx_to_DFA c)) = Some (buildKmpDfa (needle_str c))"
  shows "string_contains ro c \<longleftrightarrow> needle_str c \<noteq> [] \<and> sublist (needle_str c) (haystack_str c)"
  unfolding string_contains_def by (rule kmp_dfa_search_sublist [OF assms])

theorem contains_is_substring_witness:
  "string_contains ((sample_ro BLOCK_EVENT)\<lparr>idx_to_DFA_map := [2 \<mapsto> buildKmpDfa [97, 98]]\<rparr>)
     (string_utils_ctx_empty\<lparr>sc_idx_to_DFA := 2, sc_haystack_length := 4, sc_needle_length := 2,
        sc_haystack := [97, 97, 98, 99] @ replicate 252 0, sc_needle := [97, 98] @ replicate 254 0\<rparr>)"
proof -
  let ?c = "string_utils_ctx_empty\<lparr>sc_idx_to_DFA := 2, sc_haystack_length := 4, sc_needle_length := 2,
        sc_haystack := [97, 97, 98, 99] @ replicate 252 0, sc_needle := [97, 98] @ replicate 254 0\<rparr>"
  have "sublist [97, 98] [97, 97, 98, 99 :: u8]"
    by (simp add: sublist_Cons_right)
  then show ?thesis
    by (subst contains_is_substring [of ?c])
      (simp_all add: wf_sctx_def needle_str_def haystack_str_def)
qed

section \<open>Regular expressions\<close>

text \<open>
  C5. A regular-expression predicate is a language test end to end: when the builder accepts the
  pattern, the kernel-side search on the table and the acceptance word it returns accepts a
  haystack exactly when the haystack is not empty and some word of the language of the parsed
  pattern occurs in it.
\<close>

theorem regex_is_language_search:
  assumes "parse pattern = Inr ast" and "buildRegexDfa pattern = Inr (dfa, acc)"
    and "wf_sctx c" and "0 \<le> sc_idx_to_DFA c"
    and "idx_to_DFA_map ro (word_of_int (sc_idx_to_DFA c)) = Some dfa"
    and "idx_to_accepting_states_map ro (word_of_int (sc_idx_to_DFA c)) = Some acc"
  shows "regex_dfa_search ro c \<longleftrightarrow> haystack_str c \<noteq> [] \<and> (\<exists>u\<in>lang ast. sublist u (haystack_str c))"
proof (rule regex_search_compiled [OF _ assms(3-6)])
  from assms(1,2) show "compileAst ast = Inr (dfa, acc)" by (simp add: buildRegexDfa_def split: if_splits)
qed

theorem regex_is_language_search_witness:
  "\<exists>dfa acc. buildRegexDfa [97] = Inr (dfa, acc) \<and>
     regex_dfa_search ((sample_ro BLOCK_EVENT)\<lparr>idx_to_DFA_map := [2 \<mapsto> dfa], idx_to_accepting_states_map := [2 \<mapsto> acc]\<rparr>)
       (string_utils_ctx_empty\<lparr>sc_idx_to_DFA := 2, sc_haystack_length := 3, sc_haystack := [98, 97, 99] @ replicate 253 0\<rparr>)"
proof -
  let ?c = "string_utils_ctx_empty\<lparr>sc_idx_to_DFA := 2, sc_haystack_length := 3, sc_haystack := [98, 97, 99] @ replicate 253 0\<rparr>"
  have p: "parse [97] = Inr (LITERAL 97)"
    using parse_print [of "LITERAL 97"] by (simp add: print_literal_def special_def)
  have "compileAst (LITERAL 97) \<noteq> Inl e" for e by (simp add: small_compiles atom_states)
  then obtain dfa acc where "compileAst (LITERAL 97) = Inr (dfa, acc)" by (cases "compileAst (LITERAL 97)") auto
  with p have b: "buildRegexDfa [97] = Inr (dfa, acc)" by (simp add: buildRegexDfa_def)
  have "sublist [97] [98, 97, 99 :: u8]" by (simp add: sublist_Cons_right)
  with regex_is_language_search [OF p b, of ?c
    "(sample_ro BLOCK_EVENT)\<lparr>idx_to_DFA_map := [2 \<mapsto> dfa], idx_to_accepting_states_map := [2 \<mapsto> acc]\<rparr>"] b
  show ?thesis by (auto simp: wf_sctx_def haystack_str_def)
qed

text \<open>
  C6. The builder refuses a pattern for one of four reasons only: it is empty; it does not parse,
  or names a repetition count that overflows; its automaton reaches as many sets of states as
  the table has rows; or nothing matches it, and then the normalisation writes outside its array.
\<close>

theorem regex_build_errors:
  assumes "buildRegexDfa pattern = Inl e"
  shows "pattern = [] \<and> e = Empty_pattern \<or>
    parse pattern = Inl e \<and> e \<in> {Parse_error, Overflow} \<or>
    (\<exists>ast. parse pattern = Inr ast \<and> wf_ast ast \<and>
      (e = Too_many_states \<and> MAX_REGEX_DFA_STATES \<le> card (reached_sets (unanchored ast)) \<or>
       e = Out_of_bounds \<and> lang ast = {}))"
proof (cases "parse pattern")
  case (Inl e')
  with assms parse_total [of pattern] show ?thesis by (auto simp: buildRegexDfa_def split: if_splits)
next
  case (Inr ast)
  with assms parse_total [of pattern] compile_error [of ast e] show ?thesis
    by (auto simp: buildRegexDfa_def split: if_splits)
qed

theorem regex_build_errors_witness:
  "\<exists>ast. buildRegexDfa (map byte ''[^'' @ [byte (CHR 0x5C)] @ map byte ''w'' @ [byte (CHR 0x5C)] @ map byte ''W]'') = Inl Out_of_bounds \<and>
     parse (map byte ''[^'' @ [byte (CHR 0x5C)] @ map byte ''w'' @ [byte (CHR 0x5C)] @ map byte ''W]'') = Inr ast \<and> lang ast = {}"
proof -
  let ?p = "map byte ''[^'' @ [byte (CHR 0x5C)] @ map byte ''w'' @ [byte (CHR 0x5C)] @ map byte ''W]''" and ?r = "CHAR_CLASS emptySet"
  have "members emptySet = []" by (auto simp: members_def emptySet_def filter_empty_conv)
  then have "?p = print_ast ?r" by (simp add: print_class_def)
  with parse_print [of ?r] have p: "parse ?p = Inr ?r" by (simp add: emptySet_def)
  have "lang ?r = {}" by (auto simp: emptySet_def)
  with small_compiles [of ?r] have "compileAst ?r = Inl Out_of_bounds" by (simp add: atom_states)
  with p have "buildRegexDfa ?p = Inl Out_of_bounds" by (simp add: buildRegexDfa_def)
  from regex_build_errors [OF this] p this show ?thesis by auto
qed

text \<open>
  C7. Parsing undoes printing: every well-formed expression tree, written out with its literals
  escaped, its classes listed and its operands grouped, parses back to itself.
\<close>

theorem regex_round_trip: "wf_ast r \<Longrightarrow> parse (print_ast r) = Inr r"
  by (rule parse_print)

theorem regex_round_trip_witness:
  "parse (map byte ''((a)('' @ [byte (CHR 0x5C)] @ map byte ''*))+'') = Inr (PLUS (CONCAT (LITERAL 97) (LITERAL 42)))"
  using regex_round_trip [of "PLUS (CONCAT (LITERAL 97) (LITERAL 42))"]
  by (simp add: group_def print_literal_def special_def)

section \<open>Loading the rules\<close>

text \<open>
  C8. A configuration within the limits loads, and gives a well-formed rule database: when the
  strings, predicates, addresses, rules and tokens are no more than the maps hold, the strings
  fit their buffers, the regular expressions compile and the addresses are readable, the maps
  are filled, and for every event type whose probe is enabled the rules encode expressions over
  well-formed predicates, as the matching programs rely on.
\<close>

theorem configuration_loads:
  assumes "within_limits ap cfg" "wf_config ap cfg"
  shows "\<exists>ro'. load_rules v features ap cfg ro = Inr ro' \<and>
    (\<forall>ty. probe_enabled features ty \<and> ty \<in> set (cr_applied_events (end_rule (v_zero v))) \<longrightarrow> (\<exists>ex. rules_ok ro' ty ex))"
  using load_succeeds [OF assms] loaded_rules_ok [OF _ assms(2)] by meson

theorem configuration_loads_witness:
  "\<exists>ro' ex. load_rules sample_versions sample_features no_addresses sample_config (sample_ro BLOCK_EVENT) = Inr ro' \<and> rules_ok ro' CHMOD ex"
  using configuration_loads [OF sample_config_limits sample_config_wf, of sample_versions sample_features "sample_ro BLOCK_EVENT"]
    sample_probe by blast

text \<open>
  C9. The configuration is what is enforced: once a well-formed configuration is loaded, the
  matching program of an event type whose probe is enabled decides by the rule with the least
  id among those that apply to the type, fit the version of the daemon, have an id below that of
  the end marker and whose expression holds of the event; that rule gives the action and the
  rule id of the report, the verdict and the signal, and without such a rule the event passes
  unchanged.
\<close>

theorem configuration_is_enforced:
  assumes "load_rules v features ap cfg ro = Inr ro'" "wf_config ap cfg" "probe_enabled features ty"
    and "ty \<in> set (cr_applied_events (end_rule (v_zero v)))" and "matcher_inv ro' e s"
  shows "\<exists>d s'. run_state (generic_tail_call ro' pid ty) s = (if blocks (ev_action d) then DENY else ALLOW, s') \<and>
    (\<forall>r. decides v ty ro' e (config_rules cfg) r \<longrightarrow> d = e\<lparr>ev_action := cr_action r, ev_matched_rule_id := cr_id r\<rparr>) \<and>
    ((\<forall>r. \<not> decides v ty ro' e (config_rules cfg) r) \<longrightarrow> d = e) \<and>
    rb s' = (if ev_id d > 0 \<and> ev_action d \<noteq> EXCLUDE_EVENT then d # rb s else rb s) \<and>
    rb_reserved s' = rb_reserved s \<and>
    sent_signals s' = (if kills_process (ev_action d) then (pid, SIGKILL) # sent_signals s else sent_signals s)"
proof -
  obtain ex where "rules_ok ro' ty ex" using loaded_rules_ok [OF assms(1-4)] by blast
  then have enc: "rules_encode (event_rules ro' ty) ex" by (simp add: rules_ok_def)
  note decided = loaded_decides [OF assms(1-4) enc, of e]
  show ?thesis
    using generic_tail_call_result [OF assms(5) enc, of pid] decided by (intro exI [of _ "decision ro' ex ty e"]) blast
qed

theorem configuration_is_enforced_witness:
  "\<exists>ro' s'. load_rules sample_versions sample_features no_addresses sample_config (sample_ro BLOCK_EVENT) = Inr ro' \<and>
     run_state (generic_tail_call ro' 7 CHMOD) sample_state = (DENY, s') \<and>
     rb s' = [sample_event\<lparr>ev_action := BLOCK_KILL_PROCESS, ev_matched_rule_id := 5\<rparr>] \<and> sent_signals s' = [(7, SIGKILL)]"
proof -
  let ?r = "sample_config_rule 5 BLOCK_KILL_PROCESS [CHMOD, EXEC]"
  obtain ro' where l: "load_rules sample_versions sample_features no_addresses sample_config (sample_ro BLOCK_EVENT) = Inr ro'"
    using load_succeeds [OF sample_config_limits sample_config_wf] by blast
  have "decides sample_versions CHMOD ro' sample_event (config_rules sample_config) ?r" by (rule sample_matches [OF l])
  with configuration_is_enforced [OF l sample_config_wf sample_probe sample_loaded(2) [OF l], of 7] obtain d s' where
    run: "run_state (generic_tail_call ro' 7 CHMOD) sample_state = (if blocks (ev_action d) then DENY else ALLOW, s')"
    and d: "d = sample_event\<lparr>ev_action := cr_action ?r, ev_matched_rule_id := cr_id ?r\<rparr>"
    and out: "rb s' = (if ev_id d > 0 \<and> ev_action d \<noteq> EXCLUDE_EVENT then d # rb sample_state else rb sample_state)"
      "sent_signals s' = (if kills_process (ev_action d) then (7, SIGKILL) # sent_signals sample_state else sent_signals sample_state)"
    by metis
  have "d = sample_event\<lparr>ev_action := BLOCK_KILL_PROCESS, ev_matched_rule_id := 5\<rparr>" by (simp add: d sample_config_rule_def)
  with run out l show ?thesis by (simp add: blocks_def kills_process_def sample_state_def boot_state_def)
qed

section \<open>File operations\<close>

text \<open>
  C10. Changing a file's mode: for a monitored task whose process and parent are cached, and with
  helper calls that succeed, the hook
  builds the event with the file's recorded path, attributes and the requested mode, and the
  verdict, the report, the signals and the ring-buffer balance are those of the first rule that
  matches it. The strings of the event have any content the path builder records, and the rules
  may read any member of the event's union.
\<close>

theorem chmod_is_enforced:
  assumes "path_ok k target ns" "ok_name (d_name (dentries k (fst target)))"
    and "hook_ready k s" "monitored k s" "subjects_cached k s p pp" "rules_ok ro CHMOD ex"
  shows "\<exists>v s'. run_state (chmod_hook ro k target mode) s = (v, s') \<and>
    enforced ro k (decision ro ex CHMOD (built k s CHMOD
      (Data_chmod \<lparr>chmod_file = path_file k target ns, chmod_requested_mode = mode\<rparr>) p pp)) v s s'"
  by (rule chmod_enforced [OF assms])

theorem chmod_is_enforced_witness:
  "\<exists>e s'. run_state (chmod_hook (sample_ro BLOCK_KILL_PROCESS) sample_kernel (3, 1) 511) host_state = (DENY, s') \<and>
     rb s' = [e] \<and> ev_type e = CHMOD \<and> ev_matched_rule_id e = 11 \<and> sent_signals s' = [(7, SIGKILL)]"
  using chmod_is_enforced [where mode = 511, OF sample_path _ host_ready host_monitored host_cached sample_rules [of BLOCK_KILL_PROCESS]]
  by (auto simp: enforced_def blocks_def kills_process_def)

text \<open>
  C11. Removing a directory entry, under the same conditions: the event carries the path of the
  entry, built from the names of the directory and the entry, and the rules decide as for any event;
  they may read any member of its union.
\<close>

theorem unlink_is_enforced:
  assumes "entry_ok k dir ns d" "hook_ready k s" "monitored k s" "subjects_cached k s p pp"
    and "rules_ok ro UNLINK ex"
  shows "\<exists>v s'. run_state (unlink_hook ro k dir d) s = (v, s') \<and>
    enforced ro k (decision ro ex UNLINK (built k s UNLINK
      (Data_file_create \<lparr>fc_file = entry_file k ns d None\<rparr>) p pp)) v s s'"
  by (rule unlink_enforced [OF assms])

theorem unlink_is_enforced_witness:
  "\<exists>e s'. run_state (unlink_hook (sample_ro BLOCK_EVENT) sample_kernel (2, 1) 3) host_state = (DENY, s') \<and>
     rb s' = [e] \<and> ev_type e = UNLINK \<and> ev_matched_rule_id e = 11 \<and> sent_signals s' = []"
  using unlink_is_enforced [OF sample_entry host_ready host_monitored host_cached sample_rules [of BLOCK_EVENT]]
  by (auto simp: enforced_def blocks_def kills_process_def)

text \<open>
  C12. Renaming: the event carries the paths of both entries and the flags of the call.
\<close>

theorem rename_is_enforced:
  assumes "entry_ok k old_dir ns d" "entry_ok k new_dir ns' d'"
    and "hook_ready k s" "monitored k s" "subjects_cached k s p pp" "rules_ok ro RENAME ex"
  shows "\<exists>v s'. run_state (rename_hook ro k old_dir d new_dir d' flags) s = (v, s') \<and>
    enforced ro k (decision ro ex RENAME (built k s RENAME (Data_rename \<lparr>rn_flags = flags,
      rn_source_file = entry_file k ns d None, rn_destination_file = entry_file k ns' d' None\<rparr>) p pp)) v s s'"
  by (rule rename_enforced [OF assms])

theorem rename_is_enforced_witness:
  "\<exists>s'. run_state (rename_hook (sample_ro EXCLUDE_EVENT) sample_kernel (2, 1) 3 (2, 1) 3 0) host_state = (ALLOW, s') \<and>
     rb s' = [] \<and> sent_signals s' = []"
  using rename_is_enforced [where flags = 0, OF sample_entry sample_entry host_ready host_monitored host_cached sample_rules [of EXCLUDE_EVENT]]
  by (auto simp: enforced_def blocks_def kills_process_def)

text \<open>
  C13. Writing: the first write of a file that has no cached verdict is decided by the rules; the
  next write of the same file by the same process gets the same verdict from the cache, without
  a second event and without a second signal.
\<close>

theorem write_verdict_is_stable:
  assumes "hook_ready k s" "monitored k s" "perm AND (MAY_WRITE OR MAY_APPEND) \<noteq> 0" "file_kind_ok k fl"
    and "private_write_event_cache_lru_map s (calculate_event_hash k fl) = None"
      "global_write_event_cache_lru_map s (calculate_event_hash k fl) = None"
    and "path_ok k fl ns" "ok_name (d_name (dentries k (fst fl)))"
    and "subjects_cached k s p pp" "rules_ok ro WRITE ex"
  shows "\<exists>v s1 s2. run_state (write_hook ro k fl perm) s = (v, s1) \<and>
    enforced ro k (decision ro ex WRITE (built k s WRITE (Data_write (access_data k fl ns)) p pp)) v s s1 \<and>
    run_state (write_hook ro k fl perm) s1 = (v, s2) \<and> rb s2 = rb s1 \<and> sent_signals s2 = sent_signals s1"
  by (rule write_then_hit [OF assms])

theorem write_verdict_is_stable_witness:
  "\<exists>e s1 s2. run_state (write_hook (sample_ro BLOCK_EVENT) sample_kernel (3, 1) 2) host_state = (DENY, s1) \<and>
     rb s1 = [e] \<and> ev_type e = WRITE \<and>
     run_state (write_hook (sample_ro BLOCK_EVENT) sample_kernel (3, 1) 2) s1 = (DENY, s2) \<and> rb s2 = [e]"
  using write_verdict_is_stable [where perm = 2, OF host_ready host_monitored _ sample_kind _ _ sample_path _ host_cached
      sample_rules [of BLOCK_EVENT]]
  by (auto simp: enforced_def blocks_def)

text \<open>
  C14. A task that is not monitored is left alone: for a kernel thread, a task without an address
  space of its own, or a process of the program itself, none of the seven file hooks without a verdict
  cache (change of mode and owner, creation, directories, removal, rename) denies, reports or signals
  anything, whatever the rules say.
\<close>

theorem unmonitored_is_left_alone:
  assumes "\<not> monitored k s"
    and "hook \<in> {chmod_hook ro k p mode, chown_hook ro k p, fc_hook ro k p d mode, mkdir_hook ro k p d mode, rmdir_hook ro k p d,
      unlink_hook ro k p d, rename_hook ro k p d p' d' flags}"
  shows "\<exists>s'. run_state hook s = (ALLOW, s') \<and> rb s' = rb s \<and> sent_signals s' = sent_signals s"
  using assms(2)
  by (elim insertE emptyE)
    (simp_all add: chmod.hook_ignores chown.hook_ignores fc.hook_ignores mkdir.hook_ignores rmdir.hook_ignores
      unlink.hook_ignores rename.hook_ignores assms(1))

theorem unmonitored_is_left_alone_witness:
  "\<exists>s'. run_state (unlink_hook (sample_ro BLOCK_KILL_PROCESS) sample_kernel (2, 1) 3)
       (host_state\<lparr>program_related_pids := [7 \<mapsto> 1]\<rparr>) = (ALLOW, s') \<and> rb s' = [] \<and> sent_signals s' = []"
proof -
  have "\<not> monitored sample_kernel (host_state\<lparr>program_related_pids := [7 \<mapsto> 1]\<rparr>)"
    by (simp add: monitored_def)
  from unmonitored_is_left_alone [OF this, of "unlink_hook (sample_ro BLOCK_KILL_PROCESS) sample_kernel (2, 1) 3"
      "sample_ro BLOCK_KILL_PROCESS" "(2, 1)" 0 3]
  show ?thesis by simp
qed

text \<open>
  C15. A directory entry directly under the root directory escapes the rules: its directory has
  no named component, building the path of the entry fails, and creating, removing, making or
  removing it as a directory is allowed without an event.
\<close>

theorem root_entries_escape:
  assumes "path_names k MAX_PATH_COMPONENTS (fst dir) (snd dir) = Some []" "ok_names k"
    and "fill_ready s" "global_event_id_counter s \<noteq> 0"
    and "hook \<in> {fc_hook ro k dir d mode, unlink_hook ro k dir d, mkdir_hook ro k dir d mode, rmdir_hook ro k dir d}"
  shows "\<exists>s'. run_state hook s = (ALLOW, s') \<and> rb s' = rb s"
  using assms(5) root_entry_allowed [OF assms(1-4)] by (elim insertE emptyE) simp_all

theorem root_entries_escape_witness:
  "\<exists>s'. run_state (unlink_hook (sample_ro BLOCK_KILL_PROCESS) sample_kernel (1, 1) 2) host_state = (ALLOW, s') \<and> rb s' = []"
  using root_entries_escape [of sample_kernel "(1, 1)" host_state "unlink_hook (sample_ro BLOCK_KILL_PROCESS) sample_kernel (1, 1) 2"
      "sample_ro BLOCK_KILL_PROCESS" 2 0]
  by simp

section \<open>All programs together\<close>

text \<open>
  C16. No ring-buffer record leaks: along every sequence of runs of the programs, by any tasks,
  on any kernel states and arguments and with any outcomes of the helper calls, each record
  that is reserved is submitted or discarded by the run that reserved it.
\<close>

theorem no_reservation_leaks:
  assumes "trace ro s es s'"
  shows "rb_reserved s' = rb_reserved s"
  by (rule trace_balanced [OF assms])

theorem no_reservation_leaks_witness:
  "\<exists>s'. trace (sample_ro BLOCK_EVENT) host_state
      [(sample_kernel, Chmod (3, 1) 511), (sample_kernel, Write (3, 1) 2), (sample_kernel, Do_exit 0)] s' \<and> rb_reserved s' = 0"
proof -
  obtain s' where "trace (sample_ro BLOCK_EVENT) host_state
      ((([] @ [(sample_kernel, Chmod (3, 1) 511)]) @ [(sample_kernel, Write (3, 1) 2)]) @ [(sample_kernel, Do_exit 0)]) s'"
    by (meson trace.intros)
  with no_reservation_leaks [OF this] show ?thesis by auto
qed

text \<open>
  C17. The sets of protected and of ignored processes behave as the abstract machine says: every
  run of a program is one of its steps, so a process enters a set only when a member forks it
  and leaves it only when its leader exits.
\<close>

theorem pid_sets_refine: "pid_step e (pids s) (pids (step ro e s))"
  by (rule step_refines)

text \<open>
  C18. Protection lasts: whatever programs run, a protected process stays protected as long as it
  does not exit.
\<close>

theorem protection_lasts:
  assumes "trace ro s es s'" "q \<in> fst (pids s)"
    and "\<And>k code. (k, Do_exit code) \<in> set es \<Longrightarrow> current_pid k \<noteq> q"
  shows "q \<in> fst (pids s')"
  by (rule protected_until_exit [OF assms])

theorem protection_lasts_witness:
  "9 \<in> fst (pids (step (sample_ro BLOCK_EVENT) (sample_kernel, Do_exit 0) host_state))"
proof -
  have "trace (sample_ro BLOCK_EVENT) host_state ([] @ [(sample_kernel, Do_exit 0)])
      (step (sample_ro BLOCK_EVENT) (sample_kernel, Do_exit 0) host_state)"
    by (intro trace.intros)
  from protection_lasts [OF this, of 9] show ?thesis by (auto simp: pids_def)
qed

section \<open>Tampering\<close>

text \<open>
  C19. A signal that a user process outside the protected set sends to a protected process is
  answered with the configured action: the event names sender, parent, target and signal, and is
  denied, reported and punished by a kill exactly as that action says.
\<close>

theorem signals_are_guarded:
  assumes "fill_ready s" "global_event_id_counter s \<noteq> 0" "sent_by_user info" "1 < current_pid k"
    and "protected_processes s (t_tgid (tasks k p)) \<noteq> None" "protected_processes s (current_pid k) = None"
    and "alive_process_cache_map s (current_pid k) = Some sender" "alive_process_cache_map s (p_ppid sender) = Some parent"
      "alive_process_cache_map s (t_tgid (tasks k p)) = Some target"
  shows "\<exists>v s'. run_state (signal_hook ro k p info sig) s = (v, s') \<and>
    enforced ro k (tampering_event k s (anti_tampering_signals_action ro) SIGNAL
      (Data_signal \<lparr>sg_process = target, sg_signal = sig\<rparr>) sender parent) v s s'"
  by (rule sig.hook_guards [OF assms])

theorem signals_are_guarded_witness:
  "\<exists>e s'. run_state (signal_hook (sample_ro BLOCK_KILL_PROCESS) sample_kernel 9 (Siginfo 0) 9) host_state = (DENY, s') \<and>
     rb s' = [e] \<and> ev_type e = SIGNAL \<and> ev_process e = sample_process 7 \<and> sent_signals s' = [(7, SIGKILL)]"
  using signals_are_guarded [of host_state "Siginfo 0" sample_kernel 9 "sample_process 7" "sample_process 5" "sample_process 9"
      "sample_ro BLOCK_KILL_PROCESS" 9]
  by (auto simp: enforced_def tampering_event_def fresh_event_def sent_by_user_def sample_ro_def blocks_def kills_process_def)

text \<open>
  C20. Attaching a tracer to a protected process from outside the protected set is answered with
  the configured action.
\<close>

theorem tracing_is_guarded:
  assumes "fill_ready s" "global_event_id_counter s \<noteq> 0" "mode AND PTRACE_MODE_ATTACH \<noteq> 0" "1 < current_pid k"
    and "protected_processes s (t_tgid (tasks k child)) \<noteq> None" "protected_processes s (current_pid k) = None"
    and "alive_process_cache_map s (current_pid k) = Some tracer" "alive_process_cache_map s (p_ppid tracer) = Some parent"
      "alive_process_cache_map s (t_tgid (tasks k child)) = Some target"
  shows "\<exists>v s'. run_state (ptrace_hook ro k child mode) s = (v, s') \<and>
    enforced ro k (tampering_event k s (anti_tampering_ptrace_action ro) PTRACE
      (Data_ptrace \<lparr>pc_process = target, pc_mode = mode\<rparr>) tracer parent) v s s'"
  by (rule ptr.hook_guards [OF assms])

theorem tracing_is_guarded_witness:
  "\<exists>e s'. run_state (ptrace_hook (sample_ro BLOCK_EVENT) sample_kernel 9 2) host_state = (DENY, s') \<and>
     rb s' = [e] \<and> ev_type e = PTRACE \<and> sent_signals s' = []"
  using tracing_is_guarded [of host_state 2 sample_kernel 9 "sample_process 7" "sample_process 5" "sample_process 9"
      "sample_ro BLOCK_EVENT"]
  by (auto simp: enforced_def tampering_event_def fresh_event_def sample_ro_def blocks_def kills_process_def)

section \<open>Life of a process\<close>

text \<open>
  C21. A fork hands membership down: the child of a protected process becomes protected, the
  child of a process of the program becomes ignored, and no other process is added or removed.
\<close>

theorem fork_hands_membership_down:
  assumes "helpers_succeed s" "is_task_with_mm k" "\<not> is_system_task k" "kthread_exec_pids s (t_pid (running k)) = None"
    and "t_tgid (tasks k c) \<noteq> current_pid k"
  shows "pids (snd (run_state (fork_hook k c) s)) =
    (if current_pid k \<in> fst (pids s) then insert (t_tgid (tasks k c)) (fst (pids s)) else fst (pids s),
     if current_pid k \<in> snd (pids s) then insert (t_tgid (tasks k c)) (snd (pids s)) else snd (pids s))"
  by (auto simp: pids_def fork_sets [OF assms] domIff)

theorem fork_hands_membership_down_witness:
  "pids (snd (run_state (fork_hook sample_kernel 8) (host_state\<lparr>protected_processes := [7 \<mapsto> 1]\<rparr>))) = ({7, 8}, {})"
proof -
  have "is_task_with_mm sample_kernel" "\<not> is_system_task sample_kernel"
    using host_monitored by (simp_all add: monitored_def)
  moreover have "helpers_succeed (host_state\<lparr>protected_processes := [7 \<mapsto> 1]\<rparr>)"
    using host_fields by (simp add: helpers_succeed_def)
  ultimately show ?thesis
    using fork_hands_membership_down [of "host_state\<lparr>protected_processes := [7 \<mapsto> 1]\<rparr>" sample_kernel 8]
    by (auto simp: pids_def)
qed

text \<open>
  C22. An exec replaces the image of a process and keeps its ancestry: the cache entry of the
  process is renewed from the task, with the parent it had before, and the mark of the pending
  exec is gone.
\<close>

theorem exec_keeps_ancestry:
  assumes "fill_ready s" "global_event_id_counter s \<noteq> 0" "exec_pids s (current_pid k) \<noteq> None"
    and "alive_process_cache_map s (current_pid k) = Some old" "exe_file_of (running k) \<noteq> None"
  shows "\<exists>new s'. snd (run_state (exec_hook ro k) s) = s' \<and> alive_process_cache_map s' (current_pid k) = Some new \<and>
    p_pid new = current_pid k \<and> p_ppid new = p_ppid old \<and> p_unique_ppid_id new = p_unique_ppid_id old \<and>
    p_start_time new = t_start_time (running k) \<and> exec_pids s' (current_pid k) = None"
  by (rule exec_result [OF assms])

theorem exec_keeps_ancestry_witness:
  "\<exists>new s'. snd (run_state (exec_hook (sample_ro BLOCK_EVENT) sample_kernel) (host_state\<lparr>exec_pids := [7 \<mapsto> 1]\<rparr>)) = s' \<and>
     alive_process_cache_map s' 7 = Some new \<and> p_ppid new = 5 \<and> p_start_time new = 1000 \<and> exec_pids s' 7 = None"
proof -
  let ?s = "host_state\<lparr>exec_pids := [7 \<mapsto> 1]\<rparr>"
  have "fill_ready ?s" using host_fill_ready by (simp add: fill_ready_def helpers_succeed_def heap_ok_def buffers_ready_def)
  then show ?thesis
    using exec_keeps_ancestry [of ?s sample_kernel "sample_process 7" "sample_ro BLOCK_EVENT"]
    by (auto simp: exe_file_of_def sample_task_def)
qed

text \<open>
  C23. An exit buries the process: its entry moves from the cache of the living to the cache of
  the dead under its unique id, without the typed command, it loses protection, and one exit
  event with its exit code is reported.
\<close>

theorem exit_buries:
  assumes "fill_ready s" "global_event_id_counter s \<noteq> 0" "monitored k s" "t_pid (running k) = current_pid k"
    and "alive_process_cache_map s (current_pid k) = Some p"
  shows "\<exists>s'. run_state (exit_hook k code) s = (ALLOW, s') \<and>
    alive_process_cache_map s' (current_pid k) = None \<and>
    dead_process_cache_lru_map s' (p_unique_process_id p) = Some (without_shell_command p) \<and>
    protected_processes s' = (protected_processes s)(current_pid k := None) \<and>
    (\<exists>parent. rb s' = (fresh_event k s)\<lparr>ev_type := EXIT, ev_data := Data_exit (fill_exit_event_t code),
       ev_process := p, ev_parent_process := parent\<rparr> # rb s)"
  by (rule exit_result [OF assms])

theorem exit_buries_witness:
  "\<exists>e s'. run_state (exit_hook sample_kernel 256) host_state = (ALLOW, s') \<and> alive_process_cache_map s' 7 = None \<and>
     dead_process_cache_lru_map s' 7 = Some (without_shell_command (sample_process 7)) \<and> rb s' = [e] \<and> ev_type e = EXIT"
  using exit_buries [of host_state sample_kernel "sample_process 7" 256] by auto

text \<open>
  C24. A parent marked for killing is killed once: at its next system call the marked process gets
  one SIGKILL and the mark is gone, so that a second system call sends none.
\<close>

theorem marked_parent_dies_once:
  assumes "helpers_succeed s" "parent_processes_to_kill s (current_pid k) \<noteq> None"
  shows "sent_signals (snd (run_state (do { _ \<leftarrow> syscall_enter k; syscall_enter k }) s)) =
    (current_pid k, SIGKILL) # sent_signals s"
proof -
  obtain r s1 where s1: "run_state (syscall_enter k) s = (r, s1)" by fastforce
  have "keeps helper_outcome (syscall_enter k)" by (rule ho.kp_syscall)
  then have "helpers_succeed s1" using assms(1) s1 by (auto simp: helpers_succeed_def dest: keepsD)
  from syscall_enter_result(1) [OF this, of k] syscall_enter_result [OF assms(1), of k] assms(2) s1
  show ?thesis by simp
qed

theorem marked_parent_dies_once_witness:
  "sent_signals (snd (run_state (do { _ \<leftarrow> syscall_enter sample_kernel; syscall_enter sample_kernel })
     (host_state\<lparr>parent_processes_to_kill := [7 \<mapsto> 7]\<rparr>))) = [(7, SIGKILL)]"
proof -
  have "helpers_succeed (host_state\<lparr>parent_processes_to_kill := [7 \<mapsto> 7]\<rparr>)" using host_fields by (simp add: helpers_succeed_def)
  from marked_parent_dies_once [OF this, of sample_kernel] show ?thesis by simp
qed

text \<open>
  C25. Which parent is marked for killing: the parent recorded in the event is marked exactly when
  the cached process under its pid is the same process (equal unique ids) and was started after
  the programs were attached, so that a recycled pid or an old process is never killed.
\<close>

theorem only_the_real_parent_is_marked:
  assumes "helpers_succeed s" "heap_ok s"
  shows "parent_processes_to_kill (snd (run_state (kill_parent ro e) s)) =
    (case alive_process_cache_map s (p_ppid (ev_process e)) of
       Some p \<Rightarrow> if p_unique_process_id p = p_unique_ppid_id (ev_process e) \<and>
           is_process_created_after_ebpf_attached ro (p_start_time p)
         then (parent_processes_to_kill s)(p_ppid (ev_process e) \<mapsto> p_ppid (ev_process e)) else parent_processes_to_kill s
     | None \<Rightarrow> parent_processes_to_kill s)"
  by (rule kill_parent_result [OF assms])

theorem only_the_real_parent_is_marked_witness:
  "parent_processes_to_kill (snd (run_state (kill_parent (sample_ro KILL_PROCESS)
     (sample_event\<lparr>ev_process := sample_process 7\<rparr>)) host_state)) = Map.empty"
  using only_the_real_parent_is_marked [of host_state "sample_ro KILL_PROCESS" "sample_event\<lparr>ev_process := sample_process 7\<rparr>"]
  by simp



text \<open>
  C27. A parent without an executable, such as a kernel thread, poisons the cache: when the parent
  of the running process is in neither cache and has no executable file, filling it fails, and
  an empty process is stored under process id zero.
\<close>

theorem parent_without_executable_is_cached_as_zero:
  assumes "fill_ready s" "exe_file_of (tasks k (t_real_parent (running k))) = None"
    and "alive_process_cache_map s (p_ppid c) = None" "dead_process_cache_lru_map s (p_unique_ppid_id c) = None"
  shows "alive_process_cache_map (snd (run_state (get_or_update_parent_process_in_caches k c) s)) 0 = Some empty_process_t"
  by (rule parent_without_exe [OF assms])

theorem parent_without_executable_is_cached_as_zero_witness:
  "alive_process_cache_map (snd (run_state (get_or_update_parent_process_in_caches
      (sample_kernel\<lparr>tasks := (\<lambda>t. (sample_task (ucast t))\<lparr>t_exe_file := None\<rparr>)\<rparr>) (sample_process 7))
     (host_state\<lparr>alive_process_cache_map := Map.empty, dead_process_cache_lru_map := Map.empty\<rparr>))) 0 = Some empty_process_t"
proof -
  let ?s = "host_state\<lparr>alive_process_cache_map := Map.empty, dead_process_cache_lru_map := Map.empty\<rparr>"
  have "fill_ready ?s" using host_fill_ready by (simp add: fill_ready_def helpers_succeed_def heap_ok_def buffers_ready_def)
  then show ?thesis
    by (intro parent_without_executable_is_cached_as_zero) (simp_all add: exe_file_of_def sample_task_def sample_kernel_def)
qed

section \<open>Network connections\<close>

text \<open>
  C28. An incoming connection is decided once, when both of its halves are known, and the order of
  the accept and of the connection request does not matter: the first of the two hooks allows,
  the second decides on the same event, with the accepting process and the addresses, and the
  tracker of the socket is gone.
\<close>

theorem incoming_connection_is_decided:
  assumes "hook_ready ka s" "hook_ready kr s" "program_related_pids s (current_pid ka) = None"
      "program_related_pids s (current_pid kr) = None"
    and "sk_incoming_connections s sk = None" "sk_protocol (socks sk) = 6"
    and "alive_process_cache_map s (current_pid ka) = Some p" "alive_process_cache_map s (p_ppid p) = Some pp"
    and "fill_incomming_connection_network_event_t empty_network_event_t (socks sk) req = (SUCCESS, n)"
    and "wf_rules_db ro" "rules_encode (event_rules ro NETWORK) ex"
    and hooks: "(hooks, k) \<in> {(do { _ \<leftarrow> accept_hook ro ka socks (Some sk); inet_conn_request_hook ro kr socks sk req }, kr),
       (do { _ \<leftarrow> inet_conn_request_hook ro kr socks sk req; accept_hook ro ka socks (Some sk) }, ka)}"
    and wf: "wf_event_strings ro (stamped k s (incoming_event p pp n))"
  shows "\<exists>v s'. run_state hooks s = (v, s') \<and>
    enforced ro k (decision ro ex NETWORK (stamped k s (incoming_event p pp n))) v s s' \<and> sk_incoming_connections s' sk = None"
  using hooks wf accept_then_request [where socks = socks and sk = sk, OF assms(1-11)]
    request_then_accept [where socks = socks and sk = sk, OF assms(1-11)]
  by (elim insertE emptyE) simp_all

theorem incoming_connection_is_decided_witness:
  "\<exists>e s'. run_state (do { _ \<leftarrow> inet_conn_request_hook (sample_ro BLOCK_EVENT) sample_kernel sample_socks 4 sample_peer;
       accept_hook (sample_ro BLOCK_EVENT) sample_kernel sample_socks (Some 4) }) host_state = (DENY, s') \<and>
     rb s' = [e] \<and> ev_type e = NETWORK \<and> ev_process e = sample_process 7 \<and> ev_data e = Data_network sample_incoming"
  using incoming_connection_is_decided [where socks = sample_socks, OF host_ready host_ready _ _ _ sample_tcp [of 4] _ _
      sample_incoming_fill [of 4] sample_db [of BLOCK_EVENT] _ insertI2 [OF insertI1] sample_connection_strings(1), of "\<lambda>_. sample_expr"]
    sample_rules [of BLOCK_EVENT NETWORK]
  by (auto simp: enforced_def blocks_def stamped_def incoming_event_def add_network_def add_processes_def rules_ok_def)

text \<open>
  C29. An outgoing connection is decided at the request: a blocking rule denies it, reports the
  event under a new number and forgets the connection; otherwise the connection goes on, nothing
  is reported yet and the event waits in the storage of the socket.
\<close>

theorem connect_is_decided:
  assumes "hook_ready k s" "program_related_pids s (current_pid k) = None"
    and "sk_outgoing_connections s sk = None" "sk_protocol (socks sk) = 6"
    and "alive_process_cache_map s (current_pid k) = Some p" "alive_process_cache_map s (p_ppid p) = Some pp"
    and "fill_outgoing_connection_network_event_t_first_part empty_network_event_t (socks sk) address = (SUCCESS, n)"
    and "wf_rules_db ro" "rules_encode (event_rules ro NETWORK) ex" "wf_event_strings ro (dated k (outgoing_event p pp n))"
    and d: "d = decision ro ex NETWORK (dated k (outgoing_event p pp n))"
  shows "\<exists>s'. run_state (connect_hook ro k socks (Some sk) address) s = (if blocks (ev_action d) then DENY else ALLOW, s') \<and>
    (if blocks (ev_action d) then rb s' = d\<lparr>ev_id := global_event_id_counter s\<rparr> # rb s \<and> sk_outgoing_connections s' sk = None
     else rb s' = rb s \<and> sk_outgoing_connections s' sk = Some (outgoing_event p pp n))"
  using connect_result [where socks = socks and sk = sk, OF assms(1-10)] unfolding d by (auto split: if_splits)

theorem connect_is_decided_witness:
  "\<exists>e s'. run_state (connect_hook (sample_ro BLOCK_EVENT) sample_kernel sample_socks (Some 4) sample_address) host_state = (DENY, s') \<and>
     rb s' = [e] \<and> ev_id e = 1 \<and> ev_matched_rule_id e = 11 \<and> ev_data e = Data_network sample_outgoing"
  using connect_is_decided [where socks = sample_socks, OF host_ready _ _ sample_tcp [of 4] _ _ sample_outgoing_fill [of 4] sample_db [of BLOCK_EVENT]
      _ sample_connection_strings(2) refl, of "\<lambda>_. sample_expr"] sample_rules [of BLOCK_EVENT NETWORK]
  by (auto simp: blocks_def dated_def outgoing_event_def add_network_def add_processes_def rules_ok_def)

text \<open>
  C30. An excluded outgoing connection is reported all the same: when the first matching rule says
  to exclude the event, the request is allowed, and the establishment of the connection reports
  the stored event, which carries neither the action nor the rule.
\<close>

theorem excluded_connection_is_reported:
  assumes "hook_ready k s" "program_related_pids s (current_pid k) = None"
    and "sk_outgoing_connections s sk = None" "sk_protocol (socks sk) = 6"
    and "alive_process_cache_map s (current_pid k) = Some p" "alive_process_cache_map s (p_ppid p) = Some pp"
    and "fill_outgoing_connection_network_event_t_first_part empty_network_event_t (socks sk) address = (SUCCESS, n)"
    and "wf_rules_db ro" "rules_encode (event_rules ro NETWORK) ex" "wf_event_strings ro (dated k (outgoing_event p pp n))"
    and "ev_action (decision ro ex NETWORK (dated k (outgoing_event p pp n))) = EXCLUDE_EVENT"
    and "fill_outgoing_connection_network_event_t_second_part n (socks sk) = (SUCCESS, n')"
  shows "\<exists>s'. run_state (do { _ \<leftarrow> connect_hook ro k socks (Some sk) address; inet_conn_established k' socks sk }) s = (ALLOW, s') \<and>
    rb s' = (outgoing_event p pp n)\<lparr>ev_id := global_event_id_counter s, ev_time := ktime_ns k', ev_data := Data_network n'\<rparr> # rb s"
proof -
  let ?e = "outgoing_event p pp n"
  obtain s1 where s1: "run_state (connect_hook ro k socks (Some sk) address) s = (ALLOW, s1)" "rb s1 = rb s"
    "sk_outgoing_connections s1 sk = Some ?e" "helpers_succeed s1" "global_event_id_counter s1 = global_event_id_counter s"
    using connect_result [where socks = socks and sk = sk, OF assms(1-10)] assms(11) by (auto simp: blocks_def)
  have e: "ev_action ?e \<noteq> EXCLUDE_EVENT" "network_member ?e = n"
    by (simp_all add: outgoing_event_def add_processes_def add_network_def empty_event_t_def network_member_def)
  from established_result [OF s1(4,3) e(1), of socks n' k'] assms(12) s1(1,2,5) show ?thesis by (auto simp: e(2))
qed

theorem excluded_connection_is_reported_witness:
  "\<exists>e s'. run_state (do { _ \<leftarrow> connect_hook (sample_ro EXCLUDE_EVENT) sample_kernel sample_socks (Some 4) sample_address;
       inet_conn_established sample_kernel sample_socks 4 }) host_state = (ALLOW, s') \<and> rb s' = [e] \<and> ev_matched_rule_id e = 0"
  using excluded_connection_is_reported [where socks = sample_socks, OF host_ready _ _ sample_tcp [of 4] _ _ sample_outgoing_fill [of 4]
      sample_db [of EXCLUDE_EVENT] _ sample_connection_strings(2) _ sample_established_fill, of "\<lambda>_. sample_expr" sample_kernel]
    sample_rules [of EXCLUDE_EVENT NETWORK]
  by (auto simp: dated_def outgoing_event_def add_network_def add_processes_def rules_ok_def empty_event_t_def)


section \<open>What events carry\<close>

text \<open>
  C31. The path of a file is its names from the root: the walk over dentries and mounts, which
  builds the text backwards in a scratch buffer, stores the names of the ancestors, each behind
  a slash, with the terminator, and returns the length of the text.
\<close>

theorem path_is_the_names:
  assumes "path_ok k p ns" "fill_ready s"
  shows "fst (run_state (get_path_from_path k out p) s) = (int (length (full_path ns)),
    \<lparr>pt_length = word_of_nat (length (full_path ns)),
     pt_value = full_path ns @ [0] @ drop (length (full_path ns) + 1) (pt_value out)\<rparr>)"
  by (rule path_text [OF assms])

theorem path_is_the_names_witness:
  "fst (fst (run_state (get_path_from_path sample_kernel (f_path empty_file_t) (3, 1)) host_state)) = 11 \<and>
   take 12 (pt_value (snd (fst (run_state (get_path_from_path sample_kernel (f_path empty_file_t) (3, 1)) host_state)))) =
     [47, 101, 116, 99, 47, 112, 97, 115, 115, 119, 100, 0]"
  using path_is_the_names [OF sample_path host_fill_ready, of "f_path empty_file_t"]
  by (simp add: full_path_def) (simp add: etc_name_def passwd_name_def)

text \<open>
  C32. A deep path loses its front: the walk makes twenty rounds, so that a file with more
  ancestors is reported under the names of the last ones only, as if they started at the root.
\<close>

theorem deep_path_loses_its_front:
  assumes "path_ok k p ns" "path_names k (MAX_PATH_COMPONENTS + j) (fst p) (snd p) = Some all_names"
    and "length ns < length all_names" "fill_ready s"
  shows "\<exists>front. front \<noteq> [] \<and> full_path all_names = front @ full_path ns \<and>
    take (length (full_path ns)) (pt_value (snd (fst (run_state (get_path_from_path k out p) s)))) = full_path ns"
proof -
  have "prefix ns all_names" using assms(1,2) by (auto simp: path_ok_def intro: path_names_more)
  then obtain more where more: "all_names = ns @ more" by (auto simp: prefix_def)
  with assms(3) have "more \<noteq> []" by auto
  then have "full_path more \<noteq> []" by (cases more) (simp_all add: full_path_def)
  moreover have "full_path all_names = full_path more @ full_path ns" by (simp add: more full_path_def)
  ultimately show ?thesis using path_text [OF assms(1,4), of out] by auto
qed

theorem deep_path_loses_its_front_witness:
  "\<exists>front. front \<noteq> [] \<and> full_path (replicate 24 [97]) = front @ full_path (replicate 20 [97]) \<and>
    take 40 (pt_value (snd (fst (run_state (get_path_from_path deep_kernel (f_path empty_file_t) (25, 1)) host_state)))) =
      full_path (replicate 20 [97])"
  using deep_path_loses_its_front [of deep_kernel "(25, 1)" "replicate 20 [97]" 10 "replicate 24 [97]" host_state "f_path empty_file_t"]
  by (simp add: length_full_path_replicate)

text \<open>
  C33. The command line of a task is its argument area, cut to the buffer, with the null bytes
  between the arguments as spaces and a terminator behind it.
\<close>

theorem command_line_is_the_arguments:
  assumes "helpers_succeed s" "t_pid t > 2" "t_arg_end t > t_arg_start t" "length (c_value out) = CMD_MAX"
  shows "\<exists>cmd. fst (run_state (get_cmd_from_task t out) s) = (SUCCESS, cmd) \<and>
    take (arg_size t) (c_value cmd) = arg_bytes t (arg_size t) \<and> c_value cmd ! arg_size t = 0 \<and>
    unat (c_length cmd) = arg_size t - 1 \<and> length (c_value cmd) = CMD_MAX"
  by (rule get_cmd_result [OF assms])

theorem command_line_is_the_arguments_witness:
  "\<exists>cmd. fst (run_state (get_cmd_from_task (sample_task 7) empty_command_line_t) host_state) = (SUCCESS, cmd) \<and>
     take 4 (c_value cmd) = [97, 97, 97, 97] \<and> c_value cmd ! 4 = 0 \<and> unat (c_length cmd) = 3"
proof -
  have "arg_size (sample_task 7) = 4" "arg_bytes (sample_task 7) 4 = [97, 97, 97, 97]"
    by (simp_all add: arg_size_def arg_bytes_def sample_task_def upt_rec)
  then show ?thesis
    using command_line_is_the_arguments [of host_state "sample_task 7" empty_command_line_t]
    by (auto simp: sample_task_def empty_command_line_t_def)
qed

text \<open>
  Unique process ids tell processes apart by pid and by start time in units of \<open>2\<^sup>3\<^sup>2\<close>
  nanoseconds: two ids are equal exactly when both agree.
\<close>

theorem unique_ids_agree:
  "build_process_unique_id p t = build_process_unique_id p' t' \<longleftrightarrow> p = p' \<and> drop_bit 32 t = drop_bit 32 t'"
  by (rule unique_id_bits)

text \<open>
  A verdict that is put into the write cache is what the next lookup of the same hash
  returns.
\<close>

theorem cached_verdict_is_returned:
  assumes "helpers_succeed s" "v = ALLOW \<or> v = DENY"
  shows "as_verdict (fst (run_state (get_write_event_verdict_from_cache key)
    (snd (run_state (update_write_event_verdict_to_cache key v) s)))) = v"
  unfolding get_write_event_verdict_from_cache_def update_write_event_verdict_to_cache_def by (rule wc.verdict_roundtrip [OF assms])

theorem cached_verdict_is_returned_witness:
  "as_verdict (fst (run_state (get_write_event_verdict_from_cache 99)
    (snd (run_state (update_write_event_verdict_to_cache 99 DENY) host_state)))) = DENY"
  using cached_verdict_is_returned [of host_state DENY 99] by simp

text \<open>
  C34. At most thirty-two tail calls succeed in one event: after the counter is reset, of any
  number of attempts below \<open>2\<^sup>3\<^sup>1\<close> only the first thirty-two can go through.
\<close>

theorem tail_calls_are_bounded:
  assumes "tail_call_counter s 0 = Some 0" "run_state (calls n) s = (bs, s')" "n < 2 ^ 31"
  shows "int (card {j. j < n \<and> bs ! j}) \<le> MAX_TAIL_CALL_CNT"
proof -
  have "{j. j < n \<and> bs ! j} \<subseteq> {..<32}" using calls_bounded_aux [of s 0 n bs s'] assms by auto
  from card_mono [OF _ this] show ?thesis by simp
qed

theorem tail_calls_are_bounded_witness:
  "\<exists>bs s'. run_state (calls 100) host_state = (bs, s') \<and> int (card {j. j < 100 \<and> bs ! j}) \<le> MAX_TAIL_CALL_CNT"
proof -
  obtain bs s' where "run_state (calls 100) host_state = (bs, s')" by fastforce
  with tail_calls_are_bounded [OF _ this] show ?thesis by simp
qed

text \<open>
  Scratch processes do not alias: among eight consecutive allocations, no slot is handed out
  twice.
\<close>

theorem scratch_slots_are_distinct:
  assumes "heap_process_t_map_counter s 0 = Some i" "run_state (alloc_many allocate_process_t n) s = (xs, s')"
    and "j < l" "l < n" "l < j + 8" "xs ! j = Some a" "xs ! l = Some b"
  shows "a \<noteq> b"
  by (rule pa.alloc_many_distinct [OF assms])

theorem scratch_slots_are_distinct_witness:
  "\<exists>s'. run_state (alloc_many allocate_process_t 2) host_state = ([Some 0, Some 1], s') \<and> (0 :: u32) \<noteq> 1"
proof -
  obtain s' where s': "run_state (alloc_many allocate_process_t 2) host_state = ([Some 0, Some 1], s')"
    using sample_slots by blast
  moreover have "heap_process_t_map_counter host_state 0 = Some 0" by (simp add: host_state_def boot_state_def)
  ultimately show ?thesis using scratch_slots_are_distinct [OF _ s', of 0 0 1 0 1] by simp
qed

section \<open>Typed commands\<close>

text \<open>
  C35. The command line of dash is told: for a parse tree of at most sixteen simple commands (no
  assignments, no redirections, at most seventeen words, each within the buffer) joined by the list
  operators, where no command before a semicolon ends in an ampersand and the text fits the
  buffer, the walk with its explicit stack, the appending of words and separators and the
  translation of the parser's control bytes store the words of the commands, from left to right, with
  the operators between them. (After an ampersand the code drops the semicolon:
  \<open>semicolon_after_ampersand_is_lost\<close>.)
\<close>

theorem dash_command_is_told:
  assumes "fill_ready s" "program_related_pids s (current_pid k) = None" "active_shell_pids s (current_pid k) \<noteq> None"
    and "walk_state s 0 = Some ws" "length (ws_node_addrs ws) = 16" "length (ws_separators ws) = 16"
      "length (cs_arr (ws_cmd ws)) = CMD_MAX" "print_scratch s 0 \<noteq> None" "tail_call_counter s 0 \<noteq> None"
    and "alive_process_cache_map s (current_pid k) = Some p" "p_pid p = current_pid k"
    and "represents mem t root" "leaves t \<le> 16"
      "\<And>e. e \<in> set (in_order (-1) t) \<Longrightarrow> simple_command mem (fst e) (wordsf (fst e))"
      "no_ampersand_before_semicolon wordsf (in_order (-1) t)"
    and "render add_separator wordsf t \<noteq> []" "length (render add_separator wordsf t) \<le> 255"
  shows "\<exists>p' s'. run_state (exitList k mem root) s = (0, s') \<and>
    alive_process_cache_map s' = (alive_process_cache_map s)(current_pid k \<mapsto> p') \<and>
    command_text (p_shell_command p') = clean (render add_separator wordsf t) \<and> p'\<lparr>p_shell_command := p_shell_command p\<rparr> = p"
proof -
  have "render appended_separator wordsf t = render add_separator wordsf t" using told_render [OF assms(15,14)] .
  with exitList_result [OF assms(1-14)] assms(16,17) show ?thesis by simp
qed

theorem dash_command_is_told_witness:
  "\<exists>p' s'. run_state (exitList sample_kernel sample_mem 1) (host_state\<lparr>active_shell_pids := [7 \<mapsto> 1]\<rparr>) = (0, s') \<and>
     alive_process_cache_map s' 7 = Some p' \<and>
     command_text (p_shell_command p') = [105, 100, 59, 32, 108, 115, 32, 120]"
proof -
  let ?s = "host_state\<lparr>active_shell_pids := [7 \<mapsto> 1]\<rparr>"
  have "fill_ready ?s" using host_fill_ready by (simp add: fill_ready_def helpers_succeed_def heap_ok_def buffers_ready_def)
  moreover have "simple_command sample_mem (fst e) (sample_words (fst e))" if "e \<in> set (in_order (-1) sample_tree)" for e
    using that by auto
  moreover have "no_ampersand_before_semicolon sample_words (in_order (-1) sample_tree)"
    by (simp add: sample_words_def ends_in_ampersand_def)
  ultimately show ?thesis
    using dash_command_is_told [of ?s sample_kernel _ "sample_process 7" sample_mem sample_tree 1 sample_words]
    by (force simp: host_state_def boot_state_def)
qed

text \<open>
  C36. The walk over the tree ends and misses nothing: with at most sixteen leaves the fixed stack
  of sixteen entries never overflows, and thirty-two rounds visit every leaf once, from left to
  right, each with the operator in front of it.
\<close>

theorem dash_walk_is_complete:
  assumes "represents mem t root" "leaves t \<le> MAX_CHAIN_CMDS" "length addrs = MAX_CHAIN_CMDS" "length seps = MAX_CHAIN_CMDS"
  shows "\<exists>st'. dfs_run mem (MAX_CHAIN_CMDS * 2) (addrs[0 := root], seps[0 := sep], 1) x =
    (st', fold (dfs_visit mem) (in_order sep t) x) \<and> snd (snd st') = 0"
  by (rule dfs.walk_tree [OF assms])

theorem dash_walk_is_complete_witness:
  "\<forall>x. \<exists>st'. dfs_run sample_mem (MAX_CHAIN_CMDS * 2) ((replicate 16 0)[0 := 1], (replicate 16 0)[0 := -1], 1) x =
     (st', dfs_visit sample_mem (3, DASH_NSEMI) (dfs_visit sample_mem (2, -1) x)) \<and> snd (snd st') = 0"
  using dash_walk_is_complete [of sample_mem sample_tree 1 "replicate 16 0" "replicate 16 0" "-1"] by simp

text \<open>
  C37. The line typed into bash is stored with the shell: the command of the cached process becomes
  the line without its newline, cut to the buffer, and nothing else of the process changes.
\<close>

theorem bash_line_is_stored:
  assumes "fill_ready s" "program_related_pids s (current_pid k) = None"
    and "alive_process_cache_map s (current_pid k) = Some p" "p_pid p = current_pid k" "wf_process p"
  shows "\<exists>p' s'. run_state (exit_readline k (Some line)) s = (0, s') \<and>
    alive_process_cache_map s' = (alive_process_cache_map s)(current_pid k \<mapsto> p') \<and>
    command_text (p_shell_command p') = typed line \<and> p'\<lparr>p_shell_command := p_shell_command p\<rparr> = p \<and> wf_process p'"
  by (rule bash.probe_stores [OF assms])

theorem bash_line_is_stored_witness:
  "\<exists>p' s'. run_state (exit_readline sample_kernel (Some [108, 115, 10, 0])) host_state = (0, s') \<and>
     alive_process_cache_map s' 7 = Some p' \<and> command_text (p_shell_command p') = [108, 115]"
  using bash_line_is_stored [of host_state sample_kernel "sample_process 7" "[108, 115, 10, 0]"]
  by (auto simp: typed_def c_string_def)

text \<open>
  A prompt of zsh clears the command: the entry of the line editor and the entry of the event
  parser, in either order, forget the previous command once both have happened, and start over.
\<close>

theorem zsh_prompt_clears:
  assumes "helpers_succeed s" "program_related_pids s (current_pid k) = None" "active_shell_pids s (current_pid k) = None"
    and "alive_process_cache_map s (current_pid k) = Some p"
    and "(first, second) = (enter_zleentry k, enter_parse_event k) \<or> (first, second) = (enter_parse_event k, enter_zleentry k)"
  shows "\<exists>s1 s2. run_state first s = (0, s1) \<and> alive_process_cache_map s1 = alive_process_cache_map s \<and>
    run_state second s1 = (0, s2) \<and> active_shell_pids s2 (current_pid k) = None \<and>
    alive_process_cache_map s2 = (alive_process_cache_map s)(current_pid k \<mapsto> without_shell_command p)"
  by (rule zsh_prompt [OF assms])

theorem zsh_prompt_clears_witness:
  "\<exists>s1 s2. run_state (enter_parse_event sample_kernel) host_state = (0, s1) \<and>
     run_state (enter_zleentry sample_kernel) s1 = (0, s2) \<and> active_shell_pids s2 7 = None \<and>
     alive_process_cache_map s2 7 = Some (without_shell_command (sample_process 7))"
  using zsh_prompt_clears [of host_state sample_kernel "sample_process 7" "enter_parse_event sample_kernel" "enter_zleentry sample_kernel"]
  by auto

section \<open>Delivery\<close>

text \<open>
  C38. A report names the rule behind it: when a rule of the loaded configuration decides an event,
  the event that is sent becomes a message with the action, the id and the metadata of that
  rule, and is otherwise the converted event.
\<close>

theorem report_carries_the_rule:
  assumes "load_rules v features ap cfg ro = Inr ro'" "wf_config ap cfg" "probe_enabled features ty"
    and "ty \<in> set (cr_applied_events (end_rule (v_zero v)))" and "matcher_inv ro' e s"
    and "decides v ty ro' e (config_rules cfg) r" "0 < ev_id e" "cr_action r \<noteq> EXCLUDE_EVENT"
    and "0 < cr_id r" "length (config_rules cfg) < 4294967294"
  shows "\<exists>d verdict s'. run_state (generic_tail_call ro' pid ty) s = (verdict, s') \<and> rb s' = d # rb s \<and>
    enrich_event (track_metadata (add_end_rules (v_zero v) (config_rules cfg))) (Event_of ro' d) =
      (Event_of ro' e)\<lparr>ue_action := cr_action r, ue_matched_rule_id := cr_id r, ue_matched_rule_metadata := cr_metadata r,
        ue_is_enriched := True\<rparr>"
proof -
  obtain ex where "rules_ok ro' ty ex" using loaded_rules_ok [OF assms(1-4)] by blast
  then have enc: "rules_encode (event_rules ro' ty) ex" by (simp add: rules_ok_def)
  let ?d = "e\<lparr>ev_action := cr_action r, ev_matched_rule_id := cr_id r\<rparr>"
  have d: "decision ro' ex ty e = ?d" by (rule loaded_decides(1) [OF assms(1-4) enc assms(6)])
  have "r \<in> set (config_rules cfg)" using assms(6) by (simp add: decides_def)
  then have "enrich_event (track_metadata (add_end_rules (v_zero v) (config_rules cfg))) (Event_of ro' ?d) =
    (Event_of ro' ?d)\<lparr>ue_matched_rule_metadata := cr_metadata r, ue_is_enriched := True\<rparr>"
    by (intro report_names_rule [OF assms(2) _ assms(9,10)]) simp_all
  also have "\<dots> = (Event_of ro' e)\<lparr>ue_action := cr_action r, ue_matched_rule_id := cr_id r, ue_matched_rule_metadata := cr_metadata r,
      ue_is_enriched := True\<rparr>"
    by (simp add: Event_of_decided)
  finally show ?thesis
    using generic_tail_call_result [OF assms(5) enc, of pid] assms(7,8) unfolding d by (intro exI [of _ ?d]) auto
qed

theorem report_carries_the_rule_witness:
  "\<exists>ro' d verdict s'. load_rules sample_versions sample_features no_addresses sample_config (sample_ro BLOCK_EVENT) = Inr ro' \<and>
     run_state (generic_tail_call ro' 7 CHMOD) sample_state = (verdict, s') \<and> rb s' = [d] \<and>
     ue_matched_rule_id (enrich_event (track_metadata (add_end_rules 0 (config_rules sample_config))) (Event_of ro' d)) = 5"
proof -
  obtain ro' where l: "load_rules sample_versions sample_features no_addresses sample_config (sample_ro BLOCK_EVENT) = Inr ro'"
    using load_succeeds [OF sample_config_limits sample_config_wf] by blast
  have "length (config_rules sample_config) < 4294967294" by (simp add: sample_config_def)
  with report_carries_the_rule [OF l sample_config_wf sample_probe sample_loaded(2) [OF l] sample_matches [OF l], of 7] l
  show ?thesis by (fastforce simp: sample_config_rule_def sample_state_def boot_state_def)
qed

text \<open>
  C39. Messages are delivered in order, none twice: whatever the interleaving of the polling
  thread, the consumer thread and the stop request, the events put into the queue are, in this
  order, those of the batches already handed to the serialiser, those the consumer holds and those
  in the queue, neither queue is longer than the configured limit, and every message handed over
  is enriched.
\<close>

theorem messages_stay_in_order:
  assumes "(handler_step raw_size limit (enrich_event tracker \<circ> Event_of ro))\<^sup>*\<^sup>* start h"
  shows "map (enrich_event tracker \<circ> Event_of ro) (accepted h) =
      concat (batches h) @ map (enrich_event tracker \<circ> Event_of ro) (m_thread_queue h @ m_main_queue h) \<and>
    length (m_main_queue h) \<le> limit \<and> length (m_thread_queue h) \<le> limit \<and>
    (\<forall>m \<in> set (concat (batches h)). ue_is_enriched m)"
  using delivery_in_order [OF assms] events.delivered_enriched [OF assms] by (simp add: queue_order_def)

theorem messages_stay_in_order_witness:
  "\<exists>h. (handler_step 8 2 sample_message)\<^sup>*\<^sup>* start h \<and> concat (batches h) = [sample_message sample_event] \<and>
     ue_is_enriched (sample_message sample_event)"
proof -
  obtain h where h: "(handler_step 8 2 sample_message)\<^sup>*\<^sup>* start h" "batches h = [[sample_message sample_event]]"
    using event_is_delivered [of 2 8 sample_message sample_event] by auto
  from messages_stay_in_order [OF h(1) [unfolded sample_message_def]] h show ?thesis by auto
qed

text \<open>
  C40. A stop loses nothing that came before it: when the handler is stopped at a moment when no
  callback of the polling thread is out, then after any further steps of the threads five
  steps of the consumer bring it to its end, and the messages handed to the serialiser are all the
  events that were put into the queue before the stop, in order. (A callback that is out at the
  stop may queue its event after the last swap: \<open>late_event_is_lost\<close>.)
\<close>

theorem shutdown_delivers_everything:
  assumes "(handler_step raw_size limit message)\<^sup>*\<^sup>* start h0" "m_running h0" "polling h0 = None"
    and "(handler_step raw_size limit message)\<^sup>*\<^sup>* (destroy h0) h"
  shows "consumer ((consumer_step message ^^ 5) h) = Returned \<and>
    concat (batches ((consumer_step message ^^ 5) h)) = map message (accepted h0)"
  using shutdown_delivers [OF assms] by blast

theorem shutdown_delivers_everything_witness:
  "\<exists>h0. m_running h0 \<and> accepted h0 = [sample_event] \<and> m_main_queue h0 = [sample_event] \<and>
     consumer ((consumer_step sample_message ^^ 5) (consumer_step sample_message (destroy h0))) = Returned \<and>
     concat (batches ((consumer_step sample_message ^^ 5) (consumer_step sample_message (destroy h0)))) = [sample_message sample_event]"
proof -
  obtain h0 where h0: "(handler_step 8 2 sample_message)\<^sup>*\<^sup>* start h0" "accepted h0 = [sample_event]" "m_main_queue h0 = [sample_event]"
    "polling h0 = None" "m_running h0"
    using event_is_queued [of 2 8 sample_message sample_event] by auto
  have "(handler_step 8 2 sample_message)\<^sup>*\<^sup>* (destroy h0) (consumer_step sample_message (destroy h0))"
    by (rule reached_step [OF rtranclp.rtrancl_refl consumes])
  from shutdown_delivers_everything [OF h0(1,5,4) this] h0 show ?thesis by (intro exI [of _ h0]) simp
qed

end
